(* ===== verification/Prelude.thy ===== *)
theory Prelude
  imports Main "HOL-Library.Multiset" "HOL-Library.AList" "HOL-Library.Char_ord"
    "HOL-Library.List_Lexorder"
begin

text \<open>
  Shared vocabulary of the development: Go maps as association lists with their lookup laws,
  the stable slice sort of Go's \<open>sort\<close> package with the comparator contracts its callers rely
  on, and the contract of a deterministic event fold.
\<close>

section \<open>Collections of facts\<close>

named_theorems gomap_simps "lookup laws of Go maps"
named_theorems step_defs "unfoldings of the event handlers"

section \<open>Go maps\<close>

text \<open>
  A Go map is an association list with distinct keys. A lookup is \<^const>\<open>map_of\<close>, an
  assignment is \<^const>\<open>AList.update\<close> (it overwrites in place or appends) and \<open>delete\<close> is
  \<^const>\<open>AList.delete\<close>. Where the code ranges over a map the model uses the list order; the
  code's result does not depend on it wherever a property states so.
\<close>

type_synonym ('k, 'v) gomap = "('k \<times> 'v) list"

abbreviation mget :: "('k, 'v) gomap \<Rightarrow> 'k \<Rightarrow> 'v option" where
  "mget \<equiv> map_of"

abbreviation mput :: "'k \<Rightarrow> 'v \<Rightarrow> ('k, 'v) gomap \<Rightarrow> ('k, 'v) gomap" where
  "mput \<equiv> AList.update"

abbreviation mdel :: "'k \<Rightarrow> ('k, 'v) gomap \<Rightarrow> ('k, 'v) gomap" where
  "mdel \<equiv> AList.delete"

definition mhas :: "('k, 'v) gomap \<Rightarrow> 'k \<Rightarrow> bool" where
  "mhas m k \<longleftrightarrow> mget m k \<noteq> None"

definition mkeys :: "('k, 'v) gomap \<Rightarrow> 'k list" where
  "mkeys m = map fst m"

lemma mget_mput [gomap_simps, simp]: "mget (mput k v m) = (mget m)(k \<mapsto> v)"
  by (rule update_conv')

lemma mget_mdel [gomap_simps, simp]: "mget (mdel k m) = (mget m)(k := None)"
  by (rule delete_conv')

lemma distinct_mkeys_mput [intro]: "distinct (mkeys m) \<Longrightarrow> distinct (mkeys (mput k v m))"
  by (simp add: mkeys_def distinct_update)

lemma distinct_mkeys_mdel [intro]: "distinct (mkeys m) \<Longrightarrow> distinct (mkeys (mdel k m))"
  by (simp add: mkeys_def distinct_delete)

lemma mhas_iff: "mhas m k \<longleftrightarrow> k \<in> set (mkeys m)"
  by (induction m) (auto simp: mhas_def mkeys_def)

lemma mget_some_key: "mget m k = Some v \<Longrightarrow> k \<in> set (mkeys m)"
  by (metis mhas_def mhas_iff option.discI)

text \<open>
  The contract of a finite map: what a lookup returns after each update. Clients that keep
  per-key state rely on these laws only.
\<close>

locale finite_map =
  fixes lookup :: "'m \<Rightarrow> 'k \<Rightarrow> 'v option"
    and insert :: "'k \<Rightarrow> 'v \<Rightarrow> 'm \<Rightarrow> 'm"
    and remove :: "'k \<Rightarrow> 'm \<Rightarrow> 'm"
    and keys :: "'m \<Rightarrow> 'k list"
  assumes lookup_insert: "lookup (insert k v m) = (lookup m)(k \<mapsto> v)"
    and lookup_remove: "lookup (remove k m) = (lookup m)(k := None)"
    and keys_iff: "k \<in> set (keys m) \<longleftrightarrow> lookup m k \<noteq> None"
begin

lemma insert_get: "lookup (insert k v m) k = Some v"
  by (simp add: lookup_insert)

lemma insert_frame: "j \<noteq> k \<Longrightarrow> lookup (insert k v m) j = lookup m j"
  by (simp add: lookup_insert)

lemma remove_get: "lookup (remove k m) k = None"
  by (simp add: lookup_remove)

lemma remove_frame: "j \<noteq> k \<Longrightarrow> lookup (remove k m) j = lookup m j"
  by (simp add: lookup_remove)

lemma keys_insert: "set (keys (insert k v m)) = {k} \<union> set (keys m)"
  by (auto simp: keys_iff lookup_insert split: if_splits)

lemma keys_remove: "set (keys (remove k m)) = set (keys m) - {k}"
  by (auto simp: keys_iff lookup_remove split: if_splits)

end

interpretation gm: finite_map mget mput mdel mkeys
  by unfold_locales (simp_all add: mhas_iff [symmetric] mhas_def)

section \<open>Stable slice sort\<close>

text \<open>
  \<open>sort.SliceStable(xs, less)\<close>: insertion from the right, an element going in front of the
  first one that is not smaller, so equal elements keep their order.
\<close>

fun slice_insert :: "('a \<Rightarrow> 'a \<Rightarrow> bool) \<Rightarrow> 'a \<Rightarrow> 'a list \<Rightarrow> 'a list" where
  "slice_insert lt x [] = [x]"
| "slice_insert lt x (y # ys) =
     (if lt y x then y # slice_insert lt x ys else x # y # ys)"

definition slice_stable :: "('a \<Rightarrow> 'a \<Rightarrow> bool) \<Rightarrow> 'a list \<Rightarrow> 'a list" where
  "slice_stable lt xs = foldr (slice_insert lt) xs []"

lemma slice_stable_simps [simp]:
  "slice_stable lt [] = []"
  "slice_stable lt (x # xs) = slice_insert lt x (slice_stable lt xs)"
  by (simp_all add: slice_stable_def)

lemma mset_slice_insert [simp]: "mset (slice_insert lt x xs) = add_mset x (mset xs)"
  by (induction xs) auto

lemma mset_slice_stable [simp]: "mset (slice_stable lt xs) = mset xs"
  by (induction xs) auto

lemma set_slice_stable [simp]: "set (slice_stable lt xs) = set xs"
  using mset_slice_stable by (rule mset_eq_setD)

lemma length_slice_stable [simp]: "length (slice_stable lt xs) = length xs"
  using mset_slice_stable by (rule mset_eq_length)

lemma distinct_map_slice_stable [simp]:
  "distinct (map f (slice_stable lt xs)) = distinct (map f xs)"
  by (rule mset_eq_imp_distinct_iff) simp

lemma sum_list_slice_stable [simp]:
  fixes f :: "'a \<Rightarrow> 'b::comm_monoid_add"
  shows "sum_list (map f (slice_stable lt xs)) = sum_list (map f xs)"
  by (metis mset_map mset_slice_stable sum_mset_sum_list)

text \<open>A comparator that is a strict weak order: the contract \<open>sort\<close> asks of its callers.\<close>

locale weak_order =
  fixes lt :: "'a \<Rightarrow> 'a \<Rightarrow> bool"
  assumes asym: "lt x y \<Longrightarrow> \<not> lt y x"
    and neg_trans: "lt x z \<Longrightarrow> lt x y \<or> lt y z"
begin

lemma irrefl: "\<not> lt x x"
  using asym by blast

lemma trans: "lt x y \<Longrightarrow> lt y z \<Longrightarrow> lt x z"
  using asym neg_trans [of x y z] by blast

lemma sorted_insert:
  "sorted_wrt (\<lambda>a b. \<not> lt b a) xs \<Longrightarrow> sorted_wrt (\<lambda>a b. \<not> lt b a) (slice_insert lt x xs)"
proof (induction xs)
  case (Cons y ys)
  have set_ins: "set (slice_insert lt x ys) = insert x (set ys)"
    by (metis mset_slice_insert set_mset_add_mset_insert set_mset_mset)
  show ?case
  proof (cases "lt y x")
    case True
    with Cons set_ins asym show ?thesis by auto
  next
    case False
    have "\<not> lt z x" if "z \<in> set ys" for z
    proof
      assume "lt z x"
      with neg_trans have "lt z y \<or> lt y x" by blast
      with False Cons.prems that show False by auto
    qed
    with False Cons.prems show ?thesis by auto
  qed
qed simp

lemma sorted: "sorted_wrt (\<lambda>a b. \<not> lt b a) (slice_stable lt xs)"
  by (induction xs) (auto intro: sorted_insert)

lemma filter_insert: "sorted_wrt (\<lambda>a b. \<not> lt b a) xs \<Longrightarrow>
  filter P (slice_insert lt x xs) = (if P x then slice_insert lt x (filter P xs) else filter P xs)"
proof (induction xs)
  case (Cons y ys)
  show ?case
  proof (cases "lt y x")
    case True
    with Cons show ?thesis by auto
  next
    case False
    have "\<not> lt z x" if "z \<in> set ys" for z
    proof
      assume "lt z x"
      with neg_trans have "lt z y \<or> lt y x" by blast
      with False Cons.prems that show False by auto
    qed
    then have "slice_insert lt x (filter P ys) = x # filter P ys"
      by (cases "filter P ys") (auto dest!: filter_eq_ConsD)
    with False show ?thesis by auto
  qed
qed simp

lemma filter_sorted: "filter P (slice_stable lt xs) = slice_stable lt (filter P xs)"
  by (induction xs) (simp_all add: filter_insert sorted)

end

text \<open>
  A comparator that is total on the elements sorted: the result depends on the multiset of
  elements alone, which is what makes a replay independent of the order pins arrived in.
\<close>

locale total_order_on = weak_order +
  fixes key :: "'a \<Rightarrow> 'k"
  assumes total: "\<not> lt x y \<Longrightarrow> \<not> lt y x \<Longrightarrow> key x = key y"
begin

lemma sorted_unique:
  assumes "mset xs = mset ys" and "inj_on key (set xs)"
    and "sorted_wrt (\<lambda>a b. \<not> lt b a) xs" and "sorted_wrt (\<lambda>a b. \<not> lt b a) ys"
  shows "xs = ys"
  using assms
proof (induction xs arbitrary: ys)
  case Nil
  then show ?case by simp
next
  case (Cons x xs)
  then obtain y ys' where ys: "ys = y # ys'"
    by (cases ys) auto
  have mem: "y \<in> set (x # xs)" "x \<in> set (y # ys')"
    using Cons.prems(1) ys by (metis list.set_intros(1) mset_eq_setD)+
  have "x = y"
  proof (rule ccontr)
    assume ne: "x \<noteq> y"
    then have "\<not> lt y x" "\<not> lt x y"
      using mem Cons.prems(3,4) ys by auto
    then have "key x = key y" using total by blast
    with ne mem(1) Cons.prems(2) show False
      by (auto dest: inj_onD)
  qed
  moreover have "xs = ys'"
    using Cons.prems ys \<open>x = y\<close> by (intro Cons.IH) (auto simp: inj_on_def)
  ultimately show ?case using ys by simp
qed

lemma slice_stable_perm:
  "mset xs = mset ys \<Longrightarrow> inj_on key (set xs) \<Longrightarrow> slice_stable lt xs = slice_stable lt ys"
  by (rule sorted_unique) (auto intro: sorted)

lemma strict_order:
  assumes "lt x y" "lt y z" shows "lt x z" "x \<noteq> z"
  using assms trans irrefl by blast+

end

text \<open>
  A comparator of the code compares one field and, where it ties, goes on to the next: such a
  chain of comparisons is a total order whenever its last link is.
\<close>

lemma total_order_on_lex:
  fixes f :: "'a \<Rightarrow> 'b :: linorder"
  assumes "total_order_on lt key"
  shows "total_order_on (\<lambda>a b. if f a \<noteq> f b then f a < f b else lt a b) key"
proof -
  note w = weak_order.asym [OF total_order_on.axioms(1) [OF assms]]
    weak_order.neg_trans [OF total_order_on.axioms(1) [OF assms]] total_order_on.total [OF assms]
  show ?thesis
    by unfold_locales (auto dest: w split: if_splits)
qed

lemma total_order_on_inv:
  assumes "total_order_on lt key" shows "total_order_on (\<lambda>a b. lt (f a) (f b)) (\<lambda>a. key (f a))"
proof -
  note w = weak_order.asym [OF total_order_on.axioms(1) [OF assms]]
    weak_order.neg_trans [OF total_order_on.axioms(1) [OF assms]] total_order_on.total [OF assms]
  show ?thesis
    by unfold_locales (auto dest: w)
qed

text \<open>The byte-wise order on strings, Go's \<open><\<close>.\<close>

lemma string_less_total: "\<not> (s::string) < t \<Longrightarrow> \<not> t < s \<Longrightarrow> s = t"
  by auto

definition string_less :: "string \<Rightarrow> string \<Rightarrow> bool" where
  "string_less s t \<longleftrightarrow> s < t"

interpretation str_ord: total_order_on string_less "\<lambda>s. s"
  by unfold_locales (auto simp: string_less_def)

lemmas string_order = str_ord.total_order_on_axioms

section \<open>Event folds\<close>

text \<open>
  A replay folds one handler over an ordered event list. The contract: the invariant holds at
  the start and every handler call keeps it; the client gets it for the whole run.
\<close>

locale event_fold =
  fixes step :: "'s \<Rightarrow> 'e \<Rightarrow> 's"
    and ok :: "'e \<Rightarrow> bool"
    and inv :: "'s \<Rightarrow> bool"
  assumes step_inv: "ok e \<Longrightarrow> inv s \<Longrightarrow> inv (step s e)"
begin

lemma run_inv: "list_all ok es \<Longrightarrow> inv s \<Longrightarrow> inv (foldl step s es)"
  by (induction es arbitrary: s) (auto intro: step_inv)

lemma run_append: "foldl step s (es @ fs) = foldl step (foldl step s es) fs"
  by simp

end

section \<open>Lists\<close>

lemma find_SomeD: "find P xs = Some x \<Longrightarrow> x \<in> set xs \<and> P x"
  by (auto simp: find_Some_iff)

lemma find_None_iff_all: "find P xs = None \<longleftrightarrow> (\<forall>x \<in> set xs. \<not> P x)"
  by (auto simp: find_None_iff)

lemma filter_mset_eq: "mset xs = mset ys \<Longrightarrow> mset (filter P xs) = mset (filter P ys)"
  by (simp add: mset_filter)

lemma inj_on_filter: "inj_on f (set xs) \<Longrightarrow> inj_on f (set (filter P xs))"
  by (auto intro: inj_on_subset)

text \<open>
  A fold whose steps commute on the states of an invariant: its result does not depend on the order
  of the list. This is what a loop over a Go map needs to be deterministic.
\<close>

locale commuting_fold =
  fixes step :: "'s \<Rightarrow> 'e \<Rightarrow> 's"
    and inv :: "'s \<Rightarrow> bool"
  assumes keep: "inv s \<Longrightarrow> inv (step s x)"
    and commute: "inv s \<Longrightarrow> step (step s x) y = step (step s y) x"
begin

lemma to_front: "inv s \<Longrightarrow> foldl step s (us @ x # vs) = foldl step (step s x) (us @ vs)"
  by (induction us arbitrary: s) (simp_all add: keep commute)

lemma order_irrelevant: "inv s \<Longrightarrow> mset xs = mset ys \<Longrightarrow> foldl step s xs = foldl step s ys"
proof (induction xs arbitrary: s ys)
  case (Cons x xs)
  then have "x \<in> set ys" by (metis list.set_intros(1) mset_eq_setD)
  then obtain us vs where ys: "ys = us @ x # vs" by (meson split_list)
  have "foldl step (step s x) xs = foldl step (step s x) (us @ vs)"
    by (rule Cons.IH [OF keep [OF Cons.prems(1)]]) (use Cons.prems(2) ys in simp)
  then show ?case by (simp only: ys to_front [OF Cons.prems(1)] foldl_Cons)
qed simp

end

end
