(* ===== verification/GoStd.thy ===== *)
theory GoStd
  imports Prelude Complex_Main "HOL-Library.Word"
begin

text \<open>
  The part of Go and of its standard library that the modelled code uses: 64-bit signed
  arithmetic, truncated division, UTF-8 decoding as \<open>range\<close> does it, \<open>strings.TrimSpace\<close>,
  \<open>strings.ToLower\<close>, \<open>strings.LastIndex\<close>, decimal printing, and \<open>float64\<close> as far as JSON numbers
  reach it. A Go string is its list of bytes (a HOL \<open>string\<close>).
\<close>

section \<open>Signed 64-bit integers\<close>

definition wrap64 :: "int \<Rightarrow> int" where
  "wrap64 x = (x + 2 ^ 63) mod 2 ^ 64 - 2 ^ 63"

definition max_int64 :: int where "max_int64 = 2 ^ 63 - 1"
definition min_int64 :: int where "min_int64 = - (2 ^ 63)"

definition int64_range :: "int \<Rightarrow> bool" where
  "int64_range x \<longleftrightarrow> min_int64 \<le> x \<and> x \<le> max_int64"

lemma wrap64_id [simp]: "int64_range x \<Longrightarrow> wrap64 x = x"
  by (simp add: wrap64_def int64_range_def min_int64_def max_int64_def)

lemma wrap64_range [simp]: "int64_range (wrap64 x)"
proof -
  have "0 \<le> (x + 2 ^ 63) mod 2 ^ 64" "(x + 2 ^ 63) mod 2 ^ 64 < 2 ^ 64"
    by (rule pos_mod_sign pos_mod_bound; simp)+
  then show ?thesis
    by (simp add: wrap64_def int64_range_def min_int64_def max_int64_def)
qed

text \<open>Go's integer division truncates towards zero.\<close>

definition go_div :: "int \<Rightarrow> int \<Rightarrow> int" where
  "go_div a b = sgn a * sgn b * (\<bar>a\<bar> div \<bar>b\<bar>)"

lemma go_div_nonneg [simp]: "0 \<le> a \<Longrightarrow> 0 < b \<Longrightarrow> go_div a b = a div b"
  by (cases "a = 0") (simp_all add: go_div_def)

section \<open>Bytes and characters\<close>

abbreviation byte :: "char \<Rightarrow> int" where
  "byte c \<equiv> of_char c"

lemma byte_range [simp]: "0 \<le> byte c" "byte c < 256"
proof -
  have eq: "byte c = int (of_char c)" by (cases c) (simp add: of_char_def)
  show "0 \<le> byte c" unfolding eq by simp
  have "of_char c < (256 :: nat)" by simp
  then show "byte c < 256" unfolding eq by linarith
qed

definition ascii :: "char \<Rightarrow> bool" where
  "ascii c \<longleftrightarrow> byte c < 128"

definition lower_byte :: "int \<Rightarrow> int" where
  "lower_byte n = (if 65 \<le> n \<and> n \<le> 90 then n + 32 else n)"

section \<open>UTF-8\<close>

definition cont_byte :: "int \<Rightarrow> bool" where
  "cont_byte n \<longleftrightarrow> 128 \<le> n \<and> n \<le> 191"

definition rune_error :: int where "rune_error = 65533"

text \<open>
  \<open>utf8.DecodeRuneInString\<close> on a non-empty string: the rune and the number of bytes it took.
  An invalid sequence is \<open>RuneError\<close> of width 1.
\<close>

definition decode_rune :: "int list \<Rightarrow> int \<times> nat" where
  "decode_rune bs = (case bs of
       [] \<Rightarrow> (rune_error, 0)
     | b0 # r0 \<Rightarrow>
        if b0 < 128 then (b0, 1)
        else if 194 \<le> b0 \<and> b0 \<le> 223 then
          (case r0 of b1 # _ \<Rightarrow>
              if cont_byte b1 then ((b0 - 192) * 64 + (b1 - 128), 2) else (rune_error, 1)
           | [] \<Rightarrow> (rune_error, 1))
        else if 224 \<le> b0 \<and> b0 \<le> 239 then
          (case r0 of b1 # b2 # _ \<Rightarrow>
              if (if b0 = 224 then 160 \<le> b1 \<and> b1 \<le> 191
                  else if b0 = 237 then 128 \<le> b1 \<and> b1 \<le> 159 else cont_byte b1) \<and> cont_byte b2
              then ((b0 - 224) * 4096 + (b1 - 128) * 64 + (b2 - 128), 3) else (rune_error, 1)
           | _ \<Rightarrow> (rune_error, 1))
        else if 240 \<le> b0 \<and> b0 \<le> 244 then
          (case r0 of b1 # b2 # b3 # _ \<Rightarrow>
              if (if b0 = 240 then 144 \<le> b1 \<and> b1 \<le> 191
                  else if b0 = 244 then 128 \<le> b1 \<and> b1 \<le> 143 else cont_byte b1)
                 \<and> cont_byte b2 \<and> cont_byte b3
              then ((b0 - 240) * 262144 + (b1 - 128) * 4096 + (b2 - 128) * 64 + (b3 - 128), 4)
              else (rune_error, 1)
           | _ \<Rightarrow> (rune_error, 1))
        else (rune_error, 1))"

lemma decode_rune_width: "bs \<noteq> [] \<Longrightarrow> 1 \<le> snd (decode_rune bs)"
  by (cases bs) (auto simp: decode_rune_def split: list.splits)

text \<open>\<open>for i, c := range s\<close>: the byte offset and the rune of every step.\<close>

function range_runes :: "nat \<Rightarrow> int list \<Rightarrow> (nat \<times> int) list" where
  "range_runes i bs =
     (if bs = [] then []
      else let (r, w) = decode_rune bs in (i, r) # range_runes (i + w) (drop w bs))"
  by pat_completeness auto
termination
proof (relation "measure (\<lambda>(i, bs). length bs)", goal_cases)
  case 1
  then show ?case by simp
next
  case (2 i bs x r w)
  then have "w = snd (decode_rune bs)"
    by (metis snd_conv)
  with 2 show ?case
    using decode_rune_width [of bs] by (cases bs) auto
qed

declare range_runes.simps [simp del]

definition runes_of :: "string \<Rightarrow> (nat \<times> int) list" where
  "runes_of s = range_runes 0 (map byte s)"

text \<open>On ASCII bytes \<open>range\<close> is the plain index loop.\<close>

lemma range_runes_ascii:
  "\<forall>b \<in> set bs. b < 128 \<Longrightarrow> range_runes i bs = zip [i..<i + length bs] bs"
proof (induction bs arbitrary: i)
  case Nil
  then show ?case by (simp add: range_runes.simps)
next
  case (Cons b bs)
  then have "range_runes i (b # bs) = (i, b) # range_runes (Suc i) bs"
    by (subst range_runes.simps) (simp add: decode_rune_def)
  with Cons show ?case
    by (simp add: upt_conv_Cons del: upt_Suc)
qed

text \<open>\<open>utf8.EncodeRune\<close>.\<close>

definition encode_rune :: "int \<Rightarrow> int list" where
  "encode_rune r =
     (if r < 128 then [r]
      else if r < 2048 then [192 + r div 64, 128 + r mod 64]
      else if 1114111 < r \<or> (55296 \<le> r \<and> r \<le> 57343) then [239, 191, 189]
      else if r < 65536 then [224 + r div 4096, 128 + r div 64 mod 64, 128 + r mod 64]
      else [240 + r div 262144, 128 + r div 4096 mod 64, 128 + r div 64 mod 64, 128 + r mod 64])"

section \<open>Package strings\<close>

text \<open>\<open>unicode.IsSpace\<close>, the whole set.\<close>

definition is_space :: "int \<Rightarrow> bool" where
  "is_space r \<longleftrightarrow> (9 \<le> r \<and> r \<le> 13) \<or> r = 32 \<or> r = 133 \<or> r = 160 \<or> r = 5760
     \<or> (8192 \<le> r \<and> r \<le> 8202) \<or> r = 8232 \<or> r = 8233 \<or> r = 8239 \<or> r = 8287 \<or> r = 12288"

text \<open>\<open>strings.TrimSpace(s) == ""\<close>: every rune is white space.\<close>

definition blank :: "string \<Rightarrow> bool" where
  "blank s \<longleftrightarrow> (\<forall>(i, r) \<in> set (runes_of s). is_space r)"

text \<open>
  \<open>strings.ToLower\<close>: byte-wise on ASCII strings, else rune by rune. \<open>ulower\<close> stands for the
  Unicode simple lower-case table of package \<open>unicode\<close> on runes from 128 on.
\<close>

definition to_lower :: "(int \<Rightarrow> int) \<Rightarrow> string \<Rightarrow> string" where
  "to_lower ulower s =
     (if list_all ascii s then map (\<lambda>c. char_of (lower_byte (byte c))) s
      else map char_of (concat (map (\<lambda>(i, r).
             encode_rune (if r < 128 then lower_byte r else ulower r)) (runes_of s))))"

text \<open>\<open>strings.LastIndex(s, string(c))\<close> for a one-byte separator; \<open>None\<close> is -1.\<close>

fun last_index :: "char \<Rightarrow> string \<Rightarrow> nat option" where
  "last_index c [] = None"
| "last_index c (x # xs) =
     (case last_index c xs of Some i \<Rightarrow> Some (Suc i)
      | None \<Rightarrow> if x = c then Some 0 else None)"

lemma last_index_None: "last_index c xs = None \<longleftrightarrow> c \<notin> set xs"
  by (induction xs) (auto split: option.splits)

lemma last_index_append:
  "c \<notin> set ys \<Longrightarrow> last_index c (xs @ c # ys) = Some (length xs)"
proof (induction xs)
  case Nil
  then have "last_index c ys = None" by (simp add: last_index_None)
  then show ?case by simp
qed simp

lemma last_index_SomeD:
  "last_index c s = Some i \<Longrightarrow> i < length s \<and> s ! i = c \<and> c \<notin> set (drop (Suc i) s)"
  by (induction s arbitrary: i) (auto simp: last_index_None split: option.splits if_splits)

text \<open>\<open>strings.HasPrefix\<close>.\<close>

definition has_prefix :: "string \<Rightarrow> string \<Rightarrow> bool" where
  "has_prefix s p \<longleftrightarrow> take (length p) s = p"

section \<open>Decimal printing\<close>

fun show_nat :: "int \<Rightarrow> string" where
  "show_nat n = (if n < 10 then [char_of (48 + n)] else show_nat (n div 10) @ [char_of (48 + n mod 10)])"

declare show_nat.simps [simp del]

definition show_int :: "int \<Rightarrow> string" where
  "show_int x = (if x < 0 then CHR ''-'' # show_nat (- x) else show_nat x)"

definition digit_val :: "char \<Rightarrow> int option" where
  "digit_val c = (if 48 \<le> byte c \<and> byte c \<le> 57 then Some (byte c - 48) else None)"

section \<open>Finite float64 values\<close>

text \<open>
  A finite \<open>float64\<close> is the rational it denotes. \<open>round64\<close> is round-to-nearest, ties to even,
  into binary64 (53-bit significand, subnormals down to \<open>2 ^ -1074\<close>); \<open>None\<close> is an overflow to
  infinity, on which \<open>strconv.ParseFloat\<close> returns an error.
\<close>

type_synonym f64 = rat

fun nlog2 :: "int \<Rightarrow> nat" where
  "nlog2 n = (if n < 2 then 0 else Suc (nlog2 (n div 2)))"

declare nlog2.simps [simp del]

definition pow2_int :: "int \<Rightarrow> rat" where
  "pow2_int e = (if 0 \<le> e then of_int (2 ^ nat e) else 1 / of_int (2 ^ nat (- e)))"

definition round_half_even :: "rat \<Rightarrow> int" where
  "round_half_even x =
     (let f = \<lfloor>x\<rfloor>; d = x - of_int f
      in if d < 1 / 2 then f else if d > 1 / 2 then f + 1
         else if even f then f else f + 1)"

definition round64_pos :: "rat \<Rightarrow> rat option" where
  "round64_pos x =
     (let (p, q) = quotient_of x;
          k0 = int (nlog2 p) - int (nlog2 q);
          k = (if pow2_int k0 \<le> x then k0 else k0 - 1);
          e = max (k - 52) (-1074);
          m = round_half_even (x * pow2_int (- e));
          r = of_int m * pow2_int e
      in if r \<ge> pow2_int 1024 then None else Some r)"

definition round64 :: "rat \<Rightarrow> f64 option" where
  "round64 x = (if x = 0 then Some 0
                else if x < 0 then map_option uminus (round64_pos (- x))
                else round64_pos x)"

fun read_digits :: "string \<Rightarrow> int \<Rightarrow> nat \<Rightarrow> int \<times> nat \<times> string" where
  "read_digits [] acc n = (acc, n, [])"
| "read_digits (c # cs) acc n =
     (case digit_val c of None \<Rightarrow> (acc, n, c # cs)
      | Some d \<Rightarrow> read_digits cs (10 * acc + d) (Suc n))"

text \<open>
  \<open>json.Number.Float64\<close> on a literal the JSON decoder accepted: sign, digits, optional fraction
  and exponent, the exact value rounded once.
\<close>

definition read_exponent :: "string \<Rightarrow> (int \<times> string) option" where
  "read_exponent s = (case s of [] \<Rightarrow> Some (0, [])
     | c # r \<Rightarrow>
        if c = CHR ''e'' \<or> c = CHR ''E'' then
          (let neg = (r \<noteq> [] \<and> hd r = CHR ''-'');
               r' = (if r \<noteq> [] \<and> (hd r = CHR ''-'' \<or> hd r = CHR ''+'') then tl r else r);
               (e, n, rest) = read_digits r' 0 0
           in if n = 0 then None else Some (if neg then - e else e, rest))
        else Some (0, s))"

definition parse_f64 :: "string \<Rightarrow> f64 option" where
  "parse_f64 s =
     (let neg = (s \<noteq> [] \<and> hd s = CHR ''-'');
          s1 = (if neg then tl s else s);
          (m, n1, s2) = read_digits s1 0 0;
          (m2, n2, s3) = (if s2 \<noteq> [] \<and> hd s2 = CHR ''.'' then read_digits (tl s2) m 0 else (m, 0, s2))
      in if n1 + n2 = 0 then None
         else (case read_exponent s3 of
             None \<Rightarrow> None
           | Some (e, rest) \<Rightarrow>
               if rest \<noteq> [] then None
               else let e10 = e - int n2;
                        v = (if 0 \<le> e10 then of_int (m2 * 10 ^ nat e10)
                             else of_int m2 / of_int (10 ^ nat (- e10)))
                    in round64 (if neg then - v else v)))"

text \<open>
  \<open>math.Trunc\<close>, and the conversion \<open>int64(f)\<close>. Out of range the conversion is
  implementation-defined; the model takes amd64's result, the smallest integer.
\<close>

definition trunc64 :: "f64 \<Rightarrow> int" where
  "trunc64 f = (if f < 0 then \<lceil>f\<rceil> else \<lfloor>f\<rfloor>)"

definition f64_to_int64 :: "f64 \<Rightarrow> int" where
  "f64_to_int64 f = (if int64_range (trunc64 f) then trunc64 f else min_int64)"

lemma f64_to_int64_range: "int64_range (f64_to_int64 f)"
  by (simp add: f64_to_int64_def int64_range_def min_int64_def max_int64_def)

lemma f64_to_int64_of_int: "int64_range n \<Longrightarrow> f64_to_int64 (of_int n) = n"
  by (simp add: f64_to_int64_def trunc64_def)

section \<open>Decimal integers\<close>

text \<open>\<open>strconv\<close> in base 10: sign and digits; \<open>None\<close> is a syntax error.\<close>

definition parse_signed :: "string \<Rightarrow> int option" where
  "parse_signed s =
     (let signed = (s \<noteq> [] \<and> (hd s = CHR ''-'' \<or> hd s = CHR ''+''));
          (v, n, rest) = read_digits (if signed then tl s else s) 0 0
      in if n = 0 \<or> rest \<noteq> [] then None else Some (if s \<noteq> [] \<and> hd s = CHR ''-'' then - v else v))"

text \<open>\<open>ParseInt(s, 10, 64)\<close> and \<open>Atoi\<close> without their errors' texts, and the value \<open>Atoi\<close> returns beside an error.\<close>

definition parse_int64 :: "string \<Rightarrow> int option" where
  "parse_int64 s = (case parse_signed s of None \<Rightarrow> None | Some v \<Rightarrow> if int64_range v then Some v else None)"

definition atoi_value :: "string \<Rightarrow> int" where
  "atoi_value s = (case parse_signed s of None \<Rightarrow> 0 | Some v \<Rightarrow> max min_int64 (min max_int64 v))"

end
