(* ===== verification/Sha256.thy ===== *)
theory Sha256
  imports GoStd
begin

text \<open>
  SHA-256, the hash Go's \<open>crypto/sha256\<close> computes, on lists of bytes, and its hexadecimal
  rendering. The replay engines treat it as an opaque digest; it is defined so that concrete
  runs evaluate.
\<close>

unbundle bit_operations_syntax

type_synonym w32 = "32 word"

text \<open>The 64 round constants, eight to a 256-bit literal, most significant word first.\<close>

definition sha_k_rows :: "int list" where
  "sha_k_rows = [
     0x428a2f9871374491b5c0fbcfe9b5dba53956c25b59f111f1923f82a4ab1c5ed5,
     0xd807aa9812835b01243185be550c7dc372be5d7480deb1fe9bdc06a7c19bf174,
     0xe49b69c1efbe47860fc19dc6240ca1cc2de92c6f4a7484aa5cb0a9dc76f988da,
     0x983e5152a831c66db00327c8bf597fc7c6e00bf3d5a7914706ca635114292967,
     0x27b70a852e1b21384d2c6dfc53380d13650a7354766a0abb81c2c92e92722c85,
     0xa2bfe8a1a81a664bc24b8b70c76c51a3d192e819d6990624f40e3585106aa070,
     0x19a4c1161e376c082748774c34b0bcb5391c0cb34ed8aa4a5b9cca4f682e6ff3,
     0x748f82ee78a5636f84c878148cc7020890befffaa4506cebbef9a3f7c67178f2]"

definition sha_k :: "w32 list" where
  "sha_k = concat (map (\<lambda>r. map (\<lambda>j. of_int (take_bit 32 (drop_bit (32 * j) r))) [7, 6, 5, 4, 3, 2, 1, 0]) sha_k_rows)"

definition sha_h0 :: "w32 list" where
  "sha_h0 = [
     0x6a09e667, 0xbb67ae85, 0x3c6ef372, 0xa54ff53a, 0x510e527f, 0x9b05688c,
     0x1f83d9ab, 0x5be0cd19]"

definition rotr :: "nat \<Rightarrow> w32 \<Rightarrow> w32" where
  "rotr n x = drop_bit n x OR push_bit (32 - n) x"

definition be_word :: "int list \<Rightarrow> w32" where
  "be_word bs = foldl (\<lambda>w b. push_bit 8 w OR of_int b) 0 bs"

definition word_be :: "w32 \<Rightarrow> int list" where
  "word_be w = map (\<lambda>n. uint (drop_bit n w AND 255)) [24, 16, 8, 0]"

fun chunks :: "nat \<Rightarrow> 'a list \<Rightarrow> 'a list list" where
  "chunks n xs = (if n = 0 \<or> xs = [] then [] else take n xs # chunks n (drop n xs))"

declare chunks.simps [simp del]

definition sha_pad :: "int list \<Rightarrow> int list" where
  "sha_pad m =
     (let l = length m; z = (119 - l mod 64) mod 64
      in m @ [128] @ replicate z 0 @ map (\<lambda>i. (8 * int l) div 256 ^ i mod 256) [7, 6, 5, 4, 3, 2, 1, 0])"

definition small_s0 :: "w32 \<Rightarrow> w32" where
  "small_s0 x = rotr 7 x XOR rotr 18 x XOR drop_bit 3 x"

definition small_s1 :: "w32 \<Rightarrow> w32" where
  "small_s1 x = rotr 17 x XOR rotr 19 x XOR drop_bit 10 x"

text \<open>The message schedule, newest word first.\<close>

fun sha_extend :: "nat \<Rightarrow> w32 list \<Rightarrow> w32 list" where
  "sha_extend 0 ws = ws"
| "sha_extend (Suc n) ws =
     sha_extend n ((ws ! 15 + small_s0 (ws ! 14) + ws ! 6 + small_s1 (ws ! 1)) # ws)"

definition sha_schedule :: "int list \<Rightarrow> w32 list" where
  "sha_schedule block = rev (sha_extend 48 (rev (map be_word (chunks 4 block))))"

fun sha_round :: "w32 list \<Rightarrow> w32 \<times> w32 \<Rightarrow> w32 list" where
  "sha_round [a, b, c, d, e, f, g, h] (k, w) =
     (let s1 = rotr 6 e XOR rotr 11 e XOR rotr 25 e;
          ch = (e AND f) XOR (NOT e AND g);
          t1 = h + s1 + ch + k + w;
          s0 = rotr 2 a XOR rotr 13 a XOR rotr 22 a;
          maj = (a AND b) XOR (a AND c) XOR (b AND c);
          t2 = s0 + maj
      in [t1 + t2, a, b, c, d + t1, e, f, g])"
| "sha_round st kw = st"

definition sha_block :: "w32 list \<Rightarrow> int list \<Rightarrow> w32 list" where
  "sha_block h block =
     map2 (+) h (foldl sha_round h (zip sha_k (sha_schedule block)))"

definition sha256 :: "int list \<Rightarrow> int list" where
  "sha256 m = concat (map word_be (foldl sha_block sha_h0 (chunks 64 (sha_pad m))))"

definition hex_digit :: "int \<Rightarrow> char" where
  "hex_digit n = (if n < 10 then char_of (48 + n) else char_of (87 + n))"

definition hex_encode :: "int list \<Rightarrow> string" where
  "hex_encode bs = concat (map (\<lambda>b. [hex_digit (b div 16), hex_digit (b mod 16)]) bs)"

text \<open>\<open>sha256Hex\<close> of \<open>internal/metatask/v121.go\<close>.\<close>

definition sha256_hex :: "string \<Rightarrow> string" where
  "sha256_hex s = hex_encode (sha256 (map byte s))"

end
