(* ===== verification/IdAddress.thy ===== *)
theory IdAddress
  imports Sha256
begin

text \<open>
  \<open>pkg/idaddress/idaddress.go\<close>: the ID address codec. Base32 regrouping of bits, the BCH
  checksum, encoding, decoding and validation. Bytes and 5-bit values are \<^typ>\<open>int\<close>s; the byte
  range is a hypothesis where it matters, since Go's type gives it.
\<close>

section \<open>Versions, character set, errors\<close>

datatype id_error =
    InvalidVersion int
  | InvalidDataLength int nat nat
  | MultisigTooShort
  | MultisigParameters int int
  | MultisigLength nat nat
  | UnknownVersion int
  | InvalidDataValue
  | InvalidPadding
  | InvalidHRP
  | SeparatorNotFound
  | InvalidAddressFormat
  | InvalidVersionChar string
  | AddressTooShort
  | InvalidCharacter int
  | ChecksumFailed

definition HRP :: string where "HRP = ''id''"
definition Separator :: char where "Separator = CHR ''1''"
definition ChecksumLength :: nat where "ChecksumLength = 6"

abbreviation (input) VersionP2PKH :: int where "VersionP2PKH \<equiv> 0"
abbreviation (input) VersionP2SH :: int where "VersionP2SH \<equiv> 1"
abbreviation (input) VersionP2WPKH :: int where "VersionP2WPKH \<equiv> 2"
abbreviation (input) VersionP2WSH :: int where "VersionP2WSH \<equiv> 3"
abbreviation (input) VersionP2MS :: int where "VersionP2MS \<equiv> 4"
abbreviation (input) VersionP2TR :: int where "VersionP2TR \<equiv> 5"

definition VersionChar :: "(int, string) gomap" where
  "VersionChar = [(VersionP2PKH, ''q''), (VersionP2SH, ''p''), (VersionP2WPKH, ''z''),
                  (VersionP2WSH, ''r''), (VersionP2MS, ''y''), (VersionP2TR, ''t'')]"

definition CharVersion :: "(string, int) gomap" where
  "CharVersion = [(''q'', VersionP2PKH), (''p'', VersionP2SH), (''z'', VersionP2WPKH),
                  (''r'', VersionP2WSH), (''y'', VersionP2MS), (''t'', VersionP2TR)]"

definition Charset :: string where
  "Charset = ''qpzry9x8gf2tvdw0s3jn54khce6mua7l''"

text \<open>\<open>CharsetMap\<close>, keyed by byte, as \<open>init\<close> fills it.\<close>

definition CharsetMap :: "(int, int) gomap" where
  "CharsetMap = foldl (\<lambda>m i. mput (byte (Charset ! i)) (int i) m) [] [0..<length Charset]"

record address_info =
  ai_version :: int
  ai_data :: "int list"
  ai_address :: string

section \<open>Bit regrouping\<close>

text \<open>The inner loop of \<open>convertBits\<close>: emit while at least \<open>toBits\<close> bits are buffered.\<close>

function cb_emit :: "int \<Rightarrow> nat \<Rightarrow> nat \<Rightarrow> nat \<times> int list" where
  "cb_emit acc bits toBits =
     (if toBits = 0 \<or> bits < toBits then (bits, [])
      else let bits' = bits - toBits; v = drop_bit bits' acc AND mask toBits;
               (b, vs) = cb_emit acc bits' toBits
           in (b, v # vs))"
  by pat_completeness auto
termination by (relation "measure (\<lambda>(acc, bits, toBits). bits)") auto

declare cb_emit.simps [simp del]

text \<open>The outer loop; \<open>None\<close> is the error \<open>invalid data value\<close>.\<close>

fun cb_loop :: "nat \<Rightarrow> nat \<Rightarrow> int \<Rightarrow> nat \<Rightarrow> int list \<Rightarrow> (int \<times> nat \<times> int list) option" where
  "cb_loop fromBits toBits acc bits [] = Some (acc, bits, [])"
| "cb_loop fromBits toBits acc bits (v # vs) =
     (if v < 0 \<or> drop_bit fromBits v \<noteq> 0 then None
      else let acc' = (push_bit fromBits acc OR v) AND mask (fromBits + toBits - 1);
               (bits', out) = cb_emit acc' (bits + fromBits) toBits
           in (case cb_loop fromBits toBits acc' bits' vs of
                 None \<Rightarrow> None
               | Some (a, b, rest) \<Rightarrow> Some (a, b, out @ rest)))"

definition convertBits :: "int list \<Rightarrow> nat \<Rightarrow> nat \<Rightarrow> bool \<Rightarrow> id_error + int list" where
  "convertBits data fromBits toBits pad =
     (case cb_loop fromBits toBits 0 0 data of
        None \<Rightarrow> Inl InvalidDataValue
      | Some (acc, bits, ret) \<Rightarrow>
          if pad then
            Inr (if 0 < bits then ret @ [push_bit (toBits - bits) acc AND mask toBits] else ret)
          else if fromBits \<le> bits \<or> push_bit (toBits - bits) acc AND mask toBits \<noteq> 0
          then Inl InvalidPadding
          else Inr ret)"

text \<open>\<open>intSliceToBytes\<close>: each value cut to a byte.\<close>

definition intSliceToBytes :: "int list \<Rightarrow> int list" where
  "intSliceToBytes data = map (\<lambda>v. v mod 256) data"

section \<open>Checksum\<close>

definition hrpExpand :: "string \<Rightarrow> int list" where
  "hrpExpand hrp =
     (let n = length hrp
      in (foldl (\<lambda>ret (i, c). (ret[i := drop_bit 5 c])[i + n + 1 := c AND 31])
                (replicate (n * 2 + 1) 0) (runes_of hrp))[n := 0])"

definition bch_gen :: "int list" where
  "bch_gen = [0x3b6a57b2, 0x26508e6d, 0x1ea119fa, 0x3d4233dd, 0x2a1462b3]"

definition polymod_step :: "int \<Rightarrow> int \<Rightarrow> int" where
  "polymod_step chk v =
     (let top = drop_bit 25 chk
      in foldl (\<lambda>c i. if drop_bit i top AND 1 = 1 then c XOR bch_gen ! i else c)
               (push_bit 5 (chk AND 0x1ffffff) XOR v) [0..<5])"

definition polymod :: "int list \<Rightarrow> int" where
  "polymod values = foldl polymod_step 1 values"

definition createChecksum :: "int list \<Rightarrow> int list \<Rightarrow> int list" where
  "createChecksum hrpExp data =
     (let values = (hrpExp @ data) @ [0, 0, 0, 0, 0, 0];
          md = polymod values XOR 1
      in map (\<lambda>i. drop_bit (5 * (5 - i)) md AND 31) [0..<6])"

definition verifyChecksum :: "int list \<Rightarrow> int list \<Rightarrow> bool" where
  "verifyChecksum hrpExp data \<longleftrightarrow> polymod (hrpExp @ data) = 1"

section \<open>Payload lengths\<close>

text \<open>\<open>None\<close> is a nil error.\<close>

definition validateDataLength :: "int \<Rightarrow> int list \<Rightarrow> id_error option" where
  "validateDataLength version data =
     (if version = VersionP2PKH \<or> version = VersionP2SH \<or> version = VersionP2WPKH then
        (if length data \<noteq> 20 then Some (InvalidDataLength version 20 (length data)) else None)
      else if version = VersionP2WSH then
        (if length data \<noteq> 32 then Some (InvalidDataLength version 32 (length data)) else None)
      else if version = VersionP2TR then
        (if length data \<noteq> 32 then Some (InvalidDataLength version 32 (length data)) else None)
      else if version = VersionP2MS then
        (if length data < 2 then Some MultisigTooShort
         else let m = data ! 0; n = data ! 1
              in if m = 0 \<or> n = 0 \<or> m > n \<or> n > 15 then Some (MultisigParameters m n)
                 else let expectedLen = 2 + nat n * 33
                      in if length data \<noteq> expectedLen
                         then Some (MultisigLength expectedLen (length data)) else None)
      else Some (UnknownVersion version))"

section \<open>Encoding and decoding\<close>

definition EncodeIDAddress :: "int \<Rightarrow> int list \<Rightarrow> id_error + string" where
  "EncodeIDAddress version data =
     (case mget VersionChar version of
        None \<Rightarrow> Inl (InvalidVersion version)
      | Some versionChar \<Rightarrow>
          (case validateDataLength version data of
             Some e \<Rightarrow> Inl e
           | None \<Rightarrow>
               (case convertBits data 8 5 True of
                  Inl e \<Rightarrow> Inl e
                | Inr converted \<Rightarrow>
                    let hrpWithVersion = HRP @ versionChar;
                        checksum = createChecksum (hrpExpand hrpWithVersion) converted;
                        combined = converted @ checksum
                    in Inr (hrpWithVersion @ [Separator]
                            @ map (\<lambda>val. Charset ! nat val) combined))))"

text \<open>
  The decoding loop of \<open>DecodeIDAddress\<close>: \<open>decoded\<close> has one slot per byte, the loop ranges over
  runes and looks up \<open>byte(c)\<close>, the low eight bits of the rune.
\<close>

fun decode_chars :: "int list \<Rightarrow> (nat \<times> int) list \<Rightarrow> id_error + int list" where
  "decode_chars decoded [] = Inr decoded"
| "decode_chars decoded ((i, c) # cs) =
     (case mget CharsetMap (c mod 256) of
        None \<Rightarrow> Inl (InvalidCharacter c)
      | Some val \<Rightarrow> decode_chars (decoded[i := val]) cs)"

definition DecodeIDAddress :: "(int \<Rightarrow> int) \<Rightarrow> string \<Rightarrow> id_error + address_info" where
  "DecodeIDAddress ulower addr0 =
     (let addr = to_lower ulower addr0 in
      if \<not> has_prefix addr HRP then Inl InvalidHRP
      else (case last_index Separator addr of
          None \<Rightarrow> Inl SeparatorNotFound
        | Some sepIndex \<Rightarrow>
            if sepIndex < length HRP + 1 then Inl InvalidAddressFormat
            else let versionChar = drop (length HRP) (take sepIndex addr) in
              (case mget CharVersion versionChar of
                 None \<Rightarrow> Inl (InvalidVersionChar versionChar)
               | Some version \<Rightarrow>
                   let dataStr = drop (sepIndex + 1) addr in
                   if length dataStr < ChecksumLength then Inl AddressTooShort
                   else (case decode_chars (replicate (length dataStr) 0) (runes_of dataStr) of
                       Inl e \<Rightarrow> Inl e
                     | Inr decoded \<Rightarrow>
                         if \<not> verifyChecksum (hrpExpand (HRP @ versionChar)) decoded
                         then Inl ChecksumFailed
                         else let data = take (length decoded - ChecksumLength) decoded in
                           (case convertBits (intSliceToBytes data) 5 8 False of
                              Inl e \<Rightarrow> Inl e
                            | Inr convertedInts \<Rightarrow>
                                let converted = intSliceToBytes convertedInts in
                                (case validateDataLength version converted of
                                   Some e \<Rightarrow> Inl e
                                 | None \<Rightarrow> Inr \<lparr>ai_version = version, ai_data = converted,
                                                ai_address = addr\<rparr>))))))"

definition ValidateIDAddress :: "(int \<Rightarrow> int) \<Rightarrow> string \<Rightarrow> bool" where
  "ValidateIDAddress ulower addr = (case DecodeIDAddress ulower addr of Inl _ \<Rightarrow> False | Inr _ \<Rightarrow> True)"

definition GetAddressType :: "int \<Rightarrow> string" where
  "GetAddressType version =
     (if version = VersionP2PKH then ''Pay-to-PubKey-Hash''
      else if version = VersionP2SH then ''Pay-to-Script-Hash''
      else if version = VersionP2WPKH then ''Pay-to-Witness-PubKey-Hash''
      else if version = VersionP2WSH then ''Pay-to-Witness-Script-Hash''
      else if version = VersionP2MS then ''Pay-to-Multisig''
      else if version = VersionP2TR then ''Pay-to-Taproot''
      else ''Unknown'')"

end
