(* ===== verification/IdCodec.thy ===== *)
theory IdCodec
  imports IdAddress
begin

text \<open>
  Correctness of the ID address codec of \<open>IdAddress\<close>: regrouping bits loses nothing, the BCH
  remainder is linear and never absorbs an error, encoding and decoding are inverse, single
  substitutions and neighbour swaps are rejected, and what the rune loop of the decoder lets
  through.
\<close>

section \<open>Bit regrouping is lossless\<close>

subsection \<open>Bit lists\<close>

definition bl :: "nat \<Rightarrow> int \<Rightarrow> bool list" where
  "bl n v = rev (map (bit v) [0..<n])"

lemma length_bl [simp]: "length (bl n v) = n"
  by (simp add: bl_def)

lemma bl_0 [simp]: "bl 0 v = []"
  by (simp add: bl_def)

lemma bl_nth: "i < n \<Longrightarrow> bl n v ! i = bit v (n - 1 - i)"
  by (simp add: bl_def rev_nth)

lemma bl_eq_iff: "bl n v = bl n w \<longleftrightarrow> (\<forall>i < n. bit v i = bit w i)"
  by (auto simp: bl_def map_eq_conv)

lemma bl_add: "bl (a + b) v = bl a (drop_bit b v) @ bl b v"
proof -
  have "[0..<a + b] = [0..<b] @ map (\<lambda>i. i + b) [0..<a]"
    by (metis add.commute add_0 le0 map_add_upt upt_add_eq_append)
  then show ?thesis
    by (simp add: bl_def bit_drop_bit_eq o_def rev_map ac_simps)
qed

lemma bl_and_mask: "n \<le> m \<Longrightarrow> bl n (v AND mask m) = bl n v"
  by (auto simp: bl_eq_iff bit_and_iff bit_mask_iff)

lemma bl_push_or: "bl (a + b) (push_bit b acc OR v) = bl a acc @ bl b v"
  if "drop_bit b v = 0"
proof -
  have "drop_bit b (push_bit b acc OR v) = acc"
    using that by (simp add: drop_bit_push_bit bit_eq_iff bit_simps)
  moreover have "bl b (push_bit b acc OR v) = bl b v"
    by (auto simp: bl_eq_iff bit_simps)
  ultimately show ?thesis by (simp add: bl_add)
qed

lemma bl_inj: "bl n v = bl n w \<Longrightarrow> 0 \<le> v \<Longrightarrow> v < 2 ^ n \<Longrightarrow> 0 \<le> w \<Longrightarrow> w < 2 ^ n \<Longrightarrow> v = w"
  by (metis bl_eq_iff bit_take_bit_iff bit_eqI take_bit_int_eq_self)

lemma bl_push: "bl (a + b) (push_bit b acc) = bl a acc @ replicate b False"
proof -
  have "bl b (push_bit b acc) = replicate b False"
    by (rule nth_equalityI) (auto simp: bl_nth bit_simps)
  then show ?thesis by (simp add: bl_add bl_eq_iff bit_simps)
qed

lemma bl_0_right: "bl n 0 = replicate n False"
  by (rule nth_equalityI) (auto simp: bl_nth)

lemma bl_all_False: "bl n v = replicate n False \<longleftrightarrow> take_bit n v = 0"
  unfolding bl_0_right [symmetric] bl_eq_iff
  by (auto simp: bit_eq_iff bit_take_bit_iff)

subsection \<open>Regrouping keeps the bit string\<close>

lemma cb_emit_bits:
  "cb_emit acc bits t = (b, out) \<Longrightarrow> 0 < t \<Longrightarrow>
     bl bits acc = concat (map (bl t) out) @ bl b acc \<and> b < t \<and> b = bits mod t
     \<and> (\<forall>v \<in> set out. 0 \<le> v \<and> v < 2 ^ t)"
proof (induction acc bits t arbitrary: b out rule: cb_emit.induct)
  case (1 acc bits t)
  show ?case
  proof (cases "bits < t")
    case True
    with 1 show ?thesis by (simp add: cb_emit.simps)
  next
    case False
    obtain b' vs where rec: "cb_emit acc (bits - t) t = (b', vs)"
      by (cases "cb_emit acc (bits - t) t")
    with False "1.prems" have out: "out = (drop_bit (bits - t) acc AND mask t) # vs" "b = b'"
      by (auto simp: cb_emit.simps [of acc bits t] Let_def)
    have IH: "bl (bits - t) acc = concat (map (bl t) vs) @ bl b' acc" "b' < t"
      "b' = (bits - t) mod t" "\<forall>v \<in> set vs. 0 \<le> v \<and> v < 2 ^ t"
      using "1.IH" [OF _ refl refl] False "1.prems"(2) rec by auto
    have "bl bits acc = bl t (drop_bit (bits - t) acc) @ bl (bits - t) acc"
      using bl_add [of t "bits - t" acc] False by simp
    moreover have "0 \<le> drop_bit (bits - t) acc AND mask t" "drop_bit (bits - t) acc AND mask t < 2 ^ t"
      by (simp_all add: mask_eq_exp_minus_1 flip: take_bit_eq_mask) 
    ultimately show ?thesis
      using IH out False by (simp add: bl_and_mask le_mod_geq)
  qed
qed

lemma cb_loop_bits:
  assumes "cb_loop f t acc bits vs = Some (acc', b, out)" and "bits < t" "0 < f"
  shows "bl bits acc @ concat (map (bl f) vs) = concat (map (bl t) out) @ bl b acc' \<and> b < t
     \<and> (\<forall>v \<in> set out. 0 \<le> v \<and> v < 2 ^ t)"
  using assms
proof (induction vs arbitrary: acc bits acc' b out)
  case Nil
  then show ?case by simp
next
  case (Cons v vs)
  define acc1 where "acc1 = (push_bit f acc OR v) AND mask (f + t - 1)"
  obtain b1 o1 where emit: "cb_emit acc1 (bits + f) t = (b1, o1)"
    by (cases "cb_emit acc1 (bits + f) t")
  from Cons.prems emit obtain rest where v: "drop_bit f v = 0"
    and loop: "cb_loop f t acc1 b1 vs = Some (acc', b, rest)" and out: "out = o1 @ rest"
    by (auto simp: Let_def acc1_def split: if_splits option.splits)
  have e: "bl (bits + f) acc1 = concat (map (bl t) o1) @ bl b1 acc1" "b1 < t"
    "\<forall>v \<in> set o1. 0 \<le> v \<and> v < 2 ^ t"
    using cb_emit_bits [OF emit] Cons.prems by auto
  have "bl (bits + f) acc1 = bl bits acc @ bl f v"
    using Cons.prems v by (simp add: acc1_def bl_and_mask bl_push_or)
  then have bits: "bl bits acc @ bl f v = concat (map (bl t) o1) @ bl b1 acc1"
    using e by simp
  note IH = Cons.IH [OF loop \<open>b1 < t\<close> Cons.prems(3)]
  have "bl bits acc @ concat (map (bl f) (v # vs))
      = (bl bits acc @ bl f v) @ concat (map (bl f) vs)" by simp
  also have "\<dots> = concat (map (bl t) o1) @ (bl b1 acc1 @ concat (map (bl f) vs))"
    by (simp only: bits append_assoc)
  also have "\<dots> = concat (map (bl t) out) @ bl b acc'"
    using IH out by simp
  finally show ?case using IH e out by auto
qed

lemma cb_loop_total:
  "\<forall>v \<in> set vs. 0 \<le> v \<and> v < 2 ^ f \<Longrightarrow> \<exists>r. cb_loop f t acc bits vs = Some r"
proof (induction vs arbitrary: acc bits)
  case (Cons v vs)
  have "drop_bit f v = 0"
    using Cons.prems by (simp add: drop_bit_eq_div)
  with Cons show ?case
    by (simp add: Let_def split: prod.splits option.splits) (metis not_None_eq)
qed simp

lemma concat_bl_length [simp]: "length (concat (map (bl n) vs)) = n * length vs"
  by (induction vs) auto

lemma concat_bl_inj:
  "concat (map (bl n) vs) = concat (map (bl n) ws) \<Longrightarrow> length vs = length ws \<Longrightarrow>
   \<forall>v \<in> set vs. 0 \<le> v \<and> v < 2 ^ n \<Longrightarrow> \<forall>w \<in> set ws. 0 \<le> w \<and> w < 2 ^ n \<Longrightarrow> vs = ws"
proof (induction vs arbitrary: ws)
  case (Cons v vs)
  then obtain w ws' where "ws = w # ws'" by (cases ws) auto
  with Cons show ?case by (auto dest: bl_inj)
qed simp

lemma convertBits_pad_bits:
  assumes "convertBits data f t True = Inr out" "0 < f" "0 < t"
  shows "\<exists>p < t. concat (map (bl t) out) = concat (map (bl f) data) @ replicate p False
     \<and> (\<forall>v \<in> set out. 0 \<le> v \<and> v < 2 ^ t)"
proof -
  from assms(1) obtain acc b ret where loop: "cb_loop f t 0 0 data = Some (acc, b, ret)"
    and out: "out = (if 0 < b then ret @ [push_bit (t - b) acc AND mask t] else ret)"
    by (auto simp: convertBits_def split: option.splits)
  note bits = cb_loop_bits [OF loop assms(3,2)]
  show ?thesis
  proof (cases "0 < b")
    case False
    with bits out assms(3) show ?thesis by (intro exI [of _ 0]) simp
  next
    case True
    have "bl t (push_bit (t - b) acc AND mask t) = bl b acc @ replicate (t - b) False"
      using bl_push [of b "t - b" acc] bits by (simp add: bl_and_mask)
    moreover have "0 \<le> push_bit (t - b) acc AND mask t" "push_bit (t - b) acc AND mask t < 2 ^ t"
      by (simp_all add: mask_eq_exp_minus_1 flip: take_bit_eq_mask)
    ultimately show ?thesis
      using bits out True by (intro exI [of _ "t - b"]) auto
  qed
qed

text \<open>Regrouping 8-bit bytes to padded 5-bit values and back is the identity.\<close>

lemma convertBits_8_5_total:
  "\<forall>v \<in> set data. 0 \<le> v \<and> v < 256 \<Longrightarrow> \<exists>out. convertBits data 8 5 True = Inr out"
  using cb_loop_total [of data 8 5 0 0] by (auto simp: convertBits_def)

lemma convertBits_roundtrip:
  assumes bytes: "\<forall>v \<in> set data. 0 \<le> v \<and> v < 256"
    and enc: "convertBits data 8 5 True = Inr mid"
  shows "convertBits mid 5 8 False = Inr data" "\<forall>v \<in> set mid. 0 \<le> v \<and> v < 32"
proof -
  obtain p where p: "p < 5"
      "concat (map (bl 5) mid) = concat (map (bl 8) data) @ replicate p False"
      and mid: "\<forall>v \<in> set mid. 0 \<le> v \<and> v < 32"
    using convertBits_pad_bits [OF enc] by auto
  show "\<forall>v \<in> set mid. 0 \<le> v \<and> v < 32" by (rule mid)
  obtain acc b ret where loop: "cb_loop 5 8 0 0 mid = Some (acc, b, ret)"
    using cb_loop_total [of mid 5 8 0 0] mid by (auto simp: prod_cases3)
  note bits = cb_loop_bits [OF loop]
  have eq: "concat (map (bl 8) data) @ replicate p False = concat (map (bl 8) ret) @ bl b acc"
    "b < 8" "\<forall>v \<in> set ret. 0 \<le> v \<and> v < 256"
    using bits p by auto
  from arg_cong [OF eq(1), of length] have "8 * length data + p = 8 * length ret + b"
    by simp
  with p(1) eq(2) have len: "length data = length ret" "b = p" by arith+
  with eq(1) have parts: "concat (map (bl 8) data) = concat (map (bl 8) ret)"
    "bl p acc = replicate p False"
    by (simp_all add: append_eq_append_conv)
  then have "ret = data"
    using concat_bl_inj [of 8 ret data] len bytes eq(3) by simp
  moreover have "push_bit (8 - p) acc AND mask 8 = 0"
    using parts(2) p(1) by (auto simp: bl_all_False bit_eq_iff bit_simps)
  ultimately show "convertBits mid 5 8 False = Inr data"
    using loop len p(1) by (simp add: convertBits_def)
qed

section \<open>The checksum is linear\<close>

definition bch_top :: "int \<Rightarrow> int" where
  "bch_top chk =
     (if bit chk 25 then 0x3b6a57b2 else 0) XOR (if bit chk 26 then 0x26508e6d else 0) XOR
     (if bit chk 27 then 0x1ea119fa else 0) XOR (if bit chk 28 then 0x3d4233dd else 0) XOR
     (if bit chk 29 then 0x2a1462b3 else 0)"

lemma upt_5: "[0..<5] = [0, 1, 2, 3, 4::nat]"
  by (simp add: upt_rec)

lemma drop_bit_and_1: "drop_bit i (drop_bit 25 chk) AND 1 = 1 \<longleftrightarrow> bit chk (25 + i)" for chk :: int
  by (simp add: and_one_eq bit_iff_odd_drop_bit odd_iff_mod_2_eq_one drop_bit_drop_bit add.commute)

lemma polymod_step_eq:
  "polymod_step chk v = push_bit 5 (take_bit 25 chk) XOR v XOR bch_top chk"
proof -
  have m: "chk AND 0x1ffffff = take_bit 25 chk"
    by (simp add: take_bit_eq_mask mask_eq_exp_minus_1)
  have c: "(if Q then c XOR g else c) = c XOR (if Q then g else 0)" for Q and c g :: int
    by simp
  have n: "bch_gen ! 0 = 0x3b6a57b2" "bch_gen ! 1 = 0x26508e6d" "bch_gen ! 2 = 0x1ea119fa"
    "bch_gen ! 3 = 0x3d4233dd" "bch_gen ! 4 = 0x2a1462b3"
    by (simp_all add: bch_gen_def)
  have a: "25 + 0 = (25::nat)" "25 + 1 = (26::nat)" "25 + 2 = (27::nat)" "25 + 3 = (28::nat)"
    "25 + 4 = (29::nat)" by simp_all
  show ?thesis
    unfolding polymod_step_def Let_def upt_5 m
    by (simp only: foldl.simps c drop_bit_and_1 n a bch_top_def xor.assoc)
qed

lemma bch_top_xor: "bch_top (a XOR b) = bch_top a XOR bch_top b"
proof -
  have "(if bit (a XOR b) n then g else 0) = (if bit a n then g else 0) XOR (if bit b n then g else 0)"
    for n and g :: int
    by (simp add: bit_xor_iff)
  then show ?thesis
    unfolding bch_top_def by (simp only: ac_simps)
qed

lemma polymod_step_xor:
  "polymod_step (a XOR b) (v XOR w) = polymod_step a v XOR polymod_step b w"
  by (simp add: polymod_step_eq bch_top_xor push_bit_xor take_bit_xor ac_simps)

lemma foldl_step_xor:
  "length vs = length ws \<Longrightarrow>
   foldl polymod_step (a XOR b) (map2 (XOR) vs ws) = foldl polymod_step a vs XOR foldl polymod_step b ws"
  by (induction vs ws arbitrary: a b rule: list_induct2) (auto simp: polymod_step_xor)

definition w30 :: "int \<Rightarrow> bool" where
  "w30 x \<longleftrightarrow> take_bit 30 x = x"

lemma w30_xor: "w30 x \<Longrightarrow> w30 y \<Longrightarrow> w30 (x XOR y)"
  by (simp add: w30_def take_bit_xor)

lemma w30_small: "0 \<le> x \<Longrightarrow> x < 2 ^ 30 \<Longrightarrow> w30 x"
  by (simp add: w30_def take_bit_int_eq_self)

lemma w30_if: "w30 x \<Longrightarrow> w30 (if b then x else 0)"
  by (simp add: w30_def)

lemma w30_step: "w30 v \<Longrightarrow> w30 (polymod_step chk v)"
proof -
  assume v: "w30 v"
  have "w30 (push_bit 5 (take_bit 25 chk))"
    by (auto simp: w30_def bit_eq_iff bit_simps)
  moreover have "w30 (bch_top chk)"
    unfolding bch_top_def by (intro w30_xor w30_if w30_small) simp_all
  ultimately show ?thesis
    using v by (simp add: polymod_step_eq w30_xor)
qed

lemma w30_foldl: "w30 c \<Longrightarrow> \<forall>v \<in> set vs. w30 v \<Longrightarrow> w30 (foldl polymod_step c vs)"
  by (induction vs arbitrary: c) (auto intro: w30_step)

text \<open>Feeding a zero is injective on 30-bit remainders: no error is ever absorbed.\<close>

lemma bch_top_low: "take_bit 5 (bch_top d) = 0 \<Longrightarrow>
    \<not> bit d 25 \<and> \<not> bit d 26 \<and> \<not> bit d 27 \<and> \<not> bit d 28 \<and> \<not> bit d 29"
  by (cases "bit d 25"; cases "bit d 26"; cases "bit d 27"; cases "bit d 28"; cases "bit d 29")
     (simp_all add: bch_top_def take_bit_eq_mod)

lemma polymod_step_zero:
  assumes "w30 d" "polymod_step d 0 = 0" shows "d = 0"
proof -
  have eq: "push_bit 5 (take_bit 25 d) XOR bch_top d = 0"
    using assms(2) by (simp add: polymod_step_eq)
  have "take_bit 5 (push_bit 5 (take_bit 25 d)) = 0"
    by (auto simp: bit_eq_iff bit_simps)
  with arg_cong [OF eq, of "take_bit 5"] have "take_bit 5 (bch_top d) = 0"
    by (simp add: take_bit_xor)
  note tops = bch_top_low [OF this]
  then have "bch_top d = 0" by (simp add: bch_top_def)
  with eq have "take_bit 25 d = 0" by simp
  have "\<not> bit d n" for n
  proof (cases "n < 25")
    case True
    with \<open>take_bit 25 d = 0\<close> show ?thesis by (metis bit_0_eq bit_take_bit_iff bot_apply bot_bool_def)
  next
    case False
    show ?thesis
    proof (cases "n < 30")
      case True
      with False have "n = 25 \<or> n = 26 \<or> n = 27 \<or> n = 28 \<or> n = 29" by arith
      with tops show ?thesis by auto
    next
      case False
      with assms(1) show ?thesis unfolding w30_def by (metis bit_take_bit_iff)
    qed
  qed
  then show ?thesis by (simp add: bit_eq_iff)
qed

lemma foldl_zeros_nonzero:
  "w30 d \<Longrightarrow> d \<noteq> 0 \<Longrightarrow> foldl polymod_step d (replicate n 0) \<noteq> 0"
proof (induction n arbitrary: d)
  case (Suc n)
  have "polymod_step d 0 \<noteq> 0" using Suc polymod_step_zero by blast
  moreover have "w30 (polymod_step d 0)" by (rule w30_step) (simp add: w30_def)
  ultimately show ?case using Suc.IH by simp
qed simp

lemma polymod_diff:
  assumes "length vs = length ws"
  shows "polymod vs XOR polymod ws = foldl polymod_step 0 (map2 (XOR) vs ws)"
  using foldl_step_xor [OF assms, of 1 1] by (simp add: polymod_def)

lemma foldl_step_0: "foldl polymod_step 0 (replicate n 0) = 0"
  by (induction n) (simp_all add: polymod_step_eq bch_top_def)

lemma map2_xor_self: "map2 (XOR) vs vs = replicate (length vs) (0::int)"
  by (induction vs) auto

lemma step_0: "polymod_step 0 v = v"
  by (simp add: polymod_step_eq bch_top_def)

text \<open>A substituted value always changes the remainder.\<close>

lemma polymod_substitution:
  assumes "a \<noteq> b" "w30 a" "w30 b"
  shows "polymod (xs @ a # ys) \<noteq> polymod (xs @ b # ys)"
proof
  assume eq: "polymod (xs @ a # ys) = polymod (xs @ b # ys)"
  have "foldl polymod_step 0 (map2 (XOR) (xs @ a # ys) (xs @ b # ys))
      = foldl polymod_step (a XOR b) (replicate (length ys) 0)"
    by (simp add: map2_xor_self foldl_step_0 step_0)
  with polymod_diff [of "xs @ a # ys" "xs @ b # ys"] eq
  have "foldl polymod_step (a XOR b) (replicate (length ys) 0) = 0" by simp
  moreover have "a XOR b \<noteq> 0" using assms(1) by (metis xor.assoc xor.left_neutral xor_self_eq)
  ultimately show False
    using foldl_zeros_nonzero [of "a XOR b" "length ys"] assms w30_xor by blast
qed

text \<open>Swapping two different neighbours always changes the remainder.\<close>

lemma polymod_transposition:
  assumes "a \<noteq> b" "0 \<le> a" "a < 32" "0 \<le> b" "b < 32"
  shows "polymod (xs @ a # b # ys) \<noteq> polymod (xs @ b # a # ys)"
proof
  assume eq: "polymod (xs @ a # b # ys) = polymod (xs @ b # a # ys)"
  let ?d = "a XOR b"
  have d: "?d \<noteq> 0" using assms(1) by (metis xor.assoc xor.left_neutral xor_self_eq)
  have small: "take_bit 5 a = a" "take_bit 5 b = b"
    using assms by (auto intro: take_bit_int_eq_self)
  then have d5: "take_bit 5 ?d = ?d" by (simp add: take_bit_xor)
  have nob: "\<not> bit ?d n" if "5 \<le> n" for n
    using that d5 by (metis bit_take_bit_iff not_less)
  have "foldl polymod_step 0 (map2 (XOR) (xs @ a # b # ys) (xs @ b # a # ys))
      = foldl polymod_step (polymod_step ?d ?d) (replicate (length ys) 0)"
    by (simp add: map2_xor_self foldl_step_0 step_0 xor.commute)
  with polymod_diff [of "xs @ a # b # ys" "xs @ b # a # ys"] eq
  have z: "foldl polymod_step (polymod_step ?d ?d) (replicate (length ys) 0) = 0" by simp
  have "polymod_step ?d ?d = push_bit 5 (take_bit 25 ?d) XOR ?d"
    using nob by (simp add: polymod_step_eq bch_top_def)
  moreover have "take_bit 25 ?d = ?d"
  proof -
    have "take_bit 25 (take_bit 5 ?d) = take_bit 5 ?d" by simp
    then show ?thesis by (simp only: d5)
  qed
  ultimately have e: "polymod_step ?d ?d = push_bit 5 ?d XOR ?d" by (simp only:)
  have "take_bit 5 (polymod_step ?d ?d) = ?d"
    unfolding e using d5 by (simp add: take_bit_xor take_bit_push_bit)
  with d have "polymod_step ?d ?d \<noteq> 0" by (metis take_bit_of_0)
  moreover have "w30 (polymod_step ?d ?d)"
    using small assms by (intro w30_step w30_xor w30_small) simp_all
  ultimately show False using foldl_zeros_nonzero z by blast
qed

section \<open>Creating a checksum makes the word verify\<close>

definition small5 :: "int \<Rightarrow> bool" where
  "small5 v \<longleftrightarrow> 0 \<le> v \<and> v < 32"

lemma small5_w30: "small5 v \<Longrightarrow> w30 v"
  by (simp add: small5_def w30_small)

lemma w30_bits: "w30 d \<Longrightarrow> 30 \<le> n \<Longrightarrow> \<not> bit d n"
  unfolding w30_def by (metis bit_take_bit_iff not_less)

lemma take_bit_id: "(\<And>n. m \<le> n \<Longrightarrow> \<not> bit x n) \<Longrightarrow> take_bit m x = x" for x :: int
  by (rule bit_eqI) (metis bit_take_bit_iff not_less)

lemma polymod_step_unpack:
  assumes "w30 md"
  shows "polymod_step (drop_bit (5 * Suc k) md) (take_bit 5 (drop_bit (5 * k) md)) = drop_bit (5 * k) md"
proof -
  let ?c = "drop_bit (5 * Suc k) md"
  have nb: "\<not> bit ?c n" if "25 \<le> n" for n
    using w30_bits [OF assms] that by (simp add: bit_drop_bit_eq)
  have "take_bit 25 ?c = ?c"
    using nb by (rule take_bit_id)
  moreover have "bch_top ?c = 0" using nb by (simp add: bch_top_def)
  moreover have "push_bit 5 ?c XOR take_bit 5 (drop_bit (5 * k) md) = drop_bit (5 * k) md"
    by (rule bit_eqI) (auto simp: bit_simps not_le)
  ultimately show ?thesis by (simp add: polymod_step_eq)
qed

lemma and_31: "x AND 31 = take_bit 5 x" for x :: int
  by (simp add: take_bit_eq_mask mask_eq_exp_minus_1)

lemma upt_6: "[0..<6] = [0, 1, 2, 3, 4, 5::nat]"
  by (simp add: upt_rec)

definition checksum_of :: "int \<Rightarrow> int list" where
  "checksum_of md = map (\<lambda>i. drop_bit (5 * (5 - i)) md AND 31) [0..<6]"

lemma polymod_checksum_of:
  assumes "w30 md" shows "foldl polymod_step 0 (checksum_of md) = md"
proof -
  have c: "checksum_of md = map (\<lambda>k. take_bit 5 (drop_bit (5 * k) md)) [5, 4, 3, 2, 1, 0]"
    by (simp add: checksum_of_def upt_6 and_31)
  have "take_bit 5 (drop_bit (5 * 5) md) = drop_bit (5 * 5) md"
    using w30_bits [OF assms] by (intro take_bit_id) (simp add: bit_drop_bit_eq)
  moreover note polymod_step_unpack [OF assms, of 4] polymod_step_unpack [OF assms, of 3]
    polymod_step_unpack [OF assms, of 2] polymod_step_unpack [OF assms, of 1]
    polymod_step_unpack [OF assms, of 0]
  ultimately show ?thesis
    unfolding c by (simp add: step_0)
qed

lemma w30_1: "w30 1" by (simp add: w30_def)
lemma w30_0: "w30 0" by (simp add: w30_def)

lemma checksum_absorb:
  assumes "\<forall>v \<in> set vs. w30 v" and "w30 k"
  shows "polymod (vs @ checksum_of (polymod (vs @ [0, 0, 0, 0, 0, 0]) XOR k)) = k"
proof -
  let ?z = "[0, 0, 0, 0, 0, 0] :: int list"
  let ?m = "polymod (vs @ ?z)"
  let ?cs = "checksum_of (?m XOR k)"
  have m: "w30 ?m"
    using assms unfolding polymod_def by (intro w30_foldl) (auto simp: w30_1 w30_0)
  have "length ?cs = 6" by (simp add: checksum_of_def)
  then have "map2 (XOR) ?z ?cs = ?cs"
    by (auto simp: list_eq_iff_nth_eq nth_Cons split: nat.splits)
  then have "foldl polymod_step (polymod vs) ?cs
      = foldl polymod_step (polymod vs) ?z XOR foldl polymod_step 0 ?cs"
    using foldl_step_xor [of ?z ?cs "polymod vs" 0] \<open>length ?cs = 6\<close> by simp
  also have "\<dots> = ?m XOR (?m XOR k)"
    using polymod_checksum_of [of "?m XOR k"] m assms(2) w30_xor
    by (simp add: polymod_def)
  finally show ?thesis
    by (simp add: polymod_def flip: xor.assoc)
qed

lemma createChecksum_verifies:
  assumes "\<forall>v \<in> set (h @ data). w30 v"
  shows "verifyChecksum h (data @ createChecksum h data)"
  using checksum_absorb [OF assms w30_1]
  by (simp add: verifyChecksum_def createChecksum_def checksum_of_def)

lemma createChecksum_alt:
  "createChecksum h data = checksum_of (polymod (h @ data @ [0, 0, 0, 0, 0, 0]) XOR 1)"
  by (simp add: createChecksum_def checksum_of_def)

lemma checksum_of_small: "length (checksum_of md) = 6" "\<forall>v \<in> set (checksum_of md). small5 v"
proof -
  have "take_bit 5 x < 32" for x :: int
    using take_bit_int_less_exp [of 5 x] by simp
  then show "length (checksum_of md) = 6" "\<forall>v \<in> set (checksum_of md). small5 v"
    unfolding checksum_of_def and_31 small5_def by auto
qed

lemma createChecksum_small:
  "length (createChecksum h data) = 6" "\<forall>v \<in> set (createChecksum h data). small5 v"
  unfolding createChecksum_alt by (rule checksum_of_small)+

section \<open>Character tables\<close>

lemma Charset_length [simp]: "length Charset = 32"
  by (simp add: Charset_def)

lemma all_below_32: "(\<forall>i < 32. P i) \<longleftrightarrow> list_all P [0..<32::nat]"
  by (auto simp: list_all_iff)

lemma CharsetMap_Charset: "i < 32 \<Longrightarrow> mget CharsetMap (byte (Charset ! i)) = Some (int i)"
proof -
  have "list_all (\<lambda>i. mget CharsetMap (byte (Charset ! i)) = Some (int i)) [0..<32]"
    by code_simp
  then show "i < 32 \<Longrightarrow> ?thesis" by (simp add: list_all_iff)
qed

lemma CharsetMap_range:
  "mget CharsetMap b = Some v \<Longrightarrow> small5 v \<and> b = byte (Charset ! nat v)"
proof -
  have k: "list_all (\<lambda>(b, v). small5 v \<and> b = byte (Charset ! nat v)) CharsetMap"
    by code_simp
  assume "mget CharsetMap b = Some v"
  then have "(b, v) \<in> set CharsetMap" by (rule map_of_SomeD)
  with k show ?thesis by (auto simp: list_all_iff)
qed

lemma Charset_plain: "c \<in> set Charset \<Longrightarrow> ascii c \<and> lower_byte (byte c) = byte c \<and> c \<noteq> Separator"
proof -
  have "list_all (\<lambda>c. ascii c \<and> lower_byte (byte c) = byte c \<and> c \<noteq> Separator) Charset"
    by code_simp
  then show "c \<in> set Charset \<Longrightarrow> ?thesis" by (simp add: list_all_iff)
qed

definition plain :: "string \<Rightarrow> bool" where
  "plain s \<longleftrightarrow> (\<forall>c \<in> set s. ascii c \<and> lower_byte (byte c) = byte c)"

lemma to_lower_plain: "plain s \<Longrightarrow> to_lower ulower s = s"
  by (auto simp: to_lower_def plain_def list_all_iff intro!: map_idI)

lemma plain_append [simp]: "plain (s @ t) \<longleftrightarrow> plain s \<and> plain t"
  by (auto simp: plain_def)

lemma plain_Charset: "set s \<subseteq> set Charset \<Longrightarrow> plain s"
  using Charset_plain by (auto simp: plain_def)

lemma Separator_notin: "set s \<subseteq> set Charset \<Longrightarrow> Separator \<notin> set s"
  using Charset_plain by blast

definition chars_of :: "int list \<Rightarrow> string" where
  "chars_of vs = map (\<lambda>v. Charset ! nat v) vs"

lemma chars_of_set: "\<forall>v \<in> set vs. small5 v \<Longrightarrow> set (chars_of vs) \<subseteq> set Charset"
  by (auto simp: chars_of_def small5_def)

lemma charset_string: "set s \<subseteq> set Charset \<Longrightarrow> \<exists>vs. s = chars_of vs \<and> (\<forall>v \<in> set vs. small5 v)"
proof (induction s)
  case Nil
  then show ?case by (intro exI [of _ "[]"]) (simp add: chars_of_def)
next
  case (Cons c s)
  then obtain vs where vs: "s = chars_of vs" "\<forall>v \<in> set vs. small5 v" by auto
  from Cons obtain i where "i < 32" "c = Charset ! i"
    by (metis Charset_length in_set_conv_nth list.set_intros(1) subsetD)
  with vs show ?case
    by (intro exI [of _ "int i # vs"]) (simp add: chars_of_def small5_def)
qed

lemma runes_ascii: "list_all ascii s \<Longrightarrow> runes_of s = zip [0..<length s] (map byte s)"
  using range_runes_ascii [of "map byte s" 0]
  by (simp add: runes_of_def ascii_def list_all_iff)

text \<open>The decoding loop reads back what \<open>Charset\<close> printed.\<close>

lemma decode_chars_chars_of:
  "\<forall>v \<in> set vs. small5 v \<Longrightarrow> k + length vs \<le> length dec \<Longrightarrow>
   decode_chars dec (zip [k..<k + length vs] (map byte (chars_of vs)))
     = Inr (take k dec @ vs @ drop (k + length vs) dec)"
proof (induction vs arbitrary: k dec)
  case Nil
  then show ?case by (simp add: chars_of_def)
next
  case (Cons v vs)
  have v: "nat v < 32" "int (nat v) = v" using Cons.prems by (auto simp: small5_def)
  have "byte (Charset ! nat v) mod 256 = byte (Charset ! nat v)" by simp
  with v have look: "mget CharsetMap (byte (Charset ! nat v) mod 256) = Some v"
    using CharsetMap_Charset [of "nat v"] by simp
  have "zip [k..<k + length (v # vs)] (map byte (chars_of (v # vs)))
      = (k, byte (Charset ! nat v)) # zip [Suc k..<Suc k + length vs] (map byte (chars_of vs))"
    by (simp add: chars_of_def upt_conv_Cons del: upt_Suc)
  with look show ?case
    using Cons.IH [of "Suc k" "dec[k := v]"] Cons.prems
    by (simp add: take_Suc_conv_app_nth take_update_swap list_update_append min_def del: upt_Suc)
qed

lemma decode_chars_plain:
  "\<forall>v \<in> set vs. small5 v \<Longrightarrow>
   decode_chars (replicate (length vs) 0) (runes_of (chars_of vs)) = Inr vs"
proof -
  assume vs: "\<forall>v \<in> set vs. small5 v"
  have len: "length (chars_of vs) = length vs" by (simp add: chars_of_def)
  have "list_all ascii (chars_of vs)"
    using chars_of_set [OF vs] Charset_plain by (auto simp: list_all_iff)
  then have "runes_of (chars_of vs) = zip [0..<0 + length vs] (map byte (chars_of vs))"
    by (simp add: runes_ascii len)
  then show ?thesis
    using decode_chars_chars_of [OF vs, of 0 "replicate (length vs) 0"] by simp
qed

section \<open>Decoding a well-formed string\<close>

text \<open>
  Every string \<open>DecodeIDAddress\<close> gets past its format checks is \<open>id\<close>, a version character, the
  separator and a data part. \<open>decode_data\<close> is the rest of the function on the data part.
\<close>

definition decode_data :: "string \<Rightarrow> int \<Rightarrow> string \<Rightarrow> id_error + int list \<Rightarrow> id_error + address_info" where
  "decode_data prefix version addr chars =
     (case chars of
        Inl e \<Rightarrow> Inl e
      | Inr decoded \<Rightarrow>
          if \<not> verifyChecksum (hrpExpand prefix) decoded then Inl ChecksumFailed
          else (case convertBits (intSliceToBytes (take (length decoded - ChecksumLength) decoded)) 5 8 False of
              Inl e \<Rightarrow> Inl e
            | Inr ints \<Rightarrow>
                (case validateDataLength version (intSliceToBytes ints) of
                   Some e \<Rightarrow> Inl e
                 | None \<Rightarrow> Inr \<lparr>ai_version = version, ai_data = intSliceToBytes ints,
                                ai_address = addr\<rparr>)))"

lemma CharVersion_single: "mget CharVersion vc = Some ver \<Longrightarrow>
    \<exists>c. vc = [c] \<and> plain [c] \<and> c \<noteq> Separator \<and> mget VersionChar ver = Some vc"
  by (intro exI [of _ "hd vc"])
     (auto simp: CharVersion_def VersionChar_def plain_def ascii_def lower_byte_def Separator_def
      split: if_splits)

lemma VersionChar_back: "mget VersionChar ver = Some vc \<Longrightarrow> mget CharVersion vc = Some ver"
  by (auto simp: CharVersion_def VersionChar_def split: if_splits)

lemma DecodeIDAddress_parts:
  assumes "mget CharVersion vc = Some ver" and "Separator \<notin> set ds" and "6 \<le> length ds"
    and "to_lower ulower (HRP @ vc @ Separator # ds) = HRP @ vc @ Separator # ds"
  shows "DecodeIDAddress ulower (HRP @ vc @ Separator # ds)
       = decode_data (HRP @ vc) ver (HRP @ vc @ Separator # ds)
           (decode_chars (replicate (length ds) 0) (runes_of ds))"
proof -
  let ?a = "HRP @ vc @ Separator # ds"
  obtain c where vc: "vc = [c]" using CharVersion_single [OF assms(1)] by auto
  have sep: "last_index Separator ?a = Some 3"
    using last_index_append [OF assms(2), of "HRP @ vc"] vc by (simp add: HRP_def)
  have "has_prefix ?a HRP" by (simp add: has_prefix_def)
  moreover have "drop (length HRP) (take 3 ?a) = vc" "drop (3 + 1) ?a = ds"
    using vc by (simp_all add: HRP_def)
  ultimately show ?thesis
    unfolding DecodeIDAddress_def assms(4) Let_def
    using sep assms(1,3)
    by (simp add: decode_data_def ChecksumLength_def HRP_def split: sum.split option.split)
qed

lemma plain_id: "plain HRP" "plain [Separator]"
  by (simp_all add: plain_def HRP_def Separator_def ascii_def lower_byte_def)

lemma plain_address:
  assumes "mget CharVersion vc = Some ver" "set ds \<subseteq> set Charset"
  shows "plain (HRP @ vc @ Separator # ds)"
  using plain_id plain_Charset [OF assms(2)] CharVersion_single [OF assms(1)]
  by (auto simp: plain_def)

lemma DecodeIDAddress_plain:
  assumes "mget CharVersion vc = Some ver" "\<forall>v \<in> set vs. small5 v" "6 \<le> length vs"
  shows "DecodeIDAddress ulower (HRP @ vc @ Separator # chars_of vs)
       = decode_data (HRP @ vc) ver (HRP @ vc @ Separator # chars_of vs) (Inr vs)"
proof -
  note set = chars_of_set [OF assms(2)]
  have len: "length (chars_of vs) = length vs" by (simp add: chars_of_def)
  show ?thesis
    using DecodeIDAddress_parts [OF assms(1) Separator_notin [OF set] _ to_lower_plain [OF plain_address [OF assms(1) set]]]
      decode_chars_plain [OF assms(2)] assms(3) by (simp add: len)
qed

lemma intSliceToBytes_id: "\<forall>v \<in> set vs. 0 \<le> v \<and> v < 256 \<Longrightarrow> intSliceToBytes vs = vs"
  by (auto simp: intSliceToBytes_def intro: map_idI)

lemma hrpExpand_w30: "mget CharVersion vc = Some ver \<Longrightarrow> \<forall>v \<in> set (hrpExpand (HRP @ vc)). w30 v"
proof -
  have k: "list_all (\<lambda>(vc, ver). list_all small5 (hrpExpand (HRP @ vc))) CharVersion"
    by code_simp
  assume "mget CharVersion vc = Some ver"
  then have "(vc, ver) \<in> set CharVersion" by (rule map_of_SomeD)
  with k small5_w30 show ?thesis by (auto simp: list_all_iff)
qed

section \<open>Properties\<close>

lemma DecodeIDAddress_EncodeIDAddress:
  assumes bytes: "\<forall>v \<in> set data. 0 \<le> v \<and> v < 256"
    and enc: "EncodeIDAddress version data = Inr addr"
  shows "DecodeIDAddress ulower addr
       = Inr \<lparr>ai_version = version, ai_data = data, ai_address = addr\<rparr>"
proof -
  from enc obtain vc mid where vc: "mget VersionChar version = Some vc"
    and valid: "validateDataLength version data = None"
    and mid: "convertBits data 8 5 True = Inr mid"
    and addr: "addr = HRP @ vc @ Separator # chars_of (mid @ createChecksum (hrpExpand (HRP @ vc)) mid)"
    by (auto simp: EncodeIDAddress_def Let_def chars_of_def split: option.splits sum.splits)
  define cs where "cs = createChecksum (hrpExpand (HRP @ vc)) mid"
  note cv = VersionChar_back [OF vc]
  note rt = convertBits_roundtrip [OF bytes mid]
  have cs: "length cs = 6" "\<forall>v \<in> set cs. small5 v"
    unfolding cs_def using createChecksum_small by blast+
  have small: "\<forall>v \<in> set (mid @ cs). small5 v"
    using rt(2) cs(2) by (auto simp: small5_def)
  have "\<forall>v \<in> set mid. w30 v"
    using rt(2) by (auto intro!: small5_w30 simp: small5_def)
  then have "verifyChecksum (hrpExpand (HRP @ vc)) (mid @ cs)"
    unfolding cs_def using hrpExpand_w30 [OF cv] by (intro createChecksum_verifies) auto
  moreover have "intSliceToBytes mid = mid" "intSliceToBytes data = data"
    using rt(2) bytes by (auto intro!: intSliceToBytes_id)
  ultimately show ?thesis
    using DecodeIDAddress_plain [OF cv small] rt(1) valid cs(1) addr
    by (simp add: decode_data_def ChecksumLength_def cs_def)
qed

text \<open>
  C30: encoding then decoding is the identity: for every version and every payload of bytes
  that \<open>EncodeIDAddress\<close> accepts, \<open>DecodeIDAddress\<close> of the address returns that version and
  payload.
\<close>

theorem id_address_roundtrip:
  assumes bytes: "\<forall>v \<in> set data. 0 \<le> v \<and> v < 256"
    and enc: "EncodeIDAddress version data = Inr addr"
  shows "DecodeIDAddress ulower addr
       = Inr \<lparr>ai_version = version, ai_data = data, ai_address = addr\<rparr>"
  using assms by (rule DecodeIDAddress_EncodeIDAddress)

text \<open>The data part of an accepted plain address, as 5-bit values.\<close>

lemma decode_data_checksum:
  "decode_data prefix ver addr (Inr vs) = Inr info \<Longrightarrow> polymod (hrpExpand prefix @ vs) = 1"
  by (auto simp: decode_data_def verifyChecksum_def split: if_splits)

lemma decode_data_rejects:
  "polymod (hrpExpand prefix @ vs) \<noteq> 1 \<Longrightarrow> decode_data prefix ver addr (Inr vs) = Inl ChecksumFailed"
  by (simp add: decode_data_def verifyChecksum_def)

lemma chars_of_append: "chars_of (vs @ ws) = chars_of vs @ chars_of ws"
  by (simp add: chars_of_def)

lemma charset_char: "c \<in> set Charset \<Longrightarrow> \<exists>v. small5 v \<and> chars_of [v] = [c]"
  using charset_string [of "[c]"] by (auto simp: chars_of_def)

lemma decoded_length_6:
  assumes "DecodeIDAddress ulower (HRP @ vc @ Separator # ds) = Inr info"
    and "mget CharVersion vc = Some ver" "set ds \<subseteq> set Charset"
  shows "6 \<le> length ds"
proof (rule ccontr)
  assume short: "\<not> 6 \<le> length ds"
  let ?a = "HRP @ vc @ Separator # ds"
  obtain c where vc: "vc = [c]" using CharVersion_single [OF assms(2)] by auto
  have "last_index Separator ?a = Some 3"
    using last_index_append [OF Separator_notin [OF assms(3)], of "HRP @ vc"] vc by (simp add: HRP_def)
  moreover have "drop (length HRP) (take 3 ?a) = vc" "drop (3 + 1) ?a = ds"
    using vc by (simp_all add: HRP_def)
  moreover have "has_prefix ?a HRP" by (simp add: has_prefix_def)
  ultimately have "DecodeIDAddress ulower ?a = Inl AddressTooShort"
    unfolding DecodeIDAddress_def to_lower_plain [OF plain_address [OF assms(2,3)]] Let_def
    using assms(2) short by (simp add: ChecksumLength_def HRP_def)
  with assms(1) show False by simp
qed

text \<open>
  C31: replacing any one character of the data part of a valid address by another character of
  the base32 alphabet makes \<open>DecodeIDAddress\<close> fail with the checksum error, at any length.
\<close>

theorem id_address_detects_substitution:
  assumes valid: "DecodeIDAddress ulower (HRP @ vc @ Separator # xs @ a # ys) = Inr info"
    and vc: "mget CharVersion vc = Some ver"
    and alphabet: "set (xs @ a # ys) \<subseteq> set Charset" "b \<in> set Charset"
    and diff: "b \<noteq> a"
  shows "DecodeIDAddress ulower (HRP @ vc @ Separator # xs @ b # ys) = Inl ChecksumFailed"
proof -
  obtain us where us: "xs = chars_of us" "\<forall>v \<in> set us. small5 v"
    using alphabet charset_string [of xs] by auto
  obtain ws where ws: "ys = chars_of ws" "\<forall>v \<in> set ws. small5 v"
    using alphabet charset_string [of ys] by auto
  obtain va vb where v: "small5 va" "chars_of [va] = [a]" "small5 vb" "chars_of [vb] = [b]"
    using alphabet charset_char [of a] charset_char [of b] by auto
  have A: "xs @ a # ys = chars_of (us @ va # ws)" and B: "xs @ b # ys = chars_of (us @ vb # ws)"
    using us ws v by (simp_all add: chars_of_def)
  have len: "6 \<le> length (us @ va # ws)"
    using decoded_length_6 [OF valid vc alphabet(1)] us ws by (simp add: chars_of_def)
  have small: "\<forall>v \<in> set (us @ va # ws). small5 v" "\<forall>v \<in> set (us @ vb # ws). small5 v"
    using us ws v by auto
  have "va \<noteq> vb" using diff v by auto
  have "polymod (hrpExpand (HRP @ vc) @ us @ va # ws) = 1"
    using valid unfolding A DecodeIDAddress_plain [OF vc small(1) len] by (rule decode_data_checksum)
  with polymod_substitution [OF \<open>va \<noteq> vb\<close>, of "hrpExpand (HRP @ vc) @ us" ws] v small5_w30
  have "polymod (hrpExpand (HRP @ vc) @ us @ vb # ws) \<noteq> 1" by simp
  then show ?thesis
    unfolding B using DecodeIDAddress_plain [OF vc small(2)] len by (simp add: decode_data_rejects)
qed

text \<open>
  Swapping two different neighbouring characters of the data part of a valid address makes
  \<open>DecodeIDAddress\<close> fail with the checksum error.
\<close>

theorem id_address_detects_transposition:
  assumes valid: "DecodeIDAddress ulower (HRP @ vc @ Separator # xs @ a # b # ys) = Inr info"
    and vc: "mget CharVersion vc = Some ver"
    and alphabet: "set (xs @ a # b # ys) \<subseteq> set Charset"
    and diff: "a \<noteq> b"
  shows "DecodeIDAddress ulower (HRP @ vc @ Separator # xs @ b # a # ys) = Inl ChecksumFailed"
proof -
  obtain us where us: "xs = chars_of us" "\<forall>v \<in> set us. small5 v"
    using alphabet charset_string [of xs] by auto
  obtain ws where ws: "ys = chars_of ws" "\<forall>v \<in> set ws. small5 v"
    using alphabet charset_string [of ys] by auto
  obtain va vb where v: "small5 va" "chars_of [va] = [a]" "small5 vb" "chars_of [vb] = [b]"
    using alphabet charset_char [of a] charset_char [of b] by auto
  have A: "xs @ a # b # ys = chars_of (us @ va # vb # ws)"
    and B: "xs @ b # a # ys = chars_of (us @ vb # va # ws)"
    using us ws v by (simp_all add: chars_of_def)
  have len: "6 \<le> length (us @ va # vb # ws)"
    using decoded_length_6 [OF valid vc alphabet] us ws by (simp add: chars_of_def)
  have small: "\<forall>v \<in> set (us @ va # vb # ws). small5 v" "\<forall>v \<in> set (us @ vb # va # ws). small5 v"
    using us ws v by auto
  have "va \<noteq> vb" using diff v by auto
  have "polymod (hrpExpand (HRP @ vc) @ us @ va # vb # ws) = 1"
    using valid unfolding A DecodeIDAddress_plain [OF vc small(1) len] by (rule decode_data_checksum)
  with polymod_transposition [OF \<open>va \<noteq> vb\<close>, of "hrpExpand (HRP @ vc) @ us" ws] v
  have "polymod (hrpExpand (HRP @ vc) @ us @ vb # va # ws) \<noteq> 1" by (simp add: small5_def)
  then show ?thesis
    unfolding B using DecodeIDAddress_plain [OF vc small(2)] len by (simp add: decode_data_rejects)
qed

section \<open>Non-ASCII input\<close>

lemma range_runes_append:
  "\<forall>b \<in> set as. b < 128 \<Longrightarrow>
   range_runes i (as @ bs) = zip [i..<i + length as] as @ range_runes (i + length as) bs"
proof (induction as arbitrary: i)
  case (Cons a as)
  then have "range_runes i ((a # as) @ bs) = (i, a) # range_runes (Suc i) (as @ bs)"
    by (subst range_runes.simps) (simp add: decode_rune_def)
  with Cons show ?case by (simp add: upt_conv_Cons del: upt_Suc)
qed simp

lemma decode_chars_append:
  "decode_chars dec (as @ bs) = (case decode_chars dec as of Inl e \<Rightarrow> Inl e | Inr d \<Rightarrow> decode_chars d bs)"
  by (induction as arbitrary: dec) (auto split: option.splits)

text \<open>The two UTF-8 bytes of U+0171, whose low eight bits are the letter \<open>q\<close>.\<close>

definition u0171 :: string where
  "u0171 = [char_of (197 :: int), char_of (177 :: int)]"

lemma u0171_bytes: "map byte u0171 = [197, 177]"
  by (simp add: u0171_def)

lemma runes_u0171:
  assumes "plain xs" "plain ys"
  shows "runes_of (xs @ u0171 @ ys) = zip [0..<length xs] (map byte xs) @ (length xs, 369)
           # zip [length xs + 2..<length xs + 2 + length ys] (map byte ys)"
proof -
  have asc: "\<forall>b \<in> set (map byte xs). b < 128" "\<forall>b \<in> set (map byte ys). b < 128"
    using assms by (auto simp: plain_def ascii_def)
  have "range_runes n (map byte u0171 @ map byte ys)
      = (n, 369) # zip [n + 2..<n + 2 + length ys] (map byte ys)" for n
    using range_runes_ascii [OF asc(2), of "n + 2"]
    by (subst range_runes.simps) (simp add: u0171_bytes decode_rune_def cont_byte_def)
  then show ?thesis
    using range_runes_append [OF asc(1), of 0 "map byte u0171 @ map byte ys"]
    by (simp add: runes_of_def)
qed

lemma encode_plain:
  assumes "plain xs"
  shows "concat (map (\<lambda>(i, r). encode_rune (if r < 128 then lower_byte r else ulower r))
           (zip [k..<k + length xs] (map byte xs))) = map byte xs"
  using assms
proof (induction xs arbitrary: k)
  case (Cons x xs)
  then have "byte x < 128" "lower_byte (byte x) = byte x" by (auto simp: plain_def ascii_def)
  then have "encode_rune (if byte x < 128 then lower_byte (byte x) else ulower (byte x)) = [byte x]"
    by (simp add: encode_rune_def)
  moreover have "plain xs" using Cons.prems by (simp add: plain_def)
  ultimately show ?case
    using Cons.IH [of "Suc k"] by (simp add: upt_conv_Cons del: upt_Suc)
qed simp

lemma to_lower_u0171:
  assumes "plain xs" "plain ys" "ulower 369 = 369"
  shows "to_lower ulower (xs @ u0171 @ ys) = xs @ u0171 @ ys"
proof -
  have "\<not> list_all ascii u0171" by (simp add: u0171_def ascii_def)
  moreover have "encode_rune 369 = map byte u0171" by (simp add: encode_rune_def u0171_bytes)
  ultimately have "to_lower ulower (xs @ u0171 @ ys)
      = map char_of (map byte xs @ map byte u0171 @ map byte ys)"
    using encode_plain [OF assms(1), of ulower 0] encode_plain [OF assms(2), of ulower "length xs + 2"] assms(3)
    by (simp add: to_lower_def runes_u0171 [OF assms(1,2)] del: upt_Suc)
  then show ?thesis by (simp add: u0171_def o_def)
qed

lemma CharsetMap_q: "mget CharsetMap (369 mod 256) = Some 0"
  by code_simp

lemma decode_chars_u0171:
  assumes "\<forall>v \<in> set us. small5 v" "\<forall>v \<in> set ws. small5 v"
  shows "decode_chars (replicate (length us + 2 + length ws) 0) (runes_of (chars_of us @ u0171 @ chars_of ws))
       = Inr (us @ 0 # 0 # ws)"
proof -
  let ?n = "length us + 2 + length ws"
  have len: "length (chars_of us) = length us" "length (chars_of ws) = length ws"
    by (simp_all add: chars_of_def)
  have "decode_chars (replicate (length us + m) 0) (zip [0..<0 + length us] (map byte (chars_of us)))
      = Inr (us @ replicate m 0)" for m
    using decode_chars_chars_of [OF assms(1), of 0 "replicate (length us + m) 0"] by simp
  from this [of "2 + length ws"]
  have "decode_chars (replicate ?n 0) (zip [0..<0 + length us] (map byte (chars_of us)))
      = Inr (us @ replicate (2 + length ws) 0)" by (simp only: add.assoc)
  moreover have "(us @ replicate (2 + length ws) 0)[length us := 0] = us @ 0 # 0 # replicate (length ws) (0::int)"
    by (simp add: list_update_append numeral_2_eq_2)
  moreover have "decode_chars (us @ 0 # 0 # replicate (length ws) 0)
        (zip [length us + 2..<length us + 2 + length ws] (map byte (chars_of ws)))
      = Inr (us @ 0 # 0 # ws)"
    using decode_chars_chars_of [OF assms(2), of "length us + 2" "us @ 0 # 0 # replicate (length ws) 0"]
    by simp
  ultimately show ?thesis
    using plain_Charset [OF chars_of_set [OF assms(1)]] plain_Charset [OF chars_of_set [OF assms(2)]]
    by (simp add: runes_u0171 decode_chars_append len CharsetMap_q [simplified])
qed

text \<open>
  Addresses are not unique strings. Wherever a valid address has two neighbouring
  characters \<open>qq\<close>, replacing them by the one character U+0171 gives another string that
  \<open>DecodeIDAddress\<close> accepts with the same version and payload, because the loop looks up the
  low byte of each rune and leaves the slots of continuation bytes at zero. (\<open>ulower 369 = 369\<close>
  says that U+0171 is its own lower case, as Unicode has it.)
\<close>

theorem id_address_rune_alias:
  assumes valid: "DecodeIDAddress ulower (HRP @ vc @ Separator # xs @ ''qq'' @ ys) = Inr info"
    and vc: "mget CharVersion vc = Some ver"
    and alphabet: "set (xs @ ys) \<subseteq> set Charset"
    and lower: "ulower 369 = 369"
  shows "DecodeIDAddress ulower (HRP @ vc @ Separator # xs @ u0171 @ ys)
       = Inr (info\<lparr>ai_address := HRP @ vc @ Separator # xs @ u0171 @ ys\<rparr>)"
proof -
  obtain us where us: "xs = chars_of us" "\<forall>v \<in> set us. small5 v"
    using alphabet charset_string [of xs] by auto
  obtain ws where ws: "ys = chars_of ws" "\<forall>v \<in> set ws. small5 v"
    using alphabet charset_string [of ys] by auto
  let ?vs = "us @ 0 # 0 # ws"
  have qq: "xs @ ''qq'' @ ys = chars_of ?vs"
    using us ws by (simp add: chars_of_def Charset_def)
  have qset: "set (xs @ ''qq'' @ ys) \<subseteq> set Charset"
    using alphabet by (simp add: Charset_def)
  have small: "\<forall>v \<in> set ?vs. small5 v" using us ws by (auto simp: small5_def)
  have len: "6 \<le> length ?vs"
    using decoded_length_6 [OF valid vc qset] us ws by (simp add: chars_of_def)
  have dec: "decode_data (HRP @ vc) ver (HRP @ vc @ Separator # chars_of ?vs) (Inr ?vs) = Inr info"
    using valid unfolding qq DecodeIDAddress_plain [OF vc small len] .
  have pl: "plain (HRP @ vc @ Separator # xs)" "plain ys"
    using plain_address [OF vc, of xs] plain_Charset [of ys] alphabet by auto
  have "Separator \<notin> set u0171" by code_simp
  then have nosep: "Separator \<notin> set (xs @ u0171 @ ys)"
    using Separator_notin [of xs] Separator_notin [of ys] alphabet by simp
  have "DecodeIDAddress ulower (HRP @ vc @ Separator # xs @ u0171 @ ys)
      = decode_data (HRP @ vc) ver (HRP @ vc @ Separator # xs @ u0171 @ ys) (Inr ?vs)"
    using DecodeIDAddress_parts [OF vc nosep, of ulower] len us(1) ws(1)
      to_lower_u0171 [of "HRP @ vc @ Separator # xs" ys ulower, OF pl lower]
      decode_chars_u0171 [OF us(2) ws(2)]
    by (simp add: u0171_def chars_of_def)
  then show ?thesis
    using dec by (auto simp: decode_data_def split: if_splits sum.splits option.splits)
qed

text \<open>Witnesses: one concrete address.\<close>

definition demo_payload :: "int list" where
  "demo_payload = map int [0..<20]"

definition demo_tail :: string where
  "demo_tail = ''qsyqcyq5rqwzqfpg9scrgwpugpzysna6fxsk''"

lemma demo_decodes:
  "DecodeIDAddress (\<lambda>r. r) (HRP @ ''q'' @ Separator # ''qq'' @ demo_tail)
     = Inr \<lparr>ai_version = 0, ai_data = demo_payload, ai_address = ''idq1qq'' @ demo_tail\<rparr>"
  by code_simp

lemma demo_alphabet: "set (''q'' @ CHR ''q'' # demo_tail) \<subseteq> set Charset"
  by code_simp

lemma demo_version: "mget CharVersion ''q'' = Some 0"
  by (simp add: CharVersion_def)

lemma demo_bytes: "\<forall>v \<in> set demo_payload. 0 \<le> v \<and> v < 256"
  by (auto simp: demo_payload_def)

lemma demo_encodes: "EncodeIDAddress 0 demo_payload = Inr (''idq1qq'' @ demo_tail)"
  by code_simp

theorem id_address_roundtrip_witness:
  "EncodeIDAddress 0 demo_payload = Inr (''idq1qq'' @ demo_tail)
   \<and> DecodeIDAddress (\<lambda>r. r) (''idq1qq'' @ demo_tail)
      = Inr \<lparr>ai_version = 0, ai_data = demo_payload, ai_address = ''idq1qq'' @ demo_tail\<rparr>"
  using id_address_roundtrip [OF demo_bytes demo_encodes] demo_encodes by blast

theorem id_address_detects_substitution_witness:
  "DecodeIDAddress (\<lambda>r. r) (HRP @ ''q'' @ Separator # ''q'' @ CHR ''p'' # demo_tail) = Inl ChecksumFailed"
proof -
  have "CHR ''p'' \<in> set Charset" "CHR ''p'' \<noteq> CHR ''q''" by (simp_all add: Charset_def)
  from id_address_detects_substitution [OF _ demo_version demo_alphabet this] demo_decodes
  show ?thesis by simp
qed

theorem id_address_detects_transposition_witness:
  "DecodeIDAddress (\<lambda>r. r) (HRP @ ''q'' @ Separator # ''qq'' @ CHR ''s'' # CHR ''q'' # drop 2 demo_tail)
     = Inl ChecksumFailed"
proof -
  have "demo_tail = CHR ''q'' # CHR ''s'' # drop 2 demo_tail" by (simp add: demo_tail_def)
  then have d: "HRP @ ''q'' @ Separator # ''qq'' @ demo_tail
     = HRP @ ''q'' @ Separator # ''qq'' @ CHR ''q'' # CHR ''s'' # drop 2 demo_tail" by simp
  have a: "set (''qq'' @ CHR ''q'' # CHR ''s'' # drop 2 demo_tail) \<subseteq> set Charset"
    by code_simp
  show ?thesis
    by (rule id_address_detects_transposition [OF demo_decodes [unfolded d] demo_version a]) simp
qed

theorem id_address_rune_alias_witness:
  "(\<exists>addr. ''idq1qq'' @ demo_tail \<noteq> addr
     \<and> DecodeIDAddress (\<lambda>r. r) addr = Inr \<lparr>ai_version = 0, ai_data = demo_payload, ai_address = addr\<rparr>)"
proof -
  let ?a = "HRP @ ''q'' @ Separator # [] @ u0171 @ demo_tail"
  have v: "DecodeIDAddress (\<lambda>r. r) (HRP @ ''q'' @ Separator # [] @ ''qq'' @ demo_tail)
     = Inr \<lparr>ai_version = 0, ai_data = demo_payload, ai_address = ''idq1qq'' @ demo_tail\<rparr>"
    using demo_decodes by simp
  have a: "set ([] @ demo_tail) \<subseteq> set Charset" by code_simp
  from id_address_rune_alias [OF v demo_version a]
  have "DecodeIDAddress (\<lambda>r. r) ?a = Inr \<lparr>ai_version = 0, ai_data = demo_payload, ai_address = ?a\<rparr>"
    by simp
  moreover have "''idq1qq'' @ demo_tail \<noteq> ?a"
    by (simp add: HRP_def Separator_def u0171_def)
  ultimately show ?thesis by blast
qed

end
