(* ===== verification/IdConvert.thy ===== *)
theory IdConvert
  imports IdCodec
begin

text \<open>
  \<open>pkg/idaddress/converter.go\<close> and the GlobalMetaId functions of \<open>idaddress.go\<close>: Bech32,
  Base58Check and the conversions between chain addresses and ID addresses. \<open>b58dec\<close> and
  \<open>b58enc\<close> stand for \<open>base58.Decode\<close> and \<open>base58.Encode\<close> of \<open>btcutil\<close>, which is not part of
  the repository (\<open>Decode\<close> returns the empty slice on an invalid string); \<open>ulower\<close> is the
  Unicode lower-case table of \<open>strings.ToLower\<close>.
\<close>

type_synonym b58_decoder = "string \<Rightarrow> int list"
type_synonym b58_encoder = "int list \<Rightarrow> string"

datatype conv_error =
    InvalidBase58
  | DecodedTooShort
  | ChecksumMismatch
  | Bech32Format
  | Bech32Character
  | Bech32Checksum
  | Bech32DataLength
  | PaddingError
  | WitnessProgramLength
  | WitnessV0NeedsBech32
  | WitnessV1NeedsBech32m
  | CharsetIndexPanic
  | UnsupportedVersionByte int
  | UnsupportedNetwork string
  | InvalidV0Length nat
  | InvalidTaprootLength nat
  | UnsupportedWitnessVersion int
  | UnsupportedAddressFormat string
  | IdError id_error
  | InvalidP2Data int nat
  | CannotConvertToBitcoin int
  | CannotConvertToDogecoin int
  | UnknownVersionByte int
  | UnsupportedIdNetwork string
  | EmptyGlobalMetaId
  | UnsupportedGlobalMetaId string

section \<open>Bech32\<close>

definition bech32Charset :: string where
  "bech32Charset = ''qpzry9x8gf2tvdw0s3jn54khce6mua7l''"

text \<open>\<open>bech32CharsetMap\<close>, keyed by rune.\<close>

definition bech32CharsetMap :: "(int, int) gomap" where
  "bech32CharsetMap = map (\<lambda>(c, v). (byte c, v))
    [(CHR ''q'', 0), (CHR ''p'', 1), (CHR ''z'', 2), (CHR ''r'', 3), (CHR ''y'', 4), (CHR ''9'', 5),
     (CHR ''x'', 6), (CHR ''8'', 7), (CHR ''g'', 8), (CHR ''f'', 9), (CHR ''2'', 10), (CHR ''t'', 11),
     (CHR ''v'', 12), (CHR ''d'', 13), (CHR ''w'', 14), (CHR ''0'', 15), (CHR ''s'', 16),
     (CHR ''3'', 17), (CHR ''j'', 18), (CHR ''n'', 19), (CHR ''5'', 20), (CHR ''4'', 21),
     (CHR ''k'', 22), (CHR ''h'', 23), (CHR ''c'', 24), (CHR ''e'', 25), (CHR ''6'', 26),
     (CHR ''m'', 27), (CHR ''u'', 28), (CHR ''a'', 29), (CHR ''7'', 30), (CHR ''l'', 31)]"

datatype bech32_encoding = Bech32 | Bech32m

definition bech32Const :: int where "bech32Const = 1"
definition bech32mConst :: int where "bech32mConst = 0x2bc830a3"

definition bech32HrpExpand :: "string \<Rightarrow> int list" where
  "bech32HrpExpand hrp =
     map (\<lambda>(i, c). drop_bit 5 c) (runes_of hrp) @ [0] @ map (\<lambda>(i, c). c AND 31) (runes_of hrp)"

definition bech32VerifyChecksum :: "string \<Rightarrow> int list \<Rightarrow> bech32_encoding \<Rightarrow> bool" where
  "bech32VerifyChecksum hrp data encoding =
     (let values = bech32HrpExpand hrp @ data
      in if encoding = Bech32 then polymod values = bech32Const else polymod values = bech32mConst)"

text \<open>
  \<open>convertBits8to5\<close>: as \<open>convertBits\<close>, but the accumulator is not masked; it is a Go \<open>int\<close> whose
  high bits are shifted out, and every group is stored as a byte.
\<close>

fun c85_loop :: "nat \<Rightarrow> nat \<Rightarrow> int \<Rightarrow> nat \<Rightarrow> int list \<Rightarrow> int \<times> nat \<times> int list" where
  "c85_loop fromBits toBits acc bits [] = (acc, bits, [])"
| "c85_loop fromBits toBits acc bits (v # vs) =
     (let acc' = wrap64 (push_bit fromBits acc OR v);
          (bits', out) = cb_emit acc' (bits + fromBits) toBits;
          (a, b, rest) = c85_loop fromBits toBits acc' bits' vs
      in (a, b, out @ rest))"

definition convertBits8to5 :: "int list \<Rightarrow> nat \<Rightarrow> nat \<Rightarrow> bool \<Rightarrow> conv_error + int list" where
  "convertBits8to5 data fromBits toBits pad =
     (let (acc, bits, ret0) = c85_loop fromBits toBits 0 0 data;
          last = push_bit (toBits - bits) acc AND mask toBits;
          ret = map (\<lambda>v. v mod 256) ret0
      in if pad then Inr (if 0 < bits then ret @ [last mod 256] else ret)
         else if fromBits \<le> bits \<or> last \<noteq> 0 then Inl PaddingError
         else Inr ret)"

fun bech32_chars :: "(nat \<times> int) list \<Rightarrow> int list option" where
  "bech32_chars [] = Some []"
| "bech32_chars ((i, c) # cs) =
     (case mget bech32CharsetMap c of
        None \<Rightarrow> None
      | Some v \<Rightarrow> map_option ((#) v) (bech32_chars cs))"

record bech32_result =
  br_hrp :: string
  br_version :: int
  br_program :: "int list"
  br_encoding :: bech32_encoding

definition Bech32Decode :: "(int \<Rightarrow> int) \<Rightarrow> string \<Rightarrow> conv_error + bech32_result" where
  "Bech32Decode ulower addr0 =
     (let addr = to_lower ulower addr0 in
      case last_index CHR ''1'' addr of
        None \<Rightarrow> Inl Bech32Format
      | Some pos \<Rightarrow>
          if pos < 1 \<or> length addr < pos + 7 \<or> 90 < length addr then Inl Bech32Format
          else let hrp = take pos addr; data = drop (pos + 1) addr in
            (case bech32_chars (runes_of data) of
               None \<Rightarrow> Inl Bech32Character
             | Some decoded \<Rightarrow>
                 let encoding = (if bech32VerifyChecksum hrp decoded Bech32m then Bech32m else Bech32)
                 in if encoding = Bech32 \<and> \<not> bech32VerifyChecksum hrp decoded Bech32
                    then Inl Bech32Checksum
                    else let decoded' = take (length decoded - 6) decoded in
                      (case decoded' of
                         [] \<Rightarrow> Inl Bech32DataLength
                       | version # rest \<Rightarrow>
                           (case convertBits8to5 (map (\<lambda>v. v mod 256) rest) 5 8 False of
                              Inl e \<Rightarrow> Inl e
                            | Inr program \<Rightarrow>
                                if length program < 2 \<or> 40 < length program
                                then Inl WitnessProgramLength
                                else if version = 0 \<and> encoding \<noteq> Bech32
                                then Inl WitnessV0NeedsBech32
                                else if version \<noteq> 0 \<and> encoding \<noteq> Bech32m
                                then Inl WitnessV1NeedsBech32m
                                else Inr \<lparr>br_hrp = hrp, br_version = version,
                                          br_program = program, br_encoding = encoding\<rparr>))))"

definition Bech32Encode :: "string \<Rightarrow> int \<Rightarrow> int list \<Rightarrow> conv_error + string" where
  "Bech32Encode hrp version program =
     (let encoding = (if version \<noteq> 0 then Bech32m else Bech32) in
      if length program < 2 \<or> 40 < length program then Inl WitnessProgramLength
      else (case convertBits8to5 program 8 5 True of
          Inl e \<Rightarrow> Inl e
        | Inr converted \<Rightarrow>
            let data = version # converted;
                values = (bech32HrpExpand hrp @ data) @ [0, 0, 0, 0, 0, 0];
                poly = polymod values XOR (if encoding = Bech32 then bech32Const else bech32mConst);
                checksum = map (\<lambda>i. drop_bit (5 * (5 - i)) poly AND 31) [0..<6];
                data' = data @ checksum
            in if \<exists>d \<in> set data'. 32 \<le> d then Inl CharsetIndexPanic
               else Inr (hrp @ CHR ''1'' # map (\<lambda>d. bech32Charset ! nat d) data')))"

section \<open>Base58Check\<close>

definition doubleSHA256 :: "int list \<Rightarrow> int list" where
  "doubleSHA256 data = sha256 (sha256 data)"

definition Base58Decode :: "b58_decoder \<Rightarrow> string \<Rightarrow> conv_error + int list" where
  "Base58Decode b58dec input =
     (let decoded = b58dec input
      in if decoded = [] \<and> input \<noteq> [] then Inl InvalidBase58 else Inr decoded)"

definition Base58CheckDecode :: "b58_decoder \<Rightarrow> string \<Rightarrow> conv_error + (int \<times> int list)" where
  "Base58CheckDecode b58dec input =
     (case Base58Decode b58dec input of
        Inl e \<Rightarrow> Inl e
      | Inr decoded \<Rightarrow>
          if length decoded < 5 then Inl DecodedTooShort
          else let data = take (length decoded - 4) decoded;
                   checksum = drop (length decoded - 4) decoded
               in if checksum \<noteq> take 4 (doubleSHA256 data) then Inl ChecksumMismatch
                  else Inr (hd data, tl data))"

definition Base58CheckEncode :: "b58_encoder \<Rightarrow> int \<Rightarrow> int list \<Rightarrow> string" where
  "Base58CheckEncode b58enc version payload =
     (let data = version # payload in b58enc (data @ take 4 (doubleSHA256 data)))"

section \<open>Address conversion\<close>

definition lift_id :: "id_error + 'a \<Rightarrow> conv_error + 'a" where
  "lift_id r = (case r of Inl e \<Rightarrow> Inl (IdError e) | Inr x \<Rightarrow> Inr x)"

definition convertFromLegacyAddress :: "int \<Rightarrow> int list \<Rightarrow> conv_error + string" where
  "convertFromLegacyAddress version payload =
     (if version = 0x00 then lift_id (EncodeIDAddress VersionP2PKH payload)
      else if version = 0x05 then lift_id (EncodeIDAddress VersionP2SH payload)
      else if version = 0x6F then lift_id (EncodeIDAddress VersionP2PKH payload)
      else if version = 0xC4 then lift_id (EncodeIDAddress VersionP2SH payload)
      else if version = 0x1E then lift_id (EncodeIDAddress VersionP2PKH payload)
      else if version = 0x16 then lift_id (EncodeIDAddress VersionP2SH payload)
      else Inl (UnsupportedVersionByte version))"

definition convertFromSegWitAddress :: "string \<Rightarrow> int \<Rightarrow> int list \<Rightarrow> conv_error + string" where
  "convertFromSegWitAddress hrp witnessVersion program =
     (if hrp \<noteq> ''bc'' \<and> hrp \<noteq> ''tb'' then Inl (UnsupportedNetwork hrp)
      else if witnessVersion = 0 then
        (if length program = 20 then lift_id (EncodeIDAddress VersionP2WPKH program)
         else if length program = 32 then lift_id (EncodeIDAddress VersionP2WSH program)
         else Inl (InvalidV0Length (length program)))
      else if witnessVersion = 1 then
        (if length program = 32 then lift_id (EncodeIDAddress VersionP2TR program)
         else Inl (InvalidTaprootLength (length program)))
      else Inl (UnsupportedWitnessVersion witnessVersion))"

definition ConvertFromBitcoin :: "(int \<Rightarrow> int) \<Rightarrow> b58_decoder \<Rightarrow> string \<Rightarrow> conv_error + string" where
  "ConvertFromBitcoin ulower b58dec bitcoinAddr =
     (case Base58CheckDecode b58dec bitcoinAddr of
        Inr (version, payload) \<Rightarrow> convertFromLegacyAddress version payload
      | Inl _ \<Rightarrow>
          (case Bech32Decode ulower bitcoinAddr of
             Inr r \<Rightarrow> convertFromSegWitAddress (br_hrp r) (br_version r) (br_program r)
           | Inl _ \<Rightarrow> Inl (UnsupportedAddressFormat bitcoinAddr)))"

definition ConvertToBitcoin ::
    "(int \<Rightarrow> int) \<Rightarrow> b58_encoder \<Rightarrow> string \<Rightarrow> string \<Rightarrow> conv_error + string" where
  "ConvertToBitcoin ulower b58enc idAddr network =
     (case DecodeIDAddress ulower idAddr of
        Inl e \<Rightarrow> Inl (IdError e)
      | Inr info \<Rightarrow>
          let hrp = (if network = ''testnet'' then ''tb'' else ''bc'');
              version = ai_version info; data = ai_data info
          in if version = VersionP2PKH then
               Inr (Base58CheckEncode b58enc (if network = ''mainnet'' then 0x00 else 0x6F) data)
             else if version = VersionP2SH then
               Inr (Base58CheckEncode b58enc (if network = ''mainnet'' then 0x05 else 0xC4) data)
             else if version = VersionP2WPKH then
               (if length data \<noteq> 20 then Inl (InvalidP2Data version (length data))
                else Bech32Encode hrp 0 data)
             else if version = VersionP2WSH then
               (if length data \<noteq> 32 then Inl (InvalidP2Data version (length data))
                else Bech32Encode hrp 0 data)
             else if version = VersionP2TR then
               (if length data \<noteq> 32 then Inl (InvalidP2Data version (length data))
                else Bech32Encode hrp 1 data)
             else Inl (CannotConvertToBitcoin version))"

definition ConvertToDogecoin :: "(int \<Rightarrow> int) \<Rightarrow> b58_encoder \<Rightarrow> string \<Rightarrow> conv_error + string" where
  "ConvertToDogecoin ulower b58enc idAddr =
     (case DecodeIDAddress ulower idAddr of
        Inl e \<Rightarrow> Inl (IdError e)
      | Inr info \<Rightarrow>
          if ai_version info = VersionP2PKH then Inr (Base58CheckEncode b58enc 0x1E (ai_data info))
          else if ai_version info = VersionP2SH then Inr (Base58CheckEncode b58enc 0x16 (ai_data info))
          else Inl (CannotConvertToDogecoin (ai_version info)))"

record bitcoin_address =
  ba_type :: string
  ba_network :: string
  ba_data :: "int list"

definition ParseBitcoinAddress :: "b58_decoder \<Rightarrow> string \<Rightarrow> conv_error + bitcoin_address" where
  "ParseBitcoinAddress b58dec addr =
     (case Base58CheckDecode b58dec addr of
        Inl e \<Rightarrow> Inl e
      | Inr (version, payload) \<Rightarrow>
          let mk = (\<lambda>t n. Inr \<lparr>ba_type = t, ba_network = n, ba_data = payload\<rparr>)
          in if version = 0x00 then mk ''P2PKH'' ''mainnet''
             else if version = 0x05 then mk ''P2SH'' ''mainnet''
             else if version = 0x6F then mk ''P2PKH'' ''testnet''
             else if version = 0xC4 then mk ''P2SH'' ''testnet''
             else if version = 0x1E then mk ''P2PKH'' ''dogecoin''
             else if version = 0x16 then mk ''P2SH'' ''dogecoin''
             else Inl (UnknownVersionByte version))"

text \<open>\<open>AddressConverter\<close> keeps its default network only.\<close>

record address_converter =
  defaultNetwork :: string

definition ToID :: "(int \<Rightarrow> int) \<Rightarrow> b58_decoder \<Rightarrow> address_converter \<Rightarrow> string \<Rightarrow> conv_error + string" where
  "ToID ulower b58dec ac addr = ConvertFromBitcoin ulower b58dec addr"

definition FromID ::
    "(int \<Rightarrow> int) \<Rightarrow> b58_encoder \<Rightarrow> address_converter \<Rightarrow> string \<Rightarrow> string \<Rightarrow> conv_error + string" where
  "FromID ulower b58enc ac idAddr network0 =
     (let network = (if network0 = '''' then defaultNetwork ac else network0)
      in if network = ''bitcoin'' \<or> network = ''mainnet'' \<or> network = ''testnet''
         then ConvertToBitcoin ulower b58enc idAddr network
         else if network = ''dogecoin'' then ConvertToDogecoin ulower b58enc idAddr
         else Inl (UnsupportedIdNetwork network))"

text \<open>\<open>Batch\<close>: one result and one error slot per address.\<close>

definition Batch ::
    "(int \<Rightarrow> int) \<Rightarrow> b58_decoder \<Rightarrow> address_converter \<Rightarrow> string list
     \<Rightarrow> string list \<times> conv_error option list" where
  "Batch ulower b58dec ac addrs =
     (map (\<lambda>a. case ToID ulower b58dec ac a of Inl _ \<Rightarrow> '''' | Inr s \<Rightarrow> s) addrs,
      map (\<lambda>a. case ToID ulower b58dec ac a of Inl e \<Rightarrow> Some e | Inr _ \<Rightarrow> None) addrs)"

section \<open>GlobalMetaId\<close>

definition EncodeGlobalMetaId :: "(int \<Rightarrow> int) \<Rightarrow> b58_decoder \<Rightarrow> string \<Rightarrow> string \<Rightarrow> string" where
  "EncodeGlobalMetaId ulower b58dec metaid chainName =
     (if metaid = '''' \<or> metaid = ''errorAddr'' then ''''
      else case ConvertFromBitcoin ulower b58dec metaid of
             Inl _ \<Rightarrow> ''''
           | Inr idAddr \<Rightarrow> idAddr)"

definition DecodeGlobalMetaId ::
    "(int \<Rightarrow> int) \<Rightarrow> b58_encoder \<Rightarrow> string \<Rightarrow> conv_error + (string \<times> string)" where
  "DecodeGlobalMetaId ulower b58enc globalMetaId =
     (if globalMetaId = '''' then Inl EmptyGlobalMetaId
      else case ConvertToBitcoin ulower b58enc globalMetaId ''mainnet'' of
             Inr addr \<Rightarrow> Inr (addr, ''btc'')
           | Inl _ \<Rightarrow>
               (case ConvertToBitcoin ulower b58enc globalMetaId ''testnet'' of
                  Inr addr \<Rightarrow> Inr (addr, ''btc'')
                | Inl _ \<Rightarrow>
                    (case ConvertToDogecoin ulower b58enc globalMetaId of
                       Inr addr \<Rightarrow> Inr (addr, ''doge'')
                     | Inl _ \<Rightarrow> Inl (UnsupportedGlobalMetaId globalMetaId))))"

end
