(* ===== verification/IdChain.thy ===== *)
theory IdChain
  imports IdConvert
begin

text \<open>
  Correctness of the chain-address conversions of \<open>IdConvert\<close>: the second bit-regrouping routine
  agrees with the first, Bech32 round trips, chain addresses survive the way through an ID
  address, and which network and chain the conversions really produce.
\<close>

section \<open>The two regrouping routines agree\<close>

lemma take_bit_wrap64: "n \<le> 64 \<Longrightarrow> take_bit n (wrap64 x) = take_bit n x"
proof -
  assume "n \<le> 64"
  have "take_bit 64 (wrap64 x) = take_bit 64 x"
    unfolding wrap64_def take_bit_eq_mod by (metis add_diff_cancel_right' mod_diff_left_eq)
  then have "take_bit n (take_bit 64 (wrap64 x)) = take_bit n (take_bit 64 x)" by simp
  with \<open>n \<le> 64\<close> show ?thesis by (simp add: min_absorb1)
qed

lemma take_bit_bits: "take_bit n a = take_bit n b \<longleftrightarrow> (\<forall>i < n. bit a i = bit b i)" for a b :: int
  by (auto simp: bit_eq_iff bit_take_bit_iff)

lemma cb_emit_low:
  "take_bit bits a = take_bit bits b \<Longrightarrow> cb_emit a bits t = cb_emit b bits t"
proof (induction a bits t rule: cb_emit.induct)
  case (1 a bits t)
  show ?case
  proof (cases "t = 0 \<or> bits < t")
    case True
    then show ?thesis by (auto simp: cb_emit.simps)
  next
    case False
    have "take_bit (bits - t) a = take_bit (bits - t) b"
      using "1.prems" by (simp add: take_bit_bits)
    moreover have "drop_bit (bits - t) a AND mask t = drop_bit (bits - t) b AND mask t"
      using "1.prems" False unfolding take_bit_eq_mask [symmetric] take_bit_bits
      by (auto simp: bit_drop_bit_eq)
    ultimately show ?thesis
      using "1.IH" [OF False refl refl] False
      by (simp add: cb_emit.simps [of a bits t] cb_emit.simps [of b bits t] Let_def)
  qed
qed

lemma cb_emit_rest: "cb_emit a bits t = (b, out) \<Longrightarrow> 0 < t \<Longrightarrow> b < t \<and> b \<le> bits"
  using cb_emit_bits [of a bits t b out] by simp

lemma c85_loop_agrees:
  assumes "cb_loop f t a bits vs = Some (a', n, out)" "take_bit bits a = take_bit bits b"
    and "bits < t" "0 < f" "f + t \<le> 64"
  shows "\<exists>b'. c85_loop f t b bits vs = (b', n, out) \<and> take_bit n a' = take_bit n b' \<and> n < t"
  using assms
proof (induction vs arbitrary: a b bits out)
  case Nil
  then show ?case by simp
next
  case (Cons v vs)
  define a1 where "a1 = (push_bit f a OR v) AND mask (f + t - 1)"
  define b1 where "b1 = wrap64 (push_bit f b OR v)"
  have low: "take_bit (bits + f) a1 = take_bit (bits + f) b1"
  proof -
    have "take_bit (bits + f) b1 = take_bit (bits + f) (push_bit f b OR v)"
      unfolding b1_def using Cons.prems by (intro take_bit_wrap64) simp
    also have "\<dots> = take_bit (bits + f) (push_bit f a OR v)"
      using Cons.prems(2) unfolding take_bit_bits by (auto simp: bit_simps)
    also have "\<dots> = take_bit (bits + f) a1"
      using Cons.prems unfolding a1_def take_bit_bits by (auto simp: bit_simps)
    finally show ?thesis ..
  qed
  obtain n1 o1 where emit: "cb_emit a1 (bits + f) t = (n1, o1)"
    by (cases "cb_emit a1 (bits + f) t")
  with low have emit': "cb_emit b1 (bits + f) t = (n1, o1)"
    using cb_emit_low by metis
  from Cons.prems(1) emit obtain rest where loop: "cb_loop f t a1 n1 vs = Some (a', n, rest)"
    and out: "out = o1 @ rest"
    by (auto simp: Let_def a1_def split: if_splits option.splits)
  have n1: "n1 < t" "n1 \<le> bits + f" using cb_emit_rest [OF emit] Cons.prems by auto
  then have "take_bit n1 a1 = take_bit n1 b1" using low by (simp add: take_bit_bits)
  from Cons.IH [OF loop this n1(1) Cons.prems(4,5)] emit' out show ?case
    by (auto simp: b1_def Let_def)
qed

lemma c85_loop_range:
  "0 < t \<Longrightarrow> c85_loop f t acc bits vs = (a, b, out) \<Longrightarrow> \<forall>v \<in> set out. 0 \<le> v \<and> v < 2 ^ t"
proof (induction vs arbitrary: acc bits a b out)
  case (Cons v vs)
  define acc1 where "acc1 = wrap64 (push_bit f acc OR v)"
  obtain b1 o1 where emit: "cb_emit acc1 (bits + f) t = (b1, o1)"
    by (cases "cb_emit acc1 (bits + f) t")
  obtain a2 b2 rest where rec: "c85_loop f t acc1 b1 vs = (a2, b2, rest)"
    by (cases "c85_loop f t acc1 b1 vs")
  have "out = o1 @ rest"
    using Cons.prems(2) emit rec by (simp add: Let_def flip: acc1_def)
  moreover have "\<forall>v \<in> set o1. 0 \<le> v \<and> v < 2 ^ t"
    using cb_emit_bits [OF emit Cons.prems(1)] by simp
  ultimately show ?case using Cons.IH [OF Cons.prems(1) rec] by auto
qed simp

lemma byte_group: "0 \<le> v \<Longrightarrow> v < 2 ^ t \<Longrightarrow> t \<le> 8 \<Longrightarrow> v mod 256 = (v :: int)"
proof -
  assume "0 \<le> v" "v < 2 ^ t" "t \<le> 8"
  moreover have "(2 :: int) ^ t \<le> 2 ^ 8" using \<open>t \<le> 8\<close> by (rule power_increasing) simp
  ultimately show ?thesis by simp
qed

text \<open>For groups of at most 8 bits the byte conversion of the output changes nothing.\<close>

lemma convertBits8to5_alt:
  assumes "0 < t" "t \<le> 8"
  shows "convertBits8to5 data f t pad =
     (let (acc, bits, ret) = c85_loop f t 0 0 data
      in if pad then Inr (if 0 < bits then ret @ [push_bit (t - bits) acc AND mask t] else ret)
         else if f \<le> bits \<or> push_bit (t - bits) acc AND mask t \<noteq> 0 then Inl PaddingError
         else Inr ret)"
proof -
  obtain acc bits ret where loop: "c85_loop f t 0 0 data = (acc, bits, ret)"
    by (cases "c85_loop f t 0 0 data")
  have "map (\<lambda>v. v mod 256) ret = ret"
    using c85_loop_range [OF assms(1) loop] byte_group assms(2) by (intro map_idI) auto
  moreover have "(x AND mask t) mod 256 = x AND mask t" for x :: int
    unfolding take_bit_eq_mask [symmetric]
    using assms(2) by (intro byte_group) (simp_all add: take_bit_int_less_exp)
  ultimately show ?thesis
    using loop by (simp add: convertBits8to5_def Let_def)
qed

lemma convertBits8to5_agrees:
  assumes "\<forall>v \<in> set data. 0 \<le> v \<and> v < 2 ^ f" and "0 < f" "0 < t" "t \<le> 8" "f + t \<le> 64"
  shows "convertBits8to5 data f t pad
       = (case convertBits data f t pad of Inl _ \<Rightarrow> Inl PaddingError | Inr out \<Rightarrow> Inr out)"
proof -
  obtain a n out where loop: "cb_loop f t 0 0 data = Some (a, n, out)"
    using cb_loop_total [OF assms(1), of t 0 0] by (auto simp: prod_cases3)
  from c85_loop_agrees [OF loop refl assms(3,2,5)] obtain b
    where b: "c85_loop f t 0 0 data = (b, n, out)" "take_bit n a = take_bit n b" "n < t" by auto
  have "push_bit (t - n) a AND mask t = push_bit (t - n) b AND mask t"
    using b(2,3) unfolding take_bit_eq_mask [symmetric] take_bit_bits
    by (auto simp: bit_simps)
  with loop b(1) show ?thesis
    by (simp add: convertBits_def convertBits8to5_alt [OF assms(3,4)])
qed

text \<open>
  \<open>convertBits8to5\<close>, whose accumulator is never masked and wraps around at 64 bits, computes
  the same groups and the same padding error as \<open>convertBits\<close> on every input in range, for all
  output widths of at most 8 bits and group widths of at most 64 bits together.
\<close>

theorem convertBits8to5_equiv:
  assumes "\<forall>v \<in> set data. 0 \<le> v \<and> v < 2 ^ f" and "0 < f" "0 < t" "t \<le> 8" "f + t \<le> 64"
  shows "convertBits8to5 data f t pad
       = (case convertBits data f t pad of Inl _ \<Rightarrow> Inl PaddingError | Inr out \<Rightarrow> Inr out)"
  using assms by (rule convertBits8to5_agrees)

theorem convertBits8to5_equiv_witness:
  "convertBits8to5 [255, 1] 8 5 True = Inr [31, 28, 0, 16]"
proof -
  have "\<forall>v \<in> set [255, 1 :: int]. 0 \<le> v \<and> v < 2 ^ 8" by simp
  moreover have "convertBits [255, 1] 8 5 True = Inr [31, 28, 0, 16]" by code_simp
  ultimately show ?thesis using convertBits8to5_equiv [of "[255, 1]" 8 5 True] by simp
qed

section \<open>Bech32\<close>

lemma demo_id_decodes:
  "DecodeIDAddress (\<lambda>r. r) (''idq1qq'' @ demo_tail)
     = Inr \<lparr>ai_version = 0, ai_data = demo_payload, ai_address = ''idq1qq'' @ demo_tail\<rparr>"
  using demo_decodes by (simp add: HRP_def Separator_def)

lemma bech32_table: "bech32Charset = Charset" "distinct (mkeys bech32CharsetMap)"
  by (simp_all add: bech32Charset_def Charset_def) code_simp

lemma bech32CharsetMap_Charset: "small5 v \<Longrightarrow> mget bech32CharsetMap (byte (Charset ! nat v)) = Some v"
proof -
  have "list_all (\<lambda>i. mget bech32CharsetMap (byte (Charset ! i)) = Some (int i)) [0..<32]"
    by code_simp
  moreover assume "small5 v"
  ultimately show ?thesis by (auto simp: list_all_iff small5_def elim!: ballE [of _ _ "nat v"])
qed

lemma bech32_chars_zip:
  "\<forall>v \<in> set vs. small5 v \<Longrightarrow>
   bech32_chars (zip [k..<k + length vs] (map byte (chars_of vs))) = Some vs"
proof (induction vs arbitrary: k)
  case (Cons v vs)
  have "bech32_chars (zip [Suc k..<Suc k + length vs] (map byte (chars_of vs))) = Some vs"
    using Cons.prems by (intro Cons.IH) simp
  with Cons.prems bech32CharsetMap_Charset show ?case
    by (simp add: chars_of_def upt_conv_Cons del: upt_Suc)
qed (simp add: chars_of_def)

lemma chars_of_ascii: "\<forall>v \<in> set vs. small5 v \<Longrightarrow> list_all ascii (chars_of vs)"
  using chars_of_set [of vs] Charset_plain by (auto simp: list_all_iff)

lemma bech32_chars_of:
  assumes "\<forall>v \<in> set vs. small5 v"
  shows "bech32_chars (runes_of (chars_of vs)) = Some vs"
proof -
  have "runes_of (chars_of vs) = zip [0..<0 + length vs] (map byte (chars_of vs))"
    using runes_ascii [OF chars_of_ascii [OF assms]] by (simp add: chars_of_def)
  then show ?thesis using bech32_chars_zip [OF assms, of 0] by simp
qed

lemma bech32HrpExpand_w30:
  assumes "plain hrp" shows "\<forall>v \<in> set (bech32HrpExpand hrp). w30 v"
proof -
  have asc: "list_all ascii hrp" using assms by (auto simp: plain_def list_all_iff)
  have r: "0 \<le> r \<and> r < 128" if "(i, r) \<in> set (runes_of hrp)" for i r
    using that asc unfolding runes_ascii [OF asc]
    by (auto simp: list_all_iff ascii_def dest!: set_zip_rightD)
  have "w30 (drop_bit 5 r)" if "0 \<le> r" "r < 128" for r
    using that by (intro w30_small) (simp_all add: drop_bit_eq_div)
  moreover have "w30 (r AND 31)" for r :: int
    unfolding and_31 by (simp add: w30_def take_bit_take_bit)
  ultimately show ?thesis
    using r by (auto simp: bech32HrpExpand_def w30_0)
qed

lemma bech32_not_m: "bech32Const \<noteq> bech32mConst"
  by (simp add: bech32Const_def bech32mConst_def)

lemma Bech32Decode_success:
  assumes "to_lower ulower addr = addr" "last_index CHR ''1'' addr = Some p"
    and "1 \<le> p" "p + 7 \<le> length addr" "length addr \<le> 90"
    and chars: "bech32_chars (runes_of (drop (p + 1) addr)) = Some vs"
    and ver: "bech32VerifyChecksum (take p addr) vs Bech32m \<longleftrightarrow> version \<noteq> 0"
      "bech32VerifyChecksum (take p addr) vs Bech32 \<longleftrightarrow> version = 0"
    and vs: "take (length vs - 6) vs = version # mid"
    and conv: "convertBits8to5 (map (\<lambda>v. v mod 256) mid) 5 8 False = Inr program"
    and pl: "2 \<le> length program" "length program \<le> 40"
  shows "Bech32Decode ulower addr
       = Inr \<lparr>br_hrp = take p addr, br_version = version, br_program = program,
              br_encoding = (if version = 0 then Bech32 else Bech32m)\<rparr>"
proof -
  have "\<not> (p < 1 \<or> length addr < p + 7 \<or> 90 < length addr)" using assms by simp
  moreover have "\<not> (length program < 2 \<or> 40 < length program)" using pl by simp
  ultimately show ?thesis
    using ver unfolding Bech32Decode_def Let_def assms(1,2) option.case chars
    by (cases "version = 0") (simp_all only: vs list.case conv sum.case if_False if_True simp_thms
      bech32_encoding.distinct bech32_encoding.simps)
qed

lemma Bech32Decode_Encode:
  assumes enc: "Bech32Encode hrp version program = Inr addr"
    and bytes: "\<forall>v \<in> set program. 0 \<le> v \<and> v < 256"
    and version: "0 \<le> version"
    and hrp: "plain hrp" "hrp \<noteq> []" and len: "length addr \<le> 90"
  shows "Bech32Decode ulower addr
       = Inr \<lparr>br_hrp = hrp, br_version = version, br_program = program,
              br_encoding = (if version = 0 then Bech32 else Bech32m)\<rparr>"
proof -
  define k where "k = (if version = 0 then bech32Const else bech32mConst)"
  from enc obtain mid where pl: "2 \<le> length program" "length program \<le> 40"
    and mid8: "convertBits8to5 program 8 5 True = Inr mid"
    by (auto simp: Bech32Encode_def Let_def not_less split: if_splits sum.splits)
  have mid: "convertBits program 8 5 True = Inr mid"
    using mid8 convertBits8to5_agrees [of program 8 5 True] bytes by (auto split: sum.splits)
  note rt = convertBits_roundtrip [OF bytes mid]
  define cs where "cs = checksum_of (polymod ((bech32HrpExpand hrp @ version # mid) @ [0, 0, 0, 0, 0, 0]) XOR k)"
  have cs: "length cs = 6" "\<forall>v \<in> set cs. small5 v" unfolding cs_def by (rule checksum_of_small)+
  have addr: "addr = hrp @ CHR ''1'' # chars_of (version # mid @ cs)" and v32: "version < 32"
    using enc mid8 pl unfolding Bech32Encode_def Let_def
    by (auto simp: k_def cs_def checksum_of_def chars_of_def bech32_table(1) not_less split: if_splits)
  let ?vs = "version # mid @ cs"
  have small: "\<forall>v \<in> set ?vs. small5 v" using rt(2) cs(2) version v32 by (auto simp: small5_def)
  note cset = chars_of_set [OF small]
  have "w30 k" by (simp add: k_def w30_def bech32Const_def bech32mConst_def take_bit_eq_mod)
  then have poly: "polymod (bech32HrpExpand hrp @ ?vs) = k"
    using checksum_absorb [of "bech32HrpExpand hrp @ version # mid" k] bech32HrpExpand_w30 [OF hrp(1)]
      small small5_w30 by (auto simp: cs_def)
  have ver: "bech32VerifyChecksum hrp ?vs Bech32m \<longleftrightarrow> version \<noteq> 0"
    "bech32VerifyChecksum hrp ?vs Bech32 \<longleftrightarrow> version = 0"
    using poly bech32_not_m by (auto simp: bech32VerifyChecksum_def k_def)
  have low: "to_lower ulower addr = addr"
    unfolding addr using hrp(1) plain_Charset [OF cset]
    by (intro to_lower_plain) (auto simp: plain_def ascii_def lower_byte_def)
  have idx: "last_index CHR ''1'' addr = Some (length hrp)"
    unfolding addr using last_index_append Separator_notin [OF cset] by (simp add: Separator_def)
  have lens: "length addr = length hrp + length mid + 8" "0 < length hrp"
    using addr cs hrp by (simp_all add: chars_of_def)
  have "map (\<lambda>v. v mod 256) mid = mid"
  proof (intro map_idI)
    fix x assume "x \<in> set mid"
    with rt(2) have "0 \<le> x" "x < 32" by auto
    then show "x mod 256 = x" by simp
  qed
  moreover have "convertBits8to5 mid 5 8 False = Inr program"
    using convertBits8to5_agrees [of mid 5 8 False] rt by simp
  moreover have "take (length hrp) addr = hrp" "drop (length hrp + 1) addr = chars_of ?vs"
    "take (length ?vs - 6) ?vs = version # mid"
    using cs(1) by (simp_all add: addr)
  ultimately show ?thesis
    using Bech32Decode_success [OF low idx, of ?vs version mid program] lens len pl ver
      bech32_chars_of [OF small]
    by simp
qed

text \<open>
  C32: Bech32 and Bech32m round trip. For a lower-case ASCII prefix, a witness version below 32
  and a witness program of 2 to 40 bytes whose address is at most 90 characters,
  \<open>Bech32Decode\<close> of \<open>Bech32Encode\<close>'s result returns the prefix, the version, the program and
  the encoding the version calls for.
\<close>

theorem bech32_roundtrip:
  assumes enc: "Bech32Encode hrp version program = Inr addr"
    and bytes: "\<forall>v \<in> set program. 0 \<le> v \<and> v < 256"
    and version: "0 \<le> version"
    and hrp: "plain hrp" "hrp \<noteq> []" and len: "length addr \<le> 90"
  shows "Bech32Decode ulower addr
       = Inr \<lparr>br_hrp = hrp, br_version = version, br_program = program,
              br_encoding = (if version = 0 then Bech32 else Bech32m)\<rparr>"
  using assms by (rule Bech32Decode_Encode)

theorem bech32_roundtrip_witness:
  "Bech32Decode id ''bc1qqqqsyqcyq5rqwzqfpg9scrgwpugpzysn4v0345''
     = Inr \<lparr>br_hrp = ''bc'', br_version = 0, br_program = demo_payload, br_encoding = Bech32\<rparr>"
proof -
  have "Bech32Encode ''bc'' 0 demo_payload = Inr ''bc1qqqqsyqcyq5rqwzqfpg9scrgwpugpzysn4v0345''"
    by code_simp
  moreover have "plain ''bc''" by (simp add: plain_def ascii_def lower_byte_def)
  ultimately show ?thesis
    using bech32_roundtrip [of "''bc''" 0 demo_payload "''bc1qqqqsyqcyq5rqwzqfpg9scrgwpugpzysn4v0345''" id]
      demo_bytes by simp
qed

section \<open>Which calls can fail\<close>

lemma convertBits8to5_pad_small:
  assumes "convertBits8to5 program 8 5 True = Inr mid" shows "\<forall>v \<in> set mid. small5 v"
proof -
  obtain a b out where loop: "c85_loop 8 5 0 0 program = (a, b, out)"
    by (cases "c85_loop 8 5 0 0 program")
  have "take_bit 5 x < 32" for x :: int using take_bit_int_less_exp [of 5 x] by simp
  moreover have "\<forall>v \<in> set out. 0 \<le> v \<and> v < 32"
    using c85_loop_range [OF _ loop] by simp
  ultimately show ?thesis
    using assms loop unfolding convertBits8to5_alt [of 5 program 8 True, simplified] take_bit_eq_mask [symmetric] small5_def
    by (auto split: if_splits)
qed

lemma convertBits8to5_pad_total: "\<exists>mid. convertBits8to5 program 8 5 True = Inr mid"
  by (simp add: convertBits8to5_def Let_def split: prod.splits)

lemma Bech32Encode_total:
  assumes "0 \<le> version" "version < 32"
  shows "(\<exists>e. Bech32Encode hrp version program = Inl e) \<longleftrightarrow> length program < 2 \<or> 40 < length program"
proof -
  obtain mid where mid: "convertBits8to5 program 8 5 True = Inr mid"
    using convertBits8to5_pad_total by blast
  have small: "\<not> (\<exists>d \<in> set (version # mid @ checksum_of md). 32 \<le> d)" for md
    using convertBits8to5_pad_small [OF mid] checksum_of_small(2) [of md] assms
    by (auto simp: small5_def not_le)
  show ?thesis
    using small unfolding Bech32Encode_def Let_def checksum_of_def mid sum.case append_Cons
    by (simp only: if_False split: if_split) (simp add: disj_commute)
qed

text \<open>
  \<open>DecodeGlobalMetaId\<close> is \<open>ConvertToBitcoin\<close> for mainnet and nothing else: its testnet and
  Dogecoin fallbacks are never reached with a result, so the chain it reports is always \<open>btc\<close>,
  whatever chain the GlobalMetaId was made from.
\<close>

theorem DecodeGlobalMetaId_btc_only:
  "DecodeGlobalMetaId ulower b58enc gid =
     (if gid = '''' then Inl EmptyGlobalMetaId
      else case ConvertToBitcoin ulower b58enc gid ''mainnet'' of
             Inr addr \<Rightarrow> Inr (addr, ''btc'')
           | Inl _ \<Rightarrow> Inl (UnsupportedGlobalMetaId gid))"
proof (cases "ConvertToBitcoin ulower b58enc gid ''mainnet''")
  case (Inr addr)
  then show ?thesis by (simp add: DecodeGlobalMetaId_def)
next
  case (Inl e)
  have seg: "(\<exists>e. Bech32Encode h v d = Inl e) = (\<exists>e. Bech32Encode h' v d = Inl e)"
    if "v = 0 \<or> v = 1" for h h' v d
    using that Bech32Encode_total [of v h d] Bech32Encode_total [of v h' d] by auto
  have "\<exists>e. ConvertToBitcoin ulower b58enc gid ''testnet'' = Inl e"
    using Inl seg [where v = 0 and h = "''bc''" and h' = "''tb''"]
      seg [where v = 1 and h = "''bc''" and h' = "''tb''"]
    by (fastforce simp: ConvertToBitcoin_def Let_def split: sum.splits if_splits)
  moreover have "\<exists>e. ConvertToDogecoin ulower b58enc gid = Inl e"
    using Inl by (auto simp: ConvertToBitcoin_def ConvertToDogecoin_def Let_def split: sum.splits if_splits)
  ultimately show ?thesis
    using Inl by (auto simp: DecodeGlobalMetaId_def)
qed

text \<open>
  The network name \<open>bitcoin\<close> that \<open>FromID\<close> accepts gives a legacy ID address its testnet
  form: version byte 0x6F or 0xC4, the same string as for \<open>testnet\<close>, since \<open>ConvertToBitcoin\<close>
  compares the name with \<open>mainnet\<close> only.
\<close>

theorem FromID_bitcoin_is_testnet:
  assumes "DecodeIDAddress ulower gid = Inr info"
    and "ai_version info = VersionP2PKH \<or> ai_version info = VersionP2SH"
  shows "FromID ulower b58enc ac gid ''bitcoin'' = FromID ulower b58enc ac gid ''testnet''
       \<and> FromID ulower b58enc ac gid ''bitcoin''
         = Inr (Base58CheckEncode b58enc (if ai_version info = VersionP2PKH then 0x6F else 0xC4) (ai_data info))"
  using assms by (auto simp: FromID_def ConvertToBitcoin_def Let_def)

theorem FromID_bitcoin_is_testnet_witness:
  "FromID (\<lambda>r. r) (map char_of) \<lparr>defaultNetwork = ''bitcoin''\<rparr> (''idq1qq'' @ demo_tail) ''bitcoin''
     = Inr (Base58CheckEncode (map char_of) 0x6F demo_payload)"
  using FromID_bitcoin_is_testnet [THEN conjunct2, OF demo_id_decodes, of "map char_of" "\<lparr>defaultNetwork = ''bitcoin''\<rparr>"]
  by simp

section \<open>Chain address round trip\<close>

lemma sha_round_length: "length st = 8 \<Longrightarrow> length (sha_round st kw) = 8"
  by (cases "(st, kw)" rule: sha_round.cases) (auto simp: Let_def)

lemma sha_rounds_length: "length st = 8 \<Longrightarrow> length (foldl sha_round st kws) = 8"
  by (induction kws arbitrary: st) (auto simp: sha_round_length)

lemma sha_blocks_length: "length h = 8 \<Longrightarrow> length (foldl sha_block h bs) = 8"
  by (induction bs arbitrary: h) (auto simp: sha_block_def sha_rounds_length)

lemma sha256_length: "length (sha256 m) = 32"
proof -
  have "length (word_be w) = 4" for w by (simp add: word_be_def)
  then have "length (concat (map word_be ws)) = 4 * length ws" for ws
    by (induction ws) auto
  moreover have "length sha_h0 = 8" by (simp add: sha_h0_def)
  ultimately show ?thesis by (simp add: sha256_def sha_blocks_length)
qed

lemma sha256_bytes: "\<forall>b \<in> set (sha256 m). 0 \<le> b \<and> b < 256"
proof -
  have "0 \<le> b \<and> b < 256" if "b \<in> set (word_be w)" for b w
  proof -
    have "uint (x AND 255) < 256" for x :: w32
    proof -
      have "x AND 255 \<le> 255" by (rule word_and_le1)
      then have "uint (x AND 255) \<le> uint (255 :: w32)" by (simp only: word_le_def)
      then show ?thesis by simp
    qed
    with that show ?thesis by (auto simp: word_be_def)
  qed
  then show ?thesis by (auto simp: sha256_def)
qed

lemma Base58Check_roundtrip:
  assumes law: "\<And>bs. (\<forall>b \<in> set bs. 0 \<le> b \<and> b < 256) \<Longrightarrow> b58dec (b58enc bs) = bs"
    and bytes: "\<forall>b \<in> set payload. 0 \<le> b \<and> b < 256" "0 \<le> version" "version < 256"
  shows "Base58CheckDecode b58dec (Base58CheckEncode b58enc version payload) = Inr (version, payload)"
proof -
  define data where "data = version # payload"
  let ?ck = "take 4 (doubleSHA256 data)"
  have ck: "length ?ck = 4" by (simp add: doubleSHA256_def sha256_length)
  have "\<forall>b \<in> set (data @ ?ck). 0 \<le> b \<and> b < 256"
    using bytes sha256_bytes [of "sha256 data"]
    by (auto simp: data_def doubleSHA256_def dest: in_set_takeD)
  then have dec: "b58dec (Base58CheckEncode b58enc version payload) = data @ ?ck"
    using law by (simp add: Base58CheckEncode_def data_def)
  show ?thesis
    unfolding Base58CheckDecode_def Base58Decode_def Let_def dec
    using ck by (simp add: data_def)
qed

lemma plain_bc: "plain ''bc''" "plain ''tb''"
  by (simp_all add: plain_def ascii_def lower_byte_def)

lemma Bech32Encode_short:
  assumes enc: "Bech32Encode hrp version program = Inr addr"
    and bytes: "\<forall>v \<in> set program. 0 \<le> v \<and> v < 256" and len: "length program \<le> 32" "length hrp = 2"
  shows "length addr \<le> 90"
proof -
  from enc obtain mid where mid8: "convertBits8to5 program 8 5 True = Inr mid"
    by (auto simp: Bech32Encode_def Let_def split: if_splits sum.splits)
  have mid: "convertBits program 8 5 True = Inr mid"
    using mid8 convertBits8to5_agrees [of program 8 5 True] bytes by (auto split: sum.splits)
  obtain p where "p < 5" "concat (map (bl 5) mid) = concat (map (bl 8) program) @ replicate p False"
    using convertBits_pad_bits [OF mid] by auto
  from arg_cong [OF this(2), of length] this(1) have "5 * length mid < 8 * length program + 5" by simp
  with len have "length mid \<le> 52" by simp
  moreover have "length addr = length hrp + length mid + 8"
    using enc mid8 by (auto simp: Bech32Encode_def Let_def split: if_splits)
  ultimately show ?thesis using len by simp
qed

text \<open>
  C33: the way back. If \<open>ConvertToBitcoin\<close> turns an ID address made by \<open>EncodeIDAddress\<close> into a
  chain address for some network, \<open>ConvertFromBitcoin\<close> of that chain address is the ID address again,
  for the SegWit versions unless the address, which is tried as Base58Check first, reads as that by
  chance; with a \<open>0\<close> or \<open>l\<close> in it it cannot. The hypotheses on base58 are its documented behaviour:
  decoding inverts encoding, and a character outside the alphabet gives no bytes.
\<close>

theorem ConvertFromBitcoin_ConvertToBitcoin:
  assumes enc: "EncodeIDAddress version data = Inr gid"
    and bytes: "\<forall>v \<in> set data. 0 \<le> v \<and> v < 256"
    and conv: "ConvertToBitcoin ulower b58enc gid network = Inr addr"
    and law: "\<And>bs. (\<forall>b \<in> set bs. 0 \<le> b \<and> b < 256) \<Longrightarrow> b58dec (b58enc bs) = bs"
    and alphabet: "\<And>s. set s \<inter> set ''0OIl'' \<noteq> {} \<Longrightarrow> b58dec s = []"
  shows "ConvertFromBitcoin ulower b58dec addr =
    (if version \<in> {VersionP2PKH, VersionP2SH} \<or> CHR ''0'' \<in> set addr \<or> CHR ''l'' \<in> set addr then Inr gid
     else case Base58CheckDecode b58dec addr of Inl e \<Rightarrow> Inr gid | Inr (v, payload) \<Rightarrow> convertFromLegacyAddress v payload)"
    (is "_ = ?result")
proof -
  let ?hrp = "if network = ''testnet'' then ''tb'' else ''bc''"
  have dec: "DecodeIDAddress ulower gid = Inr \<lparr>ai_version = version, ai_data = data, ai_address = gid\<rparr>"
    by (rule DecodeIDAddress_EncodeIDAddress [OF bytes enc])
  have none: "\<exists>e. Base58CheckDecode b58dec addr = Inl e" if "CHR ''0'' \<in> set addr \<or> CHR ''l'' \<in> set addr"
  proof -
    have "b58dec addr = []" using that by (intro alphabet) auto
    moreover have "addr \<noteq> []" using that by auto
    ultimately show ?thesis by (simp add: Base58CheckDecode_def Base58Decode_def)
  qed
  have segwit: "ConvertFromBitcoin ulower b58dec addr = ?result"
    if b: "Bech32Encode ?hrp wv data = Inr addr" and "0 \<le> wv" "length data \<le> 32"
      and v: "version \<notin> {VersionP2PKH, VersionP2SH}" and ret: "convertFromSegWitAddress ?hrp wv data = Inr gid" for wv
  proof -
    have "length addr \<le> 90" using Bech32Encode_short [OF b bytes] that by simp
    then have "Bech32Decode ulower addr = Inr \<lparr>br_hrp = ?hrp, br_version = wv, br_program = data,
        br_encoding = (if wv = 0 then Bech32 else Bech32m)\<rparr>"
      using that plain_bc by (intro Bech32Decode_Encode [OF b bytes]) auto
    with ret v none show ?thesis
      by (cases "Base58CheckDecode b58dec addr") (auto simp: ConvertFromBitcoin_def)
  qed
  have legacy: "ConvertFromBitcoin ulower b58dec addr = convertFromLegacyAddress ver data"
    if "addr = Base58CheckEncode b58enc ver data" "0 \<le> ver" "ver < 256" for ver
    using Base58Check_roundtrip [of b58dec b58enc data, OF law bytes] that
    by (simp add: ConvertFromBitcoin_def)
  consider "version = VersionP2PKH" | "version = VersionP2SH" | "version = VersionP2WPKH"
    | "version = VersionP2WSH" | "version = VersionP2TR"
    using conv dec by (auto simp: ConvertToBitcoin_def Let_def split: if_splits)
  then show ?thesis
  proof cases
    case 1
    with conv dec have "addr = Base58CheckEncode b58enc (if network = ''mainnet'' then 0x00 else 0x6F) data"
      by (simp add: ConvertToBitcoin_def Let_def)
    with legacy 1 enc show ?thesis by (simp add: convertFromLegacyAddress_def lift_id_def)
  next
    case 2
    with conv dec have "addr = Base58CheckEncode b58enc (if network = ''mainnet'' then 0x05 else 0xC4) data"
      by (simp add: ConvertToBitcoin_def Let_def)
    with legacy 2 enc show ?thesis by (simp add: convertFromLegacyAddress_def lift_id_def)
  next
    case 3
    with conv dec have "Bech32Encode ?hrp 0 data = Inr addr" "length data = 20"
      by (simp_all add: ConvertToBitcoin_def Let_def split: if_splits)
    with 3 enc show ?thesis by (intro segwit [of 0]) (simp_all add: convertFromSegWitAddress_def lift_id_def)
  next
    case 4
    with conv dec have "Bech32Encode ?hrp 0 data = Inr addr" "length data = 32"
      by (simp_all add: ConvertToBitcoin_def Let_def split: if_splits)
    with 4 enc show ?thesis by (intro segwit [of 0]) (simp_all add: convertFromSegWitAddress_def lift_id_def)
  next
    case 5
    with conv dec have "Bech32Encode ?hrp 1 data = Inr addr" "length data = 32"
      by (simp_all add: ConvertToBitcoin_def Let_def split: if_splits)
    with 5 enc show ?thesis by (intro segwit [of 1]) (simp_all add: convertFromSegWitAddress_def lift_id_def)
  qed
qed

text \<open>A base58-like code for the witness: three digits from 1 to 9 for a byte.\<close>

definition nines_enc :: "int list \<Rightarrow> string" where
  "nines_enc bs = concat (map (\<lambda>b. [char_of (49 + b div 81), char_of (49 + b div 9 mod 9), char_of (49 + b mod 9)]) bs)"

fun nines :: "int list \<Rightarrow> int list" where
  "nines (a # b # c # r) = (81 * a + 9 * b + c) # nines r"
| "nines _ = []"

definition nines_dec :: "string \<Rightarrow> int list" where
  "nines_dec s = (if list_all (\<lambda>c. 49 \<le> byte c \<and> byte c < 58) s then nines (map (\<lambda>c. byte c - 49) s) else [])"

lemma nines_digit: "0 \<le> d \<Longrightarrow> d < 9 \<Longrightarrow> byte (char_of (49 + d)) = (49 + d :: int)"
  by (simp add: of_char_of)

lemma nines_digits: "0 \<le> b \<and> b < 256 \<Longrightarrow> 0 \<le> b div 81 \<and> b div 81 < 9 \<and> 0 \<le> b div 9 mod 9 \<and> b div 9 mod 9 < 9
    \<and> 0 \<le> b mod 9 \<and> b mod 9 < 9 \<and> 81 * (b div 81) + 9 * (b div 9 mod 9) + b mod 9 = (b :: int)"
proof -
  assume b: "0 \<le> b \<and> b < 256"
  have "b div 81 = b div 9 div 9" by (simp add: zdiv_zmult2_eq [symmetric])
  then have "81 * (b div 81) + 9 * (b div 9 mod 9) + b mod 9 = b"
    using mult_div_mod_eq [of 9 b] mult_div_mod_eq [of 9 "b div 9"] by linarith
  moreover have "0 \<le> b div 81 \<and> b div 81 < 9" using b by auto
  ultimately show ?thesis by simp
qed

lemma nines_inverse: "\<forall>b \<in> set bs. 0 \<le> b \<and> b < 256 \<Longrightarrow> nines_dec (nines_enc bs) = bs"
proof -
  assume bs: "\<forall>b \<in> set bs. 0 \<le> b \<and> b < 256"
  have "list_all (\<lambda>c. 49 \<le> byte c \<and> byte c < 58) (nines_enc bs)"
    using bs nines_digits by (auto simp: nines_enc_def list_all_iff nines_digit)
  moreover have "nines (map (\<lambda>c. byte c - 49) (nines_enc bs)) = bs"
    using bs
  proof (induction bs)
    case (Cons b bs)
    have enc: "nines_enc (b # bs) = char_of (49 + b div 81) # char_of (49 + b div 9 mod 9) # char_of (49 + b mod 9) # nines_enc bs"
      by (simp add: nines_enc_def)
    from Cons.prems nines_digits [of b] nines_digit [of "b div 81"] nines_digit [of "b div 9 mod 9"] nines_digit [of "b mod 9"] Cons.IH
    show ?case unfolding enc by simp
  qed (simp add: nines_enc_def)
  ultimately show ?thesis by (simp add: nines_dec_def)
qed

lemma nines_alphabet: "set s \<inter> set ''0OIl'' \<noteq> {} \<Longrightarrow> nines_dec s = []"
  by (auto simp: nines_dec_def list_all_iff)

theorem ConvertFromBitcoin_ConvertToBitcoin_witness:
  "\<exists>gid. EncodeIDAddress VersionP2WPKH demo_payload = Inr gid
     \<and> ConvertFromBitcoin (\<lambda>r. r) nines_dec ''bc1qqqqsyqcyq5rqwzqfpg9scrgwpugpzysn4v0345'' = Inr gid"
proof -
  have "case EncodeIDAddress VersionP2WPKH demo_payload of Inr gid \<Rightarrow> True | Inl e \<Rightarrow> False" by code_simp
  then obtain gid where gid: "EncodeIDAddress VersionP2WPKH demo_payload = Inr gid" by (auto split: sum.splits)
  have "Bech32Encode ''bc'' 0 demo_payload = Inr ''bc1qqqqsyqcyq5rqwzqfpg9scrgwpugpzysn4v0345''" by code_simp
  then have "ConvertToBitcoin (\<lambda>r. r) nines_enc gid ''mainnet'' = Inr ''bc1qqqqsyqcyq5rqwzqfpg9scrgwpugpzysn4v0345''"
    using DecodeIDAddress_EncodeIDAddress [OF demo_bytes gid, of "\<lambda>r. r"]
    by (simp add: ConvertToBitcoin_def demo_payload_def)
  from ConvertFromBitcoin_ConvertToBitcoin [OF gid demo_bytes this, of nines_dec, OF nines_inverse nines_alphabet] gid
  show ?thesis by simp
qed

end
