(* ===== verification/Json.thy ===== *)
theory Json
  imports Sha256
begin

text \<open>
  Decoded JSON bodies, their typed accessors and the canonical JSON encoding with its inner and
  outer hash (\<open>internal/metatask/v121.go\<close>, first part). A \<open>map[string]any\<close> is an association
  list with distinct keys; the decoder keeps number literals as \<open>json.Number\<close>, so a decoded
  number is its literal (\<open>JNum\<close>), and \<open>JInt\<close> is an \<open>int64\<close> the engine itself puts into a
  document. Decoded bodies hold no \<open>float64\<close> value.
\<close>

section \<open>Values and accessors\<close>

datatype json =
    JNull
  | JBool bool
  | JStr string
  | JNum string
  | JInt int
  | JArr "json list"
  | JObj "(string \<times> json) list"

type_synonym jobj = "(string, json) gomap"

text \<open>An index expression on a \<open>map[string]any\<close>; an absent key reads as nil.\<close>

definition jget :: "jobj \<Rightarrow> string \<Rightarrow> json" where
  "jget b k = (case mget b k of None \<Rightarrow> JNull | Some v \<Rightarrow> v)"

definition strAny :: "json \<Rightarrow> string" where
  "strAny v = (case v of JStr s \<Rightarrow> s | _ \<Rightarrow> '''')"

definition truthyStrAny :: "json \<Rightarrow> bool" where
  "truthyStrAny v = (case v of JStr s \<Rightarrow> \<not> blank s | _ \<Rightarrow> False)"

definition numAny :: "json \<Rightarrow> f64 option" where
  "numAny v = (case v of
      JInt i \<Rightarrow> round64 (of_int i)
    | JNum s \<Rightarrow> parse_f64 s
    | _ \<Rightarrow> None)"

text \<open>The type assertions \<open>v.(map[string]any)\<close>, \<open>v.([]any)\<close> and \<open>v.(string)\<close>.\<close>

definition as_obj :: "json \<Rightarrow> jobj option" where
  "as_obj v = (case v of JObj fs \<Rightarrow> Some fs | _ \<Rightarrow> None)"

definition as_arr :: "json \<Rightarrow> json list option" where
  "as_arr v = (case v of JArr a \<Rightarrow> Some a | _ \<Rightarrow> None)"

definition as_str :: "json \<Rightarrow> string option" where
  "as_str v = (case v of JStr s \<Rightarrow> Some s | _ \<Rightarrow> None)"

definition as_bool :: "json \<Rightarrow> bool option" where
  "as_bool v = (case v of JBool b \<Rightarrow> Some b | _ \<Rightarrow> None)"

text \<open>The strings of an array, in order; other elements are skipped.\<close>

definition str_elems :: "json list \<Rightarrow> string list" where
  "str_elems vs = List.map_filter as_str vs"

section \<open>Canonical JSON\<close>

definition hex4 :: "int \<Rightarrow> string" where
  "hex4 r = map (\<lambda>i. hex_digit (r div 16 ^ i mod 16)) [3, 2, 1, 0]"

definition escape_rune :: "int \<Rightarrow> string" where
  "escape_rune r =
     (if r = 34 then [CHR 0x5C, CHR 0x22]
      else if r = 92 then [CHR 0x5C, CHR 0x5C]
      else if r = 8 then [CHR 0x5C, CHR ''b'']
      else if r = 12 then [CHR 0x5C, CHR ''f'']
      else if r = 10 then [CHR 0x5C, CHR ''n'']
      else if r = 13 then [CHR 0x5C, CHR ''r'']
      else if r = 9 then [CHR 0x5C, CHR ''t'']
      else if r < 32 then CHR 0x5C # CHR ''u'' # hex4 r
      else map char_of (encode_rune r))"

definition pyJSONString :: "string \<Rightarrow> string" where
  "pyJSONString s = CHR 0x22 # concat (map (\<lambda>(i, r). escape_rune r) (runes_of s)) @ [CHR 0x22]"

text \<open>
  \<open>writeCanonJ\<close>, returning the text it appends; \<open>None\<close> is its error, which an empty number
  literal alone gives here. Object keys come out in byte order.
\<close>

fun join_comma :: "string list \<Rightarrow> string" where
  "join_comma [] = []"
| "join_comma [s] = s"
| "join_comma (s # t # ss) = s @ CHR '','' # join_comma (t # ss)"

definition key_less :: "string \<times> 'a \<Rightarrow> string \<times> 'a \<Rightarrow> bool" where
  "key_less a b = string_less (fst a) (fst b)"

function canonJ :: "json \<Rightarrow> string option" where
  "canonJ JNull = Some ''null''"
| "canonJ (JBool b) = Some (if b then ''true'' else ''false'')"
| "canonJ (JStr s) = Some (pyJSONString s)"
| "canonJ (JNum s) = (if s = '''' then None else Some s)"
| "canonJ (JInt i) = Some (show_int i)"
| "canonJ (JArr vs) =
     (case those (map canonJ vs) of
        None \<Rightarrow> None
      | Some ts \<Rightarrow> Some (CHR ''['' # join_comma ts @ '']''))"
| "canonJ (JObj fs) =
     (case those (map (\<lambda>f. map_option (\<lambda>t. pyJSONString (fst f) @ CHR '':'' # t) (canonJ (snd f)))
                      (slice_stable key_less fs)) of
        None \<Rightarrow> None
      | Some ts \<Rightarrow> Some (CHR ''{'' # join_comma ts @ ''}''))"
  by pat_completeness auto

termination
proof (relation "measure size")
  fix fs and f :: "string \<times> json"
  assume "f \<in> set (slice_stable key_less fs)"
  then have "f \<in> set fs" by simp
  then have "size (snd f) \<le> size_list (size_prod (\<lambda>s. 0) size) fs"
    by (rule size_list_estimation') (cases f, simp)
  then show "(snd f, JObj fs) \<in> measure size" by simp
qed (auto simp: less_Suc_eq_le intro: size_list_estimation')

text \<open>\<open>V121InnerHash\<close> and \<open>V121OuterHash\<close>.\<close>

definition V121InnerHash :: "jobj \<Rightarrow> string option" where
  "V121InnerHash result =
     map_option sha256_hex (canonJ (JObj (filter (\<lambda>f. fst f \<noteq> ''hash'') result)))"

definition V121OuterHash :: "jobj \<Rightarrow> string option" where
  "V121OuterHash result = map_option sha256_hex (canonJ (JObj result))"

end
