(* ===== verification/EventOrder.thy ===== *)
theory EventOrder
  imports Json
begin

text \<open>
  Chain events and the total orders of the MetaTask replay (\<open>v121.go\<close>): the unified order
  (height, txIndex, timestamp, pin id) with mempool events last, the order of the event-set hash,
  the display order of node ids and the orders of shares and participants. Each comparator is
  shown to be a total order on the keys it is used for, so that \<open>sort.SliceStable\<close> depends on
  the multiset of its input only.
\<close>

section \<open>Events\<close>

record chain_event =
  ev_pin :: string
  ev_path :: string
  ev_author :: string
  ev_height :: int
  ev_tx :: int
  ev_ts :: int
  ev_body :: jobj

text \<open>The three integers are Go \<open>int64\<close>s.\<close>

definition event_ok :: "chain_event \<Rightarrow> bool" where
  "event_ok e \<longleftrightarrow> int64_range (ev_height e) \<and> int64_range (ev_tx e) \<and> int64_range (ev_ts e)"

abbreviation evs :: "chain_event \<Rightarrow> string \<Rightarrow> string" where
  "evs e k \<equiv> strAny (jget (ev_body e) k)"

record ignored_event =
  ig_pin :: string
  ig_reason :: string

definition ignore :: "chain_event \<Rightarrow> string \<Rightarrow> ignored_event" where
  "ignore e r = \<lparr>ig_pin = ev_pin e, ig_reason = r\<rparr>"

section \<open>The unified order\<close>

record ord_key =
  k_h :: int
  k_tx :: int
  k_ts :: int
  k_pin :: string

definition ordKeyOf :: "chain_event \<Rightarrow> ord_key" where
  "ordKeyOf e = \<lparr>k_h = (if ev_height e < 0 then max_int64 else ev_height e),
                 k_tx = ev_tx e, k_ts = ev_ts e, k_pin = ev_pin e\<rparr>"

definition ordLess :: "ord_key \<Rightarrow> ord_key \<Rightarrow> bool" where
  "ordLess a b =
     (if k_h a \<noteq> k_h b then k_h a < k_h b
      else if k_tx a \<noteq> k_tx b then k_tx a < k_tx b
      else if k_ts a \<noteq> k_ts b then k_ts a < k_ts b
      else string_less (k_pin a) (k_pin b))"

definition event_less :: "chain_event \<Rightarrow> chain_event \<Rightarrow> bool" where
  "event_less a b = ordLess (ordKeyOf a) (ordKeyOf b)"

definition sortChainEvents :: "chain_event list \<Rightarrow> chain_event list" where
  "sortChainEvents es = slice_stable event_less es"

lemma ordLess_order: "total_order_on ordLess (\<lambda>k. k_pin k)"
  unfolding ordLess_def [abs_def]
  by (intro total_order_on_lex total_order_on_inv [OF string_order])

interpretation key_order: total_order_on ordLess "\<lambda>k. k_pin k"
  by (rule ordLess_order)

interpretation event_ord: total_order_on event_less ev_pin
  using total_order_on_inv [OF ordLess_order, of ordKeyOf]
  by (simp add: event_less_def [abs_def] ordKeyOf_def)

lemma sortChainEvents_perm:
  "mset xs = mset ys \<Longrightarrow> inj_on ev_pin (set xs) \<Longrightarrow> sortChainEvents xs = sortChainEvents ys"
  unfolding sortChainEvents_def by (rule event_ord.slice_stable_perm)

lemma mset_sortChainEvents [simp]: "mset (sortChainEvents xs) = mset xs"
  by (simp add: sortChainEvents_def)

lemma set_sortChainEvents [simp]: "set (sortChainEvents xs) = set xs"
  by (simp add: sortChainEvents_def)

lemma sortChainEvents_sorted: "sorted_wrt (\<lambda>a b. \<not> event_less b a) (sortChainEvents xs)"
  unfolding sortChainEvents_def by (rule event_ord.sorted)

section \<open>The order of the event-set hash\<close>

definition hash_less :: "chain_event \<Rightarrow> chain_event \<Rightarrow> bool" where
  "hash_less a b =
     (if ev_height a \<noteq> ev_height b then ev_height a < ev_height b
      else if ev_tx a \<noteq> ev_tx b then ev_tx a < ev_tx b
      else string_less (ev_pin a) (ev_pin b))"

interpretation hash_ord: total_order_on hash_less ev_pin
  unfolding hash_less_def [abs_def]
  by (intro total_order_on_lex total_order_on_inv [OF string_order])

section \<open>The display order of node ids\<close>

definition node_less :: "string \<Rightarrow> string \<Rightarrow> bool" where
  "node_less a b = (if length a \<noteq> length b then length a < length b else string_less a b)"

interpretation node_ord: total_order_on node_less "\<lambda>s. s"
  unfolding node_less_def [abs_def] by (intro total_order_on_lex string_order)

section \<open>Keys of canonical JSON\<close>

interpretation key_ord: total_order_on key_less fst
  unfolding key_less_def [abs_def] by (intro total_order_on_inv [OF string_order])

end
