(* ===== verification/Walk.thy ===== *)
theory Walk
  imports EventOrder
begin

text \<open>
  The vote pre-pass, the unified ordered walk and the expiry pass of \<open>ReplayV121\<close> in
  \<open>v121.go\<close>. The walk is one fold over the sorted timeline of claims, releases, submissions and
  acting votes; its state is the code's \<open>walkState\<close>. Cycles are shared objects in the code; here
  \<open>ws_cycles\<close> is the one store of them, and the other tables hold indices into it.
\<close>

section \<open>Vote gates and the roster\<close>

definition v121GateReason :: "jobj \<Rightarrow> int \<Rightarrow> int \<Rightarrow> string" where
  "v121GateReason body height hAct =
     (if height < hAct then ''''
      else if \<not> truthyStrAny (jget body ''semantic_check'') then ''missing_semantic_check''
      else if strAny (jget body ''verdict'') = ''fail'' \<and> \<not> truthyStrAny (jget body ''failreason'')
      then ''missing_failreason''
      else '''')"

definition rosterGroupsFor :: "jobj \<Rightarrow> string list list" where
  "rosterGroupsFor body =
     (case as_arr (jget body ''groups'') of
        None \<Rightarrow> []
      | Some raw \<Rightarrow> map str_elems (List.map_filter as_arr raw))"

definition sameSide :: "string list list \<Rightarrow> string \<Rightarrow> string \<Rightarrow> bool" where
  "sameSide groups a b =
     (if a = '''' \<or> b = '''' then False
      else if a = b then True
      else list_ex (\<lambda>grp. a \<in> set grp \<and> b \<in> set grp) groups)"

section \<open>The setting of one replay\<close>

text \<open>
  What the walk reads of the task: the root author, the quorum, the two gates, the resolved
  roster groups, the author of every submission in scope, and the evaluation clock with the two
  time limits (in hours). \<open>we_acting\<close> lists the pins of the last valid votes.
\<close>

record walk_env =
  we_rootAuthor :: string
  we_quorum :: int
  we_hAct :: int
  we_hAct2 :: int
  we_groups :: "string list list"
  we_subAuthor :: "(string, string) gomap"
  we_acting :: "string list"
  we_hasNow :: bool
  we_now :: int
  we_ttlHours :: int
  we_windowHours :: int

definition subAuthor :: "walk_env \<Rightarrow> string \<Rightarrow> string" where
  "subAuthor env pin = (case mget (we_subAuthor env) pin of Some a \<Rightarrow> a | None \<Rightarrow> '''')"

definition same_side_vote :: "walk_env \<Rightarrow> chain_event \<Rightarrow> bool" where
  "same_side_vote env vote \<longleftrightarrow>
     we_hAct2 env \<noteq> max_int64 \<and> we_hAct2 env \<le> ev_height vote \<and> we_groups env \<noteq> []
     \<and> (sameSide (we_groups env) (ev_author vote) (subAuthor env (evs vote ''targetid''))
        \<or> sameSide (we_groups env) (ev_author vote) (we_rootAuthor env))"

text \<open>The pre-pass: ignored ballots, all ballots per target, and the last valid one per (target, bot).\<close>

record prepass =
  pp_ignored :: "ignored_event list"
  pp_verifyByTarget :: "(string, chain_event list) gomap"
  pp_lastVotes :: "(string \<times> string, chain_event) gomap"

definition mappend :: "'k \<Rightarrow> 'v \<Rightarrow> ('k, 'v list) gomap \<Rightarrow> ('k, 'v list) gomap" where
  "mappend k v m = mput k ((case mget m k of None \<Rightarrow> [] | Some vs \<Rightarrow> vs) @ [v]) m"

definition prepass_vote :: "walk_env \<Rightarrow> prepass \<Rightarrow> chain_event \<Rightarrow> prepass" where
  "prepass_vote env pp vote =
     (let target = evs vote ''targetid''
      in if target = '''' \<or> \<not> mhas (we_subAuthor env) target then pp
         else let pp1 = pp\<lparr>pp_verifyByTarget := mappend target vote (pp_verifyByTarget pp)\<rparr>;
                  reason = v121GateReason (ev_body vote) (ev_height vote) (we_hAct env)
              in if reason \<noteq> '''' then pp1\<lparr>pp_ignored := pp_ignored pp1 @ [ignore vote reason]\<rparr>
                 else if same_side_vote env vote then
                   pp1\<lparr>pp_ignored := pp_ignored pp1 @ [ignore vote ''same_side_roster'']\<rparr>
                 else pp1\<lparr>pp_lastVotes := mput (target, ev_author vote) vote (pp_lastVotes pp1)\<rparr>)"

definition vote_prepass :: "walk_env \<Rightarrow> chain_event list \<Rightarrow> prepass" where
  "vote_prepass env votes =
     foldl (prepass_vote env) \<lparr>pp_ignored = [], pp_verifyByTarget = [], pp_lastVotes = []\<rparr> votes"

text \<open>The surviving ballots of one target, in the unified order.\<close>

definition votesByTarget :: "prepass \<Rightarrow> string \<Rightarrow> chain_event list" where
  "votesByTarget pp target =
     sortChainEvents (filter (\<lambda>v. evs v ''targetid'' = target) (map snd (pp_lastVotes pp)))"

section \<open>Walk state\<close>

record cycle_submission =
  su_pin :: string
  su_author :: string
  su_atMs :: int
  su_height :: int
  su_supersedeID :: string
  su_body :: jobj

datatype cycle_outcome = Open | Verified | FailRejected

record claim_cycle =
  cy_node :: string
  cy_claimID :: string
  cy_claimant :: string
  cy_submissions :: "cycle_submission list"
  cy_effective :: "cycle_submission option"
  cy_superseded :: "string list"
  cy_outcome :: cycle_outcome
  cy_quorumAtMs :: int

record holder =
  ho_pin :: string
  ho_claimant :: string
  ho_sinceMs :: int
  ho_height :: int

record walk_state =
  ws_holders :: "(string, holder) gomap"
  ws_firstClaimOrder :: "(string, ord_key) gomap"
  ws_effectiveClaimCounts :: "(string, int) gomap"
  ws_cycles :: "claim_cycle list"
  ws_cycleByNodeClaim :: "(string, nat) gomap"
  ws_verifiedPins :: "string list"
  ws_passVoters :: "(string, (string, string) gomap) gomap"
  ws_nodeOfLive :: "(string, string) gomap"
  ws_claimEvents :: "(string, chain_event list) gomap"
  ws_releaseEvents :: "(string, chain_event list) gomap"
  ws_claimCounted :: "string list"
  ws_releaseCounted :: "string list"
  ws_submissionCycle :: "(string, nat) gomap"
  ws_nodeOutcome :: "(string, string) gomap"
  ws_reachedVote :: "string list"
  ws_ignored :: "ignored_event list"

definition walk_init :: walk_state where
  "walk_init = \<lparr>ws_holders = [], ws_firstClaimOrder = [], ws_effectiveClaimCounts = [], ws_cycles = [],
     ws_cycleByNodeClaim = [], ws_verifiedPins = [], ws_passVoters = [], ws_nodeOfLive = [],
     ws_claimEvents = [], ws_releaseEvents = [], ws_claimCounted = [], ws_releaseCounted = [],
     ws_submissionCycle = [], ws_nodeOutcome = [], ws_reachedVote = [], ws_ignored = []\<rparr>"

text \<open>A node outside the effective tree, when the walk is filtered by one.\<close>

definition ghost :: "string list option \<Rightarrow> string \<Rightarrow> bool" where
  "ghost inTree node = (case inTree of None \<Rightarrow> False | Some ids \<Rightarrow> node \<notin> set ids)"

definition cycle_key :: "string \<Rightarrow> string \<Rightarrow> string" where
  "cycle_key node claimID = node @ CHR '' '' # claimID"

definition getCycle :: "walk_state \<Rightarrow> string \<Rightarrow> string \<Rightarrow> nat option" where
  "getCycle w node claimID = mget (ws_cycleByNodeClaim w) (cycle_key node claimID)"

definition walk_ignore :: "chain_event \<Rightarrow> string \<Rightarrow> walk_state \<Rightarrow> walk_state" where
  "walk_ignore e r w = w\<lparr>ws_ignored := ws_ignored w @ [ignore e r]\<rparr>"

abbreviation update_cycle :: "nat \<Rightarrow> (claim_cycle \<Rightarrow> claim_cycle) \<Rightarrow> walk_state \<Rightarrow> walk_state" where
  "update_cycle i f w \<equiv> w\<lparr>ws_cycles := (ws_cycles w)[i := f (ws_cycles w ! i)]\<rparr>"

definition count_of :: "(string, int) gomap \<Rightarrow> string \<Rightarrow> int" where
  "count_of m k = (case mget m k of Some n \<Rightarrow> n | None \<Rightarrow> 0)"

section \<open>The handlers\<close>

definition walk_claim :: "string list option \<Rightarrow> walk_state \<Rightarrow> chain_event \<Rightarrow> walk_state" where
  "walk_claim inTree w pin =
     (let node = evs pin ''node'' in
      if node = '''' then w
      else if ghost inTree node then walk_ignore pin ''unknown_node'' w
      else if mhas (ws_holders w) node
      then w\<lparr>ws_claimEvents := mappend node pin (ws_claimEvents w)\<rparr>
      else w\<lparr>ws_holders := mput node \<lparr>ho_pin = ev_pin pin, ho_claimant = ev_author pin,
                                      ho_sinceMs = ev_ts pin, ho_height = ev_height pin\<rparr> (ws_holders w),
             ws_firstClaimOrder := (if mhas (ws_firstClaimOrder w) node then ws_firstClaimOrder w
                                    else mput node (ordKeyOf pin) (ws_firstClaimOrder w)),
             ws_effectiveClaimCounts :=
               mput (ev_author pin) (count_of (ws_effectiveClaimCounts w) (ev_author pin) + 1)
                 (ws_effectiveClaimCounts w),
             ws_claimCounted := ev_pin pin # ws_claimCounted w,
             ws_nodeOutcome := mput node ''none'' (ws_nodeOutcome w),
             ws_claimEvents := mappend node pin (ws_claimEvents w)\<rparr>)"

definition walk_release :: "string list option \<Rightarrow> walk_state \<Rightarrow> chain_event \<Rightarrow> walk_state" where
  "walk_release inTree w pin =
     (let node = evs pin ''node'' in
      if node = '''' then w
      else if ghost inTree node then walk_ignore pin ''unknown_node'' w
      else let w1 = w\<lparr>ws_releaseEvents := mappend node pin (ws_releaseEvents w)\<rparr> in
        (case mget (ws_holders w1) node of
           None \<Rightarrow> w1
         | Some h \<Rightarrow>
             if ho_pin h = evs pin ''claimid''
             then w1\<lparr>ws_holders := mdel node (ws_holders w1),
                     ws_passVoters := mdel node (ws_passVoters w1),
                     ws_releaseCounted := ev_pin pin # ws_releaseCounted w1,
                     ws_nodeOutcome := mput node ''released'' (ws_nodeOutcome w1)\<rparr>
             else w1))"

definition submission_record :: "chain_event \<Rightarrow> cycle_submission" where
  "submission_record pin =
     \<lparr>su_pin = ev_pin pin, su_author = ev_author pin, su_atMs = ev_ts pin, su_height = ev_height pin,
      su_supersedeID = evs pin ''supersedeid'', su_body = ev_body pin\<rparr>"

definition new_cycle :: "string \<Rightarrow> string \<Rightarrow> string \<Rightarrow> claim_cycle" where
  "new_cycle node claimID claimant =
     \<lparr>cy_node = node, cy_claimID = claimID, cy_claimant = claimant, cy_submissions = [],
      cy_effective = None, cy_superseded = [], cy_outcome = Open, cy_quorumAtMs = 0\<rparr>"

text \<open>The cycle of the live claim, made on the first submission.\<close>

definition open_cycle :: "walk_state \<Rightarrow> string \<Rightarrow> string \<Rightarrow> string \<Rightarrow> walk_state \<times> nat" where
  "open_cycle w node claimID claimant =
     (case getCycle w node claimID of
        Some i \<Rightarrow> (w, i)
      | None \<Rightarrow>
          (w\<lparr>ws_cycles := ws_cycles w @ [new_cycle node claimID claimant],
             ws_cycleByNodeClaim := mput (cycle_key node claimID) (length (ws_cycles w))
               (ws_cycleByNodeClaim w)\<rparr>, length (ws_cycles w)))"

text \<open>The supersede predicates (\<open>chainOk\<close>).\<close>

definition chainOk :: "walk_env \<Rightarrow> claim_cycle \<Rightarrow> cycle_submission \<Rightarrow> cycle_submission \<Rightarrow> bool" where
  "chainOk env c effective record0 =
     (case find (\<lambda>s. su_pin s = su_supersedeID record0) (cy_submissions c) of
        None \<Rightarrow> False
      | Some target \<Rightarrow>
          su_pin target \<noteq> su_pin record0 \<and> su_pin target = su_pin effective
          \<and> su_author target = su_author record0
          \<and> we_hAct2 env \<le> su_height record0 \<and> we_hAct2 env \<le> su_height target
          \<and> su_supersedeID record0 \<notin> set (cy_superseded c))"

definition attach_submission ::
    "walk_env \<Rightarrow> chain_event \<Rightarrow> string \<Rightarrow> cycle_submission \<Rightarrow> walk_state \<Rightarrow> nat \<Rightarrow> walk_state" where
  "attach_submission env pin node record0 w i =
     (case cy_effective (ws_cycles w ! i) of
        None \<Rightarrow>
          (update_cycle i (\<lambda>c. c\<lparr>cy_submissions := cy_submissions c @ [record0],
                                cy_effective := Some record0\<rparr>) w)
            \<lparr>ws_nodeOfLive := mput (su_pin record0) node (ws_nodeOfLive w),
             ws_submissionCycle := mput (su_pin record0) i (ws_submissionCycle w)\<rparr>
      | Some effective \<Rightarrow>
          if su_supersedeID record0 = '''' then walk_ignore pin ''duplicate_without_supersede'' w
          else if chainOk env (ws_cycles w ! i) effective record0
          then (update_cycle i (\<lambda>c. c\<lparr>cy_superseded := su_supersedeID record0 # cy_superseded c,
                                     cy_submissions := cy_submissions c @ [record0],
                                     cy_effective := Some record0\<rparr>) w)
                 \<lparr>ws_nodeOfLive := mput (su_pin record0) node (ws_nodeOfLive w),
                  ws_submissionCycle := mput (su_pin record0) i (ws_submissionCycle w)\<rparr>
          else walk_ignore pin ''supersede_predicate_failed'' w)"

definition walk_submission ::
    "walk_env \<Rightarrow> string list option \<Rightarrow> walk_state \<Rightarrow> chain_event \<Rightarrow> walk_state" where
  "walk_submission env inTree w pin =
     (let node = evs pin ''node''; claimID = evs pin ''claimid'' in
      if node = '''' \<or> claimID = '''' then w
      else if ghost inTree node then walk_ignore pin ''unknown_node'' w
      else (case mget (ws_holders w) node of
              None \<Rightarrow> w
            | Some h \<Rightarrow>
                if ho_pin h \<noteq> claimID then w
                else let (w1, i) = open_cycle w node claimID (ho_claimant h)
                     in attach_submission env pin node (submission_record pin) w1 i))"

text \<open>An acting fail: the cycle is rejected and the node reopens at once.\<close>

definition vote_fail :: "string \<Rightarrow> string \<Rightarrow> nat \<Rightarrow> walk_state \<Rightarrow> walk_state" where
  "vote_fail node target i w =
     (update_cycle i (\<lambda>c. c\<lparr>cy_outcome := FailRejected\<rparr>) w)
       \<lparr>ws_verifiedPins := filter (\<lambda>p. p \<noteq> target) (ws_verifiedPins w),
        ws_holders := mdel node (ws_holders w),
        ws_passVoters := mdel node (ws_passVoters w),
        ws_nodeOutcome := mput node ''rejected'' (ws_nodeOutcome w)\<rparr>"

definition vote_pass ::
    "walk_env \<Rightarrow> chain_event \<Rightarrow> string \<Rightarrow> string \<Rightarrow> nat \<Rightarrow> walk_state \<Rightarrow> walk_state" where
  "vote_pass env vote node target i w =
     (if ev_author vote = subAuthor env target \<or> ev_author vote = we_rootAuthor env then w
      else let voters0 = (case mget (ws_passVoters w) node of Some m \<Rightarrow> m | None \<Rightarrow> []);
               voters = (if mhas voters0 (ev_author vote) then voters0
                         else mput (ev_author vote) (ev_pin vote) voters0);
               w1 = w\<lparr>ws_passVoters := mput node voters (ws_passVoters w)\<rparr>
           in if int (length voters) \<ge> we_quorum env
              then (update_cycle i (\<lambda>c. c\<lparr>cy_quorumAtMs := (if cy_quorumAtMs c = 0 then ev_ts vote
                                                           else cy_quorumAtMs c),
                                         cy_outcome := Verified\<rparr>) w1)
                     \<lparr>ws_verifiedPins := List.insert target (ws_verifiedPins w)\<rparr>
              else w1)"

definition live_cycle :: "walk_state \<Rightarrow> string \<Rightarrow> (string \<times> nat) option" where
  "live_cycle w target =
     (case mget (ws_nodeOfLive w) target of
        None \<Rightarrow> None
      | Some node \<Rightarrow>
          if node = '''' then None
          else (case mget (ws_holders w) node of
                  None \<Rightarrow> None
                | Some h \<Rightarrow>
                    (case getCycle w node (ho_pin h) of
                       None \<Rightarrow> None
                     | Some i \<Rightarrow>
                         (case cy_effective (ws_cycles w ! i) of
                            None \<Rightarrow> None
                          | Some s \<Rightarrow> if su_pin s = target then Some (node, i) else None))))"

definition walk_verify :: "walk_env \<Rightarrow> walk_state \<Rightarrow> chain_event \<Rightarrow> walk_state" where
  "walk_verify env w vote =
     (if ev_pin vote \<notin> set (we_acting env) then w
      else let target = evs vote ''targetid'' in
        (case live_cycle w target of
           None \<Rightarrow> w
         | Some (node, i) \<Rightarrow>
             let w1 = w\<lparr>ws_reachedVote := ev_pin vote # ws_reachedVote w\<rparr> in
             if evs vote ''verdict'' = ''fail'' then vote_fail node target i w1
             else if evs vote ''verdict'' = ''pass'' then vote_pass env vote node target i w1
             else w1))"

definition walk_step :: "walk_env \<Rightarrow> string list option \<Rightarrow> walk_state \<Rightarrow> chain_event \<Rightarrow> walk_state" where
  "walk_step env inTree w pin =
     (if ev_path pin = ''claim'' then walk_claim inTree w pin
      else if ev_path pin = ''release'' then walk_release inTree w pin
      else if ev_path pin = ''submission'' then walk_submission env inTree w pin
      else if ev_path pin = ''verify'' then walk_verify env w pin
      else w)"

definition runWalk :: "walk_env \<Rightarrow> string list option \<Rightarrow> chain_event list \<Rightarrow> walk_state" where
  "runWalk env inTree timeline = foldl (walk_step env inTree) walk_init timeline"

section \<open>Expiry\<close>

definition expire_node :: "string \<Rightarrow> string \<Rightarrow> walk_state \<Rightarrow> walk_state" where
  "expire_node node reason w =
     w\<lparr>ws_holders := mdel node (ws_holders w), ws_passVoters := mdel node (ws_passVoters w),
       ws_nodeOutcome := mput node reason (ws_nodeOutcome w)\<rparr>"

definition hours_ms :: "int \<Rightarrow> int" where
  "hours_ms h = wrap64 (h * 3600000)"

definition live_effective :: "walk_state \<Rightarrow> string \<Rightarrow> string \<Rightarrow> cycle_submission option" where
  "live_effective w node claimID =
     (case getCycle w node claimID of None \<Rightarrow> None | Some i \<Rightarrow> cy_effective (ws_cycles w ! i))"

definition expiry_reason :: "walk_env \<Rightarrow> walk_state \<Rightarrow> string \<Rightarrow> holder \<Rightarrow> string option" where
  "expiry_reason env w node h =
     (case live_effective w node (ho_pin h) of
        None \<Rightarrow>
          if 0 < we_ttlHours env \<and> hours_ms (we_ttlHours env) < wrap64 (we_now env - ho_sinceMs h)
          then Some ''expired_claim'' else None
      | Some s \<Rightarrow>
          let good = (case mget (ws_passVoters w) node of None \<Rightarrow> 0 | Some m \<Rightarrow> int (length m))
          in if 0 < we_windowHours env \<and> good < we_quorum env
                \<and> hours_ms (we_windowHours env) < wrap64 (we_now env - su_atMs s)
             then Some ''expired_review_window'' else None)"

definition expire_step :: "walk_env \<Rightarrow> walk_state \<Rightarrow> string \<times> holder \<Rightarrow> walk_state" where
  "expire_step env w nh =
     (case expiry_reason env w (fst nh) (snd nh) of
        None \<Rightarrow> w
      | Some reason \<Rightarrow> expire_node (fst nh) reason w)"

definition applyExpiry :: "walk_env \<Rightarrow> walk_state \<Rightarrow> walk_state" where
  "applyExpiry env w =
     (if we_hasNow env then foldl (expire_step env) w (ws_holders w) else w)"

text \<open>A node's current cycle is its latest one.\<close>

definition activeCycle :: "walk_state \<Rightarrow> string \<Rightarrow> claim_cycle option" where
  "activeCycle w node = find (\<lambda>c. cy_node c = node) (rev (ws_cycles w))"

end
