(* ===== verification/AmendFold.thy ===== *)
theory AmendFold
  imports EventOrder
begin

text \<open>
  Task trees and the amend fold of \<open>v121.go\<close> (\<open>V121TreeNode\<close>, \<open>treeNodeWeight\<close>,
  \<open>v121SumWeights\<close>, \<open>v121IsAcyclic\<close>, \<open>foldAmends\<close>). Trees are values: the code copies every node
  before an amend edits it, so no edit of a rejected amend is visible.
\<close>

section \<open>Tree nodes\<close>

record tree_node =
  tn_id :: string
  tn_parent :: "string option"
  tn_title :: string
  tn_kind :: string
  tn_specid :: "string option"
  tn_params :: jobj
  tn_deps :: "string list"
  tn_weight :: json

type_synonym tree = "(string, tree_node) gomap"

text \<open>An integral number between 1 and 10000.\<close>

definition weight_value :: "json \<Rightarrow> int option" where
  "weight_value v = (case numAny v of
      None \<Rightarrow> None
    | Some f \<Rightarrow> if f \<noteq> of_int (trunc64 f) \<or> f < 1 \<or> 10000 < f then None
                else Some (f64_to_int64 f))"

definition treeNodeWeight :: "tree_node \<Rightarrow> int option" where
  "treeNodeWeight n = weight_value (tn_weight n)"

fun sum_weights :: "int \<Rightarrow> tree \<Rightarrow> int" where
  "sum_weights acc [] = acc"
| "sum_weights acc ((k, n) # ns) =
     (case treeNodeWeight n of None \<Rightarrow> -1 | Some w \<Rightarrow> sum_weights (acc + w) ns)"

definition v121SumWeights :: "tree \<Rightarrow> int" where
  "v121SumWeights nodes = sum_weights 0 nodes"

definition TreeWeightTotal :: int where "TreeWeightTotal = 10000"

text \<open>
  \<open>v121IsAcyclic\<close>: from every node climb the parents; \<open>climb\<close> is the inner loop with the seen
  set as a list. The empty id ends a climb, and so does an id that is not a node.
\<close>

definition parent_cursor :: "tree_node \<Rightarrow> string" where
  "parent_cursor n = (case tn_parent n of Some p \<Rightarrow> p | None \<Rightarrow> '''')"

function climb :: "tree \<Rightarrow> string list \<Rightarrow> string \<Rightarrow> bool" where
  "climb nodes seen cursor =
     (if cursor = '''' then True
      else if cursor \<in> set seen then False
      else (case mget nodes cursor of
              None \<Rightarrow> True
            | Some n \<Rightarrow> climb nodes (cursor # seen) (parent_cursor n)))"
  by auto

termination
proof (relation "measure (\<lambda>(nodes, seen, cursor). card (set (mkeys nodes) - set seen))")
  fix nodes :: tree and seen cursor n
  assume "cursor \<notin> set seen" "mget nodes cursor = Some n"
  then have "cursor \<in> set (mkeys nodes) - set seen" by (auto dest: mget_some_key)
  moreover have "set (mkeys nodes) - set (cursor # seen) = (set (mkeys nodes) - set seen) - {cursor}"
    by auto
  ultimately show "((nodes, cursor # seen, parent_cursor n), nodes, seen, cursor)
      \<in> measure (\<lambda>(nodes, seen, cursor). card (set (mkeys nodes) - set seen))"
    using card_Diff1_less [of "set (mkeys nodes) - set seen" cursor] by simp
qed simp

declare climb.simps [simp del]

definition v121IsAcyclic :: "tree \<Rightarrow> bool" where
  "v121IsAcyclic nodes = list_all (climb nodes []) (mkeys nodes)"

section \<open>One operation of an amend\<close>

text \<open>
  An operation hangs, is rejected, or yields the edited scratch tree and its node order.
\<close>

datatype 'a outcome = Hang | Reject | Commit 'a

type_synonym scratch = "tree \<times> string list"

definition frozenAt :: "(string, ord_key) gomap \<Rightarrow> ord_key \<Rightarrow> string \<Rightarrow> bool" where
  "frozenAt firstClaimOrder key nodeID =
     (case mget firstClaimOrder nodeID of None \<Rightarrow> False | Some claim \<Rightarrow> ordLess claim key)"

text \<open>
  The children of a node, in the order of the list; the code ranges over its map, whose order may be any
  other. When the work list below ends in every order, its answer is that of every order: whether a
  descendant is frozen. Below a cycle with a frozen descendant the order decides whether it ends.
\<close>

definition children_in :: "tree \<Rightarrow> string \<Rightarrow> string list" where
  "children_in nodes cur = map fst (filter (\<lambda>(k, n). tn_parent n = Some cur) nodes)"

text \<open>
  The work list of \<open>remove_node\<close>, top first. Nothing marks visited nodes, so the loop need not
  end; \<open>None\<close> is a run that does not.
\<close>

partial_function (option) remove_scan ::
    "(string \<Rightarrow> bool) \<Rightarrow> tree \<Rightarrow> string list \<Rightarrow> bool option" where
  "remove_scan frozen nodes stack =
     (case stack of
        [] \<Rightarrow> Some True
      | cur # rest \<Rightarrow>
          if frozen cur then Some False
          else remove_scan frozen nodes (rev (children_in nodes cur) @ rest))"

declare remove_scan.simps [code]

definition add_raw :: "jobj \<Rightarrow> jobj option" where
  "add_raw op = (case as_obj (jget op ''newNode'') of
      Some raw \<Rightarrow> Some raw
    | None \<Rightarrow> as_obj (jget op ''node''))"

definition added_node :: "jobj \<Rightarrow> tree_node" where
  "added_node raw =
     \<lparr>tn_id = strAny (jget raw ''id''),
      tn_parent = Some (strAny (jget raw ''parent'')),
      tn_title = strAny (jget raw ''title''),
      tn_kind = (if strAny (jget raw ''kind'') = '''' then ''proof'' else strAny (jget raw ''kind'')),
      tn_specid = as_str (jget raw ''specid''),
      tn_params = (case as_obj (jget raw ''params'') of Some p \<Rightarrow> p | None \<Rightarrow> []),
      tn_deps = (case as_arr (jget raw ''deps'') of Some d \<Rightarrow> str_elems d | None \<Rightarrow> []),
      tn_weight = jget raw ''weight''\<rparr>"

record amend_env =
  ae_rootAuthor :: string
  ae_treePinID :: string
  ae_firstClaimOrder :: "(string, ord_key) gomap"
  ae_verified :: "string list"
  ae_active :: "string list"
  ae_rootVerified :: bool
  ae_hAct2 :: int

definition op_add_node :: "amend_env \<Rightarrow> tree \<Rightarrow> jobj \<Rightarrow> scratch \<Rightarrow> scratch outcome" where
  "op_add_node env nodes op sc =
     (case add_raw op of
        None \<Rightarrow> Reject
      | Some raw \<Rightarrow>
          let nid = strAny (jget raw ''id''); parent = strAny (jget raw ''parent'')
          in if nid = '''' \<or> mhas nodes nid \<or> mhas (fst sc) nid then Reject
             else if \<not> mhas (fst sc) parent \<and> \<not> mhas nodes parent
                  \<or> parent \<in> set (ae_verified env) \<or> parent \<in> set (ae_active env) then Reject
             else Commit (mput nid (added_node raw) (fst sc), snd sc @ [nid]))"

definition op_remove_node :: "amend_env \<Rightarrow> ord_key \<Rightarrow> string \<Rightarrow> scratch \<Rightarrow> scratch outcome" where
  "op_remove_node env key target sc =
     (case mget (fst sc) target of
        None \<Rightarrow> Reject
      | Some n \<Rightarrow>
          if tn_parent n = None then Reject
          else (case remove_scan (frozenAt (ae_firstClaimOrder env) key) (fst sc) [target] of
                  None \<Rightarrow> Hang
                | Some False \<Rightarrow> Reject
                | Some True \<Rightarrow> Commit (mdel target (fst sc), remove1 target (snd sc))))"

text \<open>\<open>reweight\<close>, \<open>retitle\<close> and \<open>respec\<close> edit one field of a node that is not frozen.\<close>

definition op_edit ::
    "amend_env \<Rightarrow> ord_key \<Rightarrow> bool \<Rightarrow> (tree_node \<Rightarrow> tree_node) \<Rightarrow> string \<Rightarrow> scratch \<Rightarrow> scratch outcome" where
  "op_edit env key valid f target sc =
     (case mget (fst sc) target of
        None \<Rightarrow> Reject
      | Some n \<Rightarrow>
          if frozenAt (ae_firstClaimOrder env) key target \<or> \<not> valid then Reject
          else Commit (mput target (f n) (fst sc), snd sc))"

definition apply_op :: "amend_env \<Rightarrow> tree \<Rightarrow> ord_key \<Rightarrow> json \<Rightarrow> scratch \<Rightarrow> scratch outcome" where
  "apply_op env nodes key rawOp sc =
     (case as_obj rawOp of
        None \<Rightarrow> Reject
      | Some op \<Rightarrow>
          let kind = strAny (jget op ''op''); target = strAny (jget op ''node'') in
          if kind = ''add_node'' then op_add_node env nodes op sc
          else if kind = ''remove_node'' then op_remove_node env key target sc
          else if kind = ''reweight'' then
            op_edit env key (weight_value (jget op ''weight'') \<noteq> None)
              (\<lambda>n. n\<lparr>tn_weight := jget op ''weight''\<rparr>) target sc
          else if kind = ''retitle'' then
            op_edit env key (truthyStrAny (jget op ''title''))
              (\<lambda>n. n\<lparr>tn_title := strAny (jget op ''title'')\<rparr>) target sc
          else if kind = ''respec'' then
            op_edit env key (truthyStrAny (jget op ''specid''))
              (\<lambda>n. n\<lparr>tn_specid := Some (strAny (jget op ''specid''))\<rparr>) target sc
          else Reject)"

fun apply_ops :: "amend_env \<Rightarrow> tree \<Rightarrow> ord_key \<Rightarrow> json list \<Rightarrow> scratch \<Rightarrow> scratch outcome" where
  "apply_ops env nodes key [] sc = Commit sc"
| "apply_ops env nodes key (op # ops) sc =
     (case apply_op env nodes key op sc of
        Hang \<Rightarrow> Hang
      | Reject \<Rightarrow> Reject
      | Commit sc' \<Rightarrow> apply_ops env nodes key ops sc')"

section \<open>The fold\<close>

record fold_state =
  fs_nodes :: tree
  fs_order :: "string list"
  fs_ignored :: "ignored_event list"
  fs_taken :: "string list"
  fs_head :: string

definition fold_ignore :: "chain_event \<Rightarrow> string \<Rightarrow> fold_state \<Rightarrow> fold_state" where
  "fold_ignore e r st = st\<lparr>fs_ignored := fs_ignored st @ [ignore e r]\<rparr>"

definition amend_ops :: "chain_event \<Rightarrow> json list" where
  "amend_ops e = (case as_arr (jget (ev_body e) ''ops'') of Some ops \<Rightarrow> ops | None \<Rightarrow> [])"

definition amend_step :: "amend_env \<Rightarrow> fold_state \<Rightarrow> chain_event \<Rightarrow> fold_state option" where
  "amend_step env st amend =
     (let bases = evs amend ''bases'' in
      if ev_height amend < ae_hAct2 env then Some (fold_ignore amend ''below_h_act2'' st)
      else if ev_author amend \<noteq> ae_rootAuthor env then Some (fold_ignore amend ''amend_not_publisher'' st)
      else if ae_rootVerified env then Some (fold_ignore amend ''amend_task_finalized'' st)
      else if bases \<noteq> fs_head st then
        Some (fold_ignore amend (if bases \<in> set (fs_taken st) then ''amend_conflict'' else ''amend_stale'') st)
      else let st' = st\<lparr>fs_taken := bases # fs_taken st\<rparr> in
        (case apply_ops env (fs_nodes st) (ordKeyOf amend) (amend_ops amend) (fs_nodes st, fs_order st) of
           Hang \<Rightarrow> None
         | Reject \<Rightarrow> Some (fold_ignore amend ''amend_invariant_violation'' st')
         | Commit (scratch, order) \<Rightarrow>
             if v121SumWeights scratch \<noteq> TreeWeightTotal \<or> \<not> v121IsAcyclic scratch
             then Some (fold_ignore amend ''amend_invariant_violation'' st')
             else Some (st'\<lparr>fs_nodes := scratch, fs_order := order, fs_head := ev_pin amend\<rparr>)))"

fun amend_steps :: "amend_env \<Rightarrow> fold_state \<Rightarrow> chain_event list \<Rightarrow> fold_state option" where
  "amend_steps env st [] = Some st"
| "amend_steps env st (e # es) =
     (case amend_step env st e of None \<Rightarrow> None | Some st' \<Rightarrow> amend_steps env st' es)"

definition fold_init :: "amend_env \<Rightarrow> tree \<Rightarrow> string list \<Rightarrow> fold_state" where
  "fold_init env initial order =
     \<lparr>fs_nodes = initial, fs_order = order, fs_ignored = [], fs_taken = [], fs_head = ae_treePinID env\<rparr>"

definition foldAmends :: "amend_env \<Rightarrow> tree \<Rightarrow> string list \<Rightarrow> chain_event list \<Rightarrow> fold_state option" where
  "foldAmends env initial order amends = amend_steps env (fold_init env initial order) amends"

end
