(* ===== verification/Settlement.thy ===== *)
theory Settlement
  imports Walk AmendFold
begin

text \<open>
  The settlement half of \<open>ReplayV121\<close>: final verification over the tree, challenges, the
  participant statistics, the event-set hash and the settlement manifest. Each definition takes
  the intermediate results it reads as arguments, in the order the code computes them.
\<close>

section \<open>Aggregation precondition\<close>

definition childrenOf :: "tree \<Rightarrow> string list \<Rightarrow> string \<Rightarrow> string list" where
  "childrenOf effectiveTree treeOrder p =
     map tn_id (filter (\<lambda>n. tn_parent n = Some p) (List.map_filter (mget effectiveTree) treeOrder))"

text \<open>What final verification reads: the active cycles, the tree's children, submission bodies, the gate.\<close>

record final_env =
  fe_active :: "string \<Rightarrow> claim_cycle option"
  fe_children :: "string \<Rightarrow> string list"
  fe_subBody :: "(string, jobj) gomap"
  fe_hAct2 :: int

definition effective_of :: "final_env \<Rightarrow> string \<Rightarrow> cycle_submission option" where
  "effective_of env node = (case fe_active env node of None \<Rightarrow> None | Some c \<Rightarrow> cy_effective c)"

definition heightOfEffective :: "final_env \<Rightarrow> string \<Rightarrow> int" where
  "heightOfEffective env node = (case effective_of env node of None \<Rightarrow> -1 | Some s \<Rightarrow> su_height s)"

text \<open>The child ids a submission lists: \<open>result.childids\<close>, else \<open>childids\<close>.\<close>

definition canonical_childids :: "jobj \<Rightarrow> json list" where
  "canonical_childids body =
     (case (case as_obj (jget body ''result'') of Some r \<Rightarrow> as_arr (jget r ''childids'') | None \<Rightarrow> None) of
        Some cid \<Rightarrow> cid
      | None \<Rightarrow> (case as_arr (jget body ''childids'') of Some cid \<Rightarrow> cid | None \<Rightarrow> []))"

definition listed_children :: "final_env \<Rightarrow> string \<Rightarrow> string list" where
  "listed_children env node =
     (case effective_of env node of
        None \<Rightarrow> []
      | Some s \<Rightarrow> (case mget (fe_subBody env) (su_pin s) of
                    None \<Rightarrow> [] | Some body \<Rightarrow> str_elems (canonical_childids body)))"

definition same_children :: "string list \<Rightarrow> string list \<Rightarrow> bool" where
  "same_children listed childPins \<longleftrightarrow>
     length (remdups listed) = length (remdups childPins) \<and> list_all (\<lambda>p. p \<in> set listed) childPins"

definition vote_verified :: "final_env \<Rightarrow> string \<Rightarrow> bool" where
  "vote_verified env node \<longleftrightarrow> effective_of env node \<noteq> None
     \<and> map_option cy_outcome (fe_active env node) = Some Verified"

definition needs_children :: "final_env \<Rightarrow> string \<Rightarrow> bool" where
  "needs_children env node \<longleftrightarrow> fe_children env node \<noteq> [] \<and> fe_hAct2 env \<le> heightOfEffective env node"

definition child_pin :: "final_env \<Rightarrow> string \<Rightarrow> string list" where
  "child_pin env child = (case effective_of env child of None \<Rightarrow> [] | Some s \<Rightarrow> [su_pin s])"

text \<open>
  \<open>finalVerified\<close> with its memo table, a node under way counting as not verified. The first
  argument bounds the recursion depth; \<open>None\<close> means the bound was too small.
\<close>

fun finalVerified :: "nat \<Rightarrow> final_env \<Rightarrow> (string, bool) gomap \<Rightarrow> string \<Rightarrow> ((string, bool) gomap \<times> bool) option"
and finalChildren :: "nat \<Rightarrow> final_env \<Rightarrow> (string, bool) gomap \<Rightarrow> string list
    \<Rightarrow> ((string, bool) gomap \<times> bool \<times> string list) option" where
  "finalVerified 0 env cache node = None"
| "finalVerified (Suc k) env cache node =
     (case mget cache node of
        Some v \<Rightarrow> Some (cache, v)
      | None \<Rightarrow>
          let cache1 = mput node False cache in
          if \<not> vote_verified env node then Some (mput node False cache1, False)
          else if \<not> needs_children env node then Some (mput node True cache1, True)
          else (case finalChildren k env cache1 (fe_children env node) of
                  None \<Rightarrow> None
                | Some (cache2, allChildrenVerified, childPins) \<Rightarrow>
                    let result = (allChildrenVerified \<and> same_children (listed_children env node) childPins)
                    in Some (mput node result cache2, result)))"
| "finalChildren k env cache [] = Some (cache, True, [])"
| "finalChildren k env cache (c # cs) =
     (case finalVerified k env cache c of
        None \<Rightarrow> None
      | Some (cache', v) \<Rightarrow>
          (case finalChildren k env cache' cs of
             None \<Rightarrow> None
           | Some (cache'', allv, pins) \<Rightarrow>
               Some (cache'', v \<and> allv, if v then child_pin env c @ pins else pins)))"

fun final_nodes :: "nat \<Rightarrow> final_env \<Rightarrow> (string, bool) gomap \<Rightarrow> string list \<Rightarrow> string list option" where
  "final_nodes k env cache [] = Some []"
| "final_nodes k env cache (n # ns) =
     (case finalVerified k env cache n of
        None \<Rightarrow> None
      | Some (cache', v) \<Rightarrow> map_option (\<lambda>r. if v then n # r else r) (final_nodes k env cache' ns))"

section \<open>Challenges\<close>

record open_challenge =
  oc_pin :: string
  oc_node :: string
  oc_author :: string
  oc_target :: string

record challenge_env =
  ce_rootAuthor :: string
  ce_hAct2 :: int
  ce_subAuthor :: "string \<Rightarrow> string"
  ce_active :: "claim_cycle list"
  ce_hasNow :: bool
  ce_now :: int
  ce_ttlDays :: int

type_synonym challenge_state = "(string, open_challenge) gomap \<times> ignored_event list"

definition challenge_key :: "string \<Rightarrow> string \<Rightarrow> string" where
  "challenge_key target author = target @ CHR '' '' # author"

definition effective_pin :: "claim_cycle \<Rightarrow> string option" where
  "effective_pin c = map_option su_pin (cy_effective c)"

definition challenge_step :: "challenge_env \<Rightarrow> challenge_state \<Rightarrow> chain_event \<Rightarrow> challenge_state" where
  "challenge_step env st ch =
     (let target = evs ch ''targetid''; skip = (\<lambda>r. (fst st, snd st @ [ignore ch r])) in
      if ev_height ch < ce_hAct2 env then skip ''below_h_act2''
      else if ev_author ch = ce_subAuthor env target \<or> ev_author ch = ce_rootAuthor env
              \<or> \<not> truthyStrAny (jget (ev_body ch) ''evidence'') then skip ''challenge_gate_failed''
      else if jget (ev_body ch) ''withdraw'' = JBool True then
        (filter (\<lambda>kv. \<not> (oc_author (snd kv) = ev_author ch \<and> oc_target (snd kv) = target)) (fst st), snd st)
      else if mhas (fst st) (challenge_key target (ev_author ch)) then skip ''duplicate_open_challenge''
      else (case find (\<lambda>c. effective_pin c = Some target) (ce_active env) of
              None \<Rightarrow> skip ''target_not_active_verified''
            | Some c \<Rightarrow>
                if ce_hasNow env \<and> 0 < ev_ts ch
                   \<and> wrap64 (ce_ttlDays env * 86400000) < wrap64 (ce_now env - ev_ts ch)
                then skip ''challenge_expired''
                else (mput (challenge_key target (ev_author ch))
                        \<lparr>oc_pin = ev_pin ch, oc_node = cy_node c, oc_author = ev_author ch, oc_target = target\<rparr>
                        (fst st), snd st)))"

definition run_challenges :: "challenge_env \<Rightarrow> chain_event list \<Rightarrow> challenge_state" where
  "run_challenges env challenges =
     (if ce_hAct2 env = max_int64 then ([], []) else foldl (challenge_step env) ([], []) challenges)"

text \<open>A challenge stands while its target still anchors a finally verified node.\<close>

definition still_open :: "(string \<Rightarrow> claim_cycle option) \<Rightarrow> string list \<Rightarrow> open_challenge \<Rightarrow> bool" where
  "still_open active finalPins oc =
     (case active (oc_node oc) of
        None \<Rightarrow> False
      | Some c \<Rightarrow> (case cy_effective c of
                    None \<Rightarrow> False
                  | Some s \<Rightarrow> su_pin s \<in> set finalPins \<and> su_pin s = oc_target oc))"

section \<open>Participants\<close>

record participant =
  pa_effectiveClaims :: int
  pa_submissions :: int
  pa_verifiedContrib :: int
  pa_reviewVotes :: int
  pa_reviewCorrect :: int
  pa_reviewTerminal :: int

type_synonym participants = "(string, participant) gomap"

definition no_stats :: participant where
  "no_stats = \<lparr>pa_effectiveClaims = 0, pa_submissions = 0, pa_verifiedContrib = 0,
     pa_reviewVotes = 0, pa_reviewCorrect = 0, pa_reviewTerminal = 0\<rparr>"

definition bump :: "string \<Rightarrow> (participant \<Rightarrow> participant) \<Rightarrow> participants \<Rightarrow> participants" where
  "bump metaID f ps = mput metaID (f (case mget ps metaID of Some p \<Rightarrow> p | None \<Rightarrow> no_stats)) ps"

definition count_claims :: "string \<Rightarrow> (string, int) gomap \<Rightarrow> participants" where
  "count_claims rootAuthor counts =
     foldl (\<lambda>ps (a, n). bump a (\<lambda>p. p\<lparr>pa_effectiveClaims := n\<rparr>) ps)
       (bump rootAuthor (\<lambda>p. p) []) counts"

definition count_submission :: "(string \<Rightarrow> claim_cycle option) \<Rightarrow> string list \<Rightarrow> participants \<Rightarrow> string \<Rightarrow> participants" where
  "count_submission active finalNodes ps node =
     (case active node of
        None \<Rightarrow> ps
      | Some c \<Rightarrow> (case cy_effective c of
                    None \<Rightarrow> ps
                  | Some s \<Rightarrow>
                      let ps1 = bump (su_author s) (\<lambda>p. p\<lparr>pa_submissions := pa_submissions p + 1\<rparr>) ps
                      in if node \<in> set finalNodes
                         then bump (su_author s) (\<lambda>p. p\<lparr>pa_verifiedContrib := pa_verifiedContrib p + 1\<rparr>) ps1
                         else ps1))"

definition vote_correct :: "claim_cycle \<Rightarrow> chain_event \<Rightarrow> bool" where
  "vote_correct c v \<longleftrightarrow> (evs v ''verdict'' = ''pass'' \<and> cy_outcome c = Verified)
     \<or> (evs v ''verdict'' = ''fail'' \<and> cy_outcome c = FailRejected)"

definition count_review :: "string \<Rightarrow> claim_cycle \<Rightarrow> cycle_submission \<Rightarrow> participants \<Rightarrow> chain_event \<Rightarrow> participants" where
  "count_review rootAuthor c s ps v =
     bump (ev_author v) (\<lambda>p.
       let p1 = p\<lparr>pa_reviewVotes := pa_reviewVotes p + 1\<rparr>
       in if ev_author v = su_author s \<or> ev_author v = rootAuthor then p1
          else let p2 = p1\<lparr>pa_reviewTerminal := pa_reviewTerminal p1 + 1\<rparr>
               in if vote_correct c v then p2\<lparr>pa_reviewCorrect := pa_reviewCorrect p2 + 1\<rparr> else p2) ps"

definition count_cycle_reviews ::
    "string \<Rightarrow> (string \<Rightarrow> chain_event list) \<Rightarrow> participants \<Rightarrow> claim_cycle \<Rightarrow> participants" where
  "count_cycle_reviews rootAuthor votes ps c =
     (if cy_outcome c \<noteq> Verified \<and> cy_outcome c \<noteq> FailRejected then ps
      else (case cy_effective c of
              None \<Rightarrow> ps
            | Some s \<Rightarrow> foldl (count_review rootAuthor c s) ps (votes (su_pin s))))"

section \<open>Event-set hash\<close>

definition V121EventPaths :: "string list" where
  "V121EventPaths = [''task'', ''tree'', ''spec'', ''claim'', ''release'', ''submission'', ''verify'',
     ''amend'', ''challenge'']"

definition hash_member :: "string \<Rightarrow> string \<Rightarrow> string \<Rightarrow> (string \<Rightarrow> bool) \<Rightarrow> string \<Rightarrow> chain_event \<Rightarrow> bool" where
  "hash_member rootPin treePinID specID known path pin \<longleftrightarrow>
     (if ev_height pin < 0 then False
      else if path = ''task'' then ev_pin pin = rootPin
      else if path = ''tree'' then ev_pin pin = treePinID
      else if path = ''spec'' then specID \<noteq> '''' \<and> ev_pin pin = specID
      else if path = ''verify'' \<or> path = ''challenge'' then known (evs pin ''targetid'')
      else evs pin ''taskid'' = rootPin)"

definition hash_scoped ::
    "string \<Rightarrow> string \<Rightarrow> string \<Rightarrow> (string \<Rightarrow> bool) \<Rightarrow> (string \<Rightarrow> chain_event list) \<Rightarrow> (string \<times> chain_event) list" where
  "hash_scoped rootPin treePinID specID known byPath =
     concat (map (\<lambda>path. map (Pair path)
         (slice_stable hash_less (filter (hash_member rootPin treePinID specID known path) (byPath path))))
       V121EventPaths)"

definition hash_entry :: "string \<times> chain_event \<Rightarrow> json" where
  "hash_entry pe = JObj
     [(''path'', JStr (''/protocols/metatask/'' @ fst pe)), (''pinId'', JStr (ev_pin (snd pe))),
      (''height'', JInt (ev_height (snd pe))), (''txIndex'', JInt (ev_tx (snd pe)))]"

definition eventSetHash :: "(string \<times> chain_event) list \<Rightarrow> string option" where
  "eventSetHash scoped = map_option sha256_hex (canonJ (JArr (map hash_entry scoped)))"

definition boundaryBlock :: "(string \<times> chain_event) list \<Rightarrow> int" where
  "boundaryBlock scoped = foldl (\<lambda>b pe. if b < ev_height (snd pe) then ev_height (snd pe) else b) (-1) scoped"

section \<open>Settlement\<close>

definition SubmitterShareBPDefault :: int where "SubmitterShareBPDefault = 8000"
definition SubmitterShareBPMin :: int where "SubmitterShareBPMin = 6000"
definition SubmitterShareBPMax :: int where "SubmitterShareBPMax = 9000"
definition ReviewerAccuracyFloorBP :: int where "ReviewerAccuracyFloorBP = 2500"

text \<open>The tree's weights when there are as many tree nodes as nodes and they sum to 10000, else uniform.\<close>

fun tree_weights :: "tree \<Rightarrow> (string, int) gomap option" where
  "tree_weights [] = Some []"
| "tree_weights ((k, n) # ns) =
     (case treeNodeWeight n of
        None \<Rightarrow> None
      | Some w \<Rightarrow> map_option (\<lambda>m. mput (tn_id n) w m) (tree_weights ns))"

definition settlement_weights :: "tree \<Rightarrow> string list \<Rightarrow> (string, int) gomap" where
  "settlement_weights effectiveTree nodeOrder =
     (let nodeCount = length nodeOrder;
          uniform = (if 0 < nodeCount then TreeWeightTotal div int nodeCount else 0);
          fallback = map (\<lambda>n. (n, uniform)) nodeOrder
      in if 0 < nodeCount \<and> length effectiveTree = nodeCount \<and> v121SumWeights effectiveTree = TreeWeightTotal
         then (case tree_weights effectiveTree of Some m \<Rightarrow> m | None \<Rightarrow> fallback)
         else fallback)"

definition sigma_of :: "jobj \<Rightarrow> int" where
  "sigma_of split =
     (let s0 = (case numAny (jget split ''submitterShareBP'') of None \<Rightarrow> SubmitterShareBPDefault
                | Some f \<Rightarrow> f64_to_int64 f);
          s1 = (if SubmitterShareBPMax < s0 then SubmitterShareBPMax else s0)
      in if s1 < SubmitterShareBPMin then SubmitterShareBPMin else s1)"

definition accuracy_of :: "participant \<Rightarrow> int" where
  "accuracy_of p =
     (let smoothed = go_div (10000 * (pa_reviewCorrect p + 1)) (pa_reviewTerminal p + 2);
          a = (if smoothed < ReviewerAccuracyFloorBP then ReviewerAccuracyFloorBP else smoothed)
      in if 10000 < a then 10000 else a)"

definition accuracy :: "participants \<Rightarrow> string \<Rightarrow> int" where
  "accuracy ps a = (case mget ps a of None \<Rightarrow> 0 | Some p \<Rightarrow> accuracy_of p)"

record share_parts =
  sp_submittedBP :: int
  sp_reviewedBP :: int

type_synonym shares = "(string, share_parts) gomap"

definition ensure :: "string \<Rightarrow> (share_parts \<Rightarrow> share_parts) \<Rightarrow> shares \<Rightarrow> shares" where
  "ensure metaID f m = mput metaID (f (case mget m metaID of Some p \<Rightarrow> p
     | None \<Rightarrow> \<lparr>sp_submittedBP = 0, sp_reviewedBP = 0\<rparr>)) m"

definition add_submitted :: "int \<Rightarrow> share_parts \<Rightarrow> share_parts" where
  "add_submitted n p = p\<lparr>sp_submittedBP := sp_submittedBP p + n\<rparr>"

definition add_reviewed :: "int \<Rightarrow> share_parts \<Rightarrow> share_parts" where
  "add_reviewed n p = p\<lparr>sp_reviewedBP := sp_reviewedBP p + n\<rparr>"

definition cycle_votes :: "string \<Rightarrow> cycle_submission \<Rightarrow> chain_event list \<Rightarrow> chain_event list" where
  "cycle_votes rootAuthor s votes =
     filter (\<lambda>v. evs v ''verdict'' = ''pass'' \<and> ev_author v \<noteq> su_author s \<and> ev_author v \<noteq> rootAuthor) votes"

text \<open>
  One node's share: the submitter's part of the weight, the rest to the passing reviewers in
  proportion to their accuracy. \<open>None\<close> is the panic of a division by zero.
\<close>

definition settle_node ::
    "string \<Rightarrow> int \<Rightarrow> (string \<Rightarrow> int) \<Rightarrow> int \<Rightarrow> cycle_submission \<Rightarrow> chain_event list \<Rightarrow> shares \<Rightarrow> shares option" where
  "settle_node rootAuthor sigma acc w s votes m =
     (let subBP = go_div (w * sigma) TreeWeightTotal;
          m1 = ensure (su_author s) (add_submitted subBP) m;
          pool = w - subBP;
          cycleVotes = cycle_votes rootAuthor s votes
      in if cycleVotes = [] then Some (ensure (su_author s) (add_submitted pool) m1)
         else let accSum = sum_list (map (\<lambda>v. acc (ev_author v)) cycleVotes)
              in if accSum = 0 then None
                 else Some (foldl (\<lambda>m v. ensure (ev_author v)
                         (add_reviewed (go_div (pool * acc (ev_author v)) accSum)) m) m1 cycleVotes))"

definition settle_step ::
    "string \<Rightarrow> int \<Rightarrow> (string \<Rightarrow> int) \<Rightarrow> (string, int) gomap \<Rightarrow> (string \<Rightarrow> claim_cycle option) \<Rightarrow> string list
     \<Rightarrow> (string \<Rightarrow> chain_event list) \<Rightarrow> string \<Rightarrow> shares \<Rightarrow> shares option" where
  "settle_step rootAuthor sigma acc weights active finalPins votes node m =
     (case active node of
        None \<Rightarrow> Some m
      | Some c \<Rightarrow> (case cy_effective c of
                    None \<Rightarrow> Some m
                  | Some s \<Rightarrow>
                      if su_pin s \<notin> set finalPins then Some m
                      else let w = count_of weights node
                           in if w \<le> 0 then Some m
                              else settle_node rootAuthor sigma acc w s (votes (su_pin s)) m))"

fun settle_nodes :: "(string \<Rightarrow> shares \<Rightarrow> shares option) \<Rightarrow> string list \<Rightarrow> shares \<Rightarrow> shares option" where
  "settle_nodes f [] m = Some m"
| "settle_nodes f (n # ns) m = (case f n m of None \<Rightarrow> None | Some m' \<Rightarrow> settle_nodes f ns m')"

record share =
  sh_metaID :: string
  sh_shareBP :: int
  sh_submittedBP :: int
  sh_reviewedBP :: int

definition share_of :: "string \<times> share_parts \<Rightarrow> share" where
  "share_of kv = \<lparr>sh_metaID = fst kv, sh_shareBP = sp_submittedBP (snd kv) + sp_reviewedBP (snd kv),
     sh_submittedBP = sp_submittedBP (snd kv), sh_reviewedBP = sp_reviewedBP (snd kv)\<rparr>"

definition share_less :: "share \<Rightarrow> share \<Rightarrow> bool" where
  "share_less a b = (if sh_shareBP a \<noteq> sh_shareBP b then sh_shareBP b < sh_shareBP a
                     else string_less (sh_metaID a) (sh_metaID b))"

record unpaid =
  un_node :: string
  un_author :: string
  un_pin :: string
  un_reason :: string

definition unpaid_rows :: "claim_cycle \<Rightarrow> unpaid list" where
  "unpaid_rows c = List.map_filter (\<lambda>s.
     let row = (\<lambda>r. \<lparr>un_node = cy_node c, un_author = su_author s, un_pin = su_pin s, un_reason = r\<rparr>)
     in if su_pin s \<in> set (cy_superseded c) then Some (row ''superseded'')
        else if effective_pin c = Some (su_pin s) \<and> cy_outcome c = FailRejected then Some (row ''rework_cycle'')
        else None) (cy_submissions c)"

record manifest =
  mf_taskID :: string
  mf_boundaryBlock :: int
  mf_eventSetHash :: string
  mf_shares :: "share list"
  mf_unpaid :: "unpaid list"
  mf_weightsTableHash :: string
  mf_shareSumBP :: int
  mf_canonical :: string

definition EngineAlgoVersionV121 :: string where
  "EngineAlgoVersionV121 = ''idbots-metatask-engine/1.2.1''"

definition weights_table :: "(string, int) gomap \<Rightarrow> json" where
  "weights_table weights = JArr (map (\<lambda>k. JObj [(''id'', JStr k), (''weight'', JInt (count_of weights k))])
     (slice_stable string_less (mkeys weights)))"

definition share_row :: "share \<Rightarrow> json" where
  "share_row s = JObj [(''metaId'', JStr (sh_metaID s)), (''shareBP'', JInt (sh_shareBP s)),
     (''from'', JObj [(''submittedBP'', JInt (sh_submittedBP s)), (''reviewedBP'', JInt (sh_reviewedBP s))])]"

definition unpaid_row :: "unpaid \<Rightarrow> json" where
  "unpaid_row u = JObj [(''node'', JStr (un_node u)), (''author'', JStr (un_author u)),
     (''pinId'', JStr (un_pin u)), (''reason'', JStr (un_reason u))]"

definition manifest_json :: "string \<Rightarrow> int \<Rightarrow> string \<Rightarrow> share list \<Rightarrow> unpaid list \<Rightarrow> string \<Rightarrow> json" where
  "manifest_json taskID boundary hash shares unpaid wtHash = JObj
     [(''taskid'', JStr taskID), (''boundaryBlock'', JInt boundary), (''eventSetHash'', JStr hash),
      (''engineAlgoVersion'', JStr EngineAlgoVersionV121), (''shares'', JArr (map share_row shares)),
      (''unpaidHistory'', JArr (map unpaid_row unpaid)), (''disputed'', JArr []),
      (''weightsTableHash'', JStr wtHash)]"

text \<open>The two ways in which a manifest fails: the canonical encoding and the check of the shares.\<close>

datatype manifest_error = NotCanonical | SelfCheckFailed string

definition self_check :: "share list \<Rightarrow> string option" where
  "self_check shares = map_option sh_metaID (find (\<lambda>s. sh_shareBP s \<noteq> sh_submittedBP s + sh_reviewedBP s) shares)"

definition make_manifest ::
    "string \<Rightarrow> int \<Rightarrow> string \<Rightarrow> (string, int) gomap \<Rightarrow> shares \<Rightarrow> claim_cycle list \<Rightarrow> manifest_error + manifest" where
  "make_manifest taskID boundary hash weights parts cycles =
     (let shares = slice_stable share_less (map share_of parts);
          unpaid = concat (map unpaid_rows cycles)
      in case canonJ (weights_table weights) of
           None \<Rightarrow> Inl NotCanonical
         | Some wt \<Rightarrow>
             (case canonJ (manifest_json taskID boundary hash shares unpaid (sha256_hex wt)) of
                None \<Rightarrow> Inl NotCanonical
              | Some canonical \<Rightarrow>
             (case self_check shares of
                Some metaID \<Rightarrow> Inl (SelfCheckFailed metaID)
              | None \<Rightarrow>
                  Inr \<lparr>mf_taskID = taskID, mf_boundaryBlock = boundary, mf_eventSetHash = hash,
                        mf_shares = shares, mf_unpaid = unpaid, mf_weightsTableHash = sha256_hex wt,
                        mf_shareSumBP = sum_list (map sh_shareBP shares), mf_canonical = canonical\<rparr>)))"

end
