(* ===== verification/Replay121.thy ===== *)
theory Replay121
  imports Settlement
begin

text \<open>
  \<open>ReplayV121\<close> itself: reading the task and its policy, scoping the events, and running the vote
  pre-pass, the two walks, the amend fold, final verification, challenges, statistics, hash and
  settlement in the code's order. A run that hangs is \<^term>\<open>None\<close>; an error return is an
  \<^term>\<open>Inl\<close>.
\<close>

section \<open>Options and errors\<close>

definition HAct_default :: int where "HAct_default = 190000"
definition HAct2_default :: int where "HAct2_default = 191500"
definition ChallengeTTLDefaultDays :: int where "ChallengeTTLDefaultDays = 14"

record v121_options =
  op_rootPinID :: string
  op_nowMs :: int
  op_hAct :: int
  op_hAct2 :: int
  op_rosterPins :: "(string, jobj) gomap"

datatype replay_error = NoTaskRoot | CanonFailed | DivisionByZero | DepthExceeded | ShareCheckFailed string

definition opt_hAct :: "v121_options \<Rightarrow> int" where
  "opt_hAct opts = (if op_hAct opts = 0 then HAct_default else op_hAct opts)"

definition opt_hAct2 :: "v121_options \<Rightarrow> int" where
  "opt_hAct2 opts = (if op_hAct2 opts = 0 then HAct2_default
                     else if op_hAct2 opts < 0 then max_int64 else op_hAct2 opts)"

section \<open>The task\<close>

definition byPath :: "chain_event list \<Rightarrow> string \<Rightarrow> chain_event list" where
  "byPath events path = sortChainEvents (filter (\<lambda>e. ev_path e = path) events)"

definition find_root :: "string \<Rightarrow> chain_event list \<Rightarrow> chain_event option" where
  "find_root rootID taskPins =
     (if rootID \<noteq> '''' then find (\<lambda>p. ev_pin p = rootID) taskPins
      else if taskPins = [] then None else Some (last taskPins))"

definition policy_of :: "jobj \<Rightarrow> jobj" where
  "policy_of taskBody = (case as_obj (jget taskBody ''policy'') of Some p \<Rightarrow> p | None \<Rightarrow> [])"

definition policy_num :: "jobj \<Rightarrow> string \<Rightarrow> int \<Rightarrow> int" where
  "policy_num policy key deflt =
     (case numAny (jget policy key) of Some f \<Rightarrow> f64_to_int64 f | None \<Rightarrow> deflt)"

definition quorum_of :: "jobj \<Rightarrow> int" where
  "quorum_of policy = (let q = policy_num policy ''verify_quorum'' 2 in if q < 1 then 1 else q)"

definition split_of :: "jobj \<Rightarrow> jobj option" where
  "split_of policy = as_obj (jget policy ''split'')"

definition split_map :: "jobj \<Rightarrow> jobj" where
  "split_map policy = (case split_of policy of Some s \<Rightarrow> s | None \<Rightarrow> [])"

definition in_task :: "string \<Rightarrow> chain_event \<Rightarrow> bool" where
  "in_task rootPin e \<longleftrightarrow> evs e ''taskid'' = rootPin"

definition sub_authors :: "chain_event list \<Rightarrow> (string, string) gomap" where
  "sub_authors subs = foldl (\<lambda>m s. mput (ev_pin s) (ev_author s) m) [] subs"

definition sub_bodies :: "chain_event list \<Rightarrow> (string, jobj) gomap" where
  "sub_bodies subs = foldl (\<lambda>m s. mput (ev_pin s) (ev_body s) m) [] subs"

definition subs_by_node :: "chain_event list \<Rightarrow> (string, chain_event list) gomap" where
  "subs_by_node subs = foldl (\<lambda>m s. if evs s ''node'' \<noteq> '''' then mappend (evs s ''node'') s m else m) [] subs"

definition roster_groups :: "v121_options \<Rightarrow> string \<Rightarrow> string list list" where
  "roster_groups opts rosterID =
     (if rosterID = '''' then []
      else rosterGroupsFor (case mget (op_rosterPins opts) rosterID of Some b \<Rightarrow> b | None \<Rightarrow> []))"

section \<open>The tree pin\<close>

definition parsed_node :: "jobj \<Rightarrow> tree_node" where
  "parsed_node ob =
     \<lparr>tn_id = strAny (jget ob ''id''),
      tn_parent = (if jget ob ''parent'' = JNull then None else Some (strAny (jget ob ''parent''))),
      tn_title = strAny (jget ob ''title''),
      tn_kind = strAny (jget ob ''kind''),
      tn_specid = (if jget ob ''specid'' = JNull then None else Some (strAny (jget ob ''specid''))),
      tn_params = (case as_obj (jget ob ''params'') of Some p \<Rightarrow> p | None \<Rightarrow> []),
      tn_deps = (case as_arr (jget ob ''deps'') of Some d \<Rightarrow> str_elems d | None \<Rightarrow> []),
      tn_weight = jget ob ''weight''\<rparr>"

definition add_initial :: "tree \<times> string list \<Rightarrow> json \<Rightarrow> tree \<times> string list" where
  "add_initial st raw =
     (case as_obj raw of
        None \<Rightarrow> st
      | Some ob \<Rightarrow>
          let nid = strAny (jget ob ''id'')
          in if nid = '''' \<or> mhas (fst st) nid then st
             else (mput nid (parsed_node ob) (fst st), snd st @ [nid]))"

definition initial_tree :: "chain_event option \<Rightarrow> tree \<times> string list" where
  "initial_tree treePin =
     (case treePin of
        None \<Rightarrow> ([], [])
      | Some p \<Rightarrow>
          (case as_arr (jget (ev_body p) ''nodes'') of
             None \<Rightarrow> ([], [])
           | Some raws \<Rightarrow> foldl add_initial ([], []) raws))"

section \<open>Node views\<close>

record vote_record =
  vr_pin :: string
  vr_voter :: string
  vr_verdict :: string
  vr_hasEvidence :: bool
  vr_hasFailreason :: bool
  vr_hasSemanticCheck :: bool
  vr_height :: int
  vr_ts :: int
  vr_tx :: int

record node_state =
  ns_node :: string
  ns_status :: string
  ns_disputed :: bool
  ns_holder :: "holder option"
  ns_cycle :: "claim_cycle option"
  ns_passVotes :: nat
  ns_failVotes :: nat
  ns_cycleCount :: nat
  ns_weight :: "int option"
  ns_lastOutcome :: string
  ns_verifiedAtMs :: int
  ns_votes :: "vote_record list"
  ns_inTree :: bool

definition vote_row :: "chain_event \<Rightarrow> vote_record" where
  "vote_row v = \<lparr>vr_pin = ev_pin v, vr_voter = ev_author v, vr_verdict = evs v ''verdict'',
     vr_hasEvidence = truthyStrAny (jget (ev_body v) ''evidence''),
     vr_hasFailreason = truthyStrAny (jget (ev_body v) ''failreason''),
     vr_hasSemanticCheck = truthyStrAny (jget (ev_body v) ''semantic_check''),
     vr_height = ev_height v, vr_ts = ev_ts v, vr_tx = ev_tx v\<rparr>"

definition effective_votes ::
    "(string \<Rightarrow> chain_event list) \<Rightarrow> claim_cycle option \<Rightarrow> chain_event list" where
  "effective_votes votes cyc =
     (case cyc of None \<Rightarrow> [] | Some c \<Rightarrow> (case cy_effective c of None \<Rightarrow> [] | Some s \<Rightarrow> votes (su_pin s)))"

definition independent_of :: "string \<Rightarrow> claim_cycle option \<Rightarrow> chain_event \<Rightarrow> bool" where
  "independent_of rootAuthor cyc v \<longleftrightarrow> ev_author v \<noteq> rootAuthor \<and>
     (case cyc of None \<Rightarrow> True | Some c \<Rightarrow>
        (case cy_effective c of None \<Rightarrow> True | Some s \<Rightarrow> ev_author v \<noteq> su_author s))"

definition node_view ::
    "string \<Rightarrow> tree \<Rightarrow> walk_state \<Rightarrow> (string \<Rightarrow> chain_event list) \<Rightarrow> string list \<Rightarrow> string list
     \<Rightarrow> string \<Rightarrow> node_state" where
  "node_view rootAuthor effectiveTree w votes finalNodes disputed node =
     (let cyc = activeCycle w node; h = mget (ws_holders w) node;
          isVerified = (node \<in> set finalNodes); vs = effective_votes votes cyc;
          rec = mget effectiveTree node
      in \<lparr>ns_node = node,
          ns_status = (if isVerified then ''verified'' else if h \<noteq> None then ''claimed'' else ''open''),
          ns_disputed = (node \<in> set disputed),
          ns_holder = h,
          ns_cycle = cyc,
          ns_passVotes = length (filter (\<lambda>v. evs v ''verdict'' = ''pass'' \<and> independent_of rootAuthor cyc v) vs),
          ns_failVotes = length (filter (\<lambda>v. evs v ''verdict'' = ''fail'') vs),
          ns_cycleCount = length (filter (\<lambda>c. cy_node c = node) (ws_cycles w)),
          ns_weight = (case rec of None \<Rightarrow> None | Some n \<Rightarrow> treeNodeWeight n),
          ns_lastOutcome = (case mget (ws_nodeOutcome w) node of Some r \<Rightarrow> r | None \<Rightarrow> ''''),
          ns_verifiedAtMs = (case cyc of Some c \<Rightarrow> if isVerified then cy_quorumAtMs c else 0 | None \<Rightarrow> 0),
          ns_votes = map vote_row vs,
          ns_inTree = (rec \<noteq> None)\<rparr>)"

record progress =
  pr_total :: nat
  pr_verified :: nat
  pr_claimed :: nat
  pr_open :: nat
  pr_disputed :: nat

definition progress_of :: "string list \<Rightarrow> string list \<Rightarrow> string list \<Rightarrow> (string, holder) gomap \<Rightarrow> progress" where
  "progress_of nodeOrder finalNodes disputed holders =
     \<lparr>pr_total = length nodeOrder,
      pr_verified = length (filter (\<lambda>n. n \<in> set finalNodes) nodeOrder),
      pr_claimed = length (filter (\<lambda>n. n \<notin> set finalNodes \<and> mhas holders n) nodeOrder),
      pr_open = length (filter (\<lambda>n. n \<notin> set finalNodes \<and> \<not> mhas holders n) nodeOrder),
      pr_disputed = length (filter (\<lambda>n. n \<in> set disputed) nodeOrder)\<rparr>"

section \<open>Ballot dispositions\<close>

record disposition =
  vd_counts :: bool
  vd_reason :: string

definition disposition_of :: "walk_env \<Rightarrow> prepass \<Rightarrow> walk_state \<Rightarrow> string \<Rightarrow> chain_event \<Rightarrow> disposition" where
  "disposition_of env pp w target v =
     (let no = (\<lambda>r. \<lparr>vd_counts = False, vd_reason = r\<rparr>);
          yes = \<lparr>vd_counts = True, vd_reason = ''''\<rparr>;
          gate = v121GateReason (ev_body v) (ev_height v) (we_hAct env);
          verdict = evs v ''verdict''
      in if gate \<noteq> '''' then no gate
         else if same_side_vote env v then no ''same_side_roster''
         else if mget (pp_lastVotes pp) (target, ev_author v) \<noteq> Some v then no ''duplicate_vote_superseded''
         else if ev_pin v \<notin> set (ws_reachedVote w) then no ''target_not_active''
         else if verdict = ''pass'' then
           (if ev_author v = subAuthor env target then no ''voter_is_submitter''
            else if ev_author v = we_rootAuthor env then no ''voter_is_task_author'' else yes)
         else if verdict = ''fail'' then yes
         else if verdict = ''invalid'' then no ''verdict_invalid''
         else no ''unknown_verdict'')"

definition dispositions :: "walk_env \<Rightarrow> prepass \<Rightarrow> walk_state \<Rightarrow> (string, disposition) gomap" where
  "dispositions env pp w =
     foldl (\<lambda>m (target, v). mput (ev_pin v) (disposition_of env pp w target v) m) []
       (concat (map (\<lambda>(t, vs). map (Pair t) vs) (pp_verifyByTarget pp)))"

section \<open>The result\<close>

record v121_result =
  r_rootPinID :: string
  r_title :: string
  r_brief :: string
  r_publisher :: string
  r_tags :: "string list"
  r_rawPolicy :: jobj
  r_quorum :: int
  r_ttlHours :: int
  r_windowHours :: int
  r_challengeTTLDays :: int
  r_hasSplit :: bool
  r_rosterID :: "string option"
  r_rosterResolved :: bool
  r_treePinID :: string
  r_specID :: string
  r_amendHead :: string
  r_effectiveTree :: tree
  r_treeOrder :: "string list"
  r_nodeOrder :: "string list"
  r_nodeStates :: "(string, node_state) gomap"
  r_taskComplete :: bool
  r_progress :: progress
  r_participants :: "(string \<times> participant) list"
  r_settlement :: "manifest option"
  r_eventSetHash :: string
  r_boundaryBlock :: int
  r_ignoredEvents :: "ignored_event list"
  r_expiryApplied :: bool
  r_walk :: walk_state
  r_finalVerified :: "string list"
  r_finalVerifiedPins :: "string list"
  r_disputedNodes :: "string list"
  r_prepass :: prepass
  r_submissionsByNode :: "(string, chain_event list) gomap"
  r_dispositions :: "(string, disposition) gomap"
  r_ignoredByPin :: "(string, string) gomap"
  r_rootTreeNodeID :: string

definition participant_less :: "string \<times> participant \<Rightarrow> string \<times> participant \<Rightarrow> bool" where
  "participant_less a b =
     (if pa_verifiedContrib (snd a) \<noteq> pa_verifiedContrib (snd b)
      then pa_verifiedContrib (snd b) < pa_verifiedContrib (snd a)
      else string_less (fst a) (fst b))"

definition ignored_by_pin :: "ignored_event list \<Rightarrow> (string, string) gomap" where
  "ignored_by_pin igs =
     foldl (\<lambda>m i. if mhas m (ig_pin i) then m else mput (ig_pin i) (ig_reason i) m) [] igs"

definition root_tree_node :: "tree \<Rightarrow> string list \<Rightarrow> chain_event option \<Rightarrow> string" where
  "root_tree_node effectiveTree treeOrder treePin =
     (let r = (case find (\<lambda>n. tn_parent n = None) (List.map_filter (mget effectiveTree) treeOrder) of
                 Some n \<Rightarrow> tn_id n | None \<Rightarrow> '''')
      in if r = '''' then (case treePin of Some p \<Rightarrow> evs p ''root'' | None \<Rightarrow> '''') else r)"

definition task_complete :: "string \<Rightarrow> string list \<Rightarrow> string list \<Rightarrow> bool" where
  "task_complete rootNode finalNodes nodeOrder =
     (if rootNode \<noteq> '''' then rootNode \<in> set finalNodes
      else nodeOrder \<noteq> [] \<and> length (filter (\<lambda>n. n \<in> set finalNodes) nodeOrder) = length nodeOrder)"

section \<open>Stage one: scoping, pre-pass, timeline\<close>

record task_setup =
  ts_root :: chain_event
  ts_policy :: jobj
  ts_treePin :: "chain_event option"
  ts_subs :: "chain_event list"
  ts_env :: walk_env
  ts_prepass :: prepass
  ts_timeline :: "chain_event list"

definition setup_env :: "v121_options \<Rightarrow> chain_event \<Rightarrow> jobj \<Rightarrow> chain_event list \<Rightarrow> walk_env" where
  "setup_env opts taskPin policy subs =
     \<lparr>we_rootAuthor = ev_author taskPin, we_quorum = quorum_of policy, we_hAct = opt_hAct opts,
      we_hAct2 = opt_hAct2 opts,
      we_groups = roster_groups opts (strAny (jget (split_map policy) ''rosterid'')),
      we_subAuthor = sub_authors subs, we_acting = [], we_hasNow = (op_nowMs opts \<noteq> 0),
      we_now = op_nowMs opts, we_ttlHours = policy_num policy ''claim_ttl_hours'' 0,
      we_windowHours = policy_num policy ''verify_window_hours'' 0\<rparr>"

definition acting_pins :: "prepass \<Rightarrow> string list" where
  "acting_pins pp = map (\<lambda>kv. ev_pin (snd kv)) (pp_lastVotes pp)"

definition timeline_of :: "(string \<Rightarrow> chain_event list) \<Rightarrow> string \<Rightarrow> chain_event list \<Rightarrow> string list \<Rightarrow> chain_event list" where
  "timeline_of paths rootPin subs acting =
     sortChainEvents (filter (in_task rootPin) (paths ''claim'') @ filter (in_task rootPin) (paths ''release'')
       @ subs @ filter (\<lambda>v. ev_pin v \<in> set acting) (paths ''verify''))"

definition replay_setup :: "chain_event list \<Rightarrow> v121_options \<Rightarrow> task_setup option" where
  "replay_setup events opts =
     (case find_root (op_rootPinID opts) (byPath events ''task'') of
        None \<Rightarrow> None
      | Some taskPin \<Rightarrow>
          let policy = policy_of (ev_body taskPin);
              subs = sortChainEvents (filter (in_task (ev_pin taskPin)) (byPath events ''submission''));
              env0 = setup_env opts taskPin policy subs;
              pp = vote_prepass env0 (byPath events ''verify'');
              acting = acting_pins pp
          in Some \<lparr>ts_root = taskPin, ts_policy = policy,
                   ts_treePin = find (\<lambda>p. ev_pin p = evs taskPin ''treeid'') (byPath events ''tree''),
                   ts_subs = subs, ts_env = env0\<lparr>we_acting := acting\<rparr>, ts_prepass = pp,
                   ts_timeline = timeline_of (byPath events) (ev_pin taskPin) subs acting\<rparr>)"

section \<open>Stage two: the amend fold between two walks\<close>

definition active_nodes :: "walk_state \<Rightarrow> string list" where
  "active_nodes w = remdups (map cy_node (ws_cycles w))"

definition verified_nodes :: "walk_state \<Rightarrow> string list" where
  "verified_nodes w = filter (\<lambda>n. case activeCycle w n of None \<Rightarrow> False
     | Some c \<Rightarrow> (case cy_effective c of None \<Rightarrow> False | Some s \<Rightarrow> su_pin s \<in> set (ws_verifiedPins w)))
     (active_nodes w)"

definition amend_env_of :: "task_setup \<Rightarrow> walk_state \<Rightarrow> amend_env" where
  "amend_env_of su w1 =
     \<lparr>ae_rootAuthor = we_rootAuthor (ts_env su), ae_treePinID = evs (ts_root su) ''treeid'',
      ae_firstClaimOrder = ws_firstClaimOrder w1, ae_verified = verified_nodes w1,
      ae_active = mkeys (ws_holders w1),
      ae_rootVerified = (case ts_treePin su of None \<Rightarrow> False
        | Some p \<Rightarrow> evs p ''root'' \<noteq> '''' \<and> evs p ''root'' \<in> set (verified_nodes w1)),
      ae_hAct2 = we_hAct2 (ts_env su)\<rparr>"

definition amends_of :: "chain_event list \<Rightarrow> task_setup \<Rightarrow> chain_event list" where
  "amends_of events su = sortChainEvents (filter (in_task (ev_pin (ts_root su))) (byPath events ''amend''))"

definition walk_and_expire :: "task_setup \<Rightarrow> string list option \<Rightarrow> walk_state" where
  "walk_and_expire su inTree = applyExpiry (ts_env su) (runWalk (ts_env su) inTree (ts_timeline su))"

definition replay_fold :: "chain_event list \<Rightarrow> task_setup \<Rightarrow> fold_state option" where
  "replay_fold events su =
     (let w1 = walk_and_expire su None; (nodes, order) = initial_tree (ts_treePin su)
      in foldAmends (amend_env_of su w1) nodes order (amends_of events su))"

definition in_tree_of :: "task_setup \<Rightarrow> fold_state \<Rightarrow> string list option" where
  "in_tree_of su fs = (case ts_treePin su of None \<Rightarrow> None | Some p \<Rightarrow> Some (mkeys (fs_nodes fs)))"

definition node_order_of :: "task_setup \<Rightarrow> fold_state \<Rightarrow> walk_state \<Rightarrow> string list" where
  "node_order_of su fs w = slice_stable node_less
     (case ts_treePin su of
        Some p \<Rightarrow> mkeys (fs_nodes fs)
      | None \<Rightarrow> remdups (mkeys (fst (initial_tree (ts_treePin su))) @ map cy_node (ws_cycles w) @ mkeys (ws_holders w)))"

section \<open>Stage three: verdicts, challenges, settlement\<close>

definition final_env_of :: "task_setup \<Rightarrow> fold_state \<Rightarrow> walk_state \<Rightarrow> final_env" where
  "final_env_of su fs w =
     \<lparr>fe_active = activeCycle w, fe_children = childrenOf (fs_nodes fs) (fs_order fs),
      fe_subBody = sub_bodies (ts_subs su), fe_hAct2 = we_hAct2 (ts_env su)\<rparr>"

definition final_fuel :: "fold_state \<Rightarrow> nat" where
  "final_fuel fs = length (fs_order fs) + 2"

definition pins_of_nodes :: "walk_state \<Rightarrow> string list \<Rightarrow> string list" where
  "pins_of_nodes w nodes = List.map_filter (\<lambda>n. case activeCycle w n of None \<Rightarrow> None
     | Some c \<Rightarrow> effective_pin c) nodes"

definition challenge_env_of :: "task_setup \<Rightarrow> walk_state \<Rightarrow> challenge_env" where
  "challenge_env_of su w =
     \<lparr>ce_rootAuthor = we_rootAuthor (ts_env su), ce_hAct2 = we_hAct2 (ts_env su),
      ce_subAuthor = subAuthor (ts_env su),
      ce_active = List.map_filter (activeCycle w) (active_nodes w),
      ce_hasNow = we_hasNow (ts_env su), ce_now = we_now (ts_env su),
      ce_ttlDays = policy_num (ts_policy su) ''challenge_ttl_days'' ChallengeTTLDefaultDays\<rparr>"

definition known_target :: "task_setup \<Rightarrow> string \<Rightarrow> bool" where
  "known_target su t \<longleftrightarrow> mhas (we_subAuthor (ts_env su)) t"

definition challenges_of :: "chain_event list \<Rightarrow> task_setup \<Rightarrow> chain_event list" where
  "challenges_of events su = filter (\<lambda>e. known_target su (evs e ''targetid'')) (byPath events ''challenge'')"

definition participants_of :: "task_setup \<Rightarrow> walk_state \<Rightarrow> string list \<Rightarrow> string list \<Rightarrow> participants" where
  "participants_of su w nodeOrder finalNodes =
     (let rootAuthor = we_rootAuthor (ts_env su);
          ps1 = count_claims rootAuthor (ws_effectiveClaimCounts w);
          ps2 = foldl (count_submission (activeCycle w) finalNodes) ps1 nodeOrder
      in foldl (count_cycle_reviews rootAuthor (votesByTarget (ts_prepass su))) ps2 (ws_cycles w))"

definition replay_settlement ::
    "task_setup \<Rightarrow> fold_state \<Rightarrow> walk_state \<Rightarrow> string list \<Rightarrow> string list \<Rightarrow> participants \<Rightarrow> int \<Rightarrow> string
     \<Rightarrow> replay_error + manifest" where
  "replay_settlement su fs w nodeOrder finalPins ps boundary hash =
     (let weights = settlement_weights (fs_nodes fs) nodeOrder;
          sigma = sigma_of (split_map (ts_policy su))
      in case settle_nodes (settle_step (we_rootAuthor (ts_env su)) sigma (accuracy ps) weights (activeCycle w)
                finalPins (votesByTarget (ts_prepass su))) nodeOrder [] of
           None \<Rightarrow> Inl DivisionByZero
         | Some parts \<Rightarrow>
             (case make_manifest (ev_pin (ts_root su)) boundary hash weights parts (ws_cycles w) of
                Inl NotCanonical \<Rightarrow> Inl CanonFailed
              | Inl (SelfCheckFailed metaID) \<Rightarrow> Inl (ShareCheckFailed metaID)
              | Inr m \<Rightarrow> Inr m))"

definition task_tags :: "jobj \<Rightarrow> string list" where
  "task_tags body = (case as_arr (jget body ''tags'') of Some vs \<Rightarrow> str_elems vs | None \<Rightarrow> [])"

definition replay_finish ::
    "chain_event list \<Rightarrow> v121_options \<Rightarrow> task_setup \<Rightarrow> fold_state \<Rightarrow> replay_error + v121_result" where
  "replay_finish events opts su fs =
     (let env = ts_env su; taskPin = ts_root su; pp = ts_prepass su; policy = ts_policy su;
          w = walk_and_expire su (in_tree_of su fs);
          nodeOrder = node_order_of su fs w;
          treePinID = evs taskPin ''treeid''; specID = evs taskPin ''specid'';
          rosterID = strAny (jget (split_map policy) ''rosterid'') in
      case final_nodes (final_fuel fs) (final_env_of su fs w) [] nodeOrder of
        None \<Rightarrow> Inl DepthExceeded
      | Some finalNodes \<Rightarrow>
      let finalPins = pins_of_nodes w finalNodes;
          (opened, ignoredCh) = run_challenges (challenge_env_of su w) (challenges_of events su);
          standing = filter (\<lambda>kv. still_open (activeCycle w) finalPins (snd kv)) opened;
          disputed = map (\<lambda>kv. oc_node (snd kv)) standing;
          ps = participants_of su w nodeOrder finalNodes;
          rootNode = root_tree_node (fs_nodes fs) (fs_order fs) (ts_treePin su);
          complete = task_complete rootNode finalNodes nodeOrder;
          scoped = hash_scoped (ev_pin taskPin) treePinID specID (known_target su) (byPath events);
          boundary = boundaryBlock scoped;
          ignored = pp_ignored pp @ ws_ignored w @ fs_ignored fs @ ignoredCh
      in (case eventSetHash scoped of
            None \<Rightarrow> Inl CanonFailed
          | Some hash \<Rightarrow>
              (case (if complete \<and> standing = [] then
                       (case replay_settlement su fs w nodeOrder finalPins ps boundary hash of
                          Inl e \<Rightarrow> Inl e | Inr m \<Rightarrow> Inr (Some m))
                     else Inr None) of
                 Inl e \<Rightarrow> Inl e
               | Inr settlement \<Rightarrow> Inr
                  \<lparr>r_rootPinID = ev_pin taskPin, r_title = evs taskPin ''title'', r_brief = evs taskPin ''brief'',
                   r_publisher = ev_author taskPin, r_tags = task_tags (ev_body taskPin), r_rawPolicy = policy,
                   r_quorum = we_quorum env, r_ttlHours = we_ttlHours env, r_windowHours = we_windowHours env,
                   r_challengeTTLDays = policy_num policy ''challenge_ttl_days'' ChallengeTTLDefaultDays,
                   r_hasSplit = (split_of policy \<noteq> None),
                   r_rosterID = (if rosterID = '''' then None else Some rosterID),
                   r_rosterResolved = (rosterID \<noteq> '''' \<and> mhas (op_rosterPins opts) rosterID),
                   r_treePinID = treePinID, r_specID = specID, r_amendHead = fs_head fs,
                   r_effectiveTree = fs_nodes fs, r_treeOrder = fs_order fs, r_nodeOrder = nodeOrder,
                   r_nodeStates = map (\<lambda>n. (n, node_view (ev_author taskPin) (fs_nodes fs) w
                      (votesByTarget pp) finalNodes disputed n)) nodeOrder,
                   r_taskComplete = complete,
                   r_progress = progress_of nodeOrder finalNodes disputed (ws_holders w),
                   r_participants = slice_stable participant_less ps,
                   r_settlement = settlement, r_eventSetHash = hash, r_boundaryBlock = boundary,
                   r_ignoredEvents = ignored, r_expiryApplied = we_hasNow env, r_walk = w,
                   r_finalVerified = finalNodes, r_finalVerifiedPins = finalPins, r_disputedNodes = disputed,
                   r_prepass = pp, r_submissionsByNode = subs_by_node (ts_subs su),
                   r_dispositions = dispositions env pp w, r_ignoredByPin = ignored_by_pin ignored,
                   r_rootTreeNodeID = rootNode\<rparr>)))"

definition ReplayV121 :: "chain_event list \<Rightarrow> v121_options \<Rightarrow> (replay_error + v121_result) option" where
  "ReplayV121 events opts =
     (case replay_setup events opts of
        None \<Rightarrow> Some (Inl NoTaskRoot)
      | Some su \<Rightarrow>
          (case replay_fold events su of
             None \<Rightarrow> None
           | Some fs \<Rightarrow> Some (replay_finish events opts su fs)))"

end
