(* ===== verification/JsonDecode.thy ===== *)
theory JsonDecode
  imports Json
begin

text \<open>
  \<open>json.Decoder\<close> of Go's \<open>encoding/json\<close> with \<open>UseNumber\<close>, as the payload rules use it: the
  grammar of the scanner, the unquoting of strings (invalid UTF-8 and lone surrogates become
  U+FFFD), duplicate keys (the last one wins), the nesting limit, and the rest of the input that
  \<open>Decoder.More\<close> looks at.
\<close>

section \<open>White space, numbers and strings\<close>

definition is_ws :: "char \<Rightarrow> bool" where
  "is_ws c \<longleftrightarrow> byte c = 32 \<or> byte c = 9 \<or> byte c = 10 \<or> byte c = 13"

definition skip_ws :: "string \<Rightarrow> string" where
  "skip_ws s = dropWhile is_ws s"

definition is_digit :: "char \<Rightarrow> bool" where
  "is_digit c \<longleftrightarrow> 48 \<le> byte c \<and> byte c \<le> 57"

definition span_digits :: "string \<Rightarrow> string \<times> string" where
  "span_digits s = (takeWhile is_digit s, dropWhile is_digit s)"

text \<open>The number literal at the front of the input; \<open>None\<close> is a syntax error.\<close>

definition scan_int :: "string \<Rightarrow> (string \<times> string) option" where
  "scan_int s = (case s of [] \<Rightarrow> None
     | c # r \<Rightarrow> if c = CHR ''0'' then Some ([c], r)
                else if is_digit c then Some (span_digits s) else None)"

definition scan_frac :: "string \<Rightarrow> (string \<times> string) option" where
  "scan_frac s = (case s of [] \<Rightarrow> Some ([], s)
     | c # r \<Rightarrow> if c \<noteq> CHR ''.'' then Some ([], s)
                else let (ds, r') = span_digits r in if ds = [] then None else Some (c # ds, r'))"

definition scan_exp :: "string \<Rightarrow> (string \<times> string) option" where
  "scan_exp s = (case s of [] \<Rightarrow> Some ([], s)
     | c # r \<Rightarrow> if c \<noteq> CHR ''e'' \<and> c \<noteq> CHR ''E'' then Some ([], s)
                else let (sign, r1) = (case r of [] \<Rightarrow> ([], r)
                           | d # r' \<Rightarrow> if d = CHR ''+'' \<or> d = CHR ''-'' then ([d], r') else ([], r));
                         (ds, r2) = span_digits r1
                     in if ds = [] then None else Some (c # sign @ ds, r2))"

definition scan_number :: "string \<Rightarrow> (string \<times> string) option" where
  "scan_number s =
     (let (sign, s0) = (case s of [] \<Rightarrow> ([], s) | c # r \<Rightarrow> if c = CHR ''-'' then ([c], r) else ([], s))
      in case scan_int s0 of
           None \<Rightarrow> None
         | Some (i, s1) \<Rightarrow>
             (case scan_frac s1 of
                None \<Rightarrow> None
              | Some (f, s2) \<Rightarrow>
                  (case scan_exp s2 of
                     None \<Rightarrow> None
                   | Some (e, s3) \<Rightarrow> Some (sign @ i @ f @ e, s3))))"

definition hex_val :: "char \<Rightarrow> int option" where
  "hex_val c = (if 48 \<le> byte c \<and> byte c \<le> 57 then Some (byte c - 48)
     else if 97 \<le> byte c \<and> byte c \<le> 102 then Some (byte c - 87)
     else if 65 \<le> byte c \<and> byte c \<le> 70 then Some (byte c - 55)
     else None)"

text \<open>The raw text of a string after its opening quote, and what follows its closing one.\<close>

definition esc_char :: "char \<Rightarrow> bool" where
  "esc_char e \<longleftrightarrow> e \<in> {CHR ''b'', CHR ''f'', CHR ''n'', CHR ''r'', CHR ''t'', CHR 0x5C, CHR ''/'', CHR 0x22}"

fun scan_str :: "string \<Rightarrow> (string \<times> string) option" where
  "scan_str [] = None"
| "scan_str (c # r) =
     (if c = CHR 0x22 then Some ([], r)
      else if byte c < 32 then None
      else if c \<noteq> CHR 0x5C then map_option (\<lambda>(t, u). (c # t, u)) (scan_str r)
      else (case r of
              [] \<Rightarrow> None
            | e # r' \<Rightarrow>
                if esc_char e then map_option (\<lambda>(t, u). (c # e # t, u)) (scan_str r')
                else if e = CHR ''u'' then
                  (case r' of
                     h1 # h2 # h3 # h4 # r'' \<Rightarrow>
                       if list_all (\<lambda>h. hex_val h \<noteq> None) [h1, h2, h3, h4]
                       then map_option (\<lambda>(t, u). (c # e # h1 # h2 # h3 # h4 # t, u)) (scan_str r'')
                       else None
                   | _ \<Rightarrow> None)
                else None))"

text \<open>\<open>getu4\<close>: the code unit of a \<open>\u\<close> escape at the front.\<close>

definition getu4 :: "string \<Rightarrow> int option" where
  "getu4 s = (case s of
      b # u # h1 # h2 # h3 # h4 # r \<Rightarrow>
        if b = CHR 0x5C \<and> u = CHR ''u'' then
          (case those (map hex_val [h1, h2, h3, h4]) of
             Some [a, b, c, d] \<Rightarrow> Some (((a * 16 + b) * 16 + c) * 16 + d)
           | _ \<Rightarrow> None)
        else None
    | _ \<Rightarrow> None)"

definition unescape :: "char \<Rightarrow> char" where
  "unescape e = (if e = CHR ''b'' then char_of (8 :: int) else if e = CHR ''f'' then char_of (12 :: int)
     else if e = CHR ''n'' then char_of (10 :: int) else if e = CHR ''r'' then char_of (13 :: int)
     else if e = CHR ''t'' then char_of (9 :: int) else e)"

definition utf8 :: "int \<Rightarrow> string" where
  "utf8 r = map char_of (encode_rune r)"

function unquote :: "string \<Rightarrow> string" where
  "unquote s =
     (case s of [] \<Rightarrow> []
      | c # r \<Rightarrow>
          if c = CHR 0x5C then
            (case getu4 s of
               Some rr \<Rightarrow>
                 let rest = drop 6 s in
                 if 55296 \<le> rr \<and> rr < 57344 then
                   (case getu4 rest of
                      Some rr1 \<Rightarrow>
                        if rr < 56320 \<and> 56320 \<le> rr1 \<and> rr1 < 57344
                        then utf8 ((rr - 55296) * 1024 + (rr1 - 56320) + 65536) @ unquote (drop 12 s)
                        else utf8 rune_error @ unquote rest
                    | None \<Rightarrow> utf8 rune_error @ unquote rest)
                 else utf8 rr @ unquote rest
             | None \<Rightarrow> (case r of [] \<Rightarrow> [] | e # r' \<Rightarrow> unescape e # unquote r'))
          else if byte c < 128 then c # unquote r
          else let (rn, w) = decode_rune (map byte s) in utf8 rn @ unquote (drop w s))"
  by pat_completeness auto
termination
proof (relation "measure length", goal_cases)
  case (8 s c r x rn w)
  then have "w = snd (decode_rune (map byte s))" by (metis snd_conv)
  with 8(1) show ?case using decode_rune_width [of "map byte s"] by auto
qed (auto simp: getu4_def split: list.splits if_splits)

declare unquote.simps [simp del]

definition parse_str :: "string \<Rightarrow> (string \<times> string) option" where
  "parse_str s = map_option (\<lambda>(t, u). (unquote t, u)) (scan_str s)"

section \<open>Values\<close>

text \<open>\<open>maxNestingDepth\<close> of the scanner.\<close>

definition max_nesting :: nat where "max_nesting = 10000"

definition expect :: "string \<Rightarrow> json \<Rightarrow> string \<Rightarrow> (json \<times> string) option" where
  "expect lit v s = (if has_prefix s lit then Some (v, drop (length lit) s) else None)"

text \<open>
  A value and the input after it; \<open>None\<close> is a syntax error. The first argument bounds the number
  of values and separators still to read, the second is the nesting depth. Every step reads at
  least one character, so the length of the input is enough.
\<close>

fun parse_value :: "nat \<Rightarrow> nat \<Rightarrow> string \<Rightarrow> (json \<times> string) option"
and parse_elems :: "nat \<Rightarrow> nat \<Rightarrow> json list \<Rightarrow> string \<Rightarrow> (json list \<times> string) option"
and parse_members :: "nat \<Rightarrow> nat \<Rightarrow> jobj \<Rightarrow> string \<Rightarrow> (jobj \<times> string) option" where
  "parse_value 0 d s = None"
| "parse_value (Suc k) d s =
     (case skip_ws s of
        [] \<Rightarrow> None
      | c # r \<Rightarrow>
          if c = CHR ''{'' then
            (if max_nesting \<le> d then None
             else (case skip_ws r of
                     [] \<Rightarrow> None
                   | e # r' \<Rightarrow> if e = CHR ''}'' then Some (JObj [], r')
                               else map_option (\<lambda>(fs, u). (JObj fs, u)) (parse_members k (Suc d) [] r)))
          else if c = CHR ''['' then
            (if max_nesting \<le> d then None
             else (case skip_ws r of
                     [] \<Rightarrow> None
                   | e # r' \<Rightarrow> if e = CHR '']'' then Some (JArr [], r')
                               else map_option (\<lambda>(vs, u). (JArr vs, u)) (parse_elems k (Suc d) [] r)))
          else if c = CHR 0x22 then map_option (\<lambda>(t, u). (JStr t, u)) (parse_str r)
          else if c = CHR ''t'' then expect ''true'' (JBool True) (c # r)
          else if c = CHR ''f'' then expect ''false'' (JBool False) (c # r)
          else if c = CHR ''n'' then expect ''null'' JNull (c # r)
          else map_option (\<lambda>(t, u). (JNum t, u)) (scan_number (c # r)))"
| "parse_elems 0 d acc s = None"
| "parse_elems (Suc k) d acc s =
     (case parse_value k d s of
        None \<Rightarrow> None
      | Some (v, r) \<Rightarrow>
          (case skip_ws r of
             [] \<Rightarrow> None
           | c # r' \<Rightarrow> if c = CHR '']'' then Some (acc @ [v], r')
                       else if c = CHR '','' then parse_elems k d (acc @ [v]) r'
                       else None))"
| "parse_members 0 d acc s = None"
| "parse_members (Suc k) d acc s =
     (case skip_ws s of
        [] \<Rightarrow> None
      | q # r0 \<Rightarrow>
          if q \<noteq> CHR 0x22 then None
          else (case parse_str r0 of
                  None \<Rightarrow> None
                | Some (key, r1) \<Rightarrow>
                    (case skip_ws r1 of
                       [] \<Rightarrow> None
                     | c1 # r2 \<Rightarrow>
                         if c1 \<noteq> CHR '':'' then None
                         else (case parse_value k d r2 of
                                 None \<Rightarrow> None
                               | Some (v, r3) \<Rightarrow>
                                   (case skip_ws r3 of
                                      [] \<Rightarrow> None
                                    | c2 # r4 \<Rightarrow>
                                        if c2 = CHR ''}'' then Some (mput key v acc, r4)
                                        else if c2 = CHR '','' then parse_members k d (mput key v acc) r4
                                        else None)))))"

text \<open>\<open>Decoder.Decode\<close>, and \<open>Decoder.More\<close> at the top level: a closing bracket counts as the end.\<close>

definition decode_json :: "string \<Rightarrow> (json \<times> string) option" where
  "decode_json s = parse_value (2 * length s + 2) 0 s"

definition decoder_more :: "string \<Rightarrow> bool" where
  "decoder_more rest = (case skip_ws rest of [] \<Rightarrow> False | c # r \<Rightarrow> c \<noteq> CHR '']'' \<and> c \<noteq> CHR ''}'')"

section \<open>Decoding without UseNumber\<close>

text \<open>A document as \<open>json.Unmarshal\<close> reads it into an \<open>any\<close>: numbers become \<open>float64\<close>s.\<close>

datatype any_json = ANull | ABool bool | AStr string | ANum f64 | AArr "any_json list" | AObj "(string \<times> any_json) list"

fun floats :: "json \<Rightarrow> any_json option" where
  "floats JNull = Some ANull"
| "floats (JBool b) = Some (ABool b)"
| "floats (JStr s) = Some (AStr s)"
| "floats (JNum s) = map_option ANum (parse_f64 s)"
| "floats (JInt i) = map_option ANum (round64 (of_int i))"
| "floats (JArr vs) = map_option AArr (those (map floats vs))"
| "floats (JObj fs) = map_option AObj (those (map (\<lambda>f. map_option (Pair (fst f)) (floats (snd f))) fs))"

end
