(* ===== verification/Payload.thy ===== *)
theory Payload
  imports JsonDecode EventOrder
begin

text \<open>
  Pool records and their payloads: \<open>Pin\<close>, the pool paths and the ordering key of \<open>types.go\<close>, the
  payload acceptance rules and the field readers of \<open>payload.go\<close>.
\<close>

section \<open>Pool paths\<close>

definition PathTask :: string where "PathTask = ''/protocols/metatask/task''"
definition PathTree :: string where "PathTree = ''/protocols/metatask/tree''"
definition PathSpec :: string where "PathSpec = ''/protocols/metatask/spec''"
definition PathClaim :: string where "PathClaim = ''/protocols/metatask/claim''"
definition PathRelease :: string where "PathRelease = ''/protocols/metatask/release''"
definition PathSubmission :: string where "PathSubmission = ''/protocols/metatask/submission''"
definition PathVerify :: string where "PathVerify = ''/protocols/metatask/verify''"
definition PathAmend :: string where "PathAmend = ''/protocols/metatask/amend''"
definition PathChallenge :: string where "PathChallenge = ''/protocols/metatask/challenge''"
definition PathRoster :: string where "PathRoster = ''/protocols/metatask-roster''"

definition EventPaths :: "string list" where
  "EventPaths = [PathTask, PathTree, PathSpec, PathClaim, PathRelease, PathSubmission, PathVerify,
     PathAmend, PathChallenge]"

definition PoolPaths :: "string list" where
  "PoolPaths = [PathClaim, PathSubmission, PathVerify]"

definition PoolName :: "string \<Rightarrow> string" where
  "PoolName path =
     (if path = PathClaim then ''claim''
      else if path = PathSubmission then ''submission''
      else if path = PathVerify then ''verify''
      else if path = PathTask then ''task''
      else if path = PathTree then ''tree''
      else if path = PathSpec then ''spec''
      else if path = PathRelease then ''release''
      else if path = PathAmend then ''amend''
      else if path = PathChallenge then ''challenge''
      else if path = PathRoster then ''roster''
      else path)"

section \<open>Pins\<close>

text \<open>The integers are Go \<open>int64\<close>s; \<open>pi_payload\<close> holds the payload bytes as published.\<close>

record pin =
  pi_id :: string
  pi_path :: string
  pi_operation :: string
  pi_globalMetaID :: string
  pi_metaID :: string
  pi_address :: string
  pi_height :: int
  pi_tx :: int
  pi_ts :: int
  pi_seen :: int
  pi_genesisTx :: string
  pi_fee :: int
  pi_out :: int
  pi_number :: int
  pi_length :: int
  pi_version :: int
  pi_summary :: string
  pi_payload :: string
  pi_channel :: string
  pi_state :: string
  pi_error :: string

type_synonym pools = "(string, pin list) gomap"

definition pins_at :: "pools \<Rightarrow> string \<Rightarrow> pin list" where
  "pins_at events path = (case mget events path of Some ps \<Rightarrow> ps | None \<Rightarrow> [])"

definition pinTimestamp :: "pin \<Rightarrow> int" where
  "pinTimestamp p = (if pi_ts p \<noteq> 0 then pi_ts p else pi_seen p)"

record order_key =
  ok_height :: int
  ok_tx :: int
  ok_ts :: int
  ok_id :: string

definition OrderKey :: "pin \<Rightarrow> order_key" where
  "OrderKey p =
     \<lparr>ok_height = (if pi_height p < 0 then max_int64 else pi_height p),
      ok_tx = (if pi_tx p < 0 then 0 else pi_tx p),
      ok_ts = (if pi_seen p = 0 then pi_ts p else pi_seen p),
      ok_id = pi_id p\<rparr>"

definition key_before :: "order_key \<Rightarrow> order_key \<Rightarrow> bool" where
  "key_before a b =
     (if ok_height a \<noteq> ok_height b then ok_height a < ok_height b
      else if ok_tx a \<noteq> ok_tx b then ok_tx a < ok_tx b
      else if ok_ts a \<noteq> ok_ts b then ok_ts a < ok_ts b
      else string_less (ok_id a) (ok_id b))"

definition orderLess :: "pin \<Rightarrow> pin \<Rightarrow> bool" where
  "orderLess a b = key_before (OrderKey a) (OrderKey b)"

lemma key_before_order: "total_order_on key_before (\<lambda>k. ok_id k)"
  unfolding key_before_def [abs_def]
  by (intro total_order_on_lex total_order_on_inv [OF string_order])

interpretation pin_ord: total_order_on orderLess pi_id
  using total_order_on_inv [OF key_before_order, of OrderKey]
  by (simp add: orderLess_def [abs_def] OrderKey_def)

section \<open>Payload acceptance\<close>

text \<open>\<open>strings.TrimSpace\<close>.\<close>

definition trim_space :: "string \<Rightarrow> string" where
  "trim_space s =
     (case filter (\<lambda>(i, r). \<not> is_space r) (runes_of s) of
        [] \<Rightarrow> []
      | x # xs \<Rightarrow>
          let i = fst x; j = fst (last (x # xs)); w = snd (decode_rune (map byte (drop j s)))
          in take (j + w - i) (drop i s))"

lemma row_runes: "list_all ascii s \<Longrightarrow> runes_of s = zip [0..<length s] (map byte s)"
  using range_runes_ascii [of "map byte s" 0] by (simp add: runes_of_def list_all_iff ascii_def)

lemma trim_visible:
  assumes "list_all (\<lambda>c. ascii c \<and> \<not> is_space (byte c)) s" shows "trim_space s = s"
proof (cases "s = []")
  case True
  then show ?thesis by (simp add: trim_space_def row_runes)
next
  case False
  have r: "runes_of s = zip [0..<length s] (map byte s)"
    using assms by (intro row_runes) (simp add: list_all_iff)
  have "filter (\<lambda>(i, r). \<not> is_space r) (runes_of s) = runes_of s"
    using assms by (auto simp: r filter_id_conv list_all_iff dest!: set_zip_rightD)
  moreover have "runes_of s \<noteq> []" "fst (hd (runes_of s)) = 0" "fst (last (runes_of s)) = length s - 1"
    using False by (auto simp: r hd_zip last_zip hd_conv_nth)
  moreover have "snd (decode_rune (map byte (drop (length s - 1) s))) = 1"
  proof -
    have "drop (length s - 1) s = [last s]" using False by (metis append_butlast_last_id append_eq_conv_conj length_butlast)
    moreover have "ascii (last s)" using assms False by (auto simp: list_all_iff)
    ultimately show ?thesis by (simp add: decode_rune_def ascii_def)
  qed
  ultimately show ?thesis
    using False by (cases "runes_of s") (simp_all add: trim_space_def Let_def)
qed

datatype payload_state = PayloadOK | PayloadEmpty | PayloadShort | PayloadMalformed | PayloadNotObject

text \<open>The verdict without its diagnostic text.\<close>

record payload_verdict =
  pv_state :: payload_state
  pv_payload :: jobj

definition refused :: "payload_state \<Rightarrow> payload_verdict" where
  "refused st = \<lparr>pv_state = st, pv_payload = []\<rparr>"

definition Accepted :: "payload_verdict \<Rightarrow> bool" where
  "Accepted v \<longleftrightarrow> pv_state v = PayloadOK"

definition acceptPayload :: "string \<Rightarrow> int \<Rightarrow> payload_verdict" where
  "acceptPayload raw declaredLength =
     (if raw = [] then refused PayloadEmpty
      else if 0 < declaredLength \<and> int (length raw) \<noteq> declaredLength then refused PayloadShort
      else (case decode_json raw of
              None \<Rightarrow> refused PayloadMalformed
            | Some (decoded, rest) \<Rightarrow>
                if decoder_more rest then refused PayloadMalformed
                else (case as_obj decoded of
                        None \<Rightarrow> refused PayloadNotObject
                      | Some ob \<Rightarrow> \<lparr>pv_state = PayloadOK, pv_payload = ob\<rparr>)))"

definition resolvePayload :: "pin \<Rightarrow> payload_verdict" where
  "resolvePayload p =
     (if pi_payload p \<noteq> [] then acceptPayload (pi_payload p) (pi_length p)
      else let trimmed = trim_space (pi_summary p)
           in if trimmed \<noteq> [] then acceptPayload trimmed (pi_length p) else refused PayloadEmpty)"

definition pin_body :: "pin \<Rightarrow> jobj" where
  "pin_body p = pv_payload (resolvePayload p)"

section \<open>Field readers\<close>

definition payloadString :: "jobj \<Rightarrow> string \<Rightarrow> string" where
  "payloadString b k = (case jget b k of JStr s \<Rightarrow> s | JNum s \<Rightarrow> s | _ \<Rightarrow> '''')"

definition present_value :: "json \<Rightarrow> bool" where
  "present_value v = (case v of
      JStr s \<Rightarrow> trim_space s \<noteq> []
    | JBool t \<Rightarrow> t
    | JNum s \<Rightarrow> (case parse_f64 s of None \<Rightarrow> True | Some f \<Rightarrow> f \<noteq> 0)
    | JArr vs \<Rightarrow> vs \<noteq> []
    | JObj fs \<Rightarrow> fs \<noteq> []
    | _ \<Rightarrow> False)"

definition payloadPresent :: "jobj \<Rightarrow> string \<Rightarrow> bool" where
  "payloadPresent b k = present_value (jget b k)"

definition payloadTypeName :: "jobj \<Rightarrow> string \<Rightarrow> string" where
  "payloadTypeName b k = (case mget b k of
      None \<Rightarrow> ''absent''
    | Some v \<Rightarrow> (case v of JNull \<Rightarrow> ''null'' | JStr s \<Rightarrow> ''string'' | JBool t \<Rightarrow> ''bool''
        | JNum s \<Rightarrow> ''number'' | JArr vs \<Rightarrow> ''array'' | JObj fs \<Rightarrow> ''object'' | JInt i \<Rightarrow> ''unknown''))"

definition payloadNumber :: "jobj \<Rightarrow> string \<Rightarrow> f64 option" where
  "payloadNumber b k = (case jget b k of JNum s \<Rightarrow> parse_f64 s | _ \<Rightarrow> None)"

definition payloadStrings :: "jobj \<Rightarrow> string \<Rightarrow> string list" where
  "payloadStrings b k = (case as_arr (jget b k) of None \<Rightarrow> [] | Some vs \<Rightarrow> str_elems vs)"

end
