(* ===== verification/Renderer.thy ===== *)
theory Renderer
  imports Replay121 Payload
begin

text \<open>
  The replay renderer (\<open>replay.go\<close>): the collection boundary \<open>admitEvents\<close>, the evaluation
  boundary \<open>DeriveBoundary\<close>, the conversion to engine events and \<open>Replay\<close>, which runs the engine
  and renders its conclusion node by node.
\<close>

section \<open>The evaluation boundary\<close>

record boundary =
  bd_height :: int
  bd_ts :: int

definition boundary_step :: "int \<Rightarrow> int \<times> int \<Rightarrow> pin \<Rightarrow> int \<times> int" where
  "boundary_step toBlock st p =
     (if pi_height p < 0 \<or> (0 < toBlock \<and> toBlock < pi_height p) then st
      else if fst st < pi_height p then (pi_height p, pi_ts p)
      else if pi_height p = fst st \<and> snd st < pi_ts p then (fst st, pi_ts p)
      else st)"

definition DeriveBoundary :: "pools \<Rightarrow> int \<Rightarrow> boundary" where
  "DeriveBoundary events toBlock =
     (let (height, ts) = foldl (boundary_step toBlock) (-1, 0) (concat (map (pins_at events) EventPaths))
      in \<lparr>bd_height = (if height < 0 then 0 else height), bd_ts = ts\<rparr>)"

section \<open>Admission\<close>

record replay_event =
  re_pin :: pin
  re_body :: jobj
  re_ts :: int

definition replayLess :: "pin \<Rightarrow> pin \<Rightarrow> bool" where
  "replayLess a b =
     (if pi_height a \<noteq> pi_height b then pi_height a < pi_height b
      else if pi_tx a \<noteq> pi_tx b then pi_tx a < pi_tx b
      else if pi_version a \<noteq> pi_version b then pi_version a < pi_version b
      else string_less (pi_id a) (pi_id b))"

interpretation replay_ord: total_order_on replayLess pi_id
  unfolding replayLess_def [abs_def]
  by (intro total_order_on_lex total_order_on_inv [OF string_order])

record admission =
  ad_seen :: "string list"
  ad_events :: "(string, replay_event list) gomap"
  ad_mempool :: int
  ad_rejected :: int

definition beyond :: "boundary \<Rightarrow> pin \<Rightarrow> bool" where
  "beyond b p \<longleftrightarrow> 0 < bd_height b \<and> bd_height b < pi_height p"

definition admit_pin :: "boundary \<Rightarrow> string \<Rightarrow> admission \<Rightarrow> pin \<Rightarrow> admission" where
  "admit_pin b path ad p =
     (if pi_id p \<in> set (ad_seen ad) then ad
      else let ad1 = ad\<lparr>ad_seen := pi_id p # ad_seen ad\<rparr> in
        if pi_height p < 0 then ad1\<lparr>ad_mempool := ad_mempool ad1 + 1\<rparr>
        else if beyond b p then ad1
        else if \<not> Accepted (resolvePayload p) then ad1\<lparr>ad_rejected := ad_rejected ad1 + 1\<rparr>
        else ad1\<lparr>ad_events := mappend path
               \<lparr>re_pin = p, re_body = pin_body p, re_ts = pinTimestamp p\<rparr> (ad_events ad1)\<rparr>)"

definition admit_path :: "pools \<Rightarrow> boundary \<Rightarrow> admission \<Rightarrow> string \<Rightarrow> admission" where
  "admit_path events b ad path = foldl (admit_pin b path) ad (pins_at events path)"

definition admitEvents :: "pools \<Rightarrow> boundary \<Rightarrow> admission" where
  "admitEvents events b = foldl (admit_path events b)
     \<lparr>ad_seen = [], ad_events = [], ad_mempool = 0, ad_rejected = 0\<rparr> EventPaths"

definition admitted_at :: "admission \<Rightarrow> string \<Rightarrow> replay_event list" where
  "admitted_at ad path = (case mget (ad_events ad) path of Some es \<Rightarrow> es | None \<Rightarrow> [])"

definition chain_event_of :: "string \<Rightarrow> replay_event \<Rightarrow> chain_event" where
  "chain_event_of path ev =
     \<lparr>ev_pin = pi_id (re_pin ev), ev_path = PoolName path, ev_author = pi_globalMetaID (re_pin ev),
      ev_height = pi_height (re_pin ev), ev_tx = pi_tx (re_pin ev), ev_ts = wrap64 (re_ts ev * 1000),
      ev_body = re_body ev\<rparr>"

definition chainEventsFrom :: "admission \<Rightarrow> chain_event list" where
  "chainEventsFrom ad = concat (map (\<lambda>path. map (chain_event_of path) (admitted_at ad path)) EventPaths)"

definition roster_pins :: "pools \<Rightarrow> boundary \<Rightarrow> (string, jobj) gomap" where
  "roster_pins events b = foldl (\<lambda>m p.
     if pi_height p < 0 \<or> beyond b p \<or> \<not> Accepted (resolvePayload p) then m
     else mput (pi_id p) (pin_body p) m) [] (pins_at events PathRoster)"

section \<open>Rendered rows\<close>

record rendered_vote =
  rv_pin :: string
  rv_voter :: string
  rv_verdict :: string
  rv_hasEvidence :: bool
  rv_hasFailreason :: bool
  rv_hasSemanticCheck :: bool
  rv_counts :: bool
  rv_reason :: "string option"
  rv_height :: int
  rv_ts :: int
  rv_tx :: int

record event_record =
  er_pin :: string
  er_path :: string
  er_version :: int
  er_height :: int
  er_ts :: int
  er_author :: string
  er_kind :: string
  er_summary :: string
  er_validity :: string
  er_reason :: "string option"
  er_tx :: int

record row =
  rw_rec :: event_record
  rw_vote :: "rendered_vote option"
  rw_key :: ord_key

text \<open>\<open>addRow\<close>: a reason marks the row, and its vote as not counted.\<close>

definition add_row ::
    "chain_event \<Rightarrow> string \<Rightarrow> string \<Rightarrow> string \<Rightarrow> string \<Rightarrow> string \<Rightarrow> rendered_vote option \<Rightarrow> row" where
  "add_row ev path kind validity reason summary vote =
     \<lparr>rw_rec = \<lparr>er_pin = ev_pin ev, er_path = path, er_version = 0, er_height = ev_height ev,
        er_ts = go_div (ev_ts ev) 1000, er_author = ev_author ev, er_kind = kind, er_summary = summary,
        er_validity = validity, er_reason = (if reason \<noteq> '''' then Some reason else None), er_tx = ev_tx ev\<rparr>,
      rw_vote = (if reason \<noteq> '''' then map_option (\<lambda>v. v\<lparr>rv_counts := False, rv_reason := Some reason\<rparr>) vote
                 else vote),
      rw_key = ordKeyOf ev\<rparr>"

definition list_at :: "(string, 'a list) gomap \<Rightarrow> string \<Rightarrow> 'a list" where
  "list_at m k = (case mget m k of Some xs \<Rightarrow> xs | None \<Rightarrow> [])"

definition claim_row :: "walk_state \<Rightarrow> string \<Rightarrow> chain_event \<Rightarrow> row" where
  "claim_row w nid ev =
     (let counted = (ev_pin ev \<in> set (ws_claimCounted w))
      in add_row ev PathClaim ''claim'' (if counted then ''counted'' else ''ignored'')
           (if counted then '''' else ''superseded_by_earlier_claim'') (''claim node='' @ nid) None)"

definition release_row :: "walk_state \<Rightarrow> chain_event \<Rightarrow> row" where
  "release_row w ev =
     (let counted = (ev_pin ev \<in> set (ws_releaseCounted w))
      in add_row ev PathRelease ''release'' (if counted then ''counted'' else ''ignored'')
           (if counted then '''' else ''state_no_op'') (''release claimid='' @ payloadString (ev_body ev) ''claimid'') None)"

definition submission_row :: "v121_result \<Rightarrow> string \<Rightarrow> chain_event \<Rightarrow> row" where
  "submission_row v nid ev =
     (if mhas (ws_submissionCycle (r_walk v)) (ev_pin ev)
      then add_row ev PathSubmission ''submission'' ''counted'' '''' (''submission node='' @ nid) None
      else let reason0 = (case mget (r_ignoredByPin v) (ev_pin ev) of Some r \<Rightarrow> r | None \<Rightarrow> '''');
               reason = (if reason0 \<noteq> ''duplicate_without_supersede'' \<and> reason0 \<noteq> ''supersede_predicate_failed''
                         then ''claimid_mismatch'' else reason0)
           in add_row ev PathSubmission ''submission'' ''ignored'' reason (''submission node='' @ nid) None)"

definition vote_view :: "disposition option \<Rightarrow> chain_event \<Rightarrow> rendered_vote" where
  "vote_view d ev =
     \<lparr>rv_pin = ev_pin ev, rv_voter = ev_author ev, rv_verdict = payloadString (ev_body ev) ''verdict'',
      rv_hasEvidence = payloadPresent (ev_body ev) ''evidence'',
      rv_hasFailreason = payloadPresent (ev_body ev) ''failreason'',
      rv_hasSemanticCheck = payloadPresent (ev_body ev) ''semantic_check'',
      rv_counts = (case d of None \<Rightarrow> False | Some d \<Rightarrow> vd_counts d), rv_reason = None,
      rv_height = ev_height ev, rv_ts = go_div (ev_ts ev) 1000, rv_tx = ev_tx ev\<rparr>"

definition vote_row_of :: "v121_result \<Rightarrow> string \<Rightarrow> string \<Rightarrow> chain_event \<Rightarrow> row" where
  "vote_row_of v effectivePin subPin ev =
     (let d = mget (r_dispositions v) (ev_pin ev); vr = vote_view d ev;
          counted = (case d of None \<Rightarrow> False | Some d \<Rightarrow> vd_counts d);
          reason = (case d of None \<Rightarrow> ''unknown_verdict''
             | Some d \<Rightarrow> if vd_reason d = '''' \<and> subPin \<noteq> effectivePin then ''target_not_active''
                         else if vd_reason d \<noteq> '''' then vd_reason d else ''unknown_verdict'')
      in add_row ev PathVerify ''verify'' (if counted then ''counted'' else ''ignored'')
           (if counted then '''' else reason)
           (''verify verdict='' @ rv_verdict vr @ '' target='' @ subPin) (Some vr))"

definition row_less :: "row \<Rightarrow> row \<Rightarrow> bool" where
  "row_less a b = ordLess (rw_key a) (rw_key b)"

definition node_rows :: "v121_result \<Rightarrow> string \<Rightarrow> string \<Rightarrow> row list" where
  "node_rows v effectivePin nid =
     (let w = r_walk v; subs = list_at (r_submissionsByNode v) nid
      in slice_stable row_less
           (map (claim_row w nid) (list_at (ws_claimEvents w) nid)
            @ map (release_row w) (list_at (ws_releaseEvents w) nid)
            @ map (submission_row v nid) subs
            @ concat (map (\<lambda>sub. map (vote_row_of v effectivePin (ev_pin sub))
                (list_at (pp_verifyByTarget (r_prepass v)) (ev_pin sub))) subs)))"

text \<open>The last row of the highest key; on a tie the first one.\<close>

definition last_write :: "row list \<Rightarrow> row option" where
  "last_write rows = foldl (\<lambda>acc r. case acc of None \<Rightarrow> Some r
     | Some l \<Rightarrow> if ordLess (rw_key l) (rw_key r) then Some r else acc) None rows"

section \<open>Rendered nodes\<close>

record current_claim =
  cc_pin :: string
  cc_claimant :: string
  cc_height :: int
  cc_ts :: int
  cc_deadline :: "int option"

record active_submission =
  as_pin :: string
  as_submitter :: string
  as_height :: int
  as_ts :: int
  as_hash :: string
  as_contentType :: "string option"
  as_attachment :: "string option"
  as_childIDs :: "string list"
  as_result :: "jobj option"
  as_windowDeadline :: int

record node_replay =
  nr_id :: string
  nr_parent :: "string option"
  nr_title :: string
  nr_kind :: string
  nr_params :: jobj
  nr_specID :: "string option"
  nr_deps :: "string list"
  nr_weight :: "int option"
  nr_machineState :: string
  nr_displayState :: string
  nr_cycleOutcome :: string
  nr_cycleSeq :: nat
  nr_disputed :: bool
  nr_currentClaim :: "current_claim option"
  nr_activeSubmission :: "active_submission option"
  nr_verifiedAt :: "int option"
  nr_votes :: "rendered_vote list"
  nr_lastWrite :: "string option"
  nr_lastActivity :: "int option"
  nr_events :: "event_record list"
  nr_inTree :: bool
  nr_aggNote :: string

definition displayStateOf :: "string \<Rightarrow> string \<Rightarrow> string" where
  "displayStateOf state cyc_outcome =
     (if state = ''open'' \<and> cyc_outcome = ''rejected'' then ''rejected''
      else if state = ''open'' \<and> (cyc_outcome = ''expired_claim'' \<or> cyc_outcome = ''expired_review_window'')
      then ''expired''
      else if state = ''open'' then ''open''
      else if state = ''claimed'' then ''claimed''
      else if state = ''submitted'' then ''submitted''
      else if state = ''verified'' then ''verified''
      else state)"

definition joinNote :: "string \<Rightarrow> string \<Rightarrow> string" where
  "joinNote a b = (if a = '''' then b else a @ ''; '' @ b)"

definition effective_submission :: "node_state \<Rightarrow> cycle_submission option" where
  "effective_submission st = (case ns_cycle st of None \<Rightarrow> None | Some c \<Rightarrow> cy_effective c)"

definition machine_state :: "node_state \<Rightarrow> string" where
  "machine_state st =
     (if ns_status st = ''verified'' then ''verified''
      else if ns_holder st \<noteq> None \<and> effective_submission st \<noteq> None then ''submitted''
      else if ns_holder st \<noteq> None then ''claimed''
      else ''open'')"

definition hours_deadline :: "int \<Rightarrow> int \<Rightarrow> int" where
  "hours_deadline ms hours = go_div (wrap64 (ms + wrap64 (hours * 3600000))) 1000"

definition claim_view :: "int \<Rightarrow> holder \<Rightarrow> current_claim" where
  "claim_view ttlHours h =
     \<lparr>cc_pin = ho_pin h, cc_claimant = ho_claimant h, cc_height = ho_height h, cc_ts = go_div (ho_sinceMs h) 1000,
      cc_deadline = (if 0 < ttlHours then Some (hours_deadline (ho_sinceMs h) ttlHours) else None)\<rparr>"

definition nonempty_opt :: "string \<Rightarrow> string option" where
  "nonempty_opt s = (if s = '''' then None else Some s)"

definition submission_view :: "int \<Rightarrow> cycle_submission \<Rightarrow> active_submission" where
  "submission_view windowHours s =
     \<lparr>as_pin = su_pin s, as_submitter = su_author s, as_height = su_height s, as_ts = go_div (su_atMs s) 1000,
      as_hash = payloadString (su_body s) ''hash'',
      as_contentType = nonempty_opt (payloadString (su_body s) ''contentType''),
      as_attachment = nonempty_opt (payloadString (su_body s) ''attachment''),
      as_childIDs = payloadStrings (su_body s) ''childids'',
      as_result = as_obj (jget (su_body s) ''result''),
      as_windowDeadline = (if 0 < windowHours then hours_deadline (su_atMs s) windowHours else 0)\<rparr>"

definition tree_children :: "v121_result \<Rightarrow> string \<Rightarrow> string list" where
  "tree_children v p = filter (\<lambda>nid. case mget (r_effectiveTree v) nid of None \<Rightarrow> False
     | Some n \<Rightarrow> tn_parent n = Some p) (r_treeOrder v)"

definition agg_note :: "v121_result \<Rightarrow> string \<Rightarrow> node_state \<Rightarrow> string" where
  "agg_note v nid st =
     (let note0 = (if mhas (r_effectiveTree v) nid then '''' else joinNote '''' ''node not declared in tree event'')
      in case ns_cycle st of
           None \<Rightarrow> note0
         | Some c \<Rightarrow>
             if cy_outcome c = Verified \<and> nid \<notin> set (r_finalVerified v) then
               (if list_all (\<lambda>k. k \<in> set (r_finalVerified v)) (tree_children v nid) \<and> tree_children v nid \<noteq> []
                then joinNote note0 ''aggregation childids do not correspond to the children's verified submissions''
                else joinNote note0 ''own quorum met but not all child nodes verified'')
             else note0)"

definition no_node_state :: "string \<Rightarrow> node_state" where
  "no_node_state nid = \<lparr>ns_node = nid, ns_status = ''open'', ns_disputed = False, ns_holder = None, ns_cycle = None,
     ns_passVotes = 0, ns_failVotes = 0, ns_cycleCount = 0, ns_weight = None, ns_lastOutcome = '''',
     ns_verifiedAtMs = 0, ns_votes = [], ns_inTree = False\<rparr>"

text \<open>The engine has a state for every node in display order, so the default is never used.\<close>

definition state_of :: "v121_result \<Rightarrow> string \<Rightarrow> node_state" where
  "state_of v nid = (case mget (r_nodeStates v) nid of Some st \<Rightarrow> st | None \<Rightarrow> no_node_state nid)"

definition claim_cycles :: "v121_result \<Rightarrow> string \<Rightarrow> nat" where
  "claim_cycles v nid = length (filter (\<lambda>ev. ev_pin ev \<in> set (ws_claimCounted (r_walk v)))
     (list_at (ws_claimEvents (r_walk v)) nid))"

definition render_node :: "v121_result \<Rightarrow> string \<Rightarrow> node_replay" where
  "render_node v nid =
     (let st = state_of v nid; rec = mget (r_effectiveTree v) nid; machine = machine_state st;
          cyc_outcome = (if ns_lastOutcome st = '''' then ''none'' else ns_lastOutcome st);
          effectivePin = (case effective_submission st of None \<Rightarrow> '''' | Some s \<Rightarrow> su_pin s);
          rows = node_rows v effectivePin nid; lw = last_write rows
      in \<lparr>nr_id = nid,
          nr_parent = (case rec of None \<Rightarrow> None | Some n \<Rightarrow> tn_parent n),
          nr_title = (case rec of None \<Rightarrow> '''' | Some n \<Rightarrow> tn_title n),
          nr_kind = (case rec of None \<Rightarrow> '''' | Some n \<Rightarrow> tn_kind n),
          nr_params = (case rec of None \<Rightarrow> [] | Some n \<Rightarrow> tn_params n),
          nr_specID = (case rec of None \<Rightarrow> None | Some n \<Rightarrow> tn_specid n),
          nr_deps = (case rec of None \<Rightarrow> [] | Some n \<Rightarrow> tn_deps n),
          nr_weight = (case rec of None \<Rightarrow> None | Some n \<Rightarrow> ns_weight st),
          nr_machineState = machine,
          nr_displayState = displayStateOf machine cyc_outcome,
          nr_cycleOutcome = cyc_outcome,
          nr_cycleSeq = claim_cycles v nid,
          nr_disputed = ns_disputed st,
          nr_currentClaim = map_option (claim_view (r_ttlHours v)) (ns_holder st),
          nr_activeSubmission = map_option (submission_view (r_windowHours v)) (effective_submission st),
          nr_verifiedAt = (if 0 < ns_verifiedAtMs st \<and> nid \<in> set (r_finalVerified v)
                           then Some (go_div (ns_verifiedAtMs st) 1000) else None),
          nr_votes = List.map_filter rw_vote rows,
          nr_lastWrite = map_option (\<lambda>r. er_pin (rw_rec r)) lw,
          nr_lastActivity = map_option (\<lambda>r. er_ts (rw_rec r)) lw,
          nr_events = map rw_rec rows,
          nr_inTree = ns_inTree st,
          nr_aggNote = agg_note v nid st\<rparr>)"

section \<open>The rendered result\<close>

definition unmarshal_object :: "string \<Rightarrow> (string \<times> any_json) list option" where
  "unmarshal_object s =
     (case decode_json s of
        None \<Rightarrow> None
      | Some (v, rest) \<Rightarrow>
          if skip_ws rest \<noteq> [] then None
          else (case floats v of Some (AObj fs) \<Rightarrow> Some fs | Some ANull \<Rightarrow> Some [] | _ \<Rightarrow> None))"

record replay_result =
  rr_root :: string
  rr_title :: string
  rr_publisher :: string
  rr_policy :: jobj
  rr_quorum :: int
  rr_ttlHours :: int
  rr_windowHours :: int
  rr_treeID :: string
  rr_specID :: string
  rr_treeResolved :: bool
  rr_specResolved :: bool
  rr_rootVerified :: bool
  rr_boundary :: boundary
  rr_nodes :: "(string, node_replay) gomap"
  rr_nodeOrder :: "string list"
  rr_unresolved :: "event_record list"
  rr_eventCount :: nat
  rr_eventCountByPath :: "(string, nat) gomap"
  rr_mempool :: int
  rr_rejected :: int
  rr_orderFallback :: bool
  rr_taskComplete :: bool
  rr_eventSetHash :: string
  rr_boundaryBlock :: int
  rr_settlement :: "(string \<times> any_json) list option"
  rr_ignored :: "ignored_event list"
  rr_disputed :: "string list"
  rr_amendHead :: string
  rr_hAct2 :: int
  rr_rosterID :: string
  rr_rosterResolved :: bool

datatype render_error = ReplayFailed replay_error | ManifestUndecodable

definition unresolved_record :: "replay_event \<Rightarrow> event_record" where
  "unresolved_record ev =
     \<lparr>er_pin = pi_id (re_pin ev), er_path = pi_path (re_pin ev), er_version = pi_version (re_pin ev),
      er_height = pi_height (re_pin ev), er_ts = re_ts ev, er_author = pi_globalMetaID (re_pin ev),
      er_kind = ''verify'', er_summary = ''verify target='' @ payloadString (re_body ev) ''targetid'',
      er_validity = ''ignored'', er_reason = Some ''unresolvable_target'', er_tx = pi_tx (re_pin ev)\<rparr>"

definition record_less :: "event_record \<Rightarrow> event_record \<Rightarrow> bool" where
  "record_less a b =
     (if er_height a \<noteq> er_height b then er_height a < er_height b
      else if er_tx a \<noteq> er_tx b then er_tx a < er_tx b
      else if er_version a \<noteq> er_version b then er_version a < er_version b
      else string_less (er_pin a) (er_pin b))"

interpretation record_ord: total_order_on record_less er_pin
  unfolding record_less_def [abs_def]
  by (intro total_order_on_lex total_order_on_inv [OF string_order])

definition unresolved_of :: "admission \<Rightarrow> event_record list" where
  "unresolved_of ad =
     slice_stable record_less (map unresolved_record (filter (\<lambda>ev.
       payloadString (re_body ev) ''targetid'' \<notin> set (map (\<lambda>s. pi_id (re_pin s)) (admitted_at ad PathSubmission)))
       (admitted_at ad PathVerify)))"

definition replay_options :: "pools \<Rightarrow> string \<Rightarrow> boundary \<Rightarrow> v121_options" where
  "replay_options events root_pin b =
     \<lparr>op_rootPinID = root_pin, op_nowMs = wrap64 (bd_ts b * 1000), op_hAct = 0, op_hAct2 = 0,
      op_rosterPins = roster_pins events b\<rparr>"

definition render_result ::
    "string \<Rightarrow> boundary \<Rightarrow> admission \<Rightarrow> v121_result \<Rightarrow> (string \<times> any_json) list option \<Rightarrow> replay_result" where
  "render_result root_pin b ad v settlement =
     \<lparr>rr_root = root_pin, rr_title = r_title v, rr_publisher = r_publisher v, rr_policy = r_rawPolicy v,
      rr_quorum = r_quorum v, rr_ttlHours = r_ttlHours v, rr_windowHours = r_windowHours v,
      rr_treeID = r_treePinID v, rr_specID = r_specID v, rr_treeResolved = (r_treePinID v \<noteq> ''''),
      rr_specResolved = list_ex (\<lambda>ev. pi_id (re_pin ev) = r_specID v) (admitted_at ad PathSpec),
      rr_rootVerified = r_taskComplete v, rr_boundary = b,
      rr_nodes = map (\<lambda>nid. (nid, render_node v nid)) (r_nodeOrder v), rr_nodeOrder = r_nodeOrder v,
      rr_unresolved = unresolved_of ad,
      rr_eventCount = sum_list (map (\<lambda>p. length (admitted_at ad p)) EventPaths),
      rr_eventCountByPath = map (\<lambda>p. (p, length (admitted_at ad p))) EventPaths,
      rr_mempool = ad_mempool ad, rr_rejected = ad_rejected ad, rr_orderFallback = False,
      rr_taskComplete = r_taskComplete v, rr_eventSetHash = r_eventSetHash v, rr_boundaryBlock = r_boundaryBlock v,
      rr_settlement = settlement, rr_ignored = r_ignoredEvents v,
      rr_disputed = filter (\<lambda>nid. nid \<in> set (r_disputedNodes v)) (r_nodeOrder v),
      rr_amendHead = r_amendHead v, rr_hAct2 = HAct2_default,
      rr_rosterID = (case r_rosterID v of Some r \<Rightarrow> r | None \<Rightarrow> ''''), rr_rosterResolved = r_rosterResolved v\<rparr>"

definition Replay :: "pools \<Rightarrow> string \<Rightarrow> boundary \<Rightarrow> (render_error + replay_result) option" where
  "Replay events root_pin b =
     (let ad = admitEvents events b
      in case ReplayV121 (chainEventsFrom ad) (replay_options events root_pin b) of
           None \<Rightarrow> None
         | Some (Inl e) \<Rightarrow> Some (Inl (ReplayFailed e))
         | Some (Inr v) \<Rightarrow>
             (case r_settlement v of
                None \<Rightarrow> Some (Inr (render_result root_pin b ad v None))
              | Some m \<Rightarrow>
                  (case unmarshal_object (mf_canonical m) of
                     None \<Rightarrow> Some (Inl ManifestUndecodable)
                   | Some doc \<Rightarrow> Some (Inr (render_result root_pin b ad v (Some doc))))))"

end
