(* ===== verification/JsonProps.thy ===== *)
theory JsonProps
  imports EventOrder
begin

text \<open>
  Canonical JSON: which documents have it, and that it does not depend on the order of keys.
\<close>

text \<open>Canonical JSON fails on an empty number literal and on nothing else.\<close>

fun number_ok :: "json \<Rightarrow> bool" where
  "number_ok (JNum s) \<longleftrightarrow> s \<noteq> ''''"
| "number_ok (JArr vs) \<longleftrightarrow> list_all number_ok vs"
| "number_ok (JObj fs) \<longleftrightarrow> list_all (\<lambda>f. number_ok (snd f)) fs"
| "number_ok _ \<longleftrightarrow> True"

lemma those_some_iff: "(\<exists>ys. those xs = Some ys) \<longleftrightarrow> None \<notin> set xs"
  by (induction xs) (auto split: option.splits)

lemma canonJ_some_iff: "(\<exists>t. canonJ v = Some t) \<longleftrightarrow> number_ok v"
proof (induction v rule: canonJ.induct)
  case (6 vs)
  have "(\<exists>t. canonJ (JArr vs) = Some t) \<longleftrightarrow> (\<exists>ts. those (map canonJ vs) = Some ts)"
    by (auto split: option.splits)
  also have "\<dots> \<longleftrightarrow> (\<forall>v \<in> set vs. \<exists>t. canonJ v = Some t)"
    unfolding those_some_iff by (auto simp: image_iff) (metis option.exhaust)
  finally show ?case using 6 by (simp add: list_all_iff)
next
  case (7 fs)
  let ?f = "\<lambda>f. map_option (\<lambda>t. pyJSONString (fst f) @ CHR '':'' # t) (canonJ (snd f))"
  have "(\<exists>t. canonJ (JObj fs) = Some t) \<longleftrightarrow> (\<exists>ts. those (map ?f (slice_stable key_less fs)) = Some ts)"
    by (auto split: option.splits)
  also have "\<dots> \<longleftrightarrow> (\<forall>f \<in> set fs. \<exists>t. canonJ (snd f) = Some t)"
    unfolding those_some_iff by (auto simp: image_iff)
  finally show ?case using 7 by (simp add: list_all_iff)
qed auto

section \<open>Key order\<close>

text \<open>
  Two documents are the same up to the order of object keys when their arrays agree element by
  element and their objects have the same keys with the same values.
\<close>

inductive same_doc :: "json \<Rightarrow> json \<Rightarrow> bool" where
  same: "same_doc v v"
| arrays: "list_all2 same_doc vs ws \<Longrightarrow> same_doc (JArr vs) (JArr ws)"
| objects: "list_all2 (\<lambda>f g. fst f = fst g \<and> same_doc (snd f) (snd g)) fs gs \<Longrightarrow> mset gs = mset hs
    \<Longrightarrow> distinct (map fst fs) \<Longrightarrow> same_doc (JObj fs) (JObj hs)"

lemma list_all2_insert:
  assumes "list_all2 (\<lambda>f g. fst f = fst g \<and> P (snd f) (snd g)) fs gs" "fst x = fst y" "P (snd x) (snd y)"
  shows "list_all2 (\<lambda>f g. fst f = fst g \<and> P (snd f) (snd g)) (slice_insert key_less x fs) (slice_insert key_less y gs)"
  using assms by (induction rule: list_all2_induct) (auto simp: key_less_def)

lemma list_all2_sorted:
  "list_all2 (\<lambda>f g. fst f = fst g \<and> P (snd f) (snd g)) fs gs
   \<Longrightarrow> list_all2 (\<lambda>f g. fst f = fst g \<and> P (snd f) (snd g)) (slice_stable key_less fs) (slice_stable key_less gs)"
  by (induction rule: list_all2_induct) (auto intro!: list_all2_insert)

lemma map_eq_list_all2: "list_all2 (\<lambda>x y. f x = g y) xs ys \<Longrightarrow> map f xs = map g ys"
  by (induction rule: list_all2_induct) auto

lemma canonJ_same_doc: "same_doc v w \<Longrightarrow> canonJ v = canonJ w"
proof (induction rule: same_doc.induct)
  case (arrays vs ws)
  then have "map canonJ vs = map canonJ ws"
    by (intro map_eq_list_all2) (auto elim!: list_all2_mono)
  then show ?case by simp
next
  case (objects fs gs hs)
  let ?f = "\<lambda>f. map_option (\<lambda>t. pyJSONString (fst f) @ CHR '':'' # t) (canonJ (snd f))"
  have "list_all2 (\<lambda>f g. fst f = fst g \<and> canonJ (snd f) = canonJ (snd g)) fs gs"
    using objects(1) by (rule list_all2_mono) blast
  then have fg: "map ?f (slice_stable key_less fs) = map ?f (slice_stable key_less gs)"
    by (intro map_eq_list_all2 list_all2_mono [OF list_all2_sorted]) auto
  have "map fst fs = map fst gs" using objects(1) by (intro map_eq_list_all2) (auto elim!: list_all2_mono)
  then have "inj_on fst (set gs)" using objects(3) by (simp add: distinct_map)
  then have "slice_stable key_less gs = slice_stable key_less hs"
    by (rule key_ord.slice_stable_perm [OF objects(2)])
  with fg show ?case by simp
qed simp

text \<open>
  Canonical bytes do not depend on key order. Two documents that differ in the order of object
  keys only, at any depth, have the same canonical form, and a document has one exactly when none
  of its number literals is empty.
\<close>

theorem canonJ_key_order:
  assumes "same_doc v w"
  shows "canonJ v = canonJ w \<and> ((\<exists>t. canonJ v = Some t) \<longleftrightarrow> number_ok v)"
  using canonJ_same_doc [OF assms] canonJ_some_iff by blast

text \<open>
  The hashes of a result. The inner hash does not see the value of the field \<open>hash\<close>, and both
  hashes are the same for every order of the keys.
\<close>

theorem inner_hash_ignores_hash:
  "V121InnerHash (mput ''hash'' h result) = V121InnerHash result
   \<and> (distinct (map fst result) \<longrightarrow> mset result = mset result' \<longrightarrow>
        V121InnerHash result = V121InnerHash result' \<and> V121OuterHash result = V121OuterHash result')"
proof -
  have "filter (\<lambda>f. fst f \<noteq> ''hash'') (mput ''hash'' h result) = filter (\<lambda>f. fst f \<noteq> ''hash'') result"
    by (induction result) auto
  moreover have "canonJ (JObj (filter P fs)) = canonJ (JObj (filter P gs))"
    if "distinct (map fst fs)" "mset fs = mset gs" for P :: "string \<times> json \<Rightarrow> bool" and fs gs
    using that by (intro canonJ_same_doc same_doc.objects [of _ "filter P fs"])
      (auto simp: list.rel_refl same_doc.same filter_mset_eq distinct_map_filter)
  note p = this
  ultimately show ?thesis
    using p [of result result' "\<lambda>f. fst f \<noteq> ''hash''"] p [of result result' "\<lambda>_. True"]
    by (simp add: V121InnerHash_def V121OuterHash_def)
qed

theorem canonJ_key_order_witness:
  "canonJ (JObj [(''b'', JNum ''1''), (''a'', JArr [])]) = canonJ (JObj [(''a'', JArr []), (''b'', JNum ''1'')])"
proof -
  have "same_doc (JObj [(''b'', JNum ''1''), (''a'', JArr [])]) (JObj [(''a'', JArr []), (''b'', JNum ''1'')])"
    by (rule same_doc.objects [of _ "[(''b'', JNum ''1''), (''a'', JArr [])]"]) (auto intro: same_doc.same)
  then show ?thesis using canonJ_key_order by blast
qed

theorem inner_hash_ignores_hash_witness:
  "V121InnerHash [(''hash'', JStr ''x''), (''a'', JNull)] = V121InnerHash [(''a'', JNull), (''hash'', JStr ''x'')]"
  using inner_hash_ignores_hash [of JNull "[(''hash'', JStr ''x''), (''a'', JNull)]" "[(''a'', JNull), (''hash'', JStr ''x'')]"]
  by simp

end
