(* ===== verification/SettleProps.thy ===== *)
theory SettleProps
  imports Settlement JsonProps
begin

text \<open>
  The bounds of a settlement: a manifest always has canonical bytes, every reviewer of a paid
  submission has a positive accuracy, one node pays at most its weight and, up to one basis point
  per reviewer, all of it, and the weights of the nodes never sum to more than 10000.
\<close>

section \<open>Documents of the engine\<close>

lemma self_check_passes: "self_check (slice_stable share_less (map share_of parts)) = None"
  by (auto simp: self_check_def find_None_iff share_of_def)

lemma manifest_some:
  "\<exists>m. make_manifest taskID boundary hash weights parts cycles = Inr m"
proof -
  have "number_ok (weights_table weights)"
    by (auto simp: weights_table_def list_all_iff)
  then obtain wt where wt: "canonJ (weights_table weights) = Some wt" using canonJ_some_iff by blast
  have "number_ok (manifest_json taskID boundary hash shares unpaid h)" for shares unpaid h
    by (auto simp: manifest_json_def list_all_iff share_row_def unpaid_row_def)
  then have "\<exists>t. canonJ (manifest_json taskID boundary hash shares unpaid h) = Some t" for shares unpaid h
    using canonJ_some_iff by blast
  with wt show ?thesis
    by (force simp: make_manifest_def Let_def self_check_passes split: option.splits)
qed

lemma eventSetHash_some: "\<exists>h. eventSetHash scoped = Some h"
proof -
  have "number_ok (JArr (map hash_entry scoped))" by (auto simp: hash_entry_def list_all_iff)
  then obtain t where "canonJ (JArr (map hash_entry scoped)) = Some t" using canonJ_some_iff by blast
  then show ?thesis by (simp add: eventSetHash_def del: canonJ.simps)
qed

section \<open>Participants and accuracies\<close>

lemma accuracy_of_bounds: "ReviewerAccuracyFloorBP \<le> accuracy_of p" "accuracy_of p \<le> 10000"
  by (auto simp: accuracy_of_def Let_def ReviewerAccuracyFloorBP_def)

lemma accuracy_nonneg: "0 \<le> accuracy ps a"
  using accuracy_of_bounds [of "the (mget ps a)"]
  by (auto simp: accuracy_def ReviewerAccuracyFloorBP_def split: option.splits)

lemma accuracy_pos: "mhas ps a \<Longrightarrow> 0 < accuracy ps a"
  using accuracy_of_bounds(1) [of "the (mget ps a)"]
  by (auto simp: accuracy_def mhas_def ReviewerAccuracyFloorBP_def)

lemma mhas_bump [simp]: "mhas (bump a f ps) b \<longleftrightarrow> b = a \<or> mhas ps b"
  by (simp add: bump_def mhas_def)

lemma count_reviews_keys:
  "mhas (foldl (count_review r c s) ps vs) b \<longleftrightarrow> mhas ps b \<or> b \<in> ev_author ` set vs"
  by (induction vs arbitrary: ps) (auto simp: count_review_def)

lemma cycle_reviews_mono: "mhas ps b \<Longrightarrow> mhas (count_cycle_reviews r votes ps c) b"
  by (auto simp: count_cycle_reviews_def count_reviews_keys split: option.splits)

lemma cycles_reviews_mono: "mhas ps b \<Longrightarrow> mhas (foldl (count_cycle_reviews r votes) ps cs) b"
  by (induction cs arbitrary: ps) (auto intro: cycle_reviews_mono)

lemma reviewers_counted:
  assumes "c \<in> set cs" "cy_outcome c = Verified" "cy_effective c = Some s" "v \<in> set (votes (su_pin s))"
  shows "mhas (foldl (count_cycle_reviews r votes) ps cs) (ev_author v)"
proof -
  obtain as bs where cs: "cs = as @ c # bs" using assms(1) by (auto dest: split_list)
  have "mhas (count_cycle_reviews r votes q c) (ev_author v)" for q
    using assms(2-4) by (auto simp: count_cycle_reviews_def count_reviews_keys)
  then show ?thesis unfolding cs by (auto intro: cycles_reviews_mono)
qed

section \<open>What one node pays\<close>

definition paid :: "shares \<Rightarrow> int" where
  "paid m = sum_list (map (\<lambda>kv. sp_submittedBP (snd kv) + sp_reviewedBP (snd kv)) m)"

definition shares_ok :: "shares \<Rightarrow> bool" where
  "shares_ok m \<longleftrightarrow> distinct (mkeys m) \<and> (\<forall>kv \<in> set m. 0 \<le> sp_submittedBP (snd kv) \<and> 0 \<le> sp_reviewedBP (snd kv))"

lemma sum_mput:
  fixes g :: "'v \<Rightarrow> int"
  shows "sum_list (map (\<lambda>kv. g (snd kv)) (mput k v m))
     = sum_list (map (\<lambda>kv. g (snd kv)) m) - (case mget m k of None \<Rightarrow> 0 | Some x \<Rightarrow> g x) + g v"
  by (induction m) (auto split: option.splits)

lemma set_mput_subset: "set (mput k v m) \<subseteq> insert (k, v) (set m)"
  by (induction m) auto

lemma mget_value: "mget m k = Some v \<Longrightarrow> \<exists>kv \<in> set m. snd kv = v"
  by (metis map_of_SomeD snd_conv)

lemma paid_ensure:
  "paid (ensure a (add_submitted n) m) = paid m + n" "paid (ensure a (add_reviewed n) m) = paid m + n"
  unfolding paid_def ensure_def
  by (subst sum_mput, auto simp: add_submitted_def add_reviewed_def split: option.splits)+

lemma shares_ok_ensure:
  assumes "shares_ok m" "0 \<le> n"
  shows "shares_ok (ensure a (add_submitted n) m)" "shares_ok (ensure a (add_reviewed n) m)"
proof -
  let ?p = "case mget m a of Some p \<Rightarrow> p | None \<Rightarrow> \<lparr>sp_submittedBP = 0, sp_reviewedBP = 0\<rparr>"
  have p: "0 \<le> sp_submittedBP ?p" "0 \<le> sp_reviewedBP ?p"
    using assms(1) by (auto simp: shares_ok_def dest!: mget_value split: option.splits)
  show "shares_ok (ensure a (add_submitted n) m)"
    using assms p set_mput_subset [of a "add_submitted n ?p" m] unfolding shares_ok_def ensure_def
    by (auto simp: add_submitted_def distinct_mkeys_mput)
  show "shares_ok (ensure a (add_reviewed n) m)"
    using assms p set_mput_subset [of a "add_reviewed n ?p" m] unfolding shares_ok_def ensure_def
    by (auto simp: add_reviewed_def distinct_mkeys_mput)
qed

lemma floor_share: "0 < (S::int) \<Longrightarrow> S * (x div S) \<le> x \<and> x < S * (x div S) + S"
  by (smt (verit) mult_div_mod_eq pos_mod_bound pos_mod_sign)

lemma floor_shares:
  fixes S p :: int
  assumes "0 < S"
  shows "S * sum_list (map (\<lambda>x. (p * f x) div S) xs) \<le> p * sum_list (map f xs)"
    and "p * sum_list (map f xs) \<le> S * sum_list (map (\<lambda>x. (p * f x) div S) xs) + S * int (length xs)"
proof (induction xs)
  case (Cons x xs)
  { case 1 show ?case using Cons.IH(1) floor_share [OF assms, of "p * f x"] by (simp add: algebra_simps) }
  { case 2 show ?case using Cons.IH(2) floor_share [OF assms, of "p * f x"] by (simp add: algebra_simps) }
qed simp_all

lemma paid_reviewers:
  "paid (foldl (\<lambda>m v. ensure (g v) (add_reviewed (h v)) m) m vs) = paid m + sum_list (map h vs)"
  by (induction vs arbitrary: m) (simp_all add: paid_ensure)

lemma shares_ok_reviewers:
  "shares_ok m \<Longrightarrow> \<forall>v \<in> set vs. 0 \<le> h v \<Longrightarrow> shares_ok (foldl (\<lambda>m v. ensure (g v) (add_reviewed (h v)) m) m vs)"
  by (induction vs arbitrary: m) (simp_all add: shares_ok_ensure)

lemma settle_node_paid:
  assumes "settle_node rootAuthor sigma acc w s votes m = Some m'"
    and "0 \<le> w" "0 \<le> sigma" "sigma \<le> 10000" "\<And>a. 0 \<le> acc a"
  shows "paid m' \<le> paid m + w" and "paid m + w - int (length (cycle_votes rootAuthor s votes)) \<le> paid m'"
    and "shares_ok m \<Longrightarrow> shares_ok m'"
proof -
  define vs where "vs = cycle_votes rootAuthor s votes"
  define sub where "sub = go_div (w * sigma) TreeWeightTotal"
  define S where "S = sum_list (map (\<lambda>v. acc (ev_author v)) vs)"
  let ?m1 = "ensure (su_author s) (add_submitted sub) m"
  have "sub = (w * sigma) div 10000" using assms(2,3) by (simp add: sub_def TreeWeightTotal_def)
  moreover have "w * sigma \<le> w * 10000" "0 \<le> w * sigma" using assms(2-4) by (auto intro: mult_left_mono)
  ultimately have sub: "0 \<le> sub" "sub \<le> w" by auto
  have "paid m' \<le> paid m + w \<and> paid m + w - int (length vs) \<le> paid m' \<and> (shares_ok m \<longrightarrow> shares_ok m')"
  proof (cases "vs = []")
    case True
    then have "m' = ensure (su_author s) (add_submitted (w - sub)) ?m1"
      using assms(1) by (simp add: settle_node_def Let_def vs_def sub_def)
    with True sub show ?thesis by (simp add: paid_ensure shares_ok_ensure)
  next
    case False
    let ?h = "\<lambda>v. go_div ((w - sub) * acc (ev_author v)) S"
    from False assms(1) have S: "S \<noteq> 0" and m': "m' = foldl (\<lambda>m v. ensure (ev_author v) (add_reviewed (?h v)) m) ?m1 vs"
      by (auto simp: settle_node_def Let_def vs_def [symmetric] sub_def [symmetric] S_def [symmetric] split: if_splits)
    have "0 \<le> S" unfolding S_def by (rule sum_list_nonneg) (use assms(5) in auto)
    with S have S0: "0 < S" by simp
    have h: "?h v = ((w - sub) * acc (ev_author v)) div S" for v
      using S0 sub assms(5) [of "ev_author v"] by (intro go_div_nonneg) auto
    note fl = floor_shares [OF S0, of "w - sub" "\<lambda>v. acc (ev_author v)" vs, folded S_def]
    have h': "map ?h vs = map (\<lambda>v. ((w - sub) * acc (ev_author v)) div S) vs"
      by (rule map_cong [OF refl h])
    have "S * sum_list (map ?h vs) \<le> S * (w - sub)" unfolding h' using fl(1) by (simp only: mult.commute)
    then have le: "sum_list (map ?h vs) \<le> w - sub" using S0 by simp
    have "S * (w - sub) \<le> S * (sum_list (map ?h vs) + int (length vs))"
      unfolding h' using fl(2) by (simp only: distrib_left mult.commute [of S "w - sub"])
    then have ge: "w - sub \<le> sum_list (map ?h vs) + int (length vs)" using S0 by simp
    have "\<forall>v \<in> set vs. 0 \<le> ?h v" using h S0 sub assms(5) by (simp add: pos_imp_zdiv_nonneg_iff)
    with le ge sub show ?thesis
      unfolding m' by (simp add: paid_reviewers paid_ensure shares_ok_reviewers shares_ok_ensure)
  qed
  then show "paid m' \<le> paid m + w" "paid m + w - int (length (cycle_votes rootAuthor s votes)) \<le> paid m'"
    "shares_ok m \<Longrightarrow> shares_ok m'" unfolding vs_def by auto
qed

section \<open>What a settlement pays\<close>

lemma sigma_of_bounds: "SubmitterShareBPMin \<le> sigma_of split" "sigma_of split \<le> SubmitterShareBPMax"
  by (auto simp: sigma_of_def Let_def SubmitterShareBPMin_def SubmitterShareBPMax_def)

lemma settle_nodes_paid:
  assumes "\<And>n m m'. n \<in> set ns \<Longrightarrow> f n m = Some m' \<Longrightarrow> paid m' \<le> paid m + pay n \<and> (shares_ok m \<longrightarrow> shares_ok m')"
    and "settle_nodes f ns m = Some m'"
  shows "paid m' \<le> paid m + sum_list (map pay ns) \<and> (shares_ok m \<longrightarrow> shares_ok m')"
  using assms
proof (induction ns arbitrary: m)
  case (Cons n ns)
  then obtain m1 where m1: "f n m = Some m1" "settle_nodes f ns m1 = Some m'"
    by (auto split: option.splits)
  have "paid m' \<le> paid m1 + sum_list (map pay ns) \<and> (shares_ok m1 \<longrightarrow> shares_ok m')"
    by (rule Cons.IH [OF _ m1(2)]) (use Cons.prems(1) in auto)
  with Cons.prems(1) [OF _ m1(1)] show ?case by auto
qed simp

lemma settle_step_paid:
  assumes "settle_step rootAuthor sigma acc weights active finalPins votes n m = Some m'"
    and "0 \<le> sigma" "sigma \<le> 10000" "\<And>a. 0 \<le> acc a"
  shows "paid m' \<le> paid m + max 0 (count_of weights n) \<and> (shares_ok m \<longrightarrow> shares_ok m')"
  using assms(1) settle_node_paid [OF _ _ assms(2-4)]
  by (fastforce simp: settle_step_def Let_def split: option.splits if_splits)

text \<open>A table of weights never gives more than the sum of its entries to a list of different nodes.\<close>

lemma sum_count_of:
  assumes "distinct ns" "\<forall>kv \<in> set m. 0 \<le> snd kv"
  shows "sum_list (map (count_of m) ns) \<le> sum_list (map snd m)"
proof -
  have cons: "count_of ((k, v) # m) n = (if n = k then v else count_of m n)" for k v and m :: "(string, int) gomap" and n
    by (simp add: count_of_def)
  have "sum_list (map (count_of ((k, v) # m)) ns) \<le> v + sum_list (map (count_of m) ns)"
    if "0 \<le> v" "distinct ns" "\<forall>kv \<in> set m. 0 \<le> snd kv" for k v and m :: "(string, int) gomap" and ns
    using that(2)
  proof (induction ns)
    case (Cons n ns)
    have c: "0 \<le> count_of m n" using that(3) by (auto simp: count_of_def dest!: mget_value split: option.splits)
    show ?case
    proof (cases "n = k")
      case True
      then have "map (count_of ((k, v) # m)) ns = map (count_of m) ns"
        using Cons.prems by (intro map_cong) (auto simp: cons)
      then have "sum_list (map (count_of ((k, v) # m)) (n # ns)) = v + sum_list (map (count_of m) ns)"
        using True by (simp only: list.map sum_list.Cons) (simp add: cons)
      with c show ?thesis by simp
    next
      case False
      with Cons show ?thesis by (auto simp: cons)
    qed
  qed (use that in simp)
  note step = this
  show ?thesis using assms(2)
  proof (induction m)
    case Nil
    show ?case by (simp add: count_of_def)
  next
    case (Cons kv m)
    obtain k v where [simp]: "kv = (k, v)" by (cases kv)
    have "0 \<le> v" "\<forall>kv \<in> set m. 0 \<le> snd kv" using Cons.prems by auto
    with step [OF this(1) assms(1) this(2), of k] Cons.IH show ?case by simp
  qed
qed

lemma sum_weights_acc: "tree_weights t = Some m \<Longrightarrow> sum_weights a t = a + sum_weights 0 t"
proof (induction t arbitrary: a m)
  case (Cons kn t)
  obtain k n where [simp]: "kn = (k, n)" by (cases kn)
  from Cons.prems obtain w m0 where w: "treeNodeWeight n = Some w" and m0: "tree_weights t = Some m0"
    by (auto split: option.splits)
  with Cons.IH [OF m0, of "a + w"] Cons.IH [OF m0, of w] show ?case by simp
qed simp

lemma tree_weights_sum:
  assumes "tree_weights t = Some m"
  shows "(\<forall>kv \<in> set m. 0 \<le> snd kv) \<and> sum_list (map snd m) \<le> sum_weights 0 t"
proof -
  show ?thesis using assms
  proof (induction t arbitrary: m)
    case (Cons kn t)
    obtain k n where [simp]: "kn = (k, n)" by (cases kn)
    from Cons.prems obtain w m0 where w: "treeNodeWeight n = Some w" and m0: "tree_weights t = Some m0"
      and m: "m = mput (tn_id n) w m0" by (auto split: option.splits)
    have "1 \<le> w"
      using w by (auto simp: treeNodeWeight_def weight_value_def f64_to_int64_def int64_range_def
          min_int64_def max_int64_def trunc64_def split: option.splits if_splits)
    note IH = Cons.IH [OF m0]
    have old: "0 \<le> (case mget m0 (tn_id n) of None \<Rightarrow> 0 | Some x \<Rightarrow> x)"
      using IH by (auto dest!: mget_value split: option.splits)
    have "sum_list (map snd m) \<le> sum_list (map snd m0) + w"
      using sum_mput [of "\<lambda>x. x" "tn_id n" w m0] old unfolding m by simp
    moreover have "\<forall>kv \<in> set m. 0 \<le> snd kv"
      using IH \<open>1 \<le> w\<close> set_mput_subset [of "tn_id n" w m0] unfolding m by fastforce
    ultimately show ?case using IH w sum_weights_acc [OF m0, of w] by simp
  qed simp
qed

lemma zmult_div_cancel_le: "0 < (n::int) \<Longrightarrow> n * (x div n) \<le> x"
  using floor_share [of n x] by simp

lemma settlement_weights_sum:
  assumes "distinct nodeOrder"
  shows "sum_list (map (\<lambda>n. max 0 (count_of (settlement_weights t nodeOrder) n)) nodeOrder) \<le> 10000"
proof -
  let ?m = "settlement_weights t nodeOrder"
  let ?u = "if 0 < length nodeOrder then TreeWeightTotal div int (length nodeOrder) else 0"
  let ?fb = "map (\<lambda>n. (n, ?u)) nodeOrder"
  have fb: "(\<forall>kv \<in> set ?fb. 0 \<le> snd kv) \<and> sum_list (map snd ?fb) \<le> 10000"
    by (auto simp: TreeWeightTotal_def comp_def sum_list_triv pos_imp_zdiv_nonneg_iff
        intro!: zmult_div_cancel_le)
  have tw: "(\<forall>kv \<in> set m. 0 \<le> snd kv) \<and> sum_list (map snd m) \<le> 10000"
    if "tree_weights t = Some m" "v121SumWeights t = TreeWeightTotal" for m
    using tree_weights_sum [OF that(1)] that(2) by (simp add: v121SumWeights_def TreeWeightTotal_def)
  have m: "\<forall>kv \<in> set ?m. 0 \<le> snd kv" "sum_list (map snd ?m) \<le> 10000"
    using fb tw unfolding settlement_weights_def Let_def by (auto split: option.splits if_splits)
  have "0 \<le> count_of ?m n" for n
    using m(1) by (auto simp: count_of_def dest!: mget_value split: option.splits)
  then have "map (\<lambda>n. max 0 (count_of ?m n)) nodeOrder = map (count_of ?m) nodeOrder" by simp
  then have "sum_list (map (\<lambda>n. max 0 (count_of ?m n)) nodeOrder) = sum_list (map (count_of ?m) nodeOrder)"
    by (simp only:)
  with sum_count_of [OF assms m(1)] m(2) show ?thesis by linarith
qed

text \<open>
  What one node pays. A settled node never pays out more than its weight, and less than it by
  at most one basis point (the rounding) per counted reviewer; with no reviewer it pays exactly its
  weight.
\<close>

theorem settle_node_conserves:
  assumes "settle_node rootAuthor sigma acc w s votes m = Some m'"
    and "0 \<le> w" "0 \<le> sigma" "sigma \<le> 10000" "\<And>a. 0 \<le> acc a"
  shows "paid m + w - int (length (cycle_votes rootAuthor s votes)) \<le> paid m' \<and> paid m' \<le> paid m + w"
  using settle_node_paid [OF assms] by blast

definition demo_sub :: cycle_submission where
  "demo_sub = \<lparr>su_pin = ''s1'', su_author = ''alice'', su_atMs = 0, su_height = 191602, su_supersedeID = '''', su_body = []\<rparr>"

definition demo_reviews :: "chain_event list" where
  "demo_reviews = map (\<lambda>a. \<lparr>ev_pin = ''v'' @ a, ev_path = ''verify'', ev_author = a, ev_height = 191603, ev_tx = 0,
     ev_ts = 0, ev_body = [(''verdict'', JStr ''pass'')]\<rparr>) [''bob'', ''carol'', ''pub'']"

text \<open>Of 100 basis points 20 go to two reviewers 1:2; rounding loses one. The publisher's vote earns nothing.\<close>

theorem settle_node_conserves_witness:
  "(case settle_node ''pub'' 8000 (\<lambda>a. if a = ''bob'' then 2500 else 5000) 100 demo_sub demo_reviews [] of
      None \<Rightarrow> False
    | Some m \<Rightarrow> paid m = 99 \<and> 98 \<le> paid m \<and> paid m \<le> 100)"
proof -
  let ?acc = "\<lambda>a. if a = ''bob'' then 2500 else 5000 :: int"
  have e: "settle_node ''pub'' 8000 ?acc 100 demo_sub demo_reviews []
      = Some [(''alice'', \<lparr>sp_submittedBP = 80, sp_reviewedBP = 0\<rparr>), (''bob'', \<lparr>sp_submittedBP = 0, sp_reviewedBP = 6\<rparr>),
          (''carol'', \<lparr>sp_submittedBP = 0, sp_reviewedBP = 13\<rparr>)]"
    by code_simp
  have "length (cycle_votes ''pub'' demo_sub demo_reviews) = 2" by code_simp
  with settle_node_conserves [OF e] show ?thesis
    unfolding e by (simp add: paid_def)
qed

end
