(* ===== verification/FinalProps.thy ===== *)
theory FinalProps
  imports Settlement
begin

text \<open>
  Final verification: the memoised recursion needs no more depth than there are nodes, whatever
  the shape of the tree, and computes the least predicate that its documentation describes.
\<close>

section \<open>Depth\<close>

text \<open>
  Every nested call marks a node of a fixed finite set before it descends, so a depth above the
  number of unmarked ids is enough, whatever the shape of the tree.
\<close>

definition open_ids :: "string set \<Rightarrow> (string, bool) gomap \<Rightarrow> nat" where
  "open_ids U cache = card (U - set (mkeys cache))"

lemma open_ids_mono: "finite U \<Longrightarrow> set (mkeys c) \<subseteq> set (mkeys c') \<Longrightarrow> open_ids U c' \<le> open_ids U c"
  unfolding open_ids_def by (intro card_mono) auto

lemma open_ids_mark:
  assumes "finite U" "n \<in> U" "mget c n = None"
  shows "open_ids U (mput n v c) < open_ids U c"
proof -
  have "n \<notin> set (mkeys c)" using assms(3) by (simp add: gm.keys_iff)
  then have "U - set (mkeys (mput n v c)) = (U - set (mkeys c)) - {n}" "n \<in> U - set (mkeys c)"
    using assms(2) by (auto simp: gm.keys_insert)
  then show ?thesis
    unfolding open_ids_def using assms(1) card_Diff1_less [of "U - set (mkeys c)" n] by simp
qed

lemma final_depth:
  assumes fin: "finite U"
  shows "\<forall>n. set (fe_children env n) \<subseteq> U \<Longrightarrow> n \<in> U \<Longrightarrow> open_ids U c + 1 \<le> k \<Longrightarrow>
      \<exists>c' v. finalVerified k env c n = Some (c', v) \<and> set (mkeys c) \<subseteq> set (mkeys c')"
    and "\<forall>n. set (fe_children env n) \<subseteq> U \<Longrightarrow> set ns \<subseteq> U \<Longrightarrow> open_ids U c + 1 \<le> k \<Longrightarrow>
      \<exists>c' v ps. finalChildren k env c ns = Some (c', v, ps) \<and> set (mkeys c) \<subseteq> set (mkeys c')"
proof (induction k env c n and k env c ns rule: finalVerified_finalChildren.induct)
  case (2 k env c n)
  show ?case
  proof (cases "mget c n")
    case (Some v)
    then show ?thesis by simp
  next
    case None
    let ?c1 = "mput n False c"
    have m: "open_ids U ?c1 + 1 \<le> k"
      using open_ids_mark [OF fin 2(3) None, of False] 2(4) by simp
    have sub: "set (mkeys c) \<subseteq> set (mkeys (mput n x c))" for x by (auto simp: gm.keys_insert)
    show ?thesis
    proof (cases "vote_verified env n \<and> needs_children env n")
      case False
      then show ?thesis using None sub by (auto simp: Let_def gm.keys_insert)
    next
      case True
      then have vn: "\<not> \<not> vote_verified env n" "\<not> \<not> needs_children env n" by simp_all
      obtain c2 v ps
        where c2: "finalChildren k env ?c1 (fe_children env n) = Some (c2, v, ps)" "set (mkeys ?c1) \<subseteq> set (mkeys c2)"
        using 2(1) [OF None refl vn 2(2)] 2(2) m by blast
      then have "set (mkeys c) \<subseteq> set (mkeys (mput n x c2))" for x
        using sub [of False] by (auto simp: gm.keys_insert)
      with c2(1) None True show ?thesis by (simp add: Let_def)
    qed
  qed
next
  case (4 k env c n ns)
  from 4(1) [OF 4(3)] 4(4,5) obtain c1 v
    where v: "finalVerified k env c n = Some (c1, v)" "set (mkeys c) \<subseteq> set (mkeys c1)"
    by auto
  then have "open_ids U c1 + 1 \<le> k" using open_ids_mono [OF fin v(2)] 4(5) by linarith
  with 4(2) [OF v(1) refl 4(3)] 4(4) obtain c2 allv ps
    where "finalChildren k env c1 ns = Some (c2, allv, ps)" "set (mkeys c1) \<subseteq> set (mkeys c2)"
    by auto
  with v show ?case by auto
qed auto

lemma final_nodes_depth:
  assumes "finite U" and "\<forall>n. set (fe_children env n) \<subseteq> U" and "card U + 2 \<le> k"
  shows "\<exists>r. final_nodes k env c ns = Some r"
proof (induction ns arbitrary: c)
  case (Cons n ns)
  have "open_ids (insert n U) c \<le> card (insert n U)"
    unfolding open_ids_def by (rule card_mono) (use assms(1) in auto)
  also have "\<dots> \<le> card U + 1" using assms(1) by (simp add: card_insert_if)
  finally obtain c1 v where "finalVerified k env c n = Some (c1, v)"
    using final_depth(1) [of "insert n U" env n c k] assms by fastforce
  with Cons show ?case by auto
qed simp

section \<open>Final verification, declaratively\<close>

text \<open>
  A node is finally verified when its own cycle is verified and, if it needs its children, all of
  them are finally verified and its submission lists exactly their effective submissions. The
  least such predicate: nodes on a parent cycle that need each other are not in it.
\<close>

inductive final_ok :: "final_env \<Rightarrow> string \<Rightarrow> bool" for env where
  leaf: "vote_verified env n \<Longrightarrow> \<not> needs_children env n \<Longrightarrow> final_ok env n"
| inner: "vote_verified env n \<Longrightarrow> needs_children env n
    \<Longrightarrow> (\<And>c. c \<in> set (fe_children env n) \<Longrightarrow> final_ok env c)
    \<Longrightarrow> same_children (listed_children env n) (concat (map (child_pin env) (fe_children env n)))
    \<Longrightarrow> final_ok env n"

inductive_cases final_okE: "final_ok env n"

lemma final_ok_iff:
  "final_ok env n \<longleftrightarrow> vote_verified env n \<and> (needs_children env n \<longrightarrow>
     (\<forall>c \<in> set (fe_children env n). final_ok env c)
     \<and> same_children (listed_children env n) (concat (map (child_pin env) (fe_children env n))))"
  by (auto elim: final_okE intro: final_ok.intros)

definition needs_rel :: "final_env \<Rightarrow> (string \<times> string) set" where
  "needs_rel env = {(n, c). needs_children env n \<and> c \<in> set (fe_children env n)}"

lemma final_ok_no_cycle: "final_ok env n \<Longrightarrow> (n, n) \<notin> (needs_rel env)\<^sup>+"
proof (induction rule: final_ok.induct)
  case (inner n)
  show ?case
  proof
    assume "(n, n) \<in> (needs_rel env)\<^sup>+"
    then obtain c where c: "(n, c) \<in> needs_rel env" "(c, n) \<in> (needs_rel env)\<^sup>*" by (blast dest: tranclD)
    then have "(c, c) \<in> (needs_rel env)\<^sup>+" by (rule rtrancl_into_trancl1 [rotated])
    moreover have "c \<in> set (fe_children env n)" using c(1) by (simp add: needs_rel_def)
    ultimately show False using inner.IH by blast
  qed
qed (auto simp: needs_rel_def dest: tranclD)

definition memo_ok :: "final_env \<Rightarrow> string set \<Rightarrow> (string, bool) gomap \<Rightarrow> bool" where
  "memo_ok env A c \<longleftrightarrow> (\<forall>a \<in> A. mget c a = Some False)
     \<and> (\<forall>m v. m \<notin> A \<longrightarrow> mget c m = Some v \<longrightarrow> v = final_ok env m)"

definition unfinished_ok :: "final_env \<Rightarrow> string set \<Rightarrow> string \<Rightarrow> bool" where
  "unfinished_ok env A n \<longleftrightarrow> (\<forall>a \<in> A. (n, a) \<in> (needs_rel env)\<^sup>* \<longrightarrow> \<not> final_ok env a)"

lemma memo_ok_finish:
  "memo_ok env (insert n A) c \<Longrightarrow> n \<notin> A \<Longrightarrow> v = final_ok env n \<Longrightarrow> memo_ok env A (mput n v c)"
  by (auto simp: memo_ok_def)

lemma memo_ok_start: "memo_ok env A c \<Longrightarrow> memo_ok env (insert n A) (mput n False c)"
  by (auto simp: memo_ok_def)

lemma unfinished_ok_child:
  assumes "unfinished_ok env A n" "needs_children env n" "c \<in> set (fe_children env n)"
  shows "unfinished_ok env (insert n A) c"
proof -
  have nc: "(n, c) \<in> needs_rel env" using assms(2,3) by (simp add: needs_rel_def)
  have "\<not> final_ok env n" if "(c, n) \<in> (needs_rel env)\<^sup>*"
    using final_ok_no_cycle [of env n] nc that by (meson rtrancl_into_trancl2)
  with assms(1) nc show ?thesis
    by (auto simp: unfinished_ok_def intro: converse_rtrancl_into_rtrancl)
qed

lemma finalVerified_correct:
  "finalVerified k env c n = Some (c', v) \<Longrightarrow> memo_ok env A c \<Longrightarrow> unfinished_ok env A n
     \<Longrightarrow> memo_ok env A c' \<and> v = final_ok env n"
  "finalChildren k env c ns = Some (c', allv, ps) \<Longrightarrow> memo_ok env A c \<Longrightarrow> \<forall>n \<in> set ns. unfinished_ok env A n
     \<Longrightarrow> memo_ok env A c' \<and> allv = list_all (final_ok env) ns
        \<and> ps = concat (map (child_pin env) (filter (final_ok env) ns))"
proof (induction k env c n and k env c ns arbitrary: A c' v and A c' allv ps rule: finalVerified_finalChildren.induct)
  case (2 k env c n)
  show ?case
  proof (cases "mget c n")
    case (Some u)
    then have "c' = c" "v = u" using 2(2) by auto
    with Some 2(3,4) show ?thesis
      by (cases "n \<in> A") (auto simp: memo_ok_def unfinished_ok_def)
  next
    case None
    then have n: "n \<notin> A" using 2(3) by (auto simp: memo_ok_def)
    let ?c1 = "mput n False c"
    note start = memo_ok_start [OF 2(3), of n]
    note finish = memo_ok_finish [OF _ n]
    consider "\<not> vote_verified env n" "c' = mput n False ?c1" "\<not> v"
      | "vote_verified env n" "\<not> needs_children env n" "c' = mput n True ?c1" "v"
      | c2 allv ps where "vote_verified env n" "needs_children env n"
          "finalChildren k env ?c1 (fe_children env n) = Some (c2, allv, ps)" "c' = mput n v c2"
          "v = (allv \<and> same_children (listed_children env n) ps)"
      using 2(2) None by (auto simp: Let_def split: if_splits option.splits)
    then show ?thesis
    proof cases
      case 1
      then have "\<not> final_ok env n" using final_ok_iff by blast
      with 1 finish [OF start] show ?thesis by simp
    next
      case 2
      then have "final_ok env n" using final_ok_iff by blast
      with 2 finish [OF start] show ?thesis by simp
    next
      case 3
      have vn: "\<not> \<not> vote_verified env n" "\<not> \<not> needs_children env n" using 3 by auto
      have ch: "\<forall>m \<in> set (fe_children env n). unfinished_ok env (insert n A) m"
        using unfinished_ok_child [OF 2(4) 3(2)] by blast
      from 2(1) [OF None refl vn 3(3) start ch]
      have r: "memo_ok env (insert n A) c2" "allv = list_all (final_ok env) (fe_children env n)"
        "ps = concat (map (child_pin env) (filter (final_ok env) (fe_children env n)))" by auto
      have "filter (final_ok env) (fe_children env n) = fe_children env n" if allv
        using that r(2) by (simp add: list_all_iff filter_id_conv)
      then have "v = final_ok env n"
        unfolding 3(5) final_ok_iff [of env n] using 3(1,2) r(2,3) by (auto simp: list_all_iff)
      with 3(4) finish [OF r(1)] show ?thesis by simp
    qed
  qed
next
  case (4 k env c n ns)
  from 4(3) obtain c1 v b qs where c1: "finalVerified k env c n = Some (c1, v)"
    and c2: "finalChildren k env c1 ns = Some (c', b, qs)"
    and eq: "allv = (v \<and> b)" "ps = (if v then child_pin env n @ qs else qs)"
    by (auto split: option.splits prod.splits)
  from 4(1) [OF c1 4(4)] 4(5) have h: "memo_ok env A c1" "v = final_ok env n" by auto
  from 4(2) [OF c1 refl c2 h(1)] 4(5) h eq show ?case by auto
qed auto

lemma final_nodes_filter:
  "final_nodes k env c ns = Some r \<Longrightarrow> memo_ok env {} c \<Longrightarrow> r = filter (final_ok env) ns"
proof (induction ns arbitrary: c r)
  case (Cons n ns)
  then obtain c1 v r1 where v: "finalVerified k env c n = Some (c1, v)" and r: "final_nodes k env c1 ns = Some r1"
    and eq: "r = (if v then n # r1 else r1)"
    by (auto split: option.splits prod.splits)
  from finalVerified_correct(1) [OF v Cons.prems(2)] have "memo_ok env {} c1" "v = final_ok env n"
    by (auto simp: unfinished_ok_def)
  with Cons.IH [OF r] eq show ?case by simp
qed simp

text \<open>
  C3: final verification is the least predicate of its rules. Whatever the shape of the tree (it may
  have parent cycles), with a depth of two more than there are children the memoised recursion
  finishes for every list of nodes and keeps exactly the finally verified ones.
\<close>

theorem final_nodes_correct:
  assumes "finite U" and "\<forall>n. set (fe_children env n) \<subseteq> U" and "card U + 2 \<le> k"
  shows "final_nodes k env [] nodes = Some (filter (final_ok env) nodes)"
proof -
  from final_nodes_depth [OF assms] obtain r where "final_nodes k env [] nodes = Some r" by blast
  with final_nodes_filter [OF this] show ?thesis by (simp add: memo_ok_def)
qed

section \<open>Two trees\<close>

definition demo_final_env :: final_env where
  "demo_final_env = \<lparr>fe_active = (\<lambda>n. Some \<lparr>cy_node = n, cy_claimID = ''c'', cy_claimant = ''a'', cy_submissions = [],
       cy_effective = Some \<lparr>su_pin = ''s'' @ n, su_author = ''a'', su_atMs = 0, su_height = 191600, su_supersedeID = '''',
         su_body = []\<rparr>, cy_superseded = [], cy_outcome = Verified, cy_quorumAtMs = 0\<rparr>),
     fe_children = (\<lambda>n. if n = ''p'' then [''q''] else if n = ''x'' then [''y''] else if n = ''y'' then [''x''] else []),
     fe_subBody = [(''sp'', [(''childids'', JArr [JStr ''sq''])]), (''sx'', [(''childids'', JArr [JStr ''sy''])]),
       (''sy'', [(''childids'', JArr [JStr ''sx''])])], fe_hAct2 = 191500\<rparr>"

text \<open>\<open>p\<close> lists its child's submission and is verified; \<open>x\<close> and \<open>y\<close> need each other and are not.\<close>

theorem final_nodes_correct_witness:
  "filter (final_ok demo_final_env) [''p'', ''q'', ''x'', ''y''] = [''p'', ''q'']"
proof -
  have U: "\<forall>n. set (fe_children demo_final_env n) \<subseteq> {''q'', ''x'', ''y''}" by (auto simp: demo_final_env_def)
  have "final_nodes 5 demo_final_env [] [''p'', ''q'', ''x'', ''y''] = Some [''p'', ''q'']" by code_simp
  with final_nodes_correct [OF _ U, of 5 "[''p'', ''q'', ''x'', ''y'']"] show ?thesis by simp
qed

end
