(* ===== verification/AmendProps.thy ===== *)
theory AmendProps
  imports AmendFold "HOL-Library.Sublist"
begin

text \<open>
  What the amend fold guarantees: acyclicity of committed trees in the usual sense, the version
  chain and the fold invariants, the point-in-time freeze of claimed nodes, protection of
  verified and claimed parents, and when the fold is sure to come to an end.
\<close>

section \<open>Acyclicity\<close>

definition parent_rel :: "tree \<Rightarrow> (string \<times> string) set" where
  "parent_rel nodes = {(c, p). c \<noteq> '''' \<and> (\<exists>n. mget nodes c = Some n \<and> p = parent_cursor n)}"

lemma climb_reach:
  "climb nodes seen cur \<Longrightarrow> (cur, y) \<in> (parent_rel nodes)\<^sup>* \<Longrightarrow> cur \<noteq> '''' \<Longrightarrow>
   y = '''' \<or> y \<notin> set seen"
proof (induction nodes seen cur rule: climb.induct)
  case (1 nodes seen cur)
  then have cur: "cur \<notin> set seen" by (auto simp: climb.simps [of nodes seen cur])
  show ?case
  proof (cases "y = cur")
    case False
    then obtain p where p: "(cur, p) \<in> parent_rel nodes" "(p, y) \<in> (parent_rel nodes)\<^sup>*"
      using "1.prems"(2) by (auto elim: converse_rtranclE)
    then obtain n where n: "mget nodes cur = Some n" "p = parent_cursor n"
      by (auto simp: parent_rel_def)
    have rec: "climb nodes (cur # seen) p"
      using "1.prems"(1,3) cur n by (simp add: climb.simps [of nodes seen cur])
    show ?thesis
    proof (cases "p = ''''")
      case True
      then have "y = ''''" using p(2) by (auto simp: parent_rel_def elim: converse_rtranclE)
      then show ?thesis by simp
    next
      case False
      then show ?thesis using "1.IH" [OF "1.prems"(3) cur n(1)] rec p(2) n(2) by auto
    qed
  qed (use cur in simp)
qed

lemma climb_cycle:
  "\<not> climb nodes seen cur \<Longrightarrow>
   \<exists>y. (cur, y) \<in> (parent_rel nodes)\<^sup>* \<and> (y \<in> set seen \<or> (y, y) \<in> (parent_rel nodes)\<^sup>+)"
proof (induction nodes seen cur rule: climb.induct)
  case (1 nodes seen cur)
  show ?case
  proof (cases "cur \<in> set seen")
    case False
    from "1.prems" False obtain n where n: "cur \<noteq> ''''" "mget nodes cur = Some n"
      and rec: "\<not> climb nodes (cur # seen) (parent_cursor n)"
      by (auto simp: climb.simps [of nodes seen cur] split: if_splits option.splits)
    have e: "(cur, parent_cursor n) \<in> parent_rel nodes" using n by (auto simp: parent_rel_def)
    from "1.IH" [OF n(1) False n(2) rec] obtain y
      where y: "(parent_cursor n, y) \<in> (parent_rel nodes)\<^sup>*"
        "y \<in> set (cur # seen) \<or> (y, y) \<in> (parent_rel nodes)\<^sup>+" by blast
    show ?thesis
    proof (cases "y = cur")
      case True
      then have "(cur, cur) \<in> (parent_rel nodes)\<^sup>+" using e y(1) by (meson rtrancl_into_trancl2)
      then show ?thesis by blast
    next
      case False
      then show ?thesis using e y by (meson converse_rtrancl_into_rtrancl set_ConsD)
    qed
  qed blast
qed

lemma v121IsAcyclic_iff: "v121IsAcyclic nodes \<longleftrightarrow> acyclic (parent_rel nodes)"
proof
  assume ok: "v121IsAcyclic nodes"
  show "acyclic (parent_rel nodes)"
  proof (rule acyclicI, intro allI notI)
    fix x assume "(x, x) \<in> (parent_rel nodes)\<^sup>+"
    then obtain p where e: "(x, p) \<in> parent_rel nodes" "(p, x) \<in> (parent_rel nodes)\<^sup>*"
      by (meson tranclD)
    then obtain n where n: "x \<noteq> ''''" "mget nodes x = Some n" "p = parent_cursor n"
      by (auto simp: parent_rel_def)
    have "climb nodes [] x"
      using ok mget_some_key [OF n(2)] by (auto simp: v121IsAcyclic_def list_all_iff)
    then have "climb nodes [x] p" using n by (simp add: climb.simps [of nodes "[]"])
    moreover have "p \<noteq> ''''"
      using e(2) n(1) by (auto simp: parent_rel_def elim: converse_rtranclE)
    ultimately show False using climb_reach [of nodes "[x]" p x] e(2) n(1) by simp
  qed
next
  assume "acyclic (parent_rel nodes)"
  then show "v121IsAcyclic nodes"
    using climb_cycle [of nodes "[]"] by (auto simp: v121IsAcyclic_def list_all_iff acyclic_def)
qed

section \<open>The work list of remove\_node\<close>

lemma children_in_iff:
  "distinct (mkeys nodes) \<Longrightarrow>
   c \<in> set (children_in nodes p) \<longleftrightarrow> (\<exists>n. mget nodes c = Some n \<and> tn_parent n = Some p)"
  by (force simp: children_in_def mkeys_def)

text \<open>The nodes below a node, itself included.\<close>

definition below :: "tree \<Rightarrow> string \<Rightarrow> string set" where
  "below nodes x = {y. (y, x) \<in> {(c, p). c \<in> set (children_in nodes p)}\<^sup>*}"

lemma below_refl [simp]: "x \<in> below nodes x"
  by (simp add: below_def)

lemma below_unfold: "below nodes x = insert x (\<Union>c \<in> set (children_in nodes x). below nodes c)"
proof -
  have "y = x \<or> (\<exists>c \<in> set (children_in nodes x). y \<in> below nodes c)" if "y \<in> below nodes x" for y
    using that by (auto simp: below_def elim: rtranclE)
  moreover have "y \<in> below nodes x" if "c \<in> set (children_in nodes x)" "y \<in> below nodes c" for c y
    using that unfolding below_def by (auto intro: rtrancl_into_rtrancl)
  ultimately show ?thesis by auto
qed

definition tree_wf :: "tree \<Rightarrow> bool" where
  "tree_wf nodes \<longleftrightarrow> distinct (mkeys nodes) \<and> '''' \<notin> set (mkeys nodes)"

definition child_rel :: "tree \<Rightarrow> (string \<times> string) set" where
  "child_rel nodes = {(c, p). c \<in> set (children_in nodes p)}"

lemma child_rel_parent: "tree_wf nodes \<Longrightarrow> child_rel nodes \<subseteq> parent_rel nodes"
  by (auto simp: child_rel_def parent_rel_def children_in_iff tree_wf_def parent_cursor_def
      dest: mget_some_key)

lemma finite_child_rel: "finite (child_rel nodes)"
proof -
  have "child_rel nodes \<subseteq> (\<lambda>(k, n). (k, parent_cursor n)) ` set nodes"
    by (force simp: child_rel_def children_in_def parent_cursor_def)
  then show ?thesis by (rule finite_subset) simp
qed

lemma wf_child_rel: "tree_wf nodes \<Longrightarrow> v121IsAcyclic nodes \<Longrightarrow> wf (child_rel nodes)"
  using finite_child_rel child_rel_parent
  by (intro finite_acyclic_wf) (auto simp: v121IsAcyclic_iff intro: acyclic_subset)

lemma remove_scan_list:
  assumes "\<And>x rest. x \<in> set xs \<Longrightarrow> remove_scan fz t (x # rest)
      = (if \<exists>y \<in> below t x. fz y then Some False else remove_scan fz t rest)"
  shows "remove_scan fz t (xs @ rest)
      = (if \<exists>x \<in> set xs. \<exists>y \<in> below t x. fz y then Some False else remove_scan fz t rest)"
  using assms by (induction xs) auto

lemma remove_scan_step:
  assumes "wf (child_rel t)"
  shows "remove_scan fz t (x # rest)
      = (if \<exists>y \<in> below t x. fz y then Some False else remove_scan fz t rest)"
  using assms
proof (induction x arbitrary: rest)
  case (less x)
  have "remove_scan fz t (rev (children_in t x) @ rest)
      = (if \<exists>c \<in> set (rev (children_in t x)). \<exists>y \<in> below t c. fz y
         then Some False else remove_scan fz t rest)"
    using less by (intro remove_scan_list) (simp add: child_rel_def)
  then show ?case
    by (subst remove_scan.simps) (auto simp: below_unfold [of t x])
qed

text \<open>
  On an acyclic tree the work list of \<open>remove_node\<close> runs out, and it succeeds when no node of
  the subtree is frozen.
\<close>

lemma remove_scan_acyclic:
  assumes "tree_wf t" "v121IsAcyclic t"
  shows "remove_scan fz t [x] = Some (\<not> (\<exists>y \<in> below t x. fz y))"
  using remove_scan_step [OF wf_child_rel [OF assms], of fz x "[]"]
  by (simp add: remove_scan.simps [of fz t "[]"])

text \<open>On a cycle of nodes that are not frozen it does not.\<close>

lemma remove_scan_cycle:
  assumes cyc: "\<And>x. x \<in> S \<Longrightarrow> \<exists>c \<in> S. c \<in> set (children_in t x)"
    and free: "\<And>x. \<not> fz x" and st: "set st \<inter> S \<noteq> {}"
  shows "remove_scan fz t st = None"
proof (rule ccontr)
  assume "remove_scan fz t st \<noteq> None"
  then obtain r where "remove_scan fz t st = Some r" by auto
  then have "(\<forall>x \<in> S. \<exists>c \<in> S. c \<in> set (children_in t x)) \<longrightarrow> (\<forall>x. \<not> fz x) \<longrightarrow> set st \<inter> S = {}"
  proof (induction fz t st r rule: remove_scan.raw_induct [rotated, consumes 1])
    case (1 scan fz t st r)
    show ?case
    proof (cases st)
      case (Cons cur rest)
      show ?thesis
      proof (intro impI)
        assume c: "\<forall>x \<in> S. \<exists>c \<in> S. c \<in> set (children_in t x)" and f: "\<forall>x. \<not> fz x"
        then have "scan fz t (rev (children_in t cur) @ rest) = Some r"
          using 1(2) Cons by simp
        from 1(1) [OF this] c f have d: "(set (children_in t cur) \<union> set rest) \<inter> S = {}" by simp
        then have "cur \<notin> S" using c by blast
        with d Cons show "set st \<inter> S = {}" by auto
      qed
    qed simp
  qed
  with assms show False by auto
qed


section \<open>One amend\<close>

lemma apply_ops_inv:
  assumes "\<And>op sc sc'. I sc \<Longrightarrow> apply_op env nodes key op sc = Commit sc' \<Longrightarrow> I sc'"
  shows "apply_ops env nodes key ops sc = Commit sc' \<Longrightarrow> I sc \<Longrightarrow> I sc'"
  by (induction ops arbitrary: sc) (auto intro: assms split: outcome.splits)

text \<open>The five operations, when they succeed.\<close>

lemma apply_op_Commit:
  assumes "apply_op env nodes key rawOp (t, ord) = Commit (t', ord')"
  obtains
    (add) raw where "t' = mput (strAny (jget raw ''id'')) (added_node raw) t"
      and "ord' = ord @ [strAny (jget raw ''id'')]" and "strAny (jget raw ''id'') \<noteq> ''''"
      and "\<not> mhas nodes (strAny (jget raw ''id''))" and "\<not> mhas t (strAny (jget raw ''id''))"
      and "strAny (jget raw ''parent'') \<notin> set (ae_verified env)"
      and "strAny (jget raw ''parent'') \<notin> set (ae_active env)"
  | (remove) target n where "t' = mdel target t" and "ord' = remove1 target ord"
      and "mget t target = Some n" and "tn_parent n \<noteq> None"
      and "\<not> frozenAt (ae_firstClaimOrder env) key target"
  | (edit) target n f where "t' = mput target (f n) t" and "ord' = ord"
      and "mget t target = Some n" and "\<not> frozenAt (ae_firstClaimOrder env) key target"
      and "\<And>m. tn_parent (f m) = tn_parent m" and "\<And>m. tn_id (f m) = tn_id m"
proof -
  from assms obtain op where op: "as_obj rawOp = Some op"
    by (auto simp: apply_op_def split: option.splits)
  let ?kind = "strAny (jget op ''op'')"
  consider "?kind = ''add_node''" | "?kind = ''remove_node''"
    | v f where "op_edit env key v f (strAny (jget op ''node'')) (t, ord) = Commit (t', ord')"
      "\<And>m. tn_parent (f m) = tn_parent m" "\<And>m. tn_id (f m) = tn_id m"
    using assms op by (fastforce simp: apply_op_def Let_def split: if_splits)
  then show thesis
  proof cases
    case 1
    with assms op have "op_add_node env nodes op (t, ord) = Commit (t', ord')"
      by (simp add: apply_op_def Let_def)
    then show thesis
      by (auto simp: op_add_node_def Let_def split: option.splits if_splits intro!: add)
  next
    case 2
    with assms op have c: "op_remove_node env key (strAny (jget op ''node'')) (t, ord) = Commit (t', ord')"
      by (simp add: apply_op_def Let_def)
    let ?x = "strAny (jget op ''node'')"
    have "\<not> frozenAt (ae_firstClaimOrder env) key ?x"
    proof
      assume "frozenAt (ae_firstClaimOrder env) key ?x"
      then have "remove_scan (frozenAt (ae_firstClaimOrder env) key) t [?x] = Some False"
        by (simp add: remove_scan.simps)
      with c show False by (auto simp: op_remove_node_def split: option.splits if_splits)
    qed
    with c show thesis
      by (auto simp: op_remove_node_def split: option.splits if_splits bool.splits intro!: remove)
  next
    case (3 v f)
    then obtain n where n: "mget t (strAny (jget op ''node'')) = Some n"
      and "\<not> frozenAt (ae_firstClaimOrder env) key (strAny (jget op ''node''))"
      "t' = mput (strAny (jget op ''node'')) (f n) t" "ord' = ord"
      by (auto simp: op_edit_def split: option.splits if_splits)
    with 3 show thesis by (intro edit [of "strAny (jget op ''node'')" f n])
  qed
qed

lemma tree_wf_mput: "tree_wf t \<Longrightarrow> k \<noteq> '''' \<Longrightarrow> tree_wf (mput k v t)"
  unfolding tree_wf_def by (simp add: distinct_mkeys_mput gm.keys_insert)

lemma tree_wf_mdel: "tree_wf t \<Longrightarrow> tree_wf (mdel k t)"
  unfolding tree_wf_def by (simp add: distinct_mkeys_mdel gm.keys_remove)

lemma tree_wf_key: "tree_wf t \<Longrightarrow> mget t k = Some n \<Longrightarrow> k \<noteq> ''''"
  unfolding tree_wf_def by (blast dest: mget_some_key)

lemma apply_op_wf:
  assumes "apply_op env nodes key op (t, ord) = Commit (t', ord')" "tree_wf t"
  shows "tree_wf t'"
  using assms(1)
proof (cases rule: apply_op_Commit)
  case (add raw)
  then show ?thesis using tree_wf_mput assms(2) by blast
next
  case (remove target n)
  then show ?thesis using tree_wf_mdel assms(2) by blast
next
  case (edit target n f)
  then show ?thesis using tree_wf_mput assms(2) tree_wf_key [OF assms(2)] by blast
qed

lemma apply_op_frozen:
  assumes "apply_op env nodes key op (t, ord) = Commit (t', ord')"
    and "frozenAt (ae_firstClaimOrder env) key x" "mhas nodes x" "mget t x = Some n"
  shows "mget t' x = Some n"
  using assms(1) by (cases rule: apply_op_Commit) (use assms(2-4) in auto)

lemma apply_op_children:
  assumes "apply_op env nodes key op (t, ord) = Commit (t', ord')"
    and "p \<in> set (ae_verified env) \<union> set (ae_active env)"
    and "mget t' c = Some n'" "tn_parent n' = Some p"
  shows "\<exists>n. mget t c = Some n \<and> tn_parent n = Some p"
  using assms(1)
proof (cases rule: apply_op_Commit)
  case (add raw)
  then show ?thesis using assms(2-4) by (auto simp: added_node_def split: if_splits)
next
  case (remove target n)
  then show ?thesis using assms(2-4) by (auto split: if_splits)
next
  case (edit target n f)
  then show ?thesis using assms(2-4) by (auto split: if_splits)
qed

section \<open>The whole fold\<close>

lemma amend_steps_inv:
  assumes "\<And>st e st'. e \<in> set es \<Longrightarrow> I st \<Longrightarrow> amend_step env st e = Some st' \<Longrightarrow> I st'"
  shows "amend_steps env st es = Some st' \<Longrightarrow> I st \<Longrightarrow> I st'"
  using assms
proof (induction es arbitrary: st)
  case (Cons e es)
  from Cons.prems(1) obtain st1 where st1: "amend_step env st e = Some st1"
    and rest: "amend_steps env st1 es = Some st'"
    by (auto split: option.splits)
  have "I st1" using Cons.prems(3) [OF _ Cons.prems(2) st1] by simp
  then show ?case using Cons.prems(3) by (intro Cons.IH [OF rest]) auto
qed simp

lemma amend_step_cases:
  assumes "amend_step env st e = Some st'"
  obtains
    (ignored) reason where "fs_nodes st' = fs_nodes st" and "fs_order st' = fs_order st"
      and "fs_head st' = fs_head st" and "fs_ignored st' = fs_ignored st @ [ignore e reason]"
  | (committed) "apply_ops env (fs_nodes st) (ordKeyOf e) (amend_ops e) (fs_nodes st, fs_order st)
        = Commit (fs_nodes st', fs_order st')"
      and "fs_head st' = ev_pin e" and "fs_ignored st' = fs_ignored st"
      and "v121SumWeights (fs_nodes st') = TreeWeightTotal" and "v121IsAcyclic (fs_nodes st')"
      and "evs e ''bases'' = fs_head st" and "ae_hAct2 env \<le> ev_height e"
      and "ev_author e = ae_rootAuthor env" and "\<not> ae_rootVerified env"
  using assms
  by (auto simp: amend_step_def Let_def fold_ignore_def not_less split: if_splits outcome.splits prod.splits)


text \<open>The committed amends: each one's \<open>bases\<close> is the head before it, the first one's the tree pin.\<close>

fun amend_chain :: "string \<Rightarrow> chain_event list \<Rightarrow> string \<Rightarrow> bool" where
  "amend_chain h [] h' \<longleftrightarrow> h' = h"
| "amend_chain h (e # es) h' \<longleftrightarrow> evs e ''bases'' = h \<and> amend_chain (ev_pin e) es h'"

definition amend_allowed :: "amend_env \<Rightarrow> chain_event \<Rightarrow> bool" where
  "amend_allowed env e \<longleftrightarrow>
     ae_hAct2 env \<le> ev_height e \<and> ev_author e = ae_rootAuthor env \<and> \<not> ae_rootVerified env"

lemma amend_steps_chain:
  assumes "amend_steps env st es = Some st'"
  shows "\<exists>cs. subseq cs es \<and> list_all (amend_allowed env) cs \<and> amend_chain (fs_head st) cs (fs_head st')
     \<and> mset (map ev_pin es) + mset (map ig_pin (fs_ignored st))
         = mset (map ig_pin (fs_ignored st')) + mset (map ev_pin cs)
     \<and> (if cs = [] then fs_nodes st' = fs_nodes st \<and> fs_order st' = fs_order st
         else v121SumWeights (fs_nodes st') = TreeWeightTotal \<and> v121IsAcyclic (fs_nodes st'))"
  using assms
proof (induction es arbitrary: st)
  case Nil
  then show ?case by (intro exI [of _ "[]"]) simp
next
  case (Cons e es)
  from Cons.prems obtain st1 where st1: "amend_step env st e = Some st1"
    and rest: "amend_steps env st1 es = Some st'"
    by (auto split: option.splits)
  from Cons.IH [OF rest] obtain cs where cs: "subseq cs es" "list_all (amend_allowed env) cs"
    "amend_chain (fs_head st1) cs (fs_head st')"
    "mset (map ev_pin es) + mset (map ig_pin (fs_ignored st1))
       = mset (map ig_pin (fs_ignored st')) + mset (map ev_pin cs)"
    "if cs = [] then fs_nodes st' = fs_nodes st1 \<and> fs_order st' = fs_order st1
     else v121SumWeights (fs_nodes st') = TreeWeightTotal \<and> v121IsAcyclic (fs_nodes st')"
    by blast
  from st1 show ?case
  proof (cases rule: amend_step_cases)
    case (ignored reason)
    then show ?thesis
      using cs by (intro exI [of _ cs]) (auto simp: ignore_def)
  next
    case committed
    moreover have "amend_allowed env e" using committed by (simp add: amend_allowed_def)
    ultimately show ?thesis
      using cs by (intro exI [of _ "e # cs"]) (auto split: if_splits)
  qed
qed

text \<open>
  C10: the version chain. The amends that take effect are a subsequence of the amends, each of
  them by the publisher, at or above the gate and based on the pin of the one before it (the
  first on the tree pin), and the head is the last one's pin. Every other amend is recorded
  ignored once. The folded tree is the initial one when nothing took effect; otherwise its
  weights sum to 10000 and its parent relation has no cycle.
\<close>

theorem foldAmends_chain:
  assumes "foldAmends env initial order amends = Some st"
  shows "\<exists>cs. subseq cs amends \<and> list_all (amend_allowed env) cs
     \<and> amend_chain (ae_treePinID env) cs (fs_head st)
     \<and> mset (map ev_pin amends) = mset (map ig_pin (fs_ignored st)) + mset (map ev_pin cs)
     \<and> (if cs = [] then fs_nodes st = initial \<and> fs_order st = order
         else v121SumWeights (fs_nodes st) = 10000 \<and> acyclic (parent_rel (fs_nodes st)))"
proof -
  have i: "fs_nodes (fold_init env initial order) = initial" "fs_order (fold_init env initial order) = order"
    "fs_head (fold_init env initial order) = ae_treePinID env" "fs_ignored (fold_init env initial order) = []"
    by (simp_all add: fold_init_def)
  from amend_steps_chain [OF assms [unfolded foldAmends_def], unfolded i v121IsAcyclic_iff TreeWeightTotal_def]
  show ?thesis by simp
qed

lemma apply_ops_frozen:
  assumes "apply_ops env nodes key ops sc = Commit sc'"
    and "frozenAt (ae_firstClaimOrder env) key x" "mhas nodes x" "mget (fst sc) x = Some n"
  shows "mget (fst sc') x = Some n"
  using apply_ops_inv [where I = "\<lambda>sc. mget (fst sc) x = Some n", OF _ assms(1,4)]
    apply_op_frozen assms(2,3) by (metis prod.collapse)

text \<open>
  C2: the point-in-time freeze. A node that had an effective claim before each of the amends
  (in the unified order) comes out of the fold exactly as it went in: no amend removes it or
  changes its weight, title, spec, parent or anything else about it.
\<close>

theorem foldAmends_freeze:
  assumes "foldAmends env initial order amends = Some st"
    and "mget (ae_firstClaimOrder env) x = Some claim"
    and "\<forall>e \<in> set amends. ordLess claim (ordKeyOf e)"
    and "mget initial x = Some n"
  shows "mget (fs_nodes st) x = Some n"
proof (rule amend_steps_inv [where I = "\<lambda>st. mget (fs_nodes st) x = Some n"])
  show "amend_steps env (fold_init env initial order) amends = Some st"
    using assms(1) by (simp add: foldAmends_def)
  show "mget (fs_nodes (fold_init env initial order)) x = Some n"
    using assms(4) by (simp add: fold_init_def)
next
  fix s e s'
  assume e: "e \<in> set amends" and s: "mget (fs_nodes s) x = Some n" and step: "amend_step env s e = Some s'"
  have fz: "frozenAt (ae_firstClaimOrder env) (ordKeyOf e) x"
    using assms(2,3) e by (simp add: frozenAt_def)
  from step show "mget (fs_nodes s') x = Some n"
  proof (cases rule: amend_step_cases)
    case committed
    then show ?thesis using apply_ops_frozen [OF committed(1) fz] s by (simp add: mhas_def)
  qed (use s in simp)
qed

text \<open>
  A verified or currently claimed node gets no new children: every node that ends up below
  it was below it in the initial tree.
\<close>

theorem foldAmends_no_new_children:
  assumes "foldAmends env initial order amends = Some st"
    and p: "p \<in> set (ae_verified env) \<union> set (ae_active env)"
    and c: "mget (fs_nodes st) c = Some n'" "tn_parent n' = Some p"
  shows "\<exists>n. mget initial c = Some n \<and> tn_parent n = Some p"
proof -
  define I where "I t \<longleftrightarrow> (\<forall>c n'. mget t c = Some n' \<and> tn_parent n' = Some p
      \<longrightarrow> (\<exists>n. mget initial c = Some n \<and> tn_parent n = Some p))" for t :: tree
  have ops: "I (fst sc')" if "apply_ops env nodes key ops sc = Commit sc'" "I (fst sc)"
    for nodes key ops sc sc'
    using that
  proof (rule apply_ops_inv [where I = "\<lambda>sc. I (fst sc)", rotated])
    fix op sc sc' assume "I (fst sc)" "apply_op env nodes key op sc = Commit sc'"
    then show "I (fst sc')"
      using apply_op_children [of env nodes key op "fst sc" "snd sc" "fst sc'" "snd sc'" p] p
      unfolding I_def by (metis prod.collapse)
  qed
  have "I (fs_nodes st)"
  proof (rule amend_steps_inv [where I = "\<lambda>st. I (fs_nodes st)"])
    show "amend_steps env (fold_init env initial order) amends = Some st"
      using assms(1) by (simp add: foldAmends_def)
    show "I (fs_nodes (fold_init env initial order))" by (simp add: fold_init_def I_def)
  next
    fix s e s' assume "I (fs_nodes s)" "amend_step env s e = Some s'"
    then show "I (fs_nodes s')"
      using ops by (auto elim!: amend_step_cases)
  qed
  with c show ?thesis by (auto simp: I_def)
qed


section \<open>Termination\<close>

definition op_kind :: "json \<Rightarrow> string" where
  "op_kind rawOp = (case as_obj rawOp of None \<Rightarrow> '''' | Some op \<Rightarrow> strAny (jget op ''op''))"

text \<open>Within one amend, no removal comes after an addition.\<close>

fun remove_safe :: "json list \<Rightarrow> bool" where
  "remove_safe [] = True"
| "remove_safe (op # ops) =
     (if op_kind op = ''add_node'' then list_all (\<lambda>o'. op_kind o' \<noteq> ''remove_node'') ops
      else remove_safe ops)"

lemma apply_op_Hang:
  assumes "apply_op env nodes key op (t, ord) = Hang"
  shows "op_kind op = ''remove_node''
     \<and> (\<exists>x. remove_scan (frozenAt (ae_firstClaimOrder env) key) t [x] = None)"
  using assms
  by (auto simp: apply_op_def op_kind_def Let_def op_add_node_def op_remove_node_def op_edit_def
      split: option.splits if_splits bool.splits)

lemma parent_rel_mono:
  "(\<And>c n'. mget t' c = Some n' \<Longrightarrow> \<exists>n. mget t c = Some n \<and> tn_parent n = tn_parent n')
   \<Longrightarrow> parent_rel t' \<subseteq> parent_rel t"
  by (fastforce simp: parent_rel_def parent_cursor_def)

lemma apply_op_acyclic:
  assumes "apply_op env nodes key op (t, ord) = Commit (t', ord')"
    and "op_kind op \<noteq> ''add_node''" "v121IsAcyclic t"
  shows "v121IsAcyclic t'"
proof -
  have "parent_rel t' \<subseteq> parent_rel t"
    using assms(1)
  proof (cases rule: apply_op_Commit)
    case (add raw)
    with assms(1,2) have "mhas t' (strAny (jget raw ''id''))" "\<not> mhas t (strAny (jget raw ''id''))"
      by (simp_all add: mhas_def)
    with assms(1,2) show ?thesis
      by (auto simp: apply_op_def op_kind_def Let_def op_remove_node_def op_edit_def mhas_def
          split: option.splits if_splits bool.splits)
  next
    case (remove target n)
    then show ?thesis by (intro parent_rel_mono) (auto split: if_splits)
  next
    case (edit target n f)
    then show ?thesis by (intro parent_rel_mono) (auto split: if_splits)
  qed
  with assms(3) show ?thesis by (auto simp: v121IsAcyclic_iff intro: acyclic_subset)
qed

lemma apply_ops_no_remove:
  "list_all (\<lambda>o'. op_kind o' \<noteq> ''remove_node'') ops \<Longrightarrow> apply_ops env nodes key ops sc \<noteq> Hang"
proof (induction ops arbitrary: sc)
  case (Cons op ops)
  then show ?case
    using apply_op_Hang [of env nodes key op "fst sc" "snd sc"] by (auto split: outcome.splits)
qed simp

lemma apply_ops_total:
  "remove_safe ops \<Longrightarrow> tree_wf t \<Longrightarrow> v121IsAcyclic t \<Longrightarrow>
   apply_ops env nodes key ops (t, ord) \<noteq> Hang"
proof (induction ops arbitrary: t ord)
  case (Cons op ops)
  have no_hang: "apply_op env nodes key op (t, ord) \<noteq> Hang"
  proof
    assume "apply_op env nodes key op (t, ord) = Hang"
    then obtain x where "remove_scan (frozenAt (ae_firstClaimOrder env) key) t [x] = None"
      using apply_op_Hang by blast
    with Cons.prems remove_scan_acyclic show False by simp
  qed
  show ?case
  proof (cases "op_kind op = ''add_node''")
    case True
    with Cons.prems no_hang apply_ops_no_remove show ?thesis by (auto split: outcome.splits)
  next
    case False
    have "apply_ops env nodes key ops (t', ord') \<noteq> Hang"
      if "apply_op env nodes key op (t, ord) = Commit (t', ord')" for t' ord'
      using Cons.IH Cons.prems False apply_op_wf [OF that] apply_op_acyclic [OF that False] by simp
    with no_hang show ?thesis by (auto split: outcome.splits)
  qed
qed simp

lemma amend_step_tree_wf:
  assumes "amend_step env st e = Some st'" "tree_wf (fs_nodes st)"
  shows "tree_wf (fs_nodes st')"
  using assms(1)
proof (cases rule: amend_step_cases)
  case committed
  have "tree_wf (fst sc')" if "apply_ops env nodes key ops sc = Commit sc'" "tree_wf (fst sc)"
    for nodes key ops sc sc'
    using that
  proof (rule apply_ops_inv [where I = "\<lambda>sc. tree_wf (fst sc)", rotated])
    fix op sc sc' assume "tree_wf (fst sc)" "apply_op env nodes key op sc = Commit sc'"
    then show "tree_wf (fst sc')"
      using apply_op_wf [of env nodes key op "fst sc" "snd sc" "fst sc'" "snd sc'"] by simp
  qed
  from this [OF committed(1)] assms(2) show ?thesis by simp
qed (use assms in simp)

lemma amend_step_wf:
  assumes "amend_step env st e = Some st'" "tree_wf (fs_nodes st)" "v121IsAcyclic (fs_nodes st)"
  shows "tree_wf (fs_nodes st') \<and> v121IsAcyclic (fs_nodes st')"
  using assms(1)
proof (cases rule: amend_step_cases)
  case committed
  with amend_step_tree_wf [OF assms(1,2)] show ?thesis by simp
qed (use assms in simp)

text \<open>
  C35: the fold ends. On an initial tree without parent cycles, if no amend removes a node after
  adding one, \<open>foldAmends\<close> returns, whatever the claims and however deep the tree.
\<close>

theorem foldAmends_total:
  assumes "tree_wf initial" "v121IsAcyclic initial"
    and "\<forall>e \<in> set amends. remove_safe (amend_ops e)"
  shows "\<exists>st. foldAmends env initial order amends = Some st"
proof -
  have "\<exists>st'. amend_steps env st amends = Some st'"
    if "tree_wf (fs_nodes st)" "v121IsAcyclic (fs_nodes st)" for st
    using assms(3) that
  proof (induction amends arbitrary: st)
    case (Cons e es)
    have "amend_step env st e \<noteq> None"
      using apply_ops_total [of "amend_ops e" "fs_nodes st" env "fs_nodes st" "ordKeyOf e" "fs_order st"] Cons.prems
      by (auto simp: amend_step_def Let_def split: outcome.splits prod.splits if_splits)
    then obtain st1 where st1: "amend_step env st e = Some st1" by auto
    with Cons amend_step_wf [OF st1] show ?case by auto
  qed simp
  then show ?thesis using assms(1,2) by (simp add: foldAmends_def fold_init_def)
qed

definition cycle_ops :: "string \<Rightarrow> string \<Rightarrow> json list" where
  "cycle_ops c p =
     [JObj [(''op'', JStr ''add_node''), (''newNode'', JObj [(''id'', JStr p), (''parent'', JStr c)])],
      JObj [(''op'', JStr ''remove_node''), (''node'', JStr c)]]"

text \<open>
  It can hang. On a tree with a node \<open>c\<close> whose parent \<open>p\<close> does not exist (an initial tree may
  have one, and removing a node with children makes one), an amend that adds \<open>p\<close> below \<open>c\<close> and
  then removes \<open>c\<close> sends the work list of \<open>remove_node\<close> around the cycle for ever.
\<close>

theorem foldAmends_hangs:
  assumes "tree_wf initial" "mget initial c = Some n" "tn_parent n = Some p"
    and "\<not> mhas initial p" "p \<noteq> ''''"
    and "amend_allowed env amend" "evs amend ''bases'' = ae_treePinID env"
    and "amend_ops amend = cycle_ops c p"
    and "c \<notin> set (ae_verified env) \<union> set (ae_active env)" "ae_firstClaimOrder env = []"
  shows "foldAmends env initial order [amend] = None"
proof -
  define raw where "raw = [(''id'', JStr p), (''parent'', JStr c)]"
  define t where "t = mput p (added_node raw) initial"
  have ids: "strAny (jget raw ''id'') = p" "strAny (jget raw ''parent'') = c"
    by (simp_all add: raw_def jget_def strAny_def)
  have cp: "c \<noteq> p" using assms(2,4) by (auto simp: mhas_def)
  have add: "apply_op env initial key (JObj [(''op'', JStr ''add_node''), (''newNode'', JObj raw)]) (initial, order)
      = Commit (t, order @ [p])" for key
    using assms(2,4,5,9) ids
    by (simp add: apply_op_def as_obj_def jget_def [of "[_, _]"] strAny_def [of "JStr _"] op_add_node_def add_raw_def
        Let_def mhas_def t_def del: raw_def)
  have "remove_scan (frozenAt [] key) t [c] = None" for key
  proof (rule remove_scan_cycle [where S = "{c, p}"])
    have wf: "tree_wf t" unfolding t_def by (intro tree_wf_mput assms)
    have "p \<in> set (children_in t c)" "c \<in> set (children_in t p)"
      using wf assms(2,3) cp ids
      by (auto simp: tree_wf_def children_in_iff t_def added_node_def)
    then show "\<exists>d \<in> {c, p}. d \<in> set (children_in t x)" if "x \<in> {c, p}" for x
      using that by auto
  qed (simp_all add: frozenAt_def)
  moreover have "mget t c = Some n" using cp assms(2) by (simp add: t_def)
  ultimately have "apply_op env initial key (JObj [(''op'', JStr ''remove_node''), (''node'', JStr c)]) (t, ord) = Hang"
    for key ord
    using assms(3,10) by (simp add: apply_op_def as_obj_def jget_def strAny_def op_remove_node_def)
  with add have "apply_ops env initial key (cycle_ops c p) (initial, order) = Hang" for key
    by (simp add: cycle_ops_def flip: raw_def)
  then show ?thesis
    using assms(6-8)
    by (simp add: foldAmends_def amend_step_def Let_def fold_init_def amend_allowed_def not_less)
qed


section \<open>A concrete tree\<close>

definition demo_node :: "string \<Rightarrow> string option \<Rightarrow> string \<Rightarrow> string \<times> tree_node" where
  "demo_node k p w = (k, \<lparr>tn_id = k, tn_parent = p, tn_title = ''t'', tn_kind = ''proof'', tn_specid = None,
     tn_params = [], tn_deps = [], tn_weight = JNum w\<rparr>)"

definition demo_tree :: tree where
  "demo_tree = [demo_node ''r'' None ''6000'', demo_node ''a'' (Some ''r'') ''2500'',
                demo_node ''b'' (Some ''r'') ''1500'']"

definition demo_claim :: ord_key where
  "demo_claim = \<lparr>k_h = 191600, k_tx = 1, k_ts = 5, k_pin = ''c1''\<rparr>"

definition demo_env :: amend_env where
  "demo_env = \<lparr>ae_rootAuthor = ''pub'', ae_treePinID = ''tree'', ae_firstClaimOrder = [(''b'', demo_claim)],
     ae_verified = [], ae_active = [''b''], ae_rootVerified = False, ae_hAct2 = 191500\<rparr>"

definition demo_amend :: "string \<Rightarrow> string \<Rightarrow> json list \<Rightarrow> chain_event" where
  "demo_amend pin bases ops = \<lparr>ev_pin = pin, ev_path = ''amend'', ev_author = ''pub'', ev_height = 191700,
     ev_tx = 0, ev_ts = 9, ev_body = [(''taskid'', JStr ''task''), (''bases'', JStr bases), (''ops'', JArr ops)]\<rparr>"

definition demo_op :: "string \<Rightarrow> string \<Rightarrow> string \<Rightarrow> json \<Rightarrow> json" where
  "demo_op kind node field v = JObj [(''op'', JStr kind), (''node'', JStr node), (field, v)]"

definition demo_amends :: "chain_event list" where
  "demo_amends =
     [demo_amend ''m1'' ''tree'' [demo_op ''remove_node'' ''a'' ''x'' JNull, demo_op ''reweight'' ''r'' ''weight'' (JNum ''8500'')],
      demo_amend ''m2'' ''tree'' [demo_op ''retitle'' ''r'' ''title'' (JStr ''x'')],
      demo_amend ''m3'' ''m1'' [demo_op ''retitle'' ''b'' ''title'' (JStr ''x'')]]"

lemma demo_tree_ok: "tree_wf demo_tree" "v121IsAcyclic demo_tree"
  by (simp_all add: tree_wf_def demo_tree_def demo_node_def mkeys_def) code_simp

lemma demo_safe: "\<forall>e \<in> set demo_amends. remove_safe (amend_ops e)"
proof -
  have "list_all (\<lambda>e. remove_safe (amend_ops e)) demo_amends" by code_simp
  then show ?thesis by (simp add: list_all_iff)
qed

theorem foldAmends_total_witness:
  "\<exists>st. foldAmends demo_env demo_tree [''r'', ''a'', ''b''] demo_amends = Some st"
  by (rule foldAmends_total [OF demo_tree_ok demo_safe])

lemma demo_fold:
  "map_option fs_head (foldAmends demo_env demo_tree [''r'', ''a'', ''b''] demo_amends) = Some ''m1''"
  by code_simp

theorem foldAmends_chain_witness:
  "\<exists>st cs. foldAmends demo_env demo_tree [''r'', ''a'', ''b''] demo_amends = Some st
     \<and> amend_chain ''tree'' cs ''m1'' \<and> subseq cs demo_amends \<and> acyclic (parent_rel (fs_nodes st))"
proof -
  obtain st where st: "foldAmends demo_env demo_tree [''r'', ''a'', ''b''] demo_amends = Some st"
    and head: "fs_head st = ''m1''"
    using demo_fold by auto
  obtain cs where cs: "subseq cs demo_amends" "amend_chain ''tree'' cs ''m1''"
    "if cs = [] then fs_nodes st = demo_tree \<and> fs_order st = [''r'', ''a'', ''b'']
     else v121SumWeights (fs_nodes st) = 10000 \<and> acyclic (parent_rel (fs_nodes st))"
    using foldAmends_chain [OF st] head by (auto simp: demo_env_def)
  have "acyclic (parent_rel (fs_nodes st))"
    using cs(3) demo_tree_ok(2) by (auto simp: v121IsAcyclic_iff split: if_splits)
  with st cs show ?thesis by blast
qed

theorem foldAmends_freeze_witness:
  "map_option (\<lambda>st. mget (fs_nodes st) ''b'') (foldAmends demo_env demo_tree [''r'', ''a'', ''b''] demo_amends)
     = Some (Some (snd (demo_node ''b'' (Some ''r'') ''1500'')))"
proof -
  obtain st where st: "foldAmends demo_env demo_tree [''r'', ''a'', ''b''] demo_amends = Some st"
    using demo_fold by auto
  have "mget (ae_firstClaimOrder demo_env) ''b'' = Some demo_claim" by (simp add: demo_env_def)
  moreover have "\<forall>e \<in> set demo_amends. ordLess demo_claim (ordKeyOf e)"
    by (simp add: demo_amends_def demo_amend_def demo_claim_def ordLess_def ordKeyOf_def)
  moreover have "mget demo_tree ''b'' = Some (snd (demo_node ''b'' (Some ''r'') ''1500''))"
    by (simp add: demo_tree_def demo_node_def)
  ultimately show ?thesis using foldAmends_freeze [OF st] st by simp
qed

lemma demo_fold_active:
  "map_option (\<lambda>st. map_option tn_parent (mget (fs_nodes st) ''b''))
     (foldAmends (demo_env\<lparr>ae_active := [''r'']\<rparr>) demo_tree [''r'', ''a'', ''b''] demo_amends)
   = Some (Some (Some ''r''))"
  by code_simp

theorem foldAmends_no_new_children_witness:
  "\<exists>n. mget demo_tree ''b'' = Some n \<and> tn_parent n = Some ''r''"
proof -
  obtain st n' where st: "foldAmends (demo_env\<lparr>ae_active := [''r'']\<rparr>) demo_tree [''r'', ''a'', ''b''] demo_amends = Some st"
    and c: "mget (fs_nodes st) ''b'' = Some n'" "tn_parent n' = Some ''r''"
    using demo_fold_active by auto
  show ?thesis by (rule foldAmends_no_new_children [OF st _ c]) simp
qed

theorem foldAmends_hangs_witness:
  "v121IsAcyclic [demo_node ''c'' (Some ''p'') ''10000'']
     \<and> foldAmends (demo_env\<lparr>ae_firstClaimOrder := [], ae_active := []\<rparr>) [demo_node ''c'' (Some ''p'') ''10000''] [''c'']
         [demo_amend ''m1'' ''tree'' (cycle_ops ''c'' ''p'')] = None"
proof
  show "v121IsAcyclic [demo_node ''c'' (Some ''p'') ''10000'']" by code_simp
  show "foldAmends (demo_env\<lparr>ae_firstClaimOrder := [], ae_active := []\<rparr>) [demo_node ''c'' (Some ''p'') ''10000''] [''c'']
         [demo_amend ''m1'' ''tree'' (cycle_ops ''c'' ''p'')] = None"
    by (rule foldAmends_hangs [where c = "''c''" and p = "''p''" and n = "snd (demo_node ''c'' (Some ''p'') ''10000'')"])
      (simp_all add: tree_wf_def mkeys_def mhas_def demo_node_def demo_env_def demo_amend_def amend_allowed_def
        amend_ops_def as_arr_def jget_def strAny_def)
qed

end
