(* ===== verification/WalkInv.thy ===== *)
theory WalkInv
  imports Walk
begin

text \<open>
  Invariants of the unified walk. Every handler call is one of seven moves on the core of the
  state (holders, cycles, the cycle index, pass voters); the invariants are proved move by move
  and carried over a whole run by the event-fold contract.
\<close>

section \<open>Moves\<close>

definition core_eq :: "walk_state \<Rightarrow> walk_state \<Rightarrow> bool" where
  "core_eq w w' \<longleftrightarrow> ws_holders w' = ws_holders w \<and> ws_cycles w' = ws_cycles w
     \<and> ws_cycleByNodeClaim w' = ws_cycleByNodeClaim w \<and> ws_passVoters w' = ws_passVoters w"

definition extended :: "claim_cycle \<Rightarrow> string list \<Rightarrow> cycle_submission \<Rightarrow> claim_cycle" where
  "extended c olds r = c\<lparr>cy_superseded := olds @ cy_superseded c,
     cy_submissions := cy_submissions c @ [r], cy_effective := Some r\<rparr>"

definition holder_of :: "chain_event \<Rightarrow> holder" where
  "holder_of pin = \<lparr>ho_pin = ev_pin pin, ho_claimant = ev_author pin,
     ho_sinceMs = ev_ts pin, ho_height = ev_height pin\<rparr>"

definition pass_ballot :: "walk_env \<Rightarrow> chain_event \<Rightarrow> bool" where
  "pass_ballot env v \<longleftrightarrow> ev_path v = ''verify'' \<and> ev_pin v \<in> set (we_acting env)
     \<and> evs v ''verdict'' = ''pass'' \<and> ev_author v \<noteq> subAuthor env (evs v ''targetid'')
     \<and> ev_author v \<noteq> we_rootAuthor env"

definition add_voter :: "chain_event \<Rightarrow> (string, string) gomap \<Rightarrow> (string, string) gomap" where
  "add_voter v m = (if mhas m (ev_author v) then m else mput (ev_author v) (ev_pin v) m)"

definition voters_of :: "walk_state \<Rightarrow> string \<Rightarrow> (string, string) gomap" where
  "voters_of w node = (case mget (ws_passVoters w) node of Some m \<Rightarrow> m | None \<Rightarrow> [])"

lemma live_cycle_SomeD:
  assumes "live_cycle w target = Some (node, i)"
  obtains h s where "mget (ws_holders w) node = Some h" "getCycle w node (ho_pin h) = Some i"
    "cy_effective (ws_cycles w ! i) = Some s" "su_pin s = target"
  using assms by (auto simp: live_cycle_def split: option.splits if_splits)

lemma vote_pass_core:
  assumes "\<not> (ev_author v = subAuthor env target \<or> ev_author v = we_rootAuthor env)"
  shows "ws_holders (vote_pass env v node target i w) = ws_holders w"
    "ws_cycleByNodeClaim (vote_pass env v node target i w) = ws_cycleByNodeClaim w"
    "ws_passVoters (vote_pass env v node target i w)
       = mput node (add_voter v (voters_of w node)) (ws_passVoters w)"
    "ws_cycles (vote_pass env v node target i w) = (ws_cycles w)[i :=
       (if we_quorum env \<le> int (length (add_voter v (voters_of w node)))
        then (ws_cycles w ! i)\<lparr>cy_quorumAtMs := if cy_quorumAtMs (ws_cycles w ! i) = 0 then ev_ts v
               else cy_quorumAtMs (ws_cycles w ! i), cy_outcome := Verified\<rparr>
        else ws_cycles w ! i)]"
  using assms by (simp_all add: vote_pass_def Let_def add_voter_def voters_of_def)

lemma walk_step_cases:
  obtains
    (idle) "core_eq w (walk_step env inTree w e)"
  | (claim) node where "ev_path e = ''claim''" and "mget (ws_holders w) node = None"
      and "evs e ''node'' = node" and "\<not> ghost inTree node"
      and "ws_holders (walk_step env inTree w e) = mput node (holder_of e) (ws_holders w)"
      and "ws_cycles (walk_step env inTree w e) = ws_cycles w"
      and "ws_cycleByNodeClaim (walk_step env inTree w e) = ws_cycleByNodeClaim w"
      and "ws_passVoters (walk_step env inTree w e) = ws_passVoters w"
  | (release) node where "ws_holders (walk_step env inTree w e) = mdel node (ws_holders w)"
      and "ws_cycles (walk_step env inTree w e) = ws_cycles w"
      and "ws_cycleByNodeClaim (walk_step env inTree w e) = ws_cycleByNodeClaim w"
      and "ws_passVoters (walk_step env inTree w e) = mdel node (ws_passVoters w)"
  | (first) node h where "ev_path e = ''submission''" and "evs e ''node'' = node"
      and "\<not> ghost inTree node" and "mget (ws_holders w) node = Some h"
      and "getCycle w node (ho_pin h) = None"
      and "ws_holders (walk_step env inTree w e) = ws_holders w"
      and "ws_cycles (walk_step env inTree w e)
         = ws_cycles w @ [extended (new_cycle node (ho_pin h) (ho_claimant h)) [] (submission_record e)]"
      and "ws_cycleByNodeClaim (walk_step env inTree w e)
         = mput (cycle_key node (ho_pin h)) (length (ws_cycles w)) (ws_cycleByNodeClaim w)"
      and "ws_passVoters (walk_step env inTree w e) = ws_passVoters w"
  | (extend) node h i olds where "ev_path e = ''submission''" and "mget (ws_holders w) node = Some h"
      and "getCycle w node (ho_pin h) = Some i"
      and "(cy_effective (ws_cycles w ! i) = None \<and> olds = [])
         \<or> (\<exists>s. cy_effective (ws_cycles w ! i) = Some s \<and> olds = [evs e ''supersedeid'']
                \<and> chainOk env (ws_cycles w ! i) s (submission_record e))"
      and "ws_holders (walk_step env inTree w e) = ws_holders w"
      and "ws_cycles (walk_step env inTree w e)
         = (ws_cycles w)[i := extended (ws_cycles w ! i) olds (submission_record e)]"
      and "ws_cycleByNodeClaim (walk_step env inTree w e) = ws_cycleByNodeClaim w"
      and "ws_passVoters (walk_step env inTree w e) = ws_passVoters w"
  | (fail) node h i where "mget (ws_holders w) node = Some h" and "getCycle w node (ho_pin h) = Some i"
      and "ws_holders (walk_step env inTree w e) = mdel node (ws_holders w)"
      and "ws_cycles (walk_step env inTree w e) = (ws_cycles w)[i := (ws_cycles w ! i)\<lparr>cy_outcome := FailRejected\<rparr>]"
      and "ws_cycleByNodeClaim (walk_step env inTree w e) = ws_cycleByNodeClaim w"
      and "ws_passVoters (walk_step env inTree w e) = mdel node (ws_passVoters w)"
  | (pass) node h i s c' where "mget (ws_holders w) node = Some h" and "getCycle w node (ho_pin h) = Some i"
      and "cy_effective (ws_cycles w ! i) = Some s" and "pass_ballot env e" and "evs e ''targetid'' = su_pin s"
      and "ws_holders (walk_step env inTree w e) = ws_holders w"
      and "ws_cycles (walk_step env inTree w e) = (ws_cycles w)[i := c']"
      and "c' = ws_cycles w ! i
         \<or> we_quorum env \<le> int (length (add_voter e (voters_of w node)))
           \<and> (\<exists>q. c' = (ws_cycles w ! i)\<lparr>cy_quorumAtMs := q, cy_outcome := Verified\<rparr>)"
      and "ws_cycleByNodeClaim (walk_step env inTree w e) = ws_cycleByNodeClaim w"
      and "ws_passVoters (walk_step env inTree w e)
         = mput node (add_voter e (voters_of w node)) (ws_passVoters w)"
proof -
  consider (c) "ev_path e = ''claim''" | (r) "ev_path e = ''release''" | (s) "ev_path e = ''submission''"
    | (v) "ev_path e = ''verify''" | (n) "ev_path e \<notin> {''claim'', ''release'', ''submission'', ''verify''}"
    by blast
  then show thesis
  proof cases
    case c
    then have step: "walk_step env inTree w e = walk_claim inTree w e" by (simp add: walk_step_def)
    show thesis
    proof (cases "evs e ''node'' = '''' \<or> ghost inTree (evs e ''node'') \<or> mhas (ws_holders w) (evs e ''node'')")
      case True
      then have "core_eq w (walk_claim inTree w e)"
        by (auto simp: walk_claim_def core_eq_def walk_ignore_def Let_def)
      then show thesis by (intro idle) (simp add: step)
    next
      case False
      then show thesis
        by (intro claim [OF c, of "evs e ''node''"])
          (auto simp: step walk_claim_def Let_def mhas_def holder_of_def)
    qed
  next
    case r
    then have step: "walk_step env inTree w e = walk_release inTree w e" by (simp add: walk_step_def)
    show thesis
    proof (cases "evs e ''node'' = '''' \<or> ghost inTree (evs e ''node'')
        \<or> map_option ho_pin (mget (ws_holders w) (evs e ''node'')) \<noteq> Some (evs e ''claimid'')")
      case True
      then have "core_eq w (walk_release inTree w e)"
        by (auto simp: walk_release_def core_eq_def walk_ignore_def Let_def split: option.splits)
      then show thesis by (intro idle) (simp add: step)
    next
      case False
      then show thesis
        by (intro release [of "evs e ''node''"]) (auto simp: step walk_release_def Let_def)
    qed
  next
    case s
    let ?n = "evs e ''node''"
    have step: "walk_step env inTree w e = walk_submission env inTree w e" using s by (simp add: walk_step_def)
    show thesis
    proof (cases "?n = '''' \<or> evs e ''claimid'' = '''' \<or> ghost inTree ?n
        \<or> map_option ho_pin (mget (ws_holders w) ?n) \<noteq> Some (evs e ''claimid'')")
      case True
      then have "core_eq w (walk_submission env inTree w e)"
        by (auto simp: walk_submission_def core_eq_def walk_ignore_def Let_def split: option.splits)
      then show thesis by (intro idle) (simp add: step)
    next
      case False
      then obtain h where h: "mget (ws_holders w) ?n = Some h" "ho_pin h = evs e ''claimid''"
        and ng: "\<not> ghost inTree ?n" by auto
      obtain w1 i where oc: "open_cycle w ?n (ho_pin h) (ho_claimant h) = (w1, i)" by fastforce
      have att: "walk_step env inTree w e = attach_submission env e ?n (submission_record e) w1 i"
        using False h oc by (simp add: step walk_submission_def Let_def)
      show thesis
      proof (cases "getCycle w ?n (ho_pin h)")
        case None
        with oc have w1: "i = length (ws_cycles w)"
          "ws_cycles w1 = ws_cycles w @ [new_cycle ?n (ho_pin h) (ho_claimant h)]"
          "ws_cycleByNodeClaim w1 = mput (cycle_key ?n (ho_pin h)) (length (ws_cycles w)) (ws_cycleByNodeClaim w)"
          "ws_holders w1 = ws_holders w" "ws_passVoters w1 = ws_passVoters w"
          by (auto simp: open_cycle_def)
        show thesis
          using w1 by (intro first [OF s refl ng h(1) None])
            (simp_all add: att attach_submission_def new_cycle_def extended_def)
      next
        case (Some j)
        with oc have w1: "w1 = w" "i = j" by (auto simp: open_cycle_def)
        show thesis
        proof (cases "cy_effective (ws_cycles w ! i)")
          case None
          show thesis
            using w1 None by (intro extend [OF s h(1) Some, of "[]"])
              (simp_all add: att attach_submission_def extended_def)
        next
          case eff: (Some t)
          show thesis
          proof (cases "su_supersedeID (submission_record e) \<noteq> '''' \<and> chainOk env (ws_cycles w ! i) t (submission_record e)")
            case True
            then show thesis
              using w1 eff by (intro extend [OF s h(1) Some, of "[evs e ''supersedeid'']"])
                (simp_all add: att attach_submission_def extended_def submission_record_def)
          next
            case False
            then have "core_eq w (walk_step env inTree w e)"
              using w1 eff by (auto simp: att attach_submission_def core_eq_def walk_ignore_def)
            then show thesis by (rule idle)
          qed
        qed
      qed
    qed
  next
    case v
    let ?t = "evs e ''targetid''"
    have step: "walk_step env inTree w e = walk_verify env w e" using v by (simp add: walk_step_def)
    show thesis
    proof (cases "ev_pin e \<in> set (we_acting env) \<and> live_cycle w ?t \<noteq> None")
      case False
      then have "core_eq w (walk_verify env w e)"
        by (cases "live_cycle w ?t") (auto simp: walk_verify_def core_eq_def Let_def)
      then show thesis by (intro idle) (simp add: step)
    next
      case True
      then obtain node i where live: "live_cycle w ?t = Some (node, i)" and act: "ev_pin e \<in> set (we_acting env)"
        by auto
      from live obtain h t where h: "mget (ws_holders w) node = Some h" "getCycle w node (ho_pin h) = Some i"
        and t: "cy_effective (ws_cycles w ! i) = Some t" "su_pin t = ?t"
        by (rule live_cycle_SomeD)
      consider (f) "evs e ''verdict'' = ''fail''" | (p) "evs e ''verdict'' = ''pass''" "pass_ballot env e"
        | (x) "evs e ''verdict'' \<noteq> ''fail''" "\<not> (evs e ''verdict'' = ''pass'' \<and> pass_ballot env e)"
        by auto
      then show thesis
      proof cases
        case f
        then show thesis
          by (intro fail [OF h]) (simp_all add: step walk_verify_def act live vote_fail_def)
      next
        case p
        then have np: "\<not> (ev_author e = subAuthor env ?t \<or> ev_author e = we_rootAuthor env)"
          by (auto simp: pass_ballot_def)
        let ?q = "if cy_quorumAtMs (ws_cycles w ! i) = 0 then ev_ts e else cy_quorumAtMs (ws_cycles w ! i)"
        let ?c = "if we_quorum env \<le> int (length (add_voter e (voters_of w node)))
          then (ws_cycles w ! i)\<lparr>cy_quorumAtMs := ?q, cy_outcome := Verified\<rparr> else ws_cycles w ! i"
        have c': "?c = ws_cycles w ! i \<or> we_quorum env \<le> int (length (add_voter e (voters_of w node)))
            \<and> (\<exists>q. ?c = (ws_cycles w ! i)\<lparr>cy_quorumAtMs := q, cy_outcome := Verified\<rparr>)"
          by (cases "we_quorum env \<le> int (length (add_voter e (voters_of w node)))") (simp_all only: if_True if_False, blast+)
        let ?w = "w\<lparr>ws_reachedVote := ev_pin e # ws_reachedVote w\<rparr>"
        have v: "voters_of ?w node = voters_of w node" by (simp add: voters_of_def)
        have eq: "walk_step env inTree w e = vote_pass env e node ?t i ?w"
          using p by (simp add: step walk_verify_def act live)
        have f: "ws_holders (walk_step env inTree w e) = ws_holders w"
          "ws_cycles (walk_step env inTree w e) = (ws_cycles w)[i := ?c]"
          "ws_cycleByNodeClaim (walk_step env inTree w e) = ws_cycleByNodeClaim w"
          "ws_passVoters (walk_step env inTree w e) = mput node (add_voter e (voters_of w node)) (ws_passVoters w)"
          unfolding eq vote_pass_core [OF np] v by simp_all
        show thesis
          by (rule pass [OF h t(1) p(2) t(2) [symmetric] f(1,2) c' f(3,4)])
      next
        case x
        then have "core_eq w (walk_step env inTree w e)"
          using v act by (auto simp: step walk_verify_def act live core_eq_def vote_pass_def pass_ballot_def Let_def)
        then show thesis by (rule idle)
      qed
    qed
  next
    case n
    then show thesis by (intro idle) (simp add: core_eq_def walk_step_def)
  qed
qed


section \<open>The invariant of a run\<close>

text \<open>\<open>es\<close> lists the events handled so far.\<close>

definition chain_ok :: "walk_env \<Rightarrow> claim_cycle \<Rightarrow> bool" where
  "chain_ok env c \<longleftrightarrow> cy_submissions c \<noteq> [] \<and> cy_effective c = Some (last (cy_submissions c))
     \<and> cy_superseded c = rev (map su_pin (butlast (cy_submissions c)))
     \<and> (\<forall>s \<in> set (cy_submissions c). su_author s = su_author (hd (cy_submissions c)))
     \<and> (2 \<le> length (cy_submissions c) \<longrightarrow> (\<forall>s \<in> set (cy_submissions c). we_hAct2 env \<le> su_height s))"

definition voters_ok :: "walk_env \<Rightarrow> chain_event list \<Rightarrow> claim_cycle \<Rightarrow> (string, string) gomap \<Rightarrow> bool" where
  "voters_ok env es c m \<longleftrightarrow> distinct (mkeys m) \<and> (\<forall>a \<in> set (mkeys m). \<exists>v \<in> set es.
     ev_author v = a \<and> pass_ballot env v \<and> evs v ''targetid'' \<in> su_pin ` set (cy_submissions c))"

definition cycle_ok :: "walk_env \<Rightarrow> chain_event list \<Rightarrow> claim_cycle \<Rightarrow> bool" where
  "cycle_ok env es c \<longleftrightarrow> chain_ok env c
     \<and> (\<forall>s \<in> set (cy_submissions c). \<exists>e \<in> set es. ev_path e = ''submission'' \<and> s = submission_record e)
     \<and> (cy_outcome c = Verified \<longrightarrow> (\<exists>m. we_quorum env \<le> int (length m) \<and> voters_ok env es c m))"

definition voters_inv :: "walk_env \<Rightarrow> chain_event list \<Rightarrow> walk_state \<Rightarrow> bool" where
  "voters_inv env es w \<longleftrightarrow> (\<forall>n m. mget (ws_passVoters w) n = Some m \<longrightarrow>
     (\<exists>h i. mget (ws_holders w) n = Some h \<and> getCycle w n (ho_pin h) = Some i
            \<and> voters_ok env es (ws_cycles w ! i) m))"

definition index_inv :: "walk_state \<Rightarrow> bool" where
  "index_inv w \<longleftrightarrow> (\<forall>k i. mget (ws_cycleByNodeClaim w) k = Some i \<longrightarrow> i < length (ws_cycles w))"

definition walk_inv :: "walk_env \<Rightarrow> chain_event list \<Rightarrow> walk_state \<Rightarrow> bool" where
  "walk_inv env es w \<longleftrightarrow> index_inv w \<and> voters_inv env es w \<and> (\<forall>c \<in> set (ws_cycles w). cycle_ok env es c)"

lemma voters_ok_mono:
  "voters_ok env es c m \<Longrightarrow> set es \<subseteq> set es' \<Longrightarrow>
   su_pin ` set (cy_submissions c) \<subseteq> su_pin ` set (cy_submissions c') \<Longrightarrow> voters_ok env es' c' m"
  unfolding voters_ok_def by blast

lemma voters_ok_Nil: "voters_ok env es c []"
  by (simp add: voters_ok_def mkeys_def)

lemma voters_ok_add:
  assumes "voters_ok env es c m" "pass_ballot env v"
    "evs v ''targetid'' \<in> su_pin ` set (cy_submissions c)"
  shows "voters_ok env (es @ [v]) c (add_voter v m)"
  unfolding voters_ok_def
proof
  show "distinct (mkeys (add_voter v m))"
    using assms(1) by (auto simp: voters_ok_def add_voter_def)
  have "set (mkeys (add_voter v m)) \<subseteq> insert (ev_author v) (set (mkeys m))"
    by (auto simp: add_voter_def gm.keys_insert)
  then show "\<forall>a \<in> set (mkeys (add_voter v m)). \<exists>u \<in> set (es @ [v]). ev_author u = a \<and> pass_ballot env u
      \<and> evs u ''targetid'' \<in> su_pin ` set (cy_submissions c)"
    using assms unfolding voters_ok_def by fastforce
qed

lemma cycle_ok_mono: "cycle_ok env es c \<Longrightarrow> set es \<subseteq> set es' \<Longrightarrow> cycle_ok env es' c"
  unfolding cycle_ok_def by (meson subset_eq voters_ok_mono order_refl)

text \<open>A valid supersede keeps the chain: the replaced submission is the last one.\<close>

lemma chain_ok_supersede:
  assumes "chain_ok env c" "cy_effective c = Some s" "chainOk env c s r"
  shows "chain_ok env (extended c [su_supersedeID r] r)" (is "chain_ok env ?e")
proof -
  from assms(3) obtain t where t: "find (\<lambda>s. su_pin s = su_supersedeID r) (cy_submissions c) = Some t"
    and p: "su_pin t = su_pin s" "su_author t = su_author r" "we_hAct2 env \<le> su_height r" "we_hAct2 env \<le> su_height t"
    by (auto simp: chainOk_def split: option.splits)
  have t': "t \<in> set (cy_submissions c)" "su_pin t = su_supersedeID r" using find_SomeD [OF t] by auto
  have ne: "cy_submissions c \<noteq> []" and s: "s = last (cy_submissions c)"
    using assms(1,2) by (simp_all add: chain_ok_def)
  have h: "we_hAct2 env \<le> su_height x" if x: "x \<in> set (cy_submissions c)" for x
  proof (cases "2 \<le> length (cy_submissions c)")
    case True
    with assms(1) x show ?thesis by (simp add: chain_ok_def)
  next
    case False
    with ne obtain y where "cy_submissions c = [y]"
      by (cases "cy_submissions c" rule: remdups_adj.cases) auto
    with x t' p show ?thesis by simp
  qed
  have "su_pin (last (cy_submissions c)) = su_supersedeID r" using t'(2) p(1) s by simp
  moreover have "map su_pin (cy_submissions c)
      = map su_pin (butlast (cy_submissions c)) @ [su_pin (last (cy_submissions c))]"
    using ne by (metis append_butlast_last_id list.map(1,2) map_append)
  ultimately have sup: "su_supersedeID r # cy_superseded c = rev (map su_pin (cy_submissions c))"
    using assms(1) by (simp add: chain_ok_def)
  have au: "su_author x = su_author (hd (cy_submissions c))" if "x \<in> set (cy_submissions c)" for x
    using assms(1) that unfolding chain_ok_def by blast
  have au': "su_author x = su_author (hd (cy_submissions c))" if "x \<in> set (cy_submissions c @ [r])" for x
    using that au [of x] au [OF t'(1)] p(2) by auto
  have h': "we_hAct2 env \<le> su_height x" if "x \<in> set (cy_submissions c @ [r])" for x
    using that h p(3) by auto
  have f: "cy_submissions ?e = cy_submissions c @ [r]" "cy_effective ?e = Some r"
    "cy_superseded ?e = su_supersedeID r # cy_superseded c"
    by (simp_all add: extended_def)
  have hd: "hd (cy_submissions c @ [r]) = hd (cy_submissions c)" using ne by simp
  show ?thesis
    unfolding chain_ok_def f sup hd butlast_snoc last_snoc using au' h' by blast
qed

lemma chain_ok_first: "chain_ok env (extended (new_cycle node claimID cl) [] r)"
  by (simp add: chain_ok_def extended_def new_cycle_def)

lemma cycle_ok_update:
  assumes "cycle_ok env es c" "set es \<subseteq> set es'" and "cy_submissions c' = cy_submissions c"
    "cy_effective c' = cy_effective c" "cy_superseded c' = cy_superseded c"
    and "cy_outcome c' = Verified \<Longrightarrow> cy_outcome c = Verified \<or>
       (\<exists>m. we_quorum env \<le> int (length m) \<and> voters_ok env es' c m)"
  shows "cycle_ok env es' c'"
proof -
  have v: "voters_ok env es' c' m = voters_ok env es' c m" for m by (simp add: voters_ok_def assms(3))
  have vo: "cy_outcome c = Verified \<longrightarrow> (\<exists>m. we_quorum env \<le> int (length m) \<and> voters_ok env es' c m)"
    using cycle_ok_mono [OF assms(1,2)] unfolding cycle_ok_def by (elim conjE)
  have "chain_ok env c" using assms(1) unfolding cycle_ok_def by (elim conjE)
  then have "chain_ok env c'" unfolding chain_ok_def assms(3-5) .
  moreover have "\<exists>m. we_quorum env \<le> int (length m) \<and> voters_ok env es' c m" if "cy_outcome c' = Verified"
    using assms(6) [OF that] vo by blast
  moreover have "\<forall>s \<in> set (cy_submissions c). \<exists>e \<in> set es'. ev_path e = ''submission'' \<and> s = submission_record e"
    using cycle_ok_mono [OF assms(1,2)] unfolding cycle_ok_def by blast
  ultimately show ?thesis
    unfolding cycle_ok_def assms(3) v by blast
qed

lemma voters_inv_keep:
  assumes "voters_inv env es w" and "set es \<subseteq> set es'"
    and A: "\<And>n m. mget (ws_passVoters w') n = Some m \<Longrightarrow>
      mget (ws_passVoters w) n = Some m \<and> mget (ws_holders w') n = mget (ws_holders w) n
      \<or> (\<exists>h i. mget (ws_holders w') n = Some h \<and> getCycle w' n (ho_pin h) = Some i
             \<and> voters_ok env es' (ws_cycles w' ! i) m)"
    and B: "\<And>n c i. getCycle w n c = Some i \<Longrightarrow> getCycle w' n c = Some i
      \<and> su_pin ` set (cy_submissions (ws_cycles w ! i)) \<subseteq> su_pin ` set (cy_submissions (ws_cycles w' ! i))"
  shows "voters_inv env es' w'"
  unfolding voters_inv_def
proof (intro allI impI)
  fix n m assume m: "mget (ws_passVoters w') n = Some m"
  show "\<exists>h i. mget (ws_holders w') n = Some h \<and> getCycle w' n (ho_pin h) = Some i
      \<and> voters_ok env es' (ws_cycles w' ! i) m"
  proof (cases "mget (ws_passVoters w) n = Some m \<and> mget (ws_holders w') n = mget (ws_holders w) n")
    case True
    then obtain h i where "mget (ws_holders w) n = Some h" "getCycle w n (ho_pin h) = Some i"
      "voters_ok env es (ws_cycles w ! i) m"
      using assms(1) unfolding voters_inv_def by blast
    with True B show ?thesis
      using voters_ok_mono [of env es "ws_cycles w ! i" m es' "ws_cycles w' ! i"] assms(2)
      by (intro exI [of _ h] exI [of _ i]) auto
  next
    case False
    with A [OF m] show ?thesis by blast
  qed
qed

lemma voters_inv_holder:
  "voters_inv env es w \<Longrightarrow> mget (ws_passVoters w) n = Some m \<Longrightarrow> mget (ws_holders w) n \<noteq> None"
  unfolding voters_inv_def by fastforce

lemma voters_inv_current:
  assumes "voters_inv env es w" "mget (ws_holders w) n = Some h" "getCycle w n (ho_pin h) = Some i"
  shows "voters_ok env es (ws_cycles w ! i) (voters_of w n)"
proof (cases "mget (ws_passVoters w) n")
  case None
  then show ?thesis by (simp add: voters_of_def voters_ok_Nil)
next
  case (Some m)
  then show ?thesis using assms unfolding voters_inv_def by (fastforce simp: voters_of_def)
qed

lemma nth_update_subs:
  "cy_submissions x = cy_submissions (xs ! i) \<Longrightarrow> cy_submissions (xs[i := x] ! j) = cy_submissions (xs ! j)"
  by (cases "i = j"; cases "i < length xs") (auto simp: list_update_beyond)

lemma walk_inv_step:
  assumes inv: "walk_inv env es w" shows "walk_inv env (es @ [e]) (walk_step env inTree w e)"
proof -
  let ?w = "walk_step env inTree w e" and ?es = "es @ [e]"
  have idx: "\<And>n c i. getCycle w n c = Some i \<Longrightarrow> i < length (ws_cycles w)"
    and idx0: "index_inv w" and vot: "voters_inv env es w"
    and cyc: "\<And>c. c \<in> set (ws_cycles w) \<Longrightarrow> cycle_ok env ?es c"
    and cyc0: "\<And>c. c \<in> set (ws_cycles w) \<Longrightarrow> cycle_ok env es c"
    using inv cycle_ok_mono [of env es _ ?es] unfolding walk_inv_def index_inv_def getCycle_def by auto
  have vk: "voters_inv env ?es w'"
    if "\<And>n m. mget (ws_passVoters w') n = Some m \<Longrightarrow>
        mget (ws_passVoters w) n = Some m \<and> mget (ws_holders w') n = mget (ws_holders w) n
        \<or> (\<exists>h i. mget (ws_holders w') n = Some h \<and> getCycle w' n (ho_pin h) = Some i
             \<and> voters_ok env ?es (ws_cycles w' ! i) m)"
      and "\<And>n c i. getCycle w n c = Some i \<Longrightarrow> getCycle w' n c = Some i
        \<and> su_pin ` set (cy_submissions (ws_cycles w ! i)) \<subseteq> su_pin ` set (cy_submissions (ws_cycles w' ! i))" for w'
    using voters_inv_keep [OF vot _ that] by auto
  show ?thesis
  proof (cases rule: walk_step_cases [of w env inTree e])
    case idle
    then show ?thesis
      using idx0 cyc by (auto simp: core_eq_def walk_inv_def index_inv_def getCycle_def intro!: vk)
  next
    case (claim node)
    have "voters_inv env ?es ?w"
    proof (rule vk)
      fix n m assume "mget (ws_passVoters ?w) n = Some m"
      with voters_inv_holder [OF vot, of n m] claim
      show "mget (ws_passVoters w) n = Some m \<and> mget (ws_holders ?w) n = mget (ws_holders w) n
        \<or> (\<exists>h i. mget (ws_holders ?w) n = Some h \<and> getCycle ?w n (ho_pin h) = Some i
             \<and> voters_ok env ?es (ws_cycles ?w ! i) m)"
        by (cases "n = node") auto
    qed (use claim in \<open>simp add: getCycle_def\<close>)
    then show ?thesis using idx0 cyc claim by (simp add: walk_inv_def index_inv_def)
  next
    case (release node)
    have "voters_inv env ?es ?w"
      using release by (intro vk) (auto simp: getCycle_def split: if_splits)
    then show ?thesis using idx0 cyc release by (simp add: walk_inv_def index_inv_def)
  next
    case (first node h)
    let ?c = "extended (new_cycle node (ho_pin h) (ho_claimant h)) [] (submission_record e)"
    have "cycle_ok env ?es ?c"
      using first(1) by (auto simp: cycle_ok_def chain_ok_first) (auto simp: extended_def new_cycle_def)
    moreover have "voters_inv env ?es ?w"
    proof (rule vk)
      fix n c i assume g: "getCycle w n c = Some i"
      then have "cycle_key n c \<noteq> cycle_key node (ho_pin h)" using first(5) by (auto simp: getCycle_def)
      with g idx [OF g] show "getCycle ?w n c = Some i \<and> su_pin ` set (cy_submissions (ws_cycles w ! i))
          \<subseteq> su_pin ` set (cy_submissions (ws_cycles ?w ! i))"
        using first by (simp add: getCycle_def nth_append)
    qed (use first in simp)
    moreover have "index_inv ?w"
      using first(7,8) idx0 by (auto simp: index_inv_def less_Suc_eq)
    ultimately show ?thesis using cyc first(7) by (auto simp: walk_inv_def)
  next
    case (extend node h i olds)
    let ?c = "extended (ws_cycles w ! i) olds (submission_record e)"
    have i: "i < length (ws_cycles w)" using idx extend(3) by blast
    then have ci: "cycle_ok env es (ws_cycles w ! i)" using cyc0 by simp
    then have ch: "chain_ok env (ws_cycles w ! i)" by (simp add: cycle_ok_def)
    with extend(4) obtain s where s: "cy_effective (ws_cycles w ! i) = Some s" "olds = [evs e ''supersedeid'']"
      "chainOk env (ws_cycles w ! i) s (submission_record e)"
      by (auto simp: chain_ok_def)
    have "chain_ok env ?c"
      using chain_ok_supersede [OF ch s(1,3)] s(2) by (simp add: submission_record_def)
    moreover have "voters_ok env es (ws_cycles w ! i) m \<Longrightarrow> voters_ok env ?es ?c m" for m
      by (erule voters_ok_mono) (auto simp: extended_def)
    ultimately have "cycle_ok env ?es ?c"
      using ci extend(1) unfolding cycle_ok_def by (auto simp: extended_def)
    moreover have "voters_inv env ?es ?w"
      using extend i by (intro vk) (auto simp: getCycle_def extended_def nth_list_update)
    moreover have "index_inv ?w" using extend idx0 by (auto simp: index_inv_def)
    ultimately show ?thesis
      using cyc extend(6) set_update_subset_insert [of "ws_cycles w" i ?c] by (auto simp: walk_inv_def)
  next
    case (fail node h i)
    let ?c = "(ws_cycles w ! i)\<lparr>cy_outcome := FailRejected\<rparr>"
    have i: "i < length (ws_cycles w)" using idx fail(2) by blast
    have "cycle_ok env ?es ?c"
      by (rule cycle_ok_update [OF cyc [OF nth_mem [OF i]] subset_refl]) simp_all
    moreover have "voters_inv env ?es ?w"
    proof (rule vk)
      fix n m assume "mget (ws_passVoters ?w) n = Some m"
      with fail show "mget (ws_passVoters w) n = Some m \<and> mget (ws_holders ?w) n = mget (ws_holders w) n
          \<or> (\<exists>h i. mget (ws_holders ?w) n = Some h \<and> getCycle ?w n (ho_pin h) = Some i
             \<and> voters_ok env ?es (ws_cycles ?w ! i) m)"
        by (cases "n = node") auto
    qed (use fail nth_update_subs [of ?c "ws_cycles w" i] in \<open>simp add: getCycle_def\<close>)
    moreover have "index_inv ?w" using fail idx0 by (auto simp: index_inv_def)
    ultimately show ?thesis
      using cyc fail(4) set_update_subset_insert [of "ws_cycles w" i ?c] by (auto simp: walk_inv_def)
  next
    case (pass node h i s c')
    have i: "i < length (ws_cycles w)" using idx pass(2) by blast
    have "chain_ok env (ws_cycles w ! i)" using cyc0 i by (simp add: cycle_ok_def)
    then have tgt: "evs e ''targetid'' \<in> su_pin ` set (cy_submissions (ws_cycles w ! i))"
      using pass(3,5) by (auto simp: chain_ok_def)
    let ?m = "add_voter e (voters_of w node)"
    have m: "voters_ok env ?es (ws_cycles w ! i) ?m"
      using voters_ok_add [OF voters_inv_current [OF vot pass(1,2)] pass(4) tgt] .
    have sub: "cy_submissions c' = cy_submissions (ws_cycles w ! i)" using pass(8) by auto
    have "cycle_ok env ?es c'"
    proof (rule cycle_ok_update [OF cyc [OF nth_mem [OF i]] subset_refl])
      show "cy_outcome (ws_cycles w ! i) = Verified
          \<or> (\<exists>m. we_quorum env \<le> int (length m) \<and> voters_ok env ?es (ws_cycles w ! i) m)"
        if "cy_outcome c' = Verified"
        using pass(8) that m by blast
    qed (use pass(8) in auto)
    moreover have "voters_inv env ?es ?w"
    proof (rule vk)
      fix n m' assume m': "mget (ws_passVoters ?w) n = Some m'"
      have "voters_ok env ?es c' ?m" using voters_ok_mono [OF m subset_refl, of c'] sub by simp
      then show "mget (ws_passVoters w) n = Some m' \<and> mget (ws_holders ?w) n = mget (ws_holders w) n
          \<or> (\<exists>h i. mget (ws_holders ?w) n = Some h \<and> getCycle ?w n (ho_pin h) = Some i
             \<and> voters_ok env ?es (ws_cycles ?w ! i) m')"
        using m' pass i by (cases "n = node") (auto simp: getCycle_def)
    qed (use pass sub nth_update_subs [of c' "ws_cycles w" i] in \<open>simp add: getCycle_def\<close>)
    moreover have "index_inv ?w" using pass idx0 by (auto simp: index_inv_def)
    ultimately show ?thesis
      using cyc pass(7) set_update_subset_insert [of "ws_cycles w" i c'] by (auto simp: walk_inv_def)
  qed
qed

end
