(* ===== verification/WalkProps.thy ===== *)
theory WalkProps
  imports WalkInv
begin

text \<open>
  What a replay's walk guarantees about its cycles: the shape of supersede chains, the integrity
  of a quorum, the finality of an acting fail, the membership filter and the expiry pass.
\<close>

section \<open>Runs\<close>

text \<open>The walk, with the list of handled events carried along, keeps its invariant.\<close>

interpretation walk_fold: event_fold
  "\<lambda>s e. (fst s @ [e], walk_step env inTree (snd s) e)" "\<lambda>e. True"
  "\<lambda>s. walk_inv env (fst s) (snd s)" for env inTree
  by unfold_locales (simp add: walk_inv_step)

lemma walk_init_inv: "walk_inv env [] walk_init"
  by (simp add: walk_inv_def index_inv_def voters_inv_def walk_init_def)

lemma run_pair:
  "foldl (\<lambda>s e. (fst s @ [e], step (snd s) e)) (fs, w) es = (fs @ es, foldl step w es)"
  by (induction es arbitrary: fs w) auto

lemma walk_inv_run: "walk_inv env es (runWalk env inTree es)"
  using walk_fold.run_inv [of es env "([], walk_init)" inTree] walk_init_inv
  by (simp add: run_pair runWalk_def list_all_iff)

lemma run_cycle_ok: "c \<in> set (ws_cycles (runWalk env inTree es)) \<Longrightarrow> cycle_ok env es c"
  using walk_inv_run [of env es inTree] by (simp add: walk_inv_def)

lemma run_chain_ok: "c \<in> set (ws_cycles (runWalk env inTree es)) \<Longrightarrow> chain_ok env c"
  using run_cycle_ok unfolding cycle_ok_def by blast

text \<open>
  C34: supersede chains. In every cycle a replay builds, the effective submission is the last one
  attached, exactly the earlier ones are superseded, all of them are by one author, and a cycle
  with more than one submission is wholly at or above the v1.2 gate.
\<close>

theorem supersede_chain:
  assumes "c \<in> set (ws_cycles (runWalk env inTree es))"
  shows "cy_submissions c \<noteq> [] \<and> cy_effective c = Some (last (cy_submissions c))
     \<and> cy_superseded c = rev (map su_pin (butlast (cy_submissions c)))
     \<and> (\<forall>s \<in> set (cy_submissions c). su_author s = su_author (last (cy_submissions c)))
     \<and> (2 \<le> length (cy_submissions c) \<longrightarrow> (\<forall>s \<in> set (cy_submissions c). we_hAct2 env \<le> su_height s))"
proof -
  have "chain_ok env c" by (rule run_chain_ok [OF assms])
  then show ?thesis unfolding chain_ok_def by (metis last_in_set)
qed

lemma cycle_quorum:
  assumes "c \<in> set (ws_cycles (runWalk env inTree es))" "cy_outcome c = Verified"
    and authors: "\<forall>e \<in> set es. ev_path e = ''submission'' \<longrightarrow> subAuthor env (ev_pin e) = ev_author e"
  shows "\<exists>V. we_quorum env \<le> int (card V) \<and> we_rootAuthor env \<notin> V
     \<and> (\<forall>s \<in> set (cy_submissions c). su_author s \<notin> V)
     \<and> (\<forall>a \<in> V. \<exists>v \<in> set es. ev_author v = a \<and> ev_path v = ''verify'' \<and> ev_pin v \<in> set (we_acting env)
           \<and> evs v ''verdict'' = ''pass'' \<and> evs v ''targetid'' \<in> su_pin ` set (cy_submissions c))"
proof -
  have ok: "cycle_ok env es c" by (rule run_cycle_ok [OF assms(1)])
  then obtain m where m: "we_quorum env \<le> int (length m)" "voters_ok env es c m"
    using assms(2) unfolding cycle_ok_def by blast
  have "card (set (mkeys m)) = length m"
    using m(2) distinct_card [of "mkeys m"] by (simp add: voters_ok_def mkeys_def)
  moreover have "su_author s \<notin> set (mkeys m)" if s: "s \<in> set (cy_submissions c)" for s
  proof
    assume "su_author s \<in> set (mkeys m)"
    with m(2) obtain v where v: "ev_author v = su_author s" "pass_ballot env v"
      "evs v ''targetid'' \<in> su_pin ` set (cy_submissions c)"
      unfolding voters_ok_def by blast
    then obtain t where t: "t \<in> set (cy_submissions c)" "evs v ''targetid'' = su_pin t" by auto
    with ok obtain e where e: "e \<in> set es" "ev_path e = ''submission''" "t = submission_record e"
      unfolding cycle_ok_def by blast
    have "su_author t = su_author s"
      using ok s t(1) unfolding cycle_ok_def chain_ok_def by metis
    with e authors have "subAuthor env (evs v ''targetid'') = su_author s"
      using t(2) by (auto simp: submission_record_def)
    with v show False by (simp add: pass_ballot_def)
  qed
  moreover have "we_rootAuthor env \<notin> set (mkeys m)"
    using m(2) unfolding voters_ok_def pass_ballot_def by blast
  moreover have "\<forall>a \<in> set (mkeys m). \<exists>v \<in> set es. ev_author v = a \<and> ev_path v = ''verify''
      \<and> ev_pin v \<in> set (we_acting env) \<and> evs v ''verdict'' = ''pass''
      \<and> evs v ''targetid'' \<in> su_pin ` set (cy_submissions c)"
    using m(2) unfolding voters_ok_def pass_ballot_def by blast
  ultimately show ?thesis
    using m(1) by (intro exI [of _ "set (mkeys m)"]) simp
qed

text \<open>
  C1: quorum integrity. A verified cycle has the pass votes of at least a quorum of different
  bots, each an acting ballot of the replay on a submission of this cycle, and none of them by
  the task's author or by the author of the cycle's submissions.
\<close>

theorem quorum_integrity:
  assumes "c \<in> set (ws_cycles (runWalk env inTree es))" "cy_outcome c = Verified"
    and authors: "\<forall>e \<in> set es. ev_path e = ''submission'' \<longrightarrow> subAuthor env (ev_pin e) = ev_author e"
  shows "\<exists>V. we_quorum env \<le> int (card V) \<and> we_rootAuthor env \<notin> V
     \<and> (\<forall>s \<in> set (cy_submissions c). su_author s \<notin> V)
     \<and> (\<forall>a \<in> V. \<exists>v \<in> set es. ev_author v = a \<and> ev_path v = ''verify'' \<and> ev_pin v \<in> set (we_acting env)
           \<and> evs v ''verdict'' = ''pass'' \<and> evs v ''targetid'' \<in> su_pin ` set (cy_submissions c))"
  using assms by (rule cycle_quorum)

section \<open>Finality of an acting fail\<close>

text \<open>A claim pin never holds a blank, so a cycle key names its node and claim.\<close>

lemma cycle_key_inj:
  assumes "cycle_key n c = cycle_key n' c'" "CHR '' '' \<notin> set c" "CHR '' '' \<notin> set c'"
  shows "n = n' \<and> c = c'"
proof -
  have "last_index CHR '' '' (cycle_key n c) = Some (length n)"
    "last_index CHR '' '' (cycle_key n' c') = Some (length n')"
    using assms(2,3) by (simp_all add: cycle_key_def last_index_append)
  with assms(1) have "length n = length n'" by simp
  with assms(1) show ?thesis by (simp add: cycle_key_def)
qed

definition claim_pins :: "chain_event list \<Rightarrow> string set" where
  "claim_pins es = {ev_pin e | e. e \<in> set es \<and> ev_path e = ''claim''}"

definition lock_inv :: "chain_event list \<Rightarrow> walk_state \<Rightarrow> bool" where
  "lock_inv es w \<longleftrightarrow> index_inv w
     \<and> (\<forall>n h. mget (ws_holders w) n = Some h \<longrightarrow> ho_pin h \<in> claim_pins es)
     \<and> (\<forall>k i. mget (ws_cycleByNodeClaim w) k = Some i \<longrightarrow> (\<exists>n c. k = cycle_key n c \<and> c \<in> claim_pins es))
     \<and> (\<forall>k k' i. mget (ws_cycleByNodeClaim w) k = Some i \<longrightarrow> mget (ws_cycleByNodeClaim w) k' = Some i \<longrightarrow> k = k')"

text \<open>No live claim leads to cycle \<open>i\<close> any more.\<close>

definition dead :: "nat \<Rightarrow> walk_state \<Rightarrow> bool" where
  "dead i w \<longleftrightarrow> (\<forall>n h. mget (ws_holders w) n = Some h \<longrightarrow> getCycle w n (ho_pin h) \<noteq> Some i)"

definition fail_inv :: "chain_event list \<Rightarrow> walk_state \<Rightarrow> bool" where
  "fail_inv es w \<longleftrightarrow> lock_inv es w
     \<and> (\<forall>i < length (ws_cycles w). cy_outcome (ws_cycles w ! i) = FailRejected \<longrightarrow> dead i w)"

text \<open>Pins are distinct and claim pins hold no blank.\<close>

definition pins_ok :: "chain_event list \<Rightarrow> bool" where
  "pins_ok es \<longleftrightarrow> distinct (map ev_pin es) \<and> (\<forall>e \<in> set es. CHR '' '' \<notin> set (ev_pin e))"

lemma pins_ok_snoc: "pins_ok (es @ [e]) \<Longrightarrow> pins_ok es"
  by (simp add: pins_ok_def)

lemma claim_pins_snoc: "claim_pins es \<subseteq> claim_pins (es @ [e])"
  by (auto simp: claim_pins_def)

lemma claim_pins_blank: "pins_ok es \<Longrightarrow> c \<in> claim_pins es \<Longrightarrow> CHR '' '' \<notin> set c"
  by (auto simp: pins_ok_def claim_pins_def)

lemma fresh_claim:
  "pins_ok (es @ [e]) \<Longrightarrow> ev_pin e \<notin> claim_pins es \<and> CHR '' '' \<notin> set (ev_pin e)"
  by (auto simp: pins_ok_def claim_pins_def)

lemma lock_inv_step:
  assumes inv: "lock_inv es w" and pins: "pins_ok (es @ [e])"
  shows "lock_inv (es @ [e]) (walk_step env inTree w e)"
proof -
  let ?w = "walk_step env inTree w e" and ?es = "es @ [e]"
  have idx: "\<And>k i. mget (ws_cycleByNodeClaim w) k = Some i \<Longrightarrow> i < length (ws_cycles w)"
    and hol: "\<And>n h. mget (ws_holders w) n = Some h \<Longrightarrow> ho_pin h \<in> claim_pins es"
    and key: "\<And>k i. mget (ws_cycleByNodeClaim w) k = Some i \<Longrightarrow> \<exists>n c. k = cycle_key n c \<and> c \<in> claim_pins es"
    and inj: "\<And>k k' i. mget (ws_cycleByNodeClaim w) k = Some i \<Longrightarrow> mget (ws_cycleByNodeClaim w) k' = Some i \<Longrightarrow> k = k'"
    using inv unfolding lock_inv_def index_inv_def by blast+
  note up = subsetD [OF claim_pins_snoc [of es e]]
  have keep: "lock_inv ?es ?w"
    if "ws_cycleByNodeClaim ?w = ws_cycleByNodeClaim w" "length (ws_cycles ?w) = length (ws_cycles w)"
      "\<And>n h. mget (ws_holders ?w) n = Some h \<Longrightarrow> mget (ws_holders w) n = Some h \<or> ho_pin h \<in> claim_pins ?es"
    using that idx hol key inj up unfolding lock_inv_def index_inv_def by metis
  show ?thesis
  proof (cases rule: walk_step_cases [of w env inTree e])
    case idle
    then show ?thesis by (intro keep) (simp_all add: core_eq_def)
  next
    case (claim node)
    then show ?thesis by (intro keep) (auto simp: holder_of_def claim_pins_def split: if_splits)
  next
    case (release node)
    then show ?thesis by (intro keep) (auto split: if_splits)
  next
    case (first node h)
    have c: "ho_pin h \<in> claim_pins ?es" using hol [OF first(4)] up by blast
    show ?thesis
      unfolding lock_inv_def index_inv_def first(6-8) mget_mput
    proof (intro conjI allI impI)
      fix k k' i
      assume "((mget (ws_cycleByNodeClaim w))(cycle_key node (ho_pin h) \<mapsto> length (ws_cycles w))) k = Some i"
        "((mget (ws_cycleByNodeClaim w))(cycle_key node (ho_pin h) \<mapsto> length (ws_cycles w))) k' = Some i"
      then show "k = k'"
        using inj [of k i k'] idx [of k i] idx [of k' i] by (auto split: if_splits)
    next
      fix k i
      assume m: "((mget (ws_cycleByNodeClaim w))(cycle_key node (ho_pin h) \<mapsto> length (ws_cycles w))) k = Some i"
      show "i < length (ws_cycles w @ [extended (new_cycle node (ho_pin h) (ho_claimant h)) [] (submission_record e)])"
        using m idx [of k i] by (simp split: if_splits)
      show "\<exists>n c. k = cycle_key n c \<and> c \<in> claim_pins ?es"
        using m c key [of k i] up by (metis fun_upd_apply)
    next
      fix n h' assume "mget (ws_holders w) n = Some h'"
      then show "ho_pin h' \<in> claim_pins ?es" using hol up by blast
    qed
  next
    case (extend node h i olds)
    then show ?thesis by (intro keep) simp_all
  next
    case (fail node h i)
    then show ?thesis by (intro keep) (auto split: if_splits)
  next
    case (pass node h i s c')
    then show ?thesis by (intro keep) simp_all
  qed
qed

text \<open>A dead cycle stays dead and keeps its state.\<close>

lemma dead_step:
  assumes inv: "lock_inv es w" and pins: "pins_ok (es @ [e])" and d: "dead i w" and i: "i < length (ws_cycles w)"
  shows "dead i (walk_step env inTree w e) \<and> ws_cycles (walk_step env inTree w e) ! i = ws_cycles w ! i
     \<and> i < length (ws_cycles (walk_step env inTree w e))"
proof -
  let ?w = "walk_step env inTree w e"
  have keep: "dead i ?w"
    if "ws_cycleByNodeClaim ?w = ws_cycleByNodeClaim w"
      "\<And>n h. mget (ws_holders ?w) n = Some h \<Longrightarrow> mget (ws_holders w) n = Some h"
    using that d unfolding dead_def getCycle_def by metis
  show ?thesis
  proof (cases rule: walk_step_cases [of w env inTree e])
    case idle
    then have "dead i ?w" by (intro keep) (simp_all add: core_eq_def)
    with idle i show ?thesis by (simp add: core_eq_def)
  next
    case (claim node)
    have "getCycle w node (ev_pin e) \<noteq> Some i"
    proof
      assume "getCycle w node (ev_pin e) = Some i"
      then obtain n c where "cycle_key node (ev_pin e) = cycle_key n c" "c \<in> claim_pins es"
        using inv unfolding lock_inv_def getCycle_def by blast
      then show False
        using cycle_key_inj [of node "ev_pin e" n c] fresh_claim [OF pins] claim_pins_blank [OF pins_ok_snoc [OF pins]]
        by auto
    qed
    then have "dead i ?w"
      using d claim unfolding dead_def getCycle_def by (auto simp: holder_of_def split: if_splits)
    with claim i show ?thesis by simp
  next
    case (release node)
    then have "dead i ?w" by (intro keep) (auto split: if_splits)
    with release i show ?thesis by simp
  next
    case (first node h)
    have "dead i ?w"
      using d i first unfolding dead_def getCycle_def by (auto split: if_splits)
    with first i show ?thesis by (simp add: nth_append)
  next
    case (extend node h j olds)
    then have "dead i ?w" by (intro keep) simp_all
    moreover have "j \<noteq> i" using extend d by (auto simp: dead_def)
    ultimately show ?thesis using extend i by simp
  next
    case (fail node h j)
    then have "dead i ?w" by (intro keep) (auto split: if_splits)
    moreover have "j \<noteq> i" using fail d by (auto simp: dead_def)
    ultimately show ?thesis using fail i by simp
  next
    case (pass node h j s c')
    then have "dead i ?w" by (intro keep) simp_all
    moreover have "j \<noteq> i" using pass d by (auto simp: dead_def)
    ultimately show ?thesis using pass i by simp
  qed
qed

lemma dead_run:
  assumes "lock_inv es w" "pins_ok (es @ fs)" "dead i w" "i < length (ws_cycles w)"
  shows "ws_cycles (foldl (walk_step env inTree) w fs) ! i = ws_cycles w ! i"
  using assms
proof (induction fs arbitrary: es w)
  case (Cons e fs)
  have p: "pins_ok (es @ [e])" "pins_ok ((es @ [e]) @ fs)" using Cons.prems(2) by (auto simp: pins_ok_def)
  from Cons.IH [OF lock_inv_step [OF Cons.prems(1) p(1)] p(2)] dead_step [OF Cons.prems(1) p(1) Cons.prems(3,4)]
  show ?case by simp
qed simp

text \<open>Only an acting fail makes a cycle fail-rejected, and it leaves no live claim on it.\<close>

lemma fail_inv_step:
  assumes inv: "fail_inv es w" and pins: "pins_ok (es @ [e])"
  shows "fail_inv (es @ [e]) (walk_step env inTree w e)"
proof -
  let ?w = "walk_step env inTree w e"
  have lock: "lock_inv es w" using inv by (simp add: fail_inv_def)
  have old: "dead i ?w" if "i < length (ws_cycles w)" "cy_outcome (ws_cycles w ! i) = FailRejected" for i
    using inv that dead_step [OF lock pins] unfolding fail_inv_def by blast
  have "dead i ?w" if i: "i < length (ws_cycles ?w)" and f: "cy_outcome (ws_cycles ?w ! i) = FailRejected" for i
  proof (cases rule: walk_step_cases [of w env inTree e])
    case idle
    then show ?thesis using old i f by (simp add: core_eq_def)
  next
    case (claim node)
    then show ?thesis using old i f by simp
  next
    case (release node)
    then show ?thesis using old i f by simp
  next
    case (first node h)
    then show ?thesis
      using old i f by (cases "i = length (ws_cycles w)") (auto simp: nth_append extended_def new_cycle_def)
  next
    case (extend node h j olds)
    then show ?thesis using old i f by (cases "i = j") (auto simp: extended_def)
  next
    case (fail node h j)
    show ?thesis
    proof (cases "i = j")
      case True
      have "n = node" if "mget (ws_holders w) n = Some h'" "getCycle w n (ho_pin h') = Some j" for n h'
      proof -
        have "cycle_key n (ho_pin h') = cycle_key node (ho_pin h)"
          using lock that fail(2) unfolding lock_inv_def getCycle_def by blast
        moreover have "ho_pin h \<in> claim_pins es" "ho_pin h' \<in> claim_pins es"
          using lock that fail(1) unfolding lock_inv_def by blast+
        ultimately show ?thesis
          using cycle_key_inj claim_pins_blank [OF pins_ok_snoc [OF pins]] by blast
      qed
      then have "getCycle w n (ho_pin h') \<noteq> Some i" if "mget (ws_holders w) n = Some h'" "n \<noteq> node" for n h'
        using that True by blast
      then show ?thesis
        unfolding dead_def getCycle_def fail(3,5) mget_mdel by (metis fun_upd_apply option.discI)
    next
      case False
      then show ?thesis using old i f fail by simp
    qed
  next
    case (pass node h j s c')
    then show ?thesis using old i f by (cases "i = j") auto
  qed
  with lock_inv_step [OF lock pins] show ?thesis by (simp add: fail_inv_def)
qed

lemma fail_inv_run: "pins_ok es \<Longrightarrow> fail_inv es (runWalk env inTree es)"
proof (induction es rule: rev_induct)
  case Nil
  then show ?case
    by (simp add: runWalk_def fail_inv_def lock_inv_def index_inv_def walk_init_def)
next
  case (snoc e es)
  then show ?case using fail_inv_step [of es _ e] pins_ok_snoc by (simp add: runWalk_def)
qed

text \<open>
  C9: an acting fail is final for its cycle. Once a cycle is fail-rejected, nothing that happens
  later changes it: no submission, no vote, no release and no new claim on the node.
\<close>

theorem fail_is_final:
  assumes "pins_ok (es @ fs)" and "i < length (ws_cycles (runWalk env inTree es))"
    and "cy_outcome (ws_cycles (runWalk env inTree es) ! i) = FailRejected"
  shows "ws_cycles (runWalk env inTree (es @ fs)) ! i = ws_cycles (runWalk env inTree es) ! i"
proof -
  have "pins_ok es" using assms(1) by (auto simp: pins_ok_def)
  then have inv: "fail_inv es (runWalk env inTree es)" by (rule fail_inv_run)
  then have "dead i (runWalk env inTree es)" using assms(2,3) by (simp add: fail_inv_def)
  with inv dead_run [of es "runWalk env inTree es" fs i env inTree] assms
  show ?thesis by (simp add: fail_inv_def runWalk_def)
qed


section \<open>Replacing a submission\<close>

text \<open>
  A valid supersede changes the effective submission and nothing else of the vote state. The
  pass votes the node collected for the replaced submission stay counted, and a cycle that was
  already verified stays verified, with an effective submission nobody voted on.
\<close>

theorem supersede_keeps_votes:
  fixes env inTree es
  defines "w \<equiv> runWalk env inTree es"
  assumes "mget (ws_holders w) node = Some h" "getCycle w node (ho_pin h) = Some i"
    and "cy_effective (ws_cycles w ! i) = Some s" "su_pin s \<notin> set (cy_superseded (ws_cycles w ! i))"
    and "ev_path e = ''submission''" "evs e ''node'' = node" "evs e ''claimid'' = ho_pin h"
    and "evs e ''supersedeid'' = su_pin s" "ev_author e = su_author s" "ev_pin e \<noteq> su_pin s"
    and "we_hAct2 env \<le> ev_height e" "we_hAct2 env \<le> su_height s"
    and "node \<noteq> ''''" "ho_pin h \<noteq> ''''" "su_pin s \<noteq> ''''" "\<not> ghost inTree node"
  shows "cy_effective (ws_cycles (walk_step env inTree w e) ! i) = Some (submission_record e)
     \<and> cy_outcome (ws_cycles (walk_step env inTree w e) ! i) = cy_outcome (ws_cycles w ! i)
     \<and> ws_passVoters (walk_step env inTree w e) = ws_passVoters w
     \<and> ws_holders (walk_step env inTree w e) = ws_holders w"
proof -
  let ?c = "ws_cycles w ! i"
  have inv: "walk_inv env es w" unfolding w_def by (rule walk_inv_run)
  then have i: "i < length (ws_cycles w)"
    using assms(3) by (simp add: walk_inv_def index_inv_def getCycle_def)
  then have ch: "chain_ok env ?c" using run_chain_ok unfolding w_def by (metis nth_mem)
  then have s: "s = last (cy_submissions ?c)" "cy_submissions ?c \<noteq> []"
    using assms(4) by (simp_all add: chain_ok_def)
  obtain t where t: "find (\<lambda>x. su_pin x = su_pin s) (cy_submissions ?c) = Some t"
    using s find_None_iff_all [of "\<lambda>x. su_pin x = su_pin s" "cy_submissions ?c"]
    by (cases "find (\<lambda>x. su_pin x = su_pin s) (cy_submissions ?c)") auto
  then have t': "t \<in> set (cy_submissions ?c)" "su_pin t = su_pin s" using find_SomeD by fastforce+
  have "su_author t = su_author s" using ch t'(1) s unfolding chain_ok_def by (metis last_in_set)
  moreover have "we_hAct2 env \<le> su_height t"
  proof (cases "2 \<le> length (cy_submissions ?c)")
    case True
    with ch t' show ?thesis unfolding chain_ok_def by blast
  next
    case False
    with s(2) obtain y where "cy_submissions ?c = [y]"
      by (cases "cy_submissions ?c" rule: remdups_adj.cases) auto
    with t' s assms(13) show ?thesis by simp
  qed
  ultimately have ok: "chainOk env ?c s (submission_record e)"
    using t t' assms(5,9-12) by (simp add: chainOk_def submission_record_def)
  have "walk_step env inTree w e = attach_submission env e node (submission_record e) w i"
    using assms by (simp add: walk_step_def walk_submission_def open_cycle_def)
  then show ?thesis
    using ok assms(4,9,16) i by (simp add: attach_submission_def submission_record_def)
qed

section \<open>Expiry\<close>

lemma expire_step_other:
  "ws_cycles (expire_step env w x) = ws_cycles w"
  "ws_cycleByNodeClaim (expire_step env w x) = ws_cycleByNodeClaim w"
  by (simp_all add: expire_step_def expire_node_def split: option.splits)

lemma expire_step_frame:
  "n \<noteq> fst x \<Longrightarrow> mget (ws_holders (expire_step env w x)) n = mget (ws_holders w) n
     \<and> mget (ws_passVoters (expire_step env w x)) n = mget (ws_passVoters w) n
     \<and> mget (ws_nodeOutcome (expire_step env w x)) n = mget (ws_nodeOutcome w) n"
  by (simp add: expire_step_def expire_node_def split: option.splits)

lemma expiry_reason_cong:
  assumes "ws_cycles w' = ws_cycles w" "ws_cycleByNodeClaim w' = ws_cycleByNodeClaim w"
    and "mget (ws_passVoters w') n = mget (ws_passVoters w) n"
  shows "expiry_reason env w' n h = expiry_reason env w n h"
  unfolding expiry_reason_def live_effective_def getCycle_def assms ..

lemma expire_fold:
  assumes "distinct (map fst hs)"
  shows "ws_cycles (foldl (expire_step env) w hs) = ws_cycles w
     \<and> mget (ws_holders (foldl (expire_step env) w hs)) n =
         (case mget hs n of None \<Rightarrow> mget (ws_holders w) n
          | Some h \<Rightarrow> (case expiry_reason env w n h of None \<Rightarrow> mget (ws_holders w) n | Some r \<Rightarrow> None))
     \<and> mget (ws_nodeOutcome (foldl (expire_step env) w hs)) n =
         (case mget hs n of None \<Rightarrow> mget (ws_nodeOutcome w) n
          | Some h \<Rightarrow> (case expiry_reason env w n h of None \<Rightarrow> mget (ws_nodeOutcome w) n | Some r \<Rightarrow> Some r))"
  using assms
proof (induction hs arbitrary: w)
  case (Cons x hs)
  have rc: "expiry_reason env (expire_step env w x) n h = expiry_reason env w n h" if "n \<noteq> fst x" for h
    using expire_step_other expire_step_frame [OF that] by (intro expiry_reason_cong) auto
  have "mget hs (fst x) = None" using Cons.prems by (simp add: map_of_eq_None_iff)
  then show ?case
    using Cons.IH [of "expire_step env w x"] Cons.prems rc expire_step_frame [of n x env w]
      expire_step_other [of env w x]
    by (cases "n = fst x") (auto simp: expire_step_def expire_node_def split: option.splits)
qed simp

lemma holders_distinct_step:
  "distinct (mkeys (ws_holders w)) \<Longrightarrow> distinct (mkeys (ws_holders (walk_step env inTree w e)))"
  by (cases rule: walk_step_cases [of w env inTree e]) (auto simp: core_eq_def)

lemma holders_distinct: "distinct (mkeys (ws_holders (runWalk env inTree es)))"
  unfolding runWalk_def
  by (induction es rule: rev_induct) (simp_all add: walk_init_def mkeys_def holders_distinct_step [unfolded mkeys_def])

text \<open>
  Expiry is judged node by node. With a clock, the pass frees exactly the nodes whose live
  claim has run out (no submission within the claim limit, or no quorum within the review
  window) and records why; every other node keeps its claim and its outcome, and no cycle changes.
\<close>

theorem expiry_pointwise:
  fixes env inTree es
  defines "w \<equiv> runWalk env inTree es"
  assumes "we_hasNow env"
  shows "ws_cycles (applyExpiry env w) = ws_cycles w
     \<and> mget (ws_holders (applyExpiry env w)) n =
         (case mget (ws_holders w) n of None \<Rightarrow> None
          | Some h \<Rightarrow> if expiry_reason env w n h = None then Some h else None)
     \<and> mget (ws_nodeOutcome (applyExpiry env w)) n =
         (case mget (ws_holders w) n of None \<Rightarrow> mget (ws_nodeOutcome w) n
          | Some h \<Rightarrow> (case expiry_reason env w n h of None \<Rightarrow> mget (ws_nodeOutcome w) n | Some r \<Rightarrow> Some r))"
proof -
  have "distinct (map fst (ws_holders w))"
    using holders_distinct [of env inTree es] by (simp add: w_def mkeys_def)
  from expire_fold [OF this, of env w n] assms(2) show ?thesis
    by (auto simp: applyExpiry_def split: option.splits)
qed

section \<open>A concrete timeline\<close>

definition demo_pin :: "string \<Rightarrow> string \<Rightarrow> string \<Rightarrow> int \<Rightarrow> (string \<times> string) list \<Rightarrow> chain_event" where
  "demo_pin pin path author height body =
     \<lparr>ev_pin = pin, ev_path = path, ev_author = author, ev_height = height, ev_tx = 0,
      ev_ts = height * 1000, ev_body = map (\<lambda>(k, v). (k, JStr v)) body\<rparr>"

definition demo_walk_env :: walk_env where
  "demo_walk_env = \<lparr>we_rootAuthor = ''pub'', we_quorum = 2, we_hAct = 190000, we_hAct2 = 191500,
     we_groups = [], we_subAuthor = [(''s1'', ''alice''), (''s2'', ''alice''), (''s3'', ''dora'')],
     we_acting = [''v1'', ''v2'', ''f1''], we_hasNow = True, we_now = 400000000, we_ttlHours = 24, we_windowHours = 72\<rparr>"

definition demo_claim1 :: chain_event where
  "demo_claim1 = demo_pin ''c1'' ''claim'' ''alice'' 191600 [(''node'', ''n'')]"

definition demo_submit1 :: chain_event where
  "demo_submit1 = demo_pin ''s1'' ''submission'' ''alice'' 191601 [(''node'', ''n''), (''claimid'', ''c1'')]"

definition demo_supersede :: chain_event where
  "demo_supersede = demo_pin ''s2'' ''submission'' ''alice'' 191605
     [(''node'', ''n''), (''claimid'', ''c1''), (''supersedeid'', ''s1'')]"

definition demo_vote :: "string \<Rightarrow> string \<Rightarrow> string \<Rightarrow> string \<Rightarrow> chain_event" where
  "demo_vote pin author target verdict =
     demo_pin pin ''verify'' author 191603 [(''targetid'', target), (''verdict'', verdict)]"

definition demo_verified :: "chain_event list" where
  "demo_verified = [demo_claim1, demo_submit1, demo_vote ''v1'' ''bob'' ''s1'' ''pass'',
     demo_vote ''v2'' ''carol'' ''s1'' ''pass'']"

lemma demo_verified_run:
  "map cy_outcome (ws_cycles (runWalk demo_walk_env None demo_verified)) = [Verified]"
  "map (map_option su_pin \<circ> cy_effective) (ws_cycles (runWalk demo_walk_env None demo_verified)) = [Some ''s1'']"
  by code_simp+

lemma demo_verified_cycle:
  "\<exists>c. c \<in> set (ws_cycles (runWalk demo_walk_env None demo_verified)) \<and> cy_outcome c = Verified"
  using demo_verified_run(1) by auto

theorem supersede_chain_witness:
  "\<exists>c. c \<in> set (ws_cycles (runWalk demo_walk_env None (demo_verified @ [demo_supersede])))
     \<and> cy_superseded c = [''s1''] \<and> cy_effective c = Some (last (cy_submissions c))"
proof -
  have "map cy_superseded (ws_cycles (runWalk demo_walk_env None (demo_verified @ [demo_supersede]))) = [[''s1'']]"
    by code_simp
  then obtain c where c: "c \<in> set (ws_cycles (runWalk demo_walk_env None (demo_verified @ [demo_supersede])))"
    "cy_superseded c = [''s1'']" by auto
  with supersede_chain [OF c(1)] show ?thesis by blast
qed

theorem quorum_integrity_witness:
  "\<exists>V. 2 \<le> int (card V) \<and> ''pub'' \<notin> V
     \<and> (\<forall>a \<in> V. \<exists>v \<in> set demo_verified. ev_author v = a \<and> ev_path v = ''verify'')"
proof -
  obtain c where c: "c \<in> set (ws_cycles (runWalk demo_walk_env None demo_verified))" "cy_outcome c = Verified"
    using demo_verified_cycle by blast
  have "list_all (\<lambda>e. ev_path e = ''submission'' \<longrightarrow> subAuthor demo_walk_env (ev_pin e) = ev_author e) demo_verified"
    by code_simp
  then have "\<forall>e \<in> set demo_verified. ev_path e = ''submission'' \<longrightarrow> subAuthor demo_walk_env (ev_pin e) = ev_author e"
    by (simp add: list_all_iff)
  from quorum_integrity [OF c this]
  have "\<exists>V. 2 \<le> int (card V) \<and> ''pub'' \<notin> V \<and> (\<forall>s \<in> set (cy_submissions c). su_author s \<notin> V)
     \<and> (\<forall>a \<in> V. \<exists>v \<in> set demo_verified. ev_author v = a \<and> ev_path v = ''verify''
          \<and> ev_pin v \<in> set (we_acting demo_walk_env) \<and> evs v ''verdict'' = ''pass''
          \<and> evs v ''targetid'' \<in> su_pin ` set (cy_submissions c))"
    by (simp add: demo_walk_env_def)
  then show ?thesis by blast
qed

definition demo_failed :: "chain_event list" where
  "demo_failed = [demo_claim1, demo_submit1, demo_vote ''f1'' ''bob'' ''s1'' ''fail'']"

definition demo_again :: "chain_event list" where
  "demo_again = [demo_pin ''c2'' ''claim'' ''dora'' 191610 [(''node'', ''n'')],
     demo_pin ''s3'' ''submission'' ''dora'' 191611 [(''node'', ''n''), (''claimid'', ''c2'')],
     demo_vote ''v1'' ''bob'' ''s1'' ''pass'']"

theorem fail_is_final_witness:
  "ws_cycles (runWalk demo_walk_env None (demo_failed @ demo_again)) ! 0
     = ws_cycles (runWalk demo_walk_env None demo_failed) ! 0
   \<and> length (ws_cycles (runWalk demo_walk_env None (demo_failed @ demo_again))) = 2"
proof
  have out: "map cy_outcome (ws_cycles (runWalk demo_walk_env None demo_failed)) = [FailRejected]"
    by code_simp
  then have "0 < length (ws_cycles (runWalk demo_walk_env None demo_failed))"
    "cy_outcome (ws_cycles (runWalk demo_walk_env None demo_failed) ! 0) = FailRejected"
    by (auto simp: map_eq_Cons_conv)
  moreover have "pins_ok (demo_failed @ demo_again)"
    by (simp add: pins_ok_def demo_failed_def demo_again_def demo_claim1_def demo_submit1_def demo_vote_def demo_pin_def)
  ultimately show "ws_cycles (runWalk demo_walk_env None (demo_failed @ demo_again)) ! 0
     = ws_cycles (runWalk demo_walk_env None demo_failed) ! 0"
    by (intro fail_is_final)
  show "length (ws_cycles (runWalk demo_walk_env None (demo_failed @ demo_again))) = 2" by code_simp
qed

text \<open>The cycle is verified, its effective submission is s2, and no ballot of the run is on s2.\<close>

theorem supersede_keeps_votes_witness:
  "cy_outcome (ws_cycles (runWalk demo_walk_env None (demo_verified @ [demo_supersede])) ! 0) = Verified
   \<and> cy_effective (ws_cycles (runWalk demo_walk_env None (demo_verified @ [demo_supersede])) ! 0)
       = Some (submission_record demo_supersede)
   \<and> list_all (\<lambda>e. evs e ''targetid'' \<noteq> ''s2'') demo_verified"
proof -
  let ?w = "runWalk demo_walk_env None demo_verified"
  have run: "runWalk demo_walk_env None (demo_verified @ [demo_supersede])
      = walk_step demo_walk_env None ?w demo_supersede"
    by (simp add: runWalk_def)
  have "mget (ws_holders ?w) ''n'' = Some (holder_of demo_claim1)" by code_simp
  moreover have "getCycle ?w ''n'' ''c1'' = Some 0" by code_simp
  moreover have "cy_effective (ws_cycles ?w ! 0) = Some (submission_record demo_submit1)" by code_simp
  moreover have "cy_superseded (ws_cycles ?w ! 0) = []" by code_simp
  moreover have "cy_outcome (ws_cycles ?w ! 0) = Verified" by code_simp
  moreover have "list_all (\<lambda>e. evs e ''targetid'' \<noteq> ''s2'') demo_verified" by code_simp
  ultimately show ?thesis
    unfolding run
    using supersede_keeps_votes [of demo_walk_env None demo_verified "''n''" "holder_of demo_claim1" 0
        "submission_record demo_submit1" demo_supersede]
    by (simp add: holder_of_def demo_claim1_def demo_submit1_def demo_supersede_def demo_pin_def
        submission_record_def jget_def strAny_def demo_walk_env_def ghost_def)
qed

theorem expiry_pointwise_witness:
  "mget (ws_holders (applyExpiry demo_walk_env (runWalk demo_walk_env None [demo_claim1]))) ''n'' = None
   \<and> mget (ws_nodeOutcome (applyExpiry demo_walk_env (runWalk demo_walk_env None [demo_claim1]))) ''n''
       = Some ''expired_claim''"
proof -
  let ?w = "runWalk demo_walk_env None [demo_claim1]"
  have "we_hasNow demo_walk_env" by (simp add: demo_walk_env_def)
  moreover have "mget (ws_holders ?w) ''n'' = Some (holder_of demo_claim1)" by code_simp
  moreover have "expiry_reason demo_walk_env ?w ''n'' (holder_of demo_claim1) = Some ''expired_claim''" by code_simp
  ultimately show ?thesis using expiry_pointwise [of demo_walk_env None "[demo_claim1]" "''n''"] by simp
qed

end
