(* ===== verification/ReplayProps.thy ===== *)
theory ReplayProps
  imports Replay121 SettleProps FinalProps AmendProps WalkProps
begin

text \<open>
  The replay as a whole: the errors it can report, what its settlement pays, who verified its
  nodes, and that its result does not depend on the order its events are given in.
\<close>

section \<open>The tree and the node order of a replay\<close>

lemma add_initial_wf: "tree_wf (fst st) \<Longrightarrow> tree_wf (fst (add_initial st raw))"
  by (auto simp: add_initial_def Let_def tree_wf_mput split: option.splits)

lemma initial_tree_wf: "tree_wf (fst (initial_tree treePin))"
proof -
  have "tree_wf (fst (foldl add_initial st raws))" if "tree_wf (fst st)" for st raws
    using that by (induction raws arbitrary: st) (simp_all add: add_initial_wf)
  then show ?thesis
    by (auto simp: initial_tree_def tree_wf_def mkeys_def split: option.splits)
qed

lemma foldAmends_wf: "foldAmends env initial order amends = Some st \<Longrightarrow> tree_wf initial \<Longrightarrow> tree_wf (fs_nodes st)"
  unfolding foldAmends_def
  by (rule amend_steps_inv [where I = "\<lambda>st. tree_wf (fs_nodes st)"])
     (auto simp: fold_init_def dest: amend_step_tree_wf)

lemma replay_fold_wf: "replay_fold events su = Some fs \<Longrightarrow> tree_wf (fs_nodes fs)"
  using initial_tree_wf [of "ts_treePin su"]
  by (auto simp: replay_fold_def Let_def intro: foldAmends_wf split: prod.splits)

lemma node_order_distinct: "tree_wf (fs_nodes fs) \<Longrightarrow> distinct (node_order_of su fs w)"
  using distinct_map_slice_stable [of "\<lambda>x. x" node_less]
  by (auto simp: node_order_of_def tree_wf_def split: option.splits)

section \<open>Errors\<close>

lemma final_depth_enough: "\<exists>r. final_nodes (final_fuel fs) (final_env_of su fs w) c ns = Some r"
proof (rule final_nodes_depth)
  let ?U = "set (map tn_id (List.map_filter (mget (fs_nodes fs)) (fs_order fs)))"
  show "finite ?U" by simp
  show "\<forall>n. set (fe_children (final_env_of su fs w) n) \<subseteq> ?U"
    by (auto simp: final_env_of_def childrenOf_def)
  have "length (List.map_filter f xs) \<le> length xs" for f :: "'a \<Rightarrow> 'b option" and xs
    by (induction xs) (auto simp: List.map_filter_simps split: option.splits)
  then have "card ?U \<le> length (fs_order fs)"
    by (metis card_length length_map order_trans)
  then show "card ?U + 2 \<le> final_fuel fs" by (simp add: final_fuel_def)
qed

lemma final_nodes_verified:
  assumes "final_nodes k env [] ns = Some fin"
  shows "set fin \<subseteq> set ns \<and> (\<forall>n \<in> set fin. vote_verified env n)"
proof -
  have "vote_verified env n" if "final_ok env n" for n using that by cases
  with final_nodes_filter [OF assms] show ?thesis by (auto simp: memo_ok_def)
qed

lemma settle_node_some:
  assumes "\<And>a. 0 \<le> acc a" and "\<And>v. v \<in> set votes \<Longrightarrow> 0 < acc (ev_author v)"
  shows "\<exists>m'. settle_node rootAuthor sigma acc w s votes m = Some m'"
proof (cases "cycle_votes rootAuthor s votes")
  case Nil
  then show ?thesis by (simp add: settle_node_def Let_def)
next
  case (Cons v vs)
  then have "v \<in> set (cycle_votes rootAuthor s votes)" by simp
  then have "v \<in> set votes" by (simp add: cycle_votes_def)
  then have "0 < acc (ev_author v)" by (rule assms(2))
  moreover have "0 \<le> sum_list (map (\<lambda>v. acc (ev_author v)) vs)"
    by (rule sum_list_nonneg) (use assms(1) in auto)
  ultimately show ?thesis using Cons by (auto simp: settle_node_def Let_def)
qed

lemma settle_nodes_some: "(\<And>n m. \<exists>m'. f n m = Some m') \<Longrightarrow> \<exists>m'. settle_nodes f ns m = Some m'"
proof (induction ns arbitrary: m)
  case (Cons n ns)
  from Cons.prems [of n m] obtain m1 where "f n m = Some m1" by blast
  with Cons show ?case by simp
qed simp

lemma activeCycle_mem: "activeCycle w n = Some c \<Longrightarrow> c \<in> set (ws_cycles w) \<and> cy_node c = n"
  by (auto simp: activeCycle_def dest!: find_SomeD)

lemma final_pin_cycle:
  assumes "final_nodes k (final_env_of su fs w) [] ns = Some fin" "p \<in> set (pins_of_nodes w fin)"
  obtains n c s where "n \<in> set fin" "activeCycle w n = Some c" "cy_outcome c = Verified"
    "cy_effective c = Some s" "su_pin s = p"
proof -
  from assms(2) obtain n c where n: "n \<in> set fin" "activeCycle w n = Some c" "effective_pin c = Some p"
    by (auto simp: pins_of_nodes_def map_filter_def split: option.splits)
  with final_nodes_verified [OF assms(1)] have "vote_verified (final_env_of su fs w) n" by auto
  with n that show ?thesis
    by (auto simp: vote_verified_def final_env_of_def effective_pin_def)
qed

lemma replay_settlement_some:
  assumes "final_nodes k (final_env_of su fs w) [] ns = Some fin"
  shows "\<exists>m. replay_settlement su fs w order (pins_of_nodes w fin) (participants_of su w order fin) boundary hash = Inr m"
proof -
  let ?votes = "votesByTarget (ts_prepass su)"
  let ?ps = "participants_of su w order fin"
  have "0 < accuracy ?ps (ev_author v)" if "p \<in> set (pins_of_nodes w fin)" "v \<in> set (?votes p)" for p v
  proof -
    from that(1) obtain n c s where "activeCycle w n = Some c" "cy_outcome c = Verified"
      "cy_effective c = Some s" "su_pin s = p"
      by (rule final_pin_cycle [OF assms])
    with that(2) activeCycle_mem show ?thesis
      unfolding participants_of_def Let_def by (intro accuracy_pos reviewers_counted) auto
  qed
  then have "\<exists>m'. settle_step r sigma (accuracy ?ps) weights (activeCycle w) (pins_of_nodes w fin) ?votes n m = Some m'"
    for r sigma weights n m
    using settle_node_some [of "accuracy ?ps", OF accuracy_nonneg]
    by (auto simp: settle_step_def Let_def split: option.splits)
  then obtain parts where "settle_nodes (settle_step (we_rootAuthor (ts_env su)) (sigma_of (split_map (ts_policy su)))
      (accuracy ?ps) (settlement_weights (fs_nodes fs) order) (activeCycle w) (pins_of_nodes w fin) ?votes) order [] = Some parts"
    using settle_nodes_some by metis
  moreover from manifest_some obtain m where "make_manifest (ev_pin (ts_root su)) boundary hash
      (settlement_weights (fs_nodes fs) order) parts (ws_cycles w) = Inr m" by blast
  ultimately show ?thesis by (simp add: replay_settlement_def Let_def)
qed

lemma replay_finish_some: "\<exists>r. replay_finish events opts su fs = Inr r"
proof -
  let ?w = "walk_and_expire su (in_tree_of su fs)"
  let ?order = "node_order_of su fs ?w"
  obtain fin where fin: "final_nodes (final_fuel fs) (final_env_of su fs ?w) [] ?order = Some fin"
    using final_depth_enough by blast
  from eventSetHash_some obtain hash where
    hash: "eventSetHash (hash_scoped (ev_pin (ts_root su)) (evs (ts_root su) ''treeid'') (evs (ts_root su) ''specid'')
         (known_target su) (byPath events)) = Some hash" by blast
  from replay_settlement_some [OF fin] obtain m where
    "replay_settlement su fs ?w ?order (pins_of_nodes ?w fin) (participants_of su ?w ?order fin)
       (boundaryBlock (hash_scoped (ev_pin (ts_root su)) (evs (ts_root su) ''treeid'') (evs (ts_root su) ''specid'')
         (known_target su) (byPath events))) hash = Inr m" by blast
  with fin hash show ?thesis
    by (auto simp: replay_finish_def Let_def split: prod.splits)
qed

text \<open>
  C6: the only error of a replay is a missing task pin. Division by zero, a failing canonical encoding,
  a share that is not the sum of its parts and a too small recursion bound are all impossible,
  whatever the events hold.
\<close>

theorem replay_errors:
  assumes "ReplayV121 events opts = Some out"
  shows "(case out of Inl e \<Rightarrow> e = NoTaskRoot \<and> find_root (op_rootPinID opts) (byPath events ''task'') = None
          | Inr r \<Rightarrow> find_root (op_rootPinID opts) (byPath events ''task'') \<noteq> None)"
proof (cases "replay_setup events opts")
  case None
  with assms show ?thesis
    by (auto simp: ReplayV121_def replay_setup_def Let_def split: option.splits)
next
  case (Some su)
  with assms obtain fs where out: "out = replay_finish events opts su fs"
    by (auto simp: ReplayV121_def split: option.splits)
  obtain r where "out = Inr r" using replay_finish_some out by blast
  with Some show ?thesis by (auto simp: replay_setup_def Let_def split: option.splits)
qed

lemma replay_result:
  assumes "ReplayV121 events opts = Some (Inr r)"
  obtains su fs where "replay_setup events opts = Some su" "replay_fold events su = Some fs"
    "replay_finish events opts su fs = Inr r"
  using assms by (auto simp: ReplayV121_def split: option.splits)

lemma replay_finish_settlement:
  assumes "replay_finish events opts su fs = Inr r" "r_settlement r = Some m"
  obtains w fin ps boundary hash where "replay_settlement su fs w (node_order_of su fs w) (pins_of_nodes w fin) ps boundary hash = Inr m"
  using assms by (fastforce simp: replay_finish_def Let_def split: option.splits prod.splits sum.splits if_splits)


interpretation share_ord: total_order_on share_less sh_metaID
proof -
  have "total_order_on (\<lambda>(a::share) b. if - sh_shareBP a \<noteq> - sh_shareBP b then - sh_shareBP a < - sh_shareBP b
      else string_less (sh_metaID a) (sh_metaID b)) sh_metaID"
    by (intro total_order_on_lex total_order_on_inv [OF string_order])
  moreover have "(\<lambda>(a::share) b. if - sh_shareBP a \<noteq> - sh_shareBP b then - sh_shareBP a < - sh_shareBP b
      else string_less (sh_metaID a) (sh_metaID b)) = share_less"
    by (auto simp: share_less_def fun_eq_iff)
  ultimately show "total_order_on share_less sh_metaID" by (simp only:)
qed

lemma share_of_simps [simp]:
  "sh_metaID (share_of kv) = fst kv" "sh_submittedBP (share_of kv) = sp_submittedBP (snd kv)"
  "sh_reviewedBP (share_of kv) = sp_reviewedBP (snd kv)"
  "sh_shareBP (share_of kv) = sp_submittedBP (snd kv) + sp_reviewedBP (snd kv)"
  by (simp_all add: share_of_def)

lemma make_manifest_shares:
  assumes "make_manifest taskID boundary hash weights parts cycles = Inr m"
  shows "mf_shares m = slice_stable share_less (map share_of parts)" "mf_shareSumBP m = paid parts"
  using assms by (auto simp: make_manifest_def Let_def paid_def comp_def split: option.splits)

lemma replay_settlement_paid:
  assumes "replay_settlement su fs w order finalPins ps boundary hash = Inr m" "distinct order"
  obtains parts where "make_manifest (ev_pin (ts_root su)) boundary hash (settlement_weights (fs_nodes fs) order) parts
      (ws_cycles w) = Inr m" "shares_ok parts" "paid parts \<le> 10000"
proof -
  let ?sigma = "sigma_of (split_map (ts_policy su))" and ?W = "settlement_weights (fs_nodes fs) order"
  let ?f = "settle_step (we_rootAuthor (ts_env su)) ?sigma (accuracy ps) ?W (activeCycle w) finalPins
      (votesByTarget (ts_prepass su))"
  from assms(1) obtain parts where parts: "settle_nodes ?f order [] = Some parts"
    "make_manifest (ev_pin (ts_root su)) boundary hash ?W parts (ws_cycles w) = Inr m"
    by (auto simp: replay_settlement_def Let_def split: option.splits sum.splits manifest_error.splits)
  have sigma: "0 \<le> ?sigma" "?sigma \<le> 10000"
    using sigma_of_bounds [of "split_map (ts_policy su)"] by (auto simp: SubmitterShareBPMin_def SubmitterShareBPMax_def)
  have "paid parts \<le> paid [] + sum_list (map (\<lambda>n. max 0 (count_of ?W n)) order)
      \<and> (shares_ok [] \<longrightarrow> shares_ok parts)"
    by (rule settle_nodes_paid [OF _ parts(1)]) (rule settle_step_paid [OF _ sigma accuracy_nonneg])
  moreover have "paid [] = 0" "shares_ok []" by (simp_all add: paid_def shares_ok_def mkeys_def)
  ultimately show ?thesis using settlement_weights_sum [OF assms(2), of "fs_nodes fs"] parts(2) that by auto
qed

text \<open>
  C4: the shares of a settlement. They are not negative, split into a submitted and a reviewed
  part, at most one per bot, sorted by share and then by id, and their sum is the recorded one,
  which never exceeds 10000 basis points.
\<close>

theorem settlement_shares:
  assumes "ReplayV121 events opts = Some (Inr r)" "r_settlement r = Some m"
  shows "0 \<le> mf_shareSumBP m \<and> mf_shareSumBP m \<le> 10000
     \<and> mf_shareSumBP m = sum_list (map sh_shareBP (mf_shares m))
     \<and> (\<forall>s \<in> set (mf_shares m). 0 \<le> sh_submittedBP s \<and> 0 \<le> sh_reviewedBP s
           \<and> sh_shareBP s = sh_submittedBP s + sh_reviewedBP s)
     \<and> distinct (map sh_metaID (mf_shares m))
     \<and> sorted_wrt (\<lambda>a b. \<not> share_less b a) (mf_shares m)"
proof -
  from assms(1) obtain su fs where rf: "replay_fold events su = Some fs" "replay_finish events opts su fs = Inr r"
    by (rule replay_result)
  from rf(2) assms(2) obtain w fin ps boundary hash where
    "replay_settlement su fs w (node_order_of su fs w) (pins_of_nodes w fin) ps boundary hash = Inr m"
    by (rule replay_finish_settlement)
  from this node_order_distinct [OF replay_fold_wf [OF rf(1)]]
  obtain parts where p: "make_manifest (ev_pin (ts_root su)) boundary hash
      (settlement_weights (fs_nodes fs) (node_order_of su fs w)) parts (ws_cycles w) = Inr m"
    "shares_ok parts" "paid parts \<le> 10000"
    by (rule replay_settlement_paid)
  have "0 \<le> paid parts" unfolding paid_def by (rule sum_list_nonneg) (use p(2) in \<open>auto simp: shares_ok_def\<close>)
  moreover have "distinct (map sh_metaID (map share_of parts))"
    using p(2) by (simp add: shares_ok_def mkeys_def comp_def)
  ultimately show ?thesis
    using make_manifest_shares [OF p(1)] p(2,3) share_ord.sorted [of "map share_of parts"]
    by (auto simp: shares_ok_def paid_def comp_def)
qed

section \<open>Order of arrival\<close>

lemma byPath_perm:
  assumes "mset xs = mset ys" "inj_on ev_pin (set xs)"
  shows "byPath xs = byPath ys"
  unfolding byPath_def fun_eq_iff
  by (intro allI sortChainEvents_perm filter_mset_eq assms inj_on_filter)

lemma replay_by_path: "byPath xs = byPath ys \<Longrightarrow> ReplayV121 xs opts = ReplayV121 ys opts"
proof -
  assume eq: "byPath xs = byPath ys"
  have "replay_setup xs = replay_setup ys"
    unfolding fun_eq_iff replay_setup_def eq by blast
  moreover have "replay_fold xs = replay_fold ys"
    unfolding fun_eq_iff replay_fold_def amends_of_def eq by blast
  moreover have "replay_finish xs = replay_finish ys"
    unfolding fun_eq_iff replay_finish_def challenges_of_def eq by blast
  ultimately show ?thesis by (simp only: ReplayV121_def)
qed

text \<open>
  C8: a replay does not depend on the order its events arrive in, as long as no two of them share a
  pin id.
\<close>

theorem replay_order_independent:
  assumes "mset xs = mset ys" "inj_on ev_pin (set xs)"
  shows "ReplayV121 xs opts = ReplayV121 ys opts"
  by (rule replay_by_path [OF byPath_perm [OF assms]])

section \<open>When a task is settled\<close>

lemma replay_finish_fields:
  assumes "replay_finish events opts su fs = Inr r"
  obtains "r_walk r = walk_and_expire su (in_tree_of su fs)"
    "r_nodeOrder r = node_order_of su fs (r_walk r)"
    "final_nodes (final_fuel fs) (final_env_of su fs (r_walk r)) [] (r_nodeOrder r) = Some (r_finalVerified r)"
    "r_quorum r = we_quorum (ts_env su)" "r_publisher r = ev_author (ts_root su)"
    "r_settlement r \<noteq> None \<longleftrightarrow> r_taskComplete r \<and> r_disputedNodes r = []"
    "r_effectiveTree r = fs_nodes fs"
    "r_taskComplete r = task_complete (root_tree_node (fs_nodes fs) (fs_order fs) (ts_treePin su))
       (r_finalVerified r) (r_nodeOrder r)"
    "r_disputedNodes r = map (\<lambda>kv. oc_node (snd kv)) (filter (\<lambda>kv. still_open (activeCycle (r_walk r))
       (pins_of_nodes (r_walk r) (r_finalVerified r)) (snd kv))
       (fst (run_challenges (challenge_env_of su (r_walk r)) (challenges_of events su))))"
    "r_progress r = progress_of (r_nodeOrder r) (r_finalVerified r) (r_disputedNodes r) (ws_holders (r_walk r))"
  using assms
  by (simp add: replay_finish_def Let_def split: option.splits prod.splits sum.splits if_splits)
     (auto)

text \<open>
  A settlement is made exactly when the task is complete and no challenge stands.
\<close>

theorem settlement_gate:
  assumes "ReplayV121 events opts = Some (Inr r)"
  shows "r_settlement r \<noteq> None \<longleftrightarrow> r_taskComplete r \<and> r_disputedNodes r = []"
  using replay_result [OF assms] replay_finish_fields by metis

section \<open>The last valid vote\<close>

definition vote_in_scope :: "walk_env \<Rightarrow> chain_event \<Rightarrow> bool" where
  "vote_in_scope env v \<longleftrightarrow> evs v ''targetid'' \<noteq> '''' \<and> mhas (we_subAuthor env) (evs v ''targetid'')"

definition vote_valid :: "walk_env \<Rightarrow> chain_event \<Rightarrow> bool" where
  "vote_valid env v \<longleftrightarrow> vote_in_scope env v
     \<and> v121GateReason (ev_body v) (ev_height v) (we_hAct env) = '''' \<and> \<not> same_side_vote env v"

lemma vote_prepass_snoc: "vote_prepass env (vs @ [v]) = prepass_vote env (vote_prepass env vs) v"
  by (simp add: vote_prepass_def)

lemma prepass_last_votes:
  "mget (pp_lastVotes (vote_prepass env vs)) (t, a)
     = find (\<lambda>v. vote_valid env v \<and> evs v ''targetid'' = t \<and> ev_author v = a) (rev vs)"
proof (induction vs rule: rev_induct)
  case Nil
  then show ?case by (simp add: vote_prepass_def)
next
  case (snoc v vs)
  then show ?case
    by (auto simp: vote_prepass_snoc prepass_vote_def Let_def vote_valid_def vote_in_scope_def)
qed

lemma prepass_ignored:
  "map ig_pin (pp_ignored (vote_prepass env vs)) = map ev_pin (filter (\<lambda>v. vote_in_scope env v \<and> \<not> vote_valid env v) vs)"
proof (induction vs rule: rev_induct)
  case Nil
  then show ?case by (simp add: vote_prepass_def)
next
  case (snoc v vs)
  then show ?case
    by (auto simp: vote_prepass_snoc prepass_vote_def Let_def vote_valid_def vote_in_scope_def ignore_def)
qed

text \<open>
  C36: one bot, one vote per submission. The pre-pass keeps, for a submission and a bot, the last of
  that bot's ballots that pass the gates, and records every other ballot in scope that fails a gate
  as ignored, in order.
\<close>

theorem last_valid_vote:
  "mget (pp_lastVotes (vote_prepass env vs)) (t, a)
     = find (\<lambda>v. vote_valid env v \<and> evs v ''targetid'' = t \<and> ev_author v = a) (rev vs)
   \<and> map ig_pin (pp_ignored (vote_prepass env vs))
     = map ev_pin (filter (\<lambda>v. vote_in_scope env v \<and> \<not> vote_valid env v) vs)"
  by (simp add: prepass_last_votes prepass_ignored)

section \<open>Who verified a node\<close>

lemma sub_authors_get:
  assumes "inj_on ev_pin (set subs)" "s \<in> set subs"
  shows "mget (sub_authors subs) (ev_pin s) = Some (ev_author s)"
  using assms unfolding sub_authors_def
proof (induction subs rule: rev_induct)
  case (snoc x xs)
  show ?case
  proof (cases "ev_pin s = ev_pin x")
    case True
    then have "s = x" using inj_onD [OF snoc.prems(1) True] snoc.prems(2) by simp
    then show ?thesis by simp
  next
    case False
    then have "s \<in> set xs" using snoc.prems(2) by auto
    with snoc.IH snoc.prems(1) False show ?thesis by (auto intro: inj_on_subset)
  qed
qed simp

lemma set_byPath [simp]: "set (byPath events p) = {e \<in> set events. ev_path e = p}"
  by (simp add: byPath_def)

lemma replay_setup_fields:
  assumes "replay_setup events opts = Some su"
  shows "ts_subs su = sortChainEvents (filter (in_task (ev_pin (ts_root su))) (byPath events ''submission''))"
    and "we_subAuthor (ts_env su) = sub_authors (ts_subs su)"
    and "we_rootAuthor (ts_env su) = ev_author (ts_root su)"
    and "ts_timeline su = timeline_of (byPath events) (ev_pin (ts_root su)) (ts_subs su) (we_acting (ts_env su))"
    and "ts_prepass su = vote_prepass (ts_env su\<lparr>we_acting := []\<rparr>) (byPath events ''verify'')"
    and "we_acting (ts_env su) = acting_pins (ts_prepass su)"
    and "1 \<le> we_quorum (ts_env su)"
  using assms
  by (auto simp: replay_setup_def Let_def setup_env_def quorum_of_def split: option.splits)

lemma timeline_subset: "replay_setup events opts = Some su \<Longrightarrow> set (ts_timeline su) \<subseteq> set events"
  by (auto simp: replay_setup_fields timeline_of_def)

lemma timeline_subAuthor:
  assumes "replay_setup events opts = Some su" "inj_on ev_pin (set events)"
    and "e \<in> set (ts_timeline su)" "ev_path e = ''submission''"
  shows "subAuthor (ts_env su) (ev_pin e) = ev_author e"
proof -
  have "e \<in> set (ts_subs su)"
    using assms(3,4) by (auto simp: replay_setup_fields [OF assms(1)] timeline_of_def)
  moreover have "inj_on ev_pin (set (ts_subs su))"
    using assms(2) by (rule inj_on_subset) (auto simp: replay_setup_fields(1) [OF assms(1)])
  ultimately show ?thesis
    using sub_authors_get [of "ts_subs su" e] by (simp add: subAuthor_def replay_setup_fields(2) [OF assms(1)])
qed

lemma walk_and_expire_cycles: "ws_cycles (walk_and_expire su inTree) = ws_cycles (runWalk (ts_env su) inTree (ts_timeline su))"
proof -
  have "distinct (map fst (ws_holders (runWalk (ts_env su) inTree (ts_timeline su))))"
    using holders_distinct by (simp add: mkeys_def)
  then show ?thesis using expire_fold by (auto simp: walk_and_expire_def applyExpiry_def)
qed

lemma vote_verified_cycle:
  "vote_verified (final_env_of su fs w) n \<Longrightarrow> \<exists>c. activeCycle w n = Some c \<and> cy_outcome c = Verified"
  by (auto simp: vote_verified_def final_env_of_def effective_of_def split: option.splits)

text \<open>
  C7: who verified a node. A node a replay reports finally verified has an active cycle that, on
  the events given, was passed by at least a quorum (never less than one) of different bots, none
  of them the publisher or an author of the cycle's submissions; all submissions and ballots are
  among the events.
\<close>

theorem verified_by_quorum:
  assumes "ReplayV121 events opts = Some (Inr r)" "inj_on ev_pin (set events)" "n \<in> set (r_finalVerified r)"
  shows "\<exists>c V. activeCycle (r_walk r) n = Some c \<and> 1 \<le> r_quorum r \<and> r_quorum r \<le> int (card V)
     \<and> r_publisher r \<notin> V \<and> (\<forall>s \<in> set (cy_submissions c). su_author s \<notin> V)
     \<and> (\<forall>s \<in> set (cy_submissions c). \<exists>e \<in> set events. ev_path e = ''submission'' \<and> s = submission_record e)
     \<and> (\<forall>a \<in> V. \<exists>v \<in> set events. ev_author v = a \<and> ev_path v = ''verify''
          \<and> evs v ''verdict'' = ''pass'' \<and> evs v ''targetid'' \<in> su_pin ` set (cy_submissions c))"
proof -
  from assms(1) obtain su fs where su: "replay_setup events opts = Some su"
    and rf: "replay_finish events opts su fs = Inr r"
    by (rule replay_result)
  let ?es = "ts_timeline su" and ?env = "ts_env su" and ?in = "in_tree_of su fs"
  obtain c where c: "activeCycle (r_walk r) n = Some c" "cy_outcome c = Verified"
    by (rule replay_finish_fields [OF rf]) (use assms(3) final_nodes_verified vote_verified_cycle in metis)
  have walk: "r_walk r = walk_and_expire su ?in" "r_quorum r = we_quorum ?env" "r_publisher r = we_rootAuthor ?env"
    by (rule replay_finish_fields [OF rf], simp add: replay_setup_fields(3) [OF su])+
  have mem: "c \<in> set (ws_cycles (runWalk ?env ?in ?es))"
    using activeCycle_mem [OF c(1)] walk by (simp add: walk_and_expire_cycles)
  have "\<forall>e \<in> set ?es. ev_path e = ''submission'' \<longrightarrow> subAuthor ?env (ev_pin e) = ev_author e"
    using timeline_subAuthor [OF su assms(2)] by blast
  from cycle_quorum [OF mem c(2) this] obtain V where
    V: "we_quorum ?env \<le> int (card V)" "we_rootAuthor ?env \<notin> V" "\<forall>s \<in> set (cy_submissions c). su_author s \<notin> V"
    "\<forall>a \<in> V. \<exists>v \<in> set ?es. ev_author v = a \<and> ev_path v = ''verify'' \<and> ev_pin v \<in> set (we_acting ?env)
         \<and> evs v ''verdict'' = ''pass'' \<and> evs v ''targetid'' \<in> su_pin ` set (cy_submissions c)"
    by blast
  have "\<forall>s \<in> set (cy_submissions c). \<exists>e \<in> set ?es. ev_path e = ''submission'' \<and> s = submission_record e"
    using run_cycle_ok [OF mem] unfolding cycle_ok_def by blast
  with V c(1) walk replay_setup_fields(7) [OF su] timeline_subset [OF su] show ?thesis
    by (intro exI [of _ c] exI [of _ V]) (auto, blast+)
qed

section \<open>Progress\<close>

lemma length_filter_split: "length (filter P xs) + length (filter (\<lambda>x. \<not> P x) xs) = length xs"
  using sum_length_filter_compl [of P xs] .

text \<open>
  Progress counts. Every node of a replay is counted as verified, claimed or open exactly once,
  the verified count is the number of finally verified nodes, and these are listed without
  repetition in display order.
\<close>

theorem progress_partition:
  assumes "ReplayV121 events opts = Some (Inr r)"
  shows "pr_verified (r_progress r) + pr_claimed (r_progress r) + pr_open (r_progress r) = length (r_nodeOrder r)
     \<and> pr_verified (r_progress r) = length (r_finalVerified r)
     \<and> distinct (r_nodeOrder r) \<and> subseq (r_finalVerified r) (r_nodeOrder r)"
proof -
  from assms obtain su fs where fold: "replay_fold events su = Some fs" and rf: "replay_finish events opts su fs = Inr r"
    by (rule replay_result)
  have o: "r_nodeOrder r = node_order_of su fs (r_walk r)"
    "final_nodes (final_fuel fs) (final_env_of su fs (r_walk r)) [] (r_nodeOrder r) = Some (r_finalVerified r)"
    "r_progress r = progress_of (r_nodeOrder r) (r_finalVerified r) (r_disputedNodes r) (ws_holders (r_walk r))"
    by (rule replay_finish_fields [OF rf], simp)+
  have d: "distinct (r_nodeOrder r)" unfolding o(1) by (rule node_order_distinct [OF replay_fold_wf [OF fold]])
  let ?ok = "final_ok (final_env_of su fs (r_walk r))"
  have f: "r_finalVerified r = filter ?ok (r_nodeOrder r)"
    using final_nodes_filter [OF o(2)] by (simp add: memo_ok_def)
  have v: "filter (\<lambda>n. n \<in> set (r_finalVerified r)) (r_nodeOrder r) = r_finalVerified r"
    unfolding f by (rule filter_cong) auto
  let ?open = "filter (\<lambda>n. n \<notin> set (r_finalVerified r)) (r_nodeOrder r)"
  have "length (r_finalVerified r) + length ?open = length (r_nodeOrder r)"
    using length_filter_split [of "\<lambda>n. n \<in> set (r_finalVerified r)" "r_nodeOrder r"] v by simp
  moreover have "length (filter (mhas (ws_holders (r_walk r))) ?open)
      + length (filter (\<lambda>n. \<not> mhas (ws_holders (r_walk r)) n) ?open) = length ?open"
    by (rule length_filter_split)
  ultimately show ?thesis
    unfolding o(3) progress_of_def using d v by (simp add: conj_commute) (simp add: f)
qed

section \<open>A concrete task\<close>

definition demo_event :: "string \<Rightarrow> string \<Rightarrow> string \<Rightarrow> int \<Rightarrow> jobj \<Rightarrow> chain_event" where
  "demo_event pin path author height body =
     \<lparr>ev_pin = pin, ev_path = path, ev_author = author, ev_height = height, ev_tx = 0,
      ev_ts = height * 1000, ev_body = body\<rparr>"

definition demo_ballot :: "string \<Rightarrow> string \<Rightarrow> int \<Rightarrow> string \<Rightarrow> chain_event" where
  "demo_ballot pin author height verdict = demo_event pin ''verify'' author height
     [(''targetid'', JStr ''s1''), (''verdict'', JStr verdict), (''semantic_check'', JStr ''ok'')]"

definition demo_task :: "chain_event list" where
  "demo_task =
     [demo_ballot ''v2'' ''carol'' 191604 ''pass'',
      demo_event ''t'' ''task'' ''pub'' 191600 [(''treeid'', JStr ''tr''), (''title'', JStr ''demo'')],
      demo_event ''tr'' ''tree'' ''pub'' 191600 [(''root'', JStr ''n''),
        (''nodes'', JArr [JObj [(''id'', JStr ''n''), (''weight'', JNum ''10000'')]])],
      demo_event ''c1'' ''claim'' ''alice'' 191601 [(''taskid'', JStr ''t''), (''node'', JStr ''n'')],
      demo_event ''s1'' ''submission'' ''alice'' 191602
        [(''taskid'', JStr ''t''), (''node'', JStr ''n''), (''claimid'', JStr ''c1'')],
      demo_ballot ''v1'' ''bob'' 191603 ''pass'']"

definition demo_opts :: v121_options where
  "demo_opts = \<lparr>op_rootPinID = ''t'', op_nowMs = 0, op_hAct = 0, op_hAct2 = 0, op_rosterPins = []\<rparr>"

lemma demo_replay:
  "case replay_setup demo_task demo_opts of None \<Rightarrow> False
   | Some su \<Rightarrow> (case replay_fold demo_task su of None \<Rightarrow> False
      | Some fs \<Rightarrow> let w = walk_and_expire su (in_tree_of su fs); order = node_order_of su fs w
          in final_nodes (final_fuel fs) (final_env_of su fs w) [] order = Some [''n'']
           \<and> task_complete (root_tree_node (fs_nodes fs) (fs_order fs) (ts_treePin su)) [''n''] order
           \<and> fst (run_challenges (challenge_env_of su w) (challenges_of demo_task su)) = [])"
  by code_simp

lemma demo_result:
  obtains r m where "ReplayV121 demo_task demo_opts = Some (Inr r)" "r_settlement r = Some m"
    "r_finalVerified r = [''n'']"
proof -
  from demo_replay obtain su fs where su: "replay_setup demo_task demo_opts = Some su" "replay_fold demo_task su = Some fs"
    by (auto split: option.splits)
  let ?w = "walk_and_expire su (in_tree_of su fs)"
  let ?order = "node_order_of su fs ?w"
  have d: "final_nodes (final_fuel fs) (final_env_of su fs ?w) [] ?order = Some [''n'']"
    "task_complete (root_tree_node (fs_nodes fs) (fs_order fs) (ts_treePin su)) [''n''] ?order"
    "fst (run_challenges (challenge_env_of su ?w) (challenges_of demo_task su)) = []"
    using demo_replay su by (simp_all add: Let_def)
  obtain r where r: "replay_finish demo_task demo_opts su fs = Inr r" using replay_finish_some by blast
  have f: "r_walk r = ?w" "r_nodeOrder r = node_order_of su fs (r_walk r)"
    "final_nodes (final_fuel fs) (final_env_of su fs (r_walk r)) [] (r_nodeOrder r) = Some (r_finalVerified r)"
    "r_taskComplete r = task_complete (root_tree_node (fs_nodes fs) (fs_order fs) (ts_treePin su))
       (r_finalVerified r) (r_nodeOrder r)"
    "r_disputedNodes r = map (\<lambda>kv. oc_node (snd kv)) (filter (\<lambda>kv. still_open (activeCycle (r_walk r))
       (pins_of_nodes (r_walk r) (r_finalVerified r)) (snd kv))
       (fst (run_challenges (challenge_env_of su (r_walk r)) (challenges_of demo_task su))))"
    "r_settlement r \<noteq> None \<longleftrightarrow> r_taskComplete r \<and> r_disputedNodes r = []"
    by (rule replay_finish_fields [OF r], simp)+
  have fin: "r_finalVerified r = [''n'']" using f(3) d(1) unfolding f(2) f(1) by simp
  then have "r_settlement r \<noteq> None" using f(4-6) d(2,3) unfolding f(2) f(1) by simp
  then show ?thesis using that su r fin by (auto simp: ReplayV121_def)
qed

lemma demo_task_pins: "inj_on ev_pin (set demo_task)"
proof -
  have "distinct (map ev_pin demo_task)" by code_simp
  then show ?thesis by (simp add: distinct_map)
qed

theorem replay_errors_witness:
  "\<exists>r. ReplayV121 demo_task demo_opts = Some (Inr r) \<and> find_root ''t'' (byPath demo_task ''task'') \<noteq> None"
proof -
  obtain r m where "ReplayV121 demo_task demo_opts = Some (Inr r)" by (rule demo_result)
  with replay_errors [OF this] show ?thesis by (auto simp: demo_opts_def)
qed

theorem settlement_shares_witness:
  "\<exists>r m. ReplayV121 demo_task demo_opts = Some (Inr r) \<and> r_settlement r = Some m \<and> mf_shareSumBP m \<le> 10000"
proof -
  obtain r m where "ReplayV121 demo_task demo_opts = Some (Inr r)" "r_settlement r = Some m" by (rule demo_result)
  with settlement_shares [OF this] show ?thesis by blast
qed

theorem settlement_gate_witness:
  "\<exists>r. ReplayV121 demo_task demo_opts = Some (Inr r) \<and> r_taskComplete r \<and> r_disputedNodes r = []"
proof -
  obtain r m where "ReplayV121 demo_task demo_opts = Some (Inr r)" "r_settlement r = Some m" by (rule demo_result)
  with settlement_gate [OF this(1)] show ?thesis by auto
qed

theorem verified_by_quorum_witness:
  "\<exists>r c V. ReplayV121 demo_task demo_opts = Some (Inr r) \<and> activeCycle (r_walk r) ''n'' = Some c
     \<and> 1 \<le> int (card V) \<and> r_publisher r \<notin> V"
proof -
  obtain r m where r: "ReplayV121 demo_task demo_opts = Some (Inr r)" "r_finalVerified r = [''n'']" by (rule demo_result)
  with verified_by_quorum [OF r(1) demo_task_pins, of "''n''"] show ?thesis by force
qed

theorem progress_partition_witness:
  "\<exists>r. ReplayV121 demo_task demo_opts = Some (Inr r) \<and> pr_verified (r_progress r) = 1"
proof -
  obtain r m where r: "ReplayV121 demo_task demo_opts = Some (Inr r)" "r_finalVerified r = [''n'']" by (rule demo_result)
  with progress_partition [OF r(1)] show ?thesis by auto
qed

theorem replay_order_independent_witness:
  "ReplayV121 demo_task demo_opts = ReplayV121 (rev demo_task) demo_opts \<and> demo_task \<noteq> rev demo_task"
proof -
  have "demo_task \<noteq> rev demo_task" by code_simp
  then show ?thesis using replay_order_independent [OF _ demo_task_pins, of "rev demo_task"] by simp
qed

end
