(* ===== verification/PoolSettle.thy ===== *)
theory PoolSettle
  imports Payload
begin

text \<open>
  The pool read path of \<open>settle.go\<close>, metatask-replay v1.2.0: the ballot gate, the claim and release
  timeline, the effective submissions, the ballot collapse, the verdict of a node and the guard
  view with its expiry windows.
\<close>

section \<open>Preparation\<close>

text \<open>The reason a ballot does not count, the empty string for a valid one.\<close>

definition voteInvalid :: "jobj \<Rightarrow> string" where
  "voteInvalid b =
     (if \<not> payloadPresent b ''semantic_check'' then ''missing_semantic_check''
      else if payloadString b ''verdict'' = ''fail'' \<and> \<not> payloadPresent b ''failreason'' then ''missing_failreason''
      else '''')"

record holder_record =
  hr_pin :: string
  hr_claimant :: string
  hr_t0 :: int
  hr_inflight :: bool

record submission_rec =
  sr_pin :: string
  sr_author :: string
  sr_claim :: string
  sr_t :: int
  sr_body :: jobj

record settlement =
  st_root :: string
  st_rootAuthor :: string
  st_task :: jobj
  st_policy :: jobj
  st_quorum :: int
  st_treeID :: string
  st_treeNodes :: "string list"
  st_claims :: "pin list"
  st_releases :: "pin list"
  st_subsPins :: "pin list"
  st_verifies :: "pin list"
  st_rejected :: "pin list"
  st_holders :: "(string, holder_record) gomap"
  st_subs :: "(string, submission_rec) gomap"
  st_last :: "(string \<times> string, jobj) gomap"

definition policyInt :: "jobj \<Rightarrow> string \<Rightarrow> int \<Rightarrow> int" where
  "policyInt policy key deflt = (case payloadNumber policy key of Some f \<Rightarrow> f64_to_int64 f | None \<Rightarrow> deflt)"

definition sortedPins :: "pin list \<Rightarrow> pin list" where
  "sortedPins ps = slice_stable orderLess (filter (\<lambda>p. Accepted (resolvePayload p)) ps)"

definition rejectedPins :: "pools \<Rightarrow> pin list" where
  "rejectedPins events = slice_stable orderLess
     (filter (\<lambda>p. \<not> Accepted (resolvePayload p)) (concat (map (pins_at events) EventPaths)))"

definition findPin :: "pin list \<Rightarrow> string \<Rightarrow> pin option" where
  "findPin ps pid = find (\<lambda>p. pi_id p = pid) ps"

definition tree_id_step :: "string list \<Rightarrow> json \<Rightarrow> string list" where
  "tree_id_step acc n =
     (case as_obj n of
        None \<Rightarrow> acc
      | Some ob \<Rightarrow> let nid = payloadString ob ''id'' in if nid = '''' \<or> nid \<in> set acc then acc else acc @ [nid])"

definition treeNodeIDs :: "jobj \<Rightarrow> string list" where
  "treeNodeIDs b = (case as_arr (jget b ''nodes'') of None \<Rightarrow> [] | Some ns \<Rightarrow> foldl tree_id_step [] ns)"

definition in_root :: "string \<Rightarrow> pin \<Rightarrow> bool" where
  "in_root root_pin p \<longleftrightarrow> payloadString (pin_body p) ''taskid'' = root_pin"

definition pin_node :: "pin \<Rightarrow> string" where
  "pin_node p = payloadString (pin_body p) ''node''"

section \<open>Claims and releases\<close>

definition new_holder :: "pin \<Rightarrow> holder_record" where
  "new_holder p = \<lparr>hr_pin = pi_id p, hr_claimant = pi_globalMetaID p, hr_t0 = pinTimestamp p, hr_inflight = False\<rparr>"

definition claim_timeline :: "string \<Rightarrow> pin list \<Rightarrow> pin list \<Rightarrow> pin list" where
  "claim_timeline root_pin claims releases =
     slice_stable orderLess (filter (in_root root_pin) claims @ filter (in_root root_pin) releases)"

definition claim_walk_step :: "(string, holder_record) gomap \<Rightarrow> pin \<Rightarrow> (string, holder_record) gomap" where
  "claim_walk_step holders p =
     (let node = pin_node p in
      if node = '''' then holders
      else if pi_path p = PathClaim then (if mhas holders node then holders else mput node (new_holder p) holders)
      else (case mget holders node of
              None \<Rightarrow> holders
            | Some h \<Rightarrow> if hr_pin h = payloadString (pin_body p) ''claimid'' then mdel node holders else holders))"

definition walkClaims :: "string \<Rightarrow> pin list \<Rightarrow> pin list \<Rightarrow> (string, holder_record) gomap" where
  "walkClaims root_pin claims releases = foldl claim_walk_step [] (claim_timeline root_pin claims releases)"

section \<open>Submissions and ballots\<close>

definition new_submission :: "string \<Rightarrow> pin \<Rightarrow> submission_rec" where
  "new_submission claimID p = \<lparr>sr_pin = pi_id p, sr_author = pi_globalMetaID p, sr_claim = claimID,
     sr_t = pinTimestamp p, sr_body = pin_body p\<rparr>"

definition sub_walk_step ::
    "string \<Rightarrow> (string, holder_record) gomap \<Rightarrow> (string, submission_rec) gomap \<Rightarrow> pin
     \<Rightarrow> (string, submission_rec) gomap" where
  "sub_walk_step root_pin holders subs p =
     (let node = pin_node p; claimID = payloadString (pin_body p) ''claimid'' in
      if \<not> in_root root_pin p then subs
      else (case mget holders node of
              None \<Rightarrow> subs
            | Some h \<Rightarrow> if hr_pin h \<noteq> claimID \<or> mhas subs node then subs
                        else mput node (new_submission claimID p) subs))"

definition walkSubmissions :: "string \<Rightarrow> (string, holder_record) gomap \<Rightarrow> pin list \<Rightarrow> (string, submission_rec) gomap" where
  "walkSubmissions root_pin holders subsPins = foldl (sub_walk_step root_pin holders) [] subsPins"

definition ballot_target :: "pin \<Rightarrow> string" where
  "ballot_target p = payloadString (pin_body p) ''targetid''"

definition ballot_step :: "(string \<times> string, jobj) gomap \<Rightarrow> pin \<Rightarrow> (string \<times> string, jobj) gomap" where
  "ballot_step m p =
     (if ballot_target p = '''' \<or> pi_globalMetaID p = '''' \<or> voteInvalid (pin_body p) \<noteq> '''' then m
      else mput (ballot_target p, pi_globalMetaID p) (pin_body p) m)"

definition collectBallots :: "pin list \<Rightarrow> (string \<times> string, jobj) gomap" where
  "collectBallots verifies = foldl ballot_step [] verifies"

section \<open>The settlement of a task root\<close>

datatype settle_error = RootNotFound | RootRejected

definition newSettlement :: "pools \<Rightarrow> string \<Rightarrow> settle_error + settlement" where
  "newSettlement events root_pin =
     (let claims = sortedPins (pins_at events PathClaim); releases = sortedPins (pins_at events PathRelease);
          subsPins = sortedPins (pins_at events PathSubmission); verifies = sortedPins (pins_at events PathVerify)
      in case findPin (pins_at events PathTask) root_pin of
           None \<Rightarrow> Inl RootNotFound
         | Some p \<Rightarrow>
             if \<not> Accepted (resolvePayload p) then Inl RootRejected
             else
               let task = pin_body p;
                   policy = (case as_obj (jget task ''policy'') of Some q \<Rightarrow> q | None \<Rightarrow> []);
                   treeID = payloadString task ''treeid'';
                   treeNodes = (if treeID = '''' then []
                                else (case findPin (pins_at events PathTree) treeID of
                                        None \<Rightarrow> []
                                      | Some tp \<Rightarrow> if Accepted (resolvePayload tp) then treeNodeIDs (pin_body tp) else []));
                   holders = walkClaims root_pin claims releases
               in Inr \<lparr>st_root = root_pin, st_rootAuthor = pi_globalMetaID p, st_task = task, st_policy = policy,
                       st_quorum = policyInt policy ''verify_quorum'' 2, st_treeID = treeID, st_treeNodes = treeNodes,
                       st_claims = claims, st_releases = releases, st_subsPins = subsPins, st_verifies = verifies,
                       st_rejected = rejectedPins events, st_holders = holders,
                       st_subs = walkSubmissions root_pin holders subsPins, st_last = collectBallots verifies\<rparr>)"

definition counts_pass :: "string \<Rightarrow> string \<Rightarrow> string \<Rightarrow> jobj \<Rightarrow> bool" where
  "counts_pass rootAuthor author voter b \<longleftrightarrow>
     payloadString b ''verdict'' = ''pass'' \<and> voter \<noteq> author \<and> voter \<noteq> rootAuthor"

definition counts_fail :: "jobj \<Rightarrow> bool" where
  "counts_fail b \<longleftrightarrow> payloadString b ''verdict'' = ''fail''"

definition verifiedSub :: "settlement \<Rightarrow> string \<Rightarrow> submission_rec option \<times> int \<times> int" where
  "verifiedSub s node =
     (case mget (st_subs s) node of
        None \<Rightarrow> (None, 0, 0)
      | Some sub \<Rightarrow>
          let mine = filter (\<lambda>kv. fst (fst kv) = sr_pin sub) (st_last s)
          in (Some sub,
              int (length (filter (\<lambda>kv. counts_pass (st_rootAuthor s) (sr_author sub) (snd (fst kv)) (snd kv)) mine)),
              int (length (filter (\<lambda>kv. counts_fail (snd kv)) mine))))"

definition shortlex :: "string \<Rightarrow> string \<Rightarrow> bool" where
  "shortlex a b = (if length a \<noteq> length b then length a < length b else string_less a b)"

interpretation shortlex_ord: total_order_on shortlex "\<lambda>s. s"
  unfolding shortlex_def [abs_def] by (intro total_order_on_lex string_order)

definition nodeIDSet :: "settlement \<Rightarrow> string list" where
  "nodeIDSet s = slice_stable shortlex (remdups (st_treeNodes s @ mkeys (st_holders s) @ mkeys (st_subs s)))"

section \<open>The guard view\<close>

definition of_node :: "string \<Rightarrow> string \<Rightarrow> pin \<Rightarrow> bool" where
  "of_node root_pin node p \<longleftrightarrow> in_root root_pin p \<and> pin_node p = node"

text \<open>The lock holder on one node's own timeline, and whether an unconfirmed claim ever took it.\<close>

definition guard_claim_step :: "holder_record option \<times> bool \<Rightarrow> pin \<Rightarrow> holder_record option \<times> bool" where
  "guard_claim_step st p =
     (if pi_path p = PathClaim then
        (case fst st of
           None \<Rightarrow> (Some ((new_holder p)\<lparr>hr_inflight := pi_height p < 0\<rparr>), snd st \<or> pi_height p < 0)
         | Some h \<Rightarrow> st)
      else (case fst st of
              None \<Rightarrow> st
            | Some h \<Rightarrow> if hr_pin h = payloadString (pin_body p) ''claimid'' then (None, snd st) else st))"

definition guard_holder :: "settlement \<Rightarrow> string \<Rightarrow> holder_record option \<times> bool" where
  "guard_holder s node = foldl guard_claim_step (None, False)
     (slice_stable orderLess (filter (of_node (st_root s) node) (st_claims s)
        @ filter (of_node (st_root s) node) (st_releases s)))"

definition guard_sub :: "settlement \<Rightarrow> string \<Rightarrow> holder_record \<Rightarrow> submission_rec option" where
  "guard_sub s node h = map_option (new_submission (hr_pin h))
     (find (\<lambda>p. of_node (st_root s) node p \<and> payloadString (pin_body p) ''claimid'' = hr_pin h) (st_subsPins s))"

definition guard_ballots :: "settlement \<Rightarrow> submission_rec \<Rightarrow> (string, jobj) gomap" where
  "guard_ballots s sub = foldl (\<lambda>m p.
     if ballot_target p \<noteq> sr_pin sub \<or> voteInvalid (pin_body p) \<noteq> '''' \<or> pi_globalMetaID p = '''' then m
     else mput (pi_globalMetaID p) (pin_body p) m) [] (st_verifies s)"

definition guard_counts :: "settlement \<Rightarrow> submission_rec option \<Rightarrow> int \<times> int" where
  "guard_counts s osub =
     (case osub of
        None \<Rightarrow> (0, 0)
      | Some sub \<Rightarrow>
          let bs = guard_ballots s sub
          in (int (length (filter (\<lambda>kv. counts_pass (st_rootAuthor s) (sr_author sub) (fst kv) (snd kv)) bs)),
              int (length (filter (\<lambda>kv. counts_fail (snd kv)) bs))))"

definition claim_expired :: "int \<Rightarrow> int \<Rightarrow> holder_record \<Rightarrow> bool" where
  "claim_expired now ttlHours h \<longleftrightarrow> 0 < ttlHours \<and> wrap64 (ttlHours * 3600) < wrap64 (now - hr_t0 h)"

definition window_expired :: "int \<Rightarrow> int \<Rightarrow> submission_rec \<Rightarrow> bool" where
  "window_expired now windowHours sub \<longleftrightarrow> 0 < windowHours \<and> wrap64 (windowHours * 3600) < wrap64 (now - sr_t sub)"

definition guardState :: "settlement \<Rightarrow> string \<Rightarrow> int \<Rightarrow> int \<Rightarrow> int \<Rightarrow> string \<times> string" where
  "guardState s node now ttlHours windowHours =
     (let (holder, inflight) = guard_holder s node;
          sub = (case holder of None \<Rightarrow> None | Some h \<Rightarrow> guard_sub s node h);
          (good, bad) = guard_counts s sub;
          state =
            (if inflight \<and> holder \<noteq> None then ''claimed''
             else if sub \<noteq> None \<and> st_quorum s \<le> good \<and> bad = 0 then ''verified''
             else if sub \<noteq> None \<and> 0 < bad then ''open''
             else if sub = None \<and> (case holder of None \<Rightarrow> False | Some h \<Rightarrow> claim_expired now ttlHours h) then ''open''
             else if (case sub of None \<Rightarrow> False | Some r \<Rightarrow> window_expired now windowHours r) \<and> good < st_quorum s then ''open''
             else if holder \<noteq> None then ''claimed''
             else ''open'')
      in (state, if state \<noteq> ''open'' then ''claim-rejected:'' @ node @ CHR '':'' # state else ''''))"

definition policyTTL :: "settlement \<Rightarrow> int" where
  "policyTTL s = policyInt (st_policy s) ''claim_ttl_hours'' 0"

definition policyWindow :: "settlement \<Rightarrow> int" where
  "policyWindow s = policyInt (st_policy s) ''verify_window_hours'' 0"

section \<open>The ballots of a submission\<close>

record vote =
  vo_pin :: string
  vo_bot :: string
  vo_verdict :: string
  vo_valid :: bool
  vo_reason :: string
  vo_hasSub :: bool
  vo_hasFailReason :: bool
  vo_subType :: string
  vo_height :: int
  vo_tx :: int
  vo_ts :: int
  vo_state :: payload_state

definition vote_of :: "pin \<Rightarrow> vote" where
  "vote_of p =
     (let b = pin_body p
      in \<lparr>vo_pin = pi_id p, vo_bot = pi_globalMetaID p, vo_verdict = payloadString b ''verdict'',
          vo_valid = (voteInvalid b = ''''), vo_reason = voteInvalid b,
          vo_hasSub = payloadPresent b ''semantic_check'', vo_hasFailReason = payloadPresent b ''failreason'',
          vo_subType = payloadTypeName b ''semantic_check'', vo_height = pi_height p, vo_tx = pi_tx p,
          vo_ts = pinTimestamp p, vo_state = pv_state (resolvePayload p)\<rparr>)"

definition vote_pin_less :: "vote \<Rightarrow> vote \<Rightarrow> bool" where
  "vote_pin_less a b = string_less (vo_pin a) (vo_pin b)"

interpretation vote_pin_ord: total_order_on vote_pin_less vo_pin
  unfolding vote_pin_less_def [abs_def] by (rule total_order_on_inv [OF string_order])

text \<open>Valid ballots, invalid ballots, and the raw counts; each list in the order of pin ids.\<close>

definition nodeVotes :: "settlement \<Rightarrow> string \<Rightarrow> vote list \<times> vote list \<times> int \<times> int" where
  "nodeVotes s target =
     (let vs = map vote_of (filter (\<lambda>p. ballot_target p = target) (st_verifies s))
      in (slice_stable vote_pin_less (filter vo_valid vs), slice_stable vote_pin_less (filter (\<lambda>v. \<not> vo_valid v) vs),
          int (length (filter (\<lambda>v. vo_verdict v = ''pass'') vs)), int (length (filter (\<lambda>v. vo_verdict v = ''fail'') vs))))"

definition lastValidByBot :: "vote list \<Rightarrow> (string, vote) gomap" where
  "lastValidByBot valid = foldl (\<lambda>m v. mput (vo_bot v) v m) [] valid"

end
