(* ===== verification/Aggregate.thy ===== *)
theory Aggregate
  imports PoolSettle
begin

text \<open>
  The aggregation of \<open>aggregate.go\<close>: the settled view of every node, the reports of the three
  pools and the fee and time sums of the enumeration. The walk report of the enumeration and the
  formatted time stamp are passed through by the code and left out of the record here.
\<close>

section \<open>Node views\<close>

record node_settlement =
  no_node :: string
  no_status :: string
  no_effectiveStatus :: string
  no_effectiveReason :: string
  no_holder :: string
  no_holderPin :: string
  no_submission :: string
  no_submissionBy :: string
  no_claimOfSub :: string
  no_submissionRec :: nat
  no_effectivePass :: int
  no_validPass :: int
  no_validFail :: int
  no_passRaw :: int
  no_failRaw :: int
  no_invalidVotes :: nat
  no_voterBots :: nat
  no_voters :: "string list"
  no_votes :: "vote list"
  no_claimRecords :: nat
  no_ignoredClaims :: "string list"
  no_releasedPins :: "string list"
  no_ignoredSubs :: "string list"

definition node_verified :: "settlement \<Rightarrow> string \<Rightarrow> bool" where
  "node_verified s node =
     (let (sub, good, bad) = verifiedSub s node in sub \<noteq> None \<and> st_quorum s \<le> good \<and> bad = 0)"

definition node_status :: "settlement \<Rightarrow> string \<Rightarrow> string" where
  "node_status s node =
     (if node_verified s node then ''verified''
      else if mget (st_holders s) node \<noteq> None then ''claimed''
      else ''open'')"

definition last_pass :: "settlement \<Rightarrow> string \<Rightarrow> (string, vote) gomap \<Rightarrow> int" where
  "last_pass s author lasts = int (length (filter (\<lambda>kv. vo_verdict (snd kv) = ''pass'' \<and> fst kv \<noteq> author
     \<and> fst kv \<noteq> st_rootAuthor s) lasts))"

definition last_fail :: "(string, vote) gomap \<Rightarrow> int" where
  "last_fail lasts = int (length (filter (\<lambda>kv. vo_verdict (snd kv) = ''fail'') lasts))"

text \<open>The vote columns: from the ballots of the effective submission, if the node has one.\<close>

definition node_ballots :: "settlement \<Rightarrow> submission_rec \<Rightarrow> node_settlement \<Rightarrow> node_settlement" where
  "node_ballots s sub ns =
     (let (valid, invalid, passRaw, failRaw) = nodeVotes s (sr_pin sub);
          lasts = lastValidByBot valid;
          voters = remdups (map vo_bot (valid @ invalid))
      in ns\<lparr>no_votes := valid @ invalid,
            no_validPass := last_pass s (sr_author sub) lasts, no_validFail := last_fail lasts,
            no_passRaw := passRaw, no_failRaw := failRaw, no_invalidVotes := length invalid,
            no_voterBots := length voters, no_voters := slice_stable string_less voters\<rparr>)"

definition node_settlement :: "settlement \<Rightarrow> int \<Rightarrow> string \<Rightarrow> node_settlement" where
  "node_settlement s now node =
     (let holder = mget (st_holders s) node; (osub, good, bad) = verifiedSub s node;
          verified = node_verified s node; mine = of_node (st_root s) node;
          hpin = (case holder of None \<Rightarrow> '''' | Some h \<Rightarrow> hr_pin h);
          subpin = (case osub of None \<Rightarrow> '''' | Some r \<Rightarrow> sr_pin r);
          (estate, ereason) = guardState s node now (policyTTL s) (policyWindow s);
          ns = \<lparr>no_node = node, no_status = node_status s node,
                no_effectiveStatus = estate, no_effectiveReason = ereason,
                no_holder = (case holder of None \<Rightarrow> '''' | Some h \<Rightarrow> hr_claimant h), no_holderPin = hpin,
                no_submission = subpin,
                no_submissionBy = (case osub of None \<Rightarrow> '''' | Some r \<Rightarrow> sr_author r),
                no_claimOfSub = (case osub of None \<Rightarrow> '''' | Some r \<Rightarrow> sr_claim r),
                no_submissionRec = length (filter mine (st_subsPins s)),
                no_effectivePass = (if verified then good else 0),
                no_validPass = good, no_validFail = bad, no_passRaw = 0, no_failRaw = 0,
                no_invalidVotes = 0, no_voterBots = 0, no_voters = [], no_votes = [],
                no_claimRecords = length (filter mine (st_claims s)),
                no_ignoredClaims = map pi_id (filter (\<lambda>p. holder = None \<or> hpin \<noteq> pi_id p) (filter mine (st_claims s))),
                no_releasedPins = map pi_id (filter mine (st_releases s)),
                no_ignoredSubs = map pi_id (filter (\<lambda>p. subpin \<noteq> pi_id p) (filter mine (st_subsPins s)))\<rparr>
      in case osub of None \<Rightarrow> ns | Some r \<Rightarrow> if sr_pin r = '''' then ns else node_ballots s r ns)"

section \<open>Pool reports\<close>

record rejected_record =
  rj_pin :: string
  rj_state :: string
  rj_reason :: string
  rj_channel :: string

record pool_report =
  pr_pool :: string
  pr_path :: string
  pr_records :: int
  pr_inScope :: int
  pr_effective :: int
  pr_ignored :: int
  pr_rejected :: int
  pr_rejectedRecords :: "rejected_record list"
  pr_participants :: int
  pr_participantBots :: "string list"
  pr_validPass :: int
  pr_validFail :: int
  pr_invalid :: int
  pr_botsVoting :: int
  pr_firstTs :: int
  pr_lastTs :: int
  pr_firstSeen :: int
  pr_lastSeen :: int
  pr_feeSum :: int
  pr_outSum :: int
  pr_confirmed :: int
  pr_mempool :: int

definition empty_report :: "string \<Rightarrow> string \<Rightarrow> pool_report" where
  "empty_report name path = \<lparr>pr_pool = name, pr_path = path, pr_records = 0, pr_inScope = 0, pr_effective = 0,
     pr_ignored = 0, pr_rejected = 0, pr_rejectedRecords = [], pr_participants = 0, pr_participantBots = [],
     pr_validPass = 0, pr_validFail = 0, pr_invalid = 0, pr_botsVoting = 0, pr_firstTs = 0, pr_lastTs = 0,
     pr_firstSeen = 0, pr_lastSeen = 0, pr_feeSum = 0, pr_outSum = 0, pr_confirmed = 0, pr_mempool = 0\<rparr>"

definition earlier :: "int \<Rightarrow> int \<Rightarrow> int" where
  "earlier ts first = (if ts \<noteq> 0 \<and> (first = 0 \<or> ts < first) then ts else first)"

definition later :: "int \<Rightarrow> int \<Rightarrow> int" where
  "later ts lastTs = (if ts \<noteq> 0 \<and> lastTs < ts then ts else lastTs)"

definition accumulatePinMeta :: "pool_report \<Rightarrow> pin \<Rightarrow> pool_report" where
  "accumulatePinMeta r p = r
     \<lparr>pr_firstTs := earlier (pinTimestamp p) (pr_firstTs r), pr_lastTs := later (pinTimestamp p) (pr_lastTs r),
      pr_firstSeen := earlier (pi_seen p) (pr_firstSeen r), pr_lastSeen := later (pi_seen p) (pr_lastSeen r),
      pr_feeSum := wrap64 (pr_feeSum r + pi_fee p), pr_outSum := wrap64 (pr_outSum r + pi_out p),
      pr_confirmed := (if 0 \<le> pi_height p then pr_confirmed r + 1 else pr_confirmed r),
      pr_mempool := (if 0 \<le> pi_height p then pr_mempool r else pr_mempool r + 1)\<rparr>"

definition sortedKeys :: "string list \<Rightarrow> string list" where
  "sortedKeys ks = slice_stable string_less (filter (\<lambda>k. k \<noteq> '''') ks)"

text \<open>One pass over a pool: every record is counted, the ones in scope are accumulated.\<close>

definition pool_step :: "(pin \<Rightarrow> bool) \<Rightarrow> (pool_report \<Rightarrow> pin \<Rightarrow> pool_report) \<Rightarrow> pool_report \<Rightarrow> pin \<Rightarrow> pool_report" where
  "pool_step scope tally r p =
     (let r1 = r\<lparr>pr_records := pr_records r + 1\<rparr>
      in if \<not> scope p then r1 else tally (accumulatePinMeta (r1\<lparr>pr_inScope := pr_inScope r1 + 1\<rparr>) p) p)"

definition vote_tally :: "pool_report \<Rightarrow> pin \<Rightarrow> pool_report" where
  "vote_tally r p =
     (if voteInvalid (pin_body p) \<noteq> '''' then r\<lparr>pr_invalid := pr_invalid r + 1\<rparr>
      else if payloadString (pin_body p) ''verdict'' = ''pass'' then r\<lparr>pr_validPass := pr_validPass r + 1\<rparr>
      else if payloadString (pin_body p) ''verdict'' = ''fail'' then r\<lparr>pr_validFail := pr_validFail r + 1\<rparr>
      else r)"

definition rejectedInPool :: "settlement \<Rightarrow> string \<Rightarrow> int" where
  "rejectedInPool s path = int (length (filter (\<lambda>p. pi_path p = path) (st_rejected s)))"

definition rejected_records :: "settlement \<Rightarrow> string \<Rightarrow> rejected_record list" where
  "rejected_records s path = map (\<lambda>p. \<lparr>rj_pin = pi_id p, rj_state = pi_state p, rj_reason = pi_error p,
     rj_channel = pi_channel p\<rparr>) (filter (\<lambda>p. pi_path p = path) (st_rejected s))"

definition pool_report ::
    "settlement \<Rightarrow> string \<Rightarrow> (pin \<Rightarrow> bool) \<Rightarrow> (pool_report \<Rightarrow> pin \<Rightarrow> pool_report) \<Rightarrow> pin list \<Rightarrow> int \<Rightarrow> bool \<Rightarrow> pool_report" where
  "pool_report s path scope tally ps effective voting =
     (let r = foldl (pool_step scope tally) (empty_report (PoolName path) path) ps;
          bots = remdups (map pi_globalMetaID (filter scope ps));
          ignored = pr_inScope r - effective
      in r\<lparr>pr_effective := effective, pr_ignored := (if ignored < 0 then 0 else ignored),
           pr_participants := int (length bots), pr_participantBots := sortedKeys bots,
           pr_botsVoting := (if voting then int (length bots) else 0),
           pr_rejected := rejectedInPool s path, pr_rejectedRecords := rejected_records s path\<rparr>)"

definition no_tally :: "pool_report \<Rightarrow> pin \<Rightarrow> pool_report" where
  "no_tally r p = r"

definition poolReports :: "settlement \<Rightarrow> string list \<Rightarrow> int \<Rightarrow> (string, pool_report) gomap" where
  "poolReports s inScopeSubs taskVotes =
     [(''claim'', pool_report s PathClaim (in_root (st_root s)) no_tally (st_claims s) (int (length (st_holders s))) False),
      (''submission'', pool_report s PathSubmission (in_root (st_root s)) no_tally (st_subsPins s) (int (length (st_subs s))) False),
      (''verify'', pool_report s PathVerify (\<lambda>p. ballot_target p \<in> set inScopeSubs) vote_tally (st_verifies s) taskVotes True)]"

section \<open>The aggregate\<close>

record agg_meta =
  me_now :: int
  me_feeSum :: int
  me_outSum :: int
  me_firstTs :: int
  me_lastTs :: int
  me_pins :: int
  me_rejected :: int

record aggregate =
  ag_root :: string
  ag_title :: string
  ag_quorum :: int
  ag_policy :: jobj
  ag_author :: string
  ag_treeID :: string
  ag_treeNodes :: nat
  ag_allVerified :: bool
  ag_nodes :: "node_settlement list"
  ag_reputation :: "(string, int) gomap"
  ag_verifyVotes :: nat
  ag_verifyVotesTask :: int
  ag_pools :: "(string, pool_report) gomap"
  ag_meta :: agg_meta

definition meta_step :: "agg_meta \<Rightarrow> pin \<Rightarrow> agg_meta" where
  "meta_step m p = m
     \<lparr>me_pins := me_pins m + 1, me_feeSum := wrap64 (me_feeSum m + pi_fee p), me_outSum := wrap64 (me_outSum m + pi_out p),
      me_rejected := (if pv_state (resolvePayload p) \<noteq> PayloadOK then me_rejected m + 1 else me_rejected m),
      me_firstTs := earlier (pi_ts p) (me_firstTs m), me_lastTs := later (pi_ts p) (me_lastTs m)\<rparr>"

definition reputation_step :: "settlement \<Rightarrow> (string, int) gomap \<Rightarrow> string \<Rightarrow> (string, int) gomap" where
  "reputation_step s m node =
     (if node_verified s node
      then (case mget (st_subs s) node of
              None \<Rightarrow> m
            | Some sub \<Rightarrow> mput (sr_author sub) ((case mget m (sr_author sub) of Some n \<Rightarrow> n | None \<Rightarrow> 0) + 1) m)
      else m)"

definition in_scope_subs :: "settlement \<Rightarrow> string list" where
  "in_scope_subs s = map pi_id (filter (in_root (st_root s)) (st_subsPins s))"

definition task_votes :: "settlement \<Rightarrow> int" where
  "task_votes s = int (length (filter (\<lambda>kv. fst (fst kv) \<in> set (map (\<lambda>kv. sr_pin (snd kv)) (st_subs s))) (st_last s)))"

text \<open>\<open>now\<close> is the clock; zero takes \<open>wall\<close>, the wall clock's Unix seconds.\<close>

definition BuildAggregate :: "pools \<Rightarrow> string \<Rightarrow> int \<Rightarrow> int \<Rightarrow> settle_error + aggregate" where
  "BuildAggregate events root_pin now0 wall =
     (case newSettlement events root_pin of
        Inl e \<Rightarrow> Inl e
      | Inr s \<Rightarrow>
          let now = (if now0 = 0 then wall else now0);
              nodes = map (node_settlement s now) (nodeIDSet s)
          in Inr \<lparr>ag_root = root_pin, ag_title = payloadString (st_task s) ''title'', ag_quorum = st_quorum s,
                  ag_policy = st_policy s, ag_author = st_rootAuthor s, ag_treeID = st_treeID s,
                  ag_treeNodes = length (st_treeNodes s),
                  ag_allVerified = (nodes \<noteq> [] \<and> list_all (\<lambda>n. no_status n = ''verified'') nodes),
                  ag_nodes = nodes, ag_reputation = foldl (reputation_step s) [] (nodeIDSet s),
                  ag_verifyVotes = length (st_last s), ag_verifyVotesTask = task_votes s,
                  ag_pools = poolReports s (in_scope_subs s) (task_votes s),
                  ag_meta = foldl meta_step \<lparr>me_now = now, me_feeSum = 0, me_outSum = 0, me_firstTs = 0, me_lastTs = 0,
                    me_pins = 0, me_rejected = 0\<rparr> (concat (map (pins_at events) EventPaths))\<rparr>)"

end
