(* ===== verification/PoolProps.thy ===== *)
theory PoolProps
  imports Aggregate
begin

text \<open>
  Properties of the pool read path: the guard view against the settled view, the ballots the vote
  columns keep, and the counts of the pool reports.
\<close>

section \<open>A small set of pools\<close>

definition mk_pin :: "string \<Rightarrow> string \<Rightarrow> string \<Rightarrow> int \<Rightarrow> string \<Rightarrow> pin" where
  "mk_pin pid path author height body =
     \<lparr>pi_id = pid, pi_path = path, pi_operation = ''create'', pi_globalMetaID = author, pi_metaID = '''',
      pi_address = '''', pi_height = height, pi_tx = 0, pi_ts = height * 100, pi_seen = 0, pi_genesisTx = '''', pi_fee = 1,
      pi_out = 1, pi_number = 0, pi_length = 0, pi_version = 0, pi_summary = '''', pi_payload = body,
      pi_channel = '''', pi_state = '''', pi_error = ''''\<rparr>"

text \<open>A task whose one node is claimed by A, submitted by A, failed by B and then passed by B.\<close>

definition demo_t :: pin where "demo_t = mk_pin ''t'' PathTask ''R'' 1 ''{\"title\":\"T\"}''"
definition demo_c :: pin where "demo_c = mk_pin ''c'' PathClaim ''A'' 2 ''{\"taskid\":\"t\",\"node\":\"n\"}''"
definition demo_s :: pin where
  "demo_s = mk_pin ''s'' PathSubmission ''A'' 3 ''{\"taskid\":\"t\",\"node\":\"n\",\"claimid\":\"c\"}''"
definition demo_w :: pin where
  "demo_w = mk_pin ''w'' PathVerify ''B'' 4
    ''{\"targetid\":\"s\",\"verdict\":\"fail\",\"semantic_check\":\"x\",\"failreason\":\"y\"}''"
definition demo_v :: pin where
  "demo_v = mk_pin ''v'' PathVerify ''B'' 5 ''{\"targetid\":\"s\",\"verdict\":\"pass\",\"semantic_check\":\"x\"}''"

definition demo_pools :: "pin list \<Rightarrow> pools" where
  "demo_pools vs = [(PathTask, [demo_t]), (PathClaim, [demo_c]), (PathSubmission, [demo_s]), (PathVerify, vs)]"

lemma demo_resolve [simp]:
  "resolvePayload demo_t = \<lparr>pv_state = PayloadOK, pv_payload = [(''title'', JStr ''T'')]\<rparr>"
  "resolvePayload demo_c = \<lparr>pv_state = PayloadOK, pv_payload = [(''taskid'', JStr ''t''), (''node'', JStr ''n'')]\<rparr>"
  "resolvePayload demo_s = \<lparr>pv_state = PayloadOK, pv_payload = [(''taskid'', JStr ''t''), (''node'', JStr ''n''), (''claimid'', JStr ''c'')]\<rparr>"
  "resolvePayload demo_w = \<lparr>pv_state = PayloadOK, pv_payload = [(''targetid'', JStr ''s''), (''verdict'', JStr ''fail''),
     (''semantic_check'', JStr ''x''), (''failreason'', JStr ''y'')]\<rparr>"
  "resolvePayload demo_v = \<lparr>pv_state = PayloadOK, pv_payload = [(''targetid'', JStr ''s''), (''verdict'', JStr ''pass''),
     (''semantic_check'', JStr ''x'')]\<rparr>"
  by code_simp+

lemmas demo_pins = demo_t_def demo_c_def demo_s_def demo_w_def demo_v_def

lemma demo_fields [simp]:
  "pi_id demo_t = ''t''" "pi_id demo_c = ''c''" "pi_id demo_s = ''s''" "pi_id demo_w = ''w''" "pi_id demo_v = ''v''"
  "pi_path demo_c = PathClaim"
  "pi_globalMetaID demo_t = ''R''" "pi_globalMetaID demo_c = ''A''" "pi_globalMetaID demo_s = ''A''"
  "pi_globalMetaID demo_w = ''B''" "pi_globalMetaID demo_v = ''B''"
  "pi_height demo_c = 2" "pi_height demo_s = 3" "pi_height demo_w = 4" "pi_height demo_v = 5"
  "pinTimestamp demo_c = 200" "pinTimestamp demo_s = 300"
  "orderLess demo_w demo_v" "\<not> orderLess demo_v demo_w"
  by (simp_all add: demo_pins mk_pin_def pinTimestamp_def orderLess_def key_before_def OrderKey_def)

lemma demo_pools_at [simp]:
  "pins_at (demo_pools vs) PathTask = [demo_t]" "pins_at (demo_pools vs) PathClaim = [demo_c]"
  "pins_at (demo_pools vs) PathSubmission = [demo_s]" "pins_at (demo_pools vs) PathVerify = vs"
  "pins_at (demo_pools vs) PathRelease = []" "pins_at (demo_pools vs) PathTree = []"
  by (simp_all add: demo_pools_def pins_at_def PathTask_def PathTree_def PathClaim_def PathRelease_def
      PathSubmission_def PathVerify_def)

lemma demo_bodies [simp]:
  "pin_body demo_t = [(''title'', JStr ''T'')]" "pin_body demo_c = [(''taskid'', JStr ''t''), (''node'', JStr ''n'')]"
  "pin_body demo_s = [(''taskid'', JStr ''t''), (''node'', JStr ''n''), (''claimid'', JStr ''c'')]"
  "pin_body demo_w = [(''targetid'', JStr ''s''), (''verdict'', JStr ''fail''), (''semantic_check'', JStr ''x''), (''failreason'', JStr ''y'')]"
  "pin_body demo_v = [(''targetid'', JStr ''s''), (''verdict'', JStr ''pass''), (''semantic_check'', JStr ''x'')]"
  by (simp_all add: pin_body_def)

lemma demo_valid [simp]: "voteInvalid (pin_body demo_w) = ''''" "voteInvalid (pin_body demo_v) = ''''"
  unfolding demo_bodies by code_simp+

lemma demo_in_root [simp]:
  "in_root ''t'' demo_c" "in_root ''t'' demo_s" "pin_node demo_c = ''n''" "pin_node demo_s = ''n''"
  "ballot_target demo_w = ''s''" "ballot_target demo_v = ''s''"
  "payloadString (pin_body demo_s) ''claimid'' = ''c''"
  "payloadString (pin_body demo_w) ''verdict'' = ''fail''" "payloadString (pin_body demo_v) ''verdict'' = ''pass''"
  by (simp_all add: in_root_def pin_node_def ballot_target_def payloadString_def jget_def)

lemma demo_sorted [simp]: "sortedPins [demo_c] = [demo_c]" "sortedPins [demo_s] = [demo_s]" "sortedPins [demo_w] = [demo_w]"
  "sortedPins [] = []" "sortedPins [demo_w, demo_v] = [demo_w, demo_v]"
  by (simp_all add: sortedPins_def Accepted_def)

lemma demo_walk [simp]:
  "walkClaims ''t'' [demo_c] [] = [(''n'', new_holder demo_c)]"
  "walkSubmissions ''t'' [(''n'', new_holder demo_c)] [demo_s] = [(''n'', new_submission ''c'' demo_s)]"
  "collectBallots [demo_w] = [((''s'', ''B''), pin_body demo_w)]"
  "collectBallots [demo_w, demo_v] = [((''s'', ''B''), pin_body demo_v)]"
  by (simp_all add: walkClaims_def claim_timeline_def claim_walk_step_def mhas_def walkSubmissions_def sub_walk_step_def
      collectBallots_def ballot_step_def new_holder_def del: demo_bodies)

definition demo_settlement :: "pin list \<Rightarrow> settlement" where
  "demo_settlement vs = \<lparr>st_root = ''t'', st_rootAuthor = ''R'', st_task = pin_body demo_t, st_policy = [],
     st_quorum = 2, st_treeID = '''', st_treeNodes = [],
     st_claims = [demo_c], st_releases = [], st_subsPins = [demo_s], st_verifies = vs,
     st_rejected = rejectedPins (demo_pools vs), st_holders = [(''n'', new_holder demo_c)],
     st_subs = [(''n'', new_submission ''c'' demo_s)], st_last = collectBallots vs\<rparr>"

lemma demo_settles:
  assumes "sortedPins vs = vs"
  shows "newSettlement (demo_pools vs) ''t'' = Inr (demo_settlement vs)"
  using assms
  by (simp add: newSettlement_def Let_def findPin_def Accepted_def demo_settlement_def payloadString_def jget_def as_obj_def
      policyInt_def payloadNumber_def)

lemma demo_status: "node_status (demo_settlement [demo_w]) ''n'' = ''claimed''"
  by (simp add: node_status_def node_verified_def verifiedSub_def demo_settlement_def new_submission_def counts_pass_def counts_fail_def
    del: demo_bodies)

lemma demo_verifiedSub: "verifiedSub (demo_settlement [demo_w]) ''n'' = (Some (new_submission ''c'' demo_s), 0, 1)"
  by (simp add: verifiedSub_def demo_settlement_def new_submission_def counts_pass_def counts_fail_def
    del: demo_bodies)

section \<open>Both views see one holder\<close>

definition same_holder :: "holder_record option \<Rightarrow> holder_record option \<Rightarrow> bool" where
  "same_holder a b \<longleftrightarrow> map_option (\<lambda>h. h\<lparr>hr_inflight := False\<rparr>) a = b"

lemma same_holder_simps [simp]:
  "same_holder None None"
  "same_holder (Some h) (Some h') \<longleftrightarrow> h\<lparr>hr_inflight := False\<rparr> = h'"
  "\<not> same_holder None (Some h)" "\<not> same_holder (Some h) None"
  by (simp_all add: same_holder_def)

lemma claim_walk_holder:
  assumes "node \<noteq> ''''" and "same_holder (fst st) (mget holders node)"
  shows "same_holder (fst (foldl guard_claim_step st (filter (\<lambda>p. pin_node p = node) ps)))
     (mget (foldl claim_walk_step holders ps) node)"
  using assms(2)
proof (induction ps arbitrary: st holders)
  case (Cons p ps)
  show ?case
  proof (cases "pin_node p = node")
    case True
    have "same_holder (fst (guard_claim_step st p)) (mget (claim_walk_step holders p) node)"
      using Cons.prems assms(1) True
      by (cases "fst st"; cases "mget holders node")
        (auto simp: guard_claim_step_def claim_walk_step_def mhas_def new_holder_def same_holder_def Let_def)
    with Cons.IH True show ?thesis by simp
  next
    case False
    then have "mget (claim_walk_step holders p) node = mget holders node"
      by (auto simp: claim_walk_step_def Let_def split: option.splits)
    with Cons.IH Cons.prems False show ?thesis by simp
  qed
qed simp

lemma of_node_filter: "filter (of_node root_pin node) ps = filter (\<lambda>p. pin_node p = node) (filter (in_root root_pin) ps)"
  by (simp add: of_node_def [abs_def] conj_commute)

lemma guard_holder_same:
  assumes "node \<noteq> ''''" "st_holders s = walkClaims (st_root s) (st_claims s) (st_releases s)"
  shows "same_holder (fst (guard_holder s node)) (mget (st_holders s) node)"
proof -
  let ?tl = "claim_timeline (st_root s) (st_claims s) (st_releases s)"
  have "slice_stable orderLess (filter (of_node (st_root s) node) (st_claims s)
      @ filter (of_node (st_root s) node) (st_releases s)) = filter (\<lambda>p. pin_node p = node) ?tl"
    by (simp add: claim_timeline_def of_node_def [abs_def] pin_ord.filter_sorted conj_commute)
  with claim_walk_holder [OF assms(1), of "(None, False)" "[]" ?tl] show ?thesis
    by (simp add: guard_holder_def assms(2) walkClaims_def)
qed

text \<open>
  An unconfirmed claim took the lock of the node: on the timeline of the settled view there is a claim
  for it, not in a block yet, at a point where the node has no holder.
\<close>

definition unconfirmed_lock :: "settlement \<Rightarrow> string \<Rightarrow> bool" where
  "unconfirmed_lock s node \<longleftrightarrow> (\<exists>ps p qs. claim_timeline (st_root s) (st_claims s) (st_releases s) = ps @ p # qs
     \<and> pin_node p = node \<and> pi_path p = PathClaim \<and> pi_height p < 0 \<and> mget (foldl claim_walk_step [] ps) node = None)"

lemma split_Cons: "(\<exists>ps p qs. x # xs = ps @ p # qs \<and> Q ps p) \<longleftrightarrow> Q [] x \<or> (\<exists>ps p qs. xs = ps @ p # qs \<and> Q (x # ps) p)"
  by (auto simp: Cons_eq_append_conv)

lemma guard_inflight:
  assumes "node \<noteq> ''''" "same_holder (fst st) (mget holders node)"
  shows "snd (foldl guard_claim_step st (filter (\<lambda>p. pin_node p = node) xs)) \<longleftrightarrow> snd st
     \<or> (\<exists>ps p qs. xs = ps @ p # qs \<and> pin_node p = node \<and> pi_path p = PathClaim \<and> pi_height p < 0
          \<and> mget (foldl claim_walk_step holders ps) node = None)"
  using assms(2)
proof (induction xs arbitrary: st holders)
  case (Cons x xs)
  let ?st = "foldl guard_claim_step st (filter (\<lambda>p. pin_node p = node) [x])"
  have "same_holder (fst ?st) (mget (claim_walk_step holders x) node)"
    using claim_walk_holder [OF assms(1) Cons.prems, of "[x]"] by simp
  from Cons.IH [OF this]
  have "snd (foldl guard_claim_step st (filter (\<lambda>p. pin_node p = node) (x # xs))) \<longleftrightarrow> snd ?st
     \<or> (\<exists>ps p qs. xs = ps @ p # qs \<and> pin_node p = node \<and> pi_path p = PathClaim \<and> pi_height p < 0
          \<and> mget (foldl claim_walk_step holders (x # ps)) node = None)"
    by (cases "pin_node x = node") simp_all
  moreover have "snd ?st \<longleftrightarrow> snd st \<or> pin_node x = node \<and> pi_path x = PathClaim \<and> pi_height x < 0 \<and> mget holders node = None"
    using Cons.prems by (cases "fst st"; cases "mget holders node") (auto simp: guard_claim_step_def)
  ultimately show ?case
    unfolding split_Cons [where Q = "\<lambda>ps p. pin_node p = node \<and> pi_path p = PathClaim \<and> pi_height p < 0
        \<and> mget (foldl claim_walk_step holders ps) node = None"] by simp
qed simp

lemma guard_inflight_lock: "node \<noteq> '''' \<Longrightarrow> snd (guard_holder s node) \<longleftrightarrow> unconfirmed_lock s node"
proof -
  assume n: "node \<noteq> ''''"
  have "slice_stable orderLess (filter (of_node (st_root s) node) (st_claims s)
      @ filter (of_node (st_root s) node) (st_releases s))
      = filter (\<lambda>p. pin_node p = node) (claim_timeline (st_root s) (st_claims s) (st_releases s))"
    by (simp add: claim_timeline_def of_node_def [abs_def] pin_ord.filter_sorted conj_commute)
  with guard_inflight [OF n, of "(None, False)" "[]"] show ?thesis
    by (simp add: guard_holder_def unconfirmed_lock_def)
qed

section \<open>Both views see one submission and one tally\<close>

lemma sub_walk_get:
  "mget (foldl (sub_walk_step root_pin holders) subs ps) node =
     (case mget subs node of Some r \<Rightarrow> Some r
      | None \<Rightarrow> (case mget holders node of None \<Rightarrow> None
          | Some h \<Rightarrow> map_option (new_submission (hr_pin h))
              (find (\<lambda>p. of_node root_pin node p \<and> payloadString (pin_body p) ''claimid'' = hr_pin h) ps)))"
proof (induction ps arbitrary: subs)
  case (Cons p ps)
  have step: "mget (sub_walk_step root_pin holders subs p) node =
      (case mget subs node of Some r \<Rightarrow> Some r
       | None \<Rightarrow> (case mget holders node of None \<Rightarrow> None
           | Some h \<Rightarrow> if of_node root_pin node p \<and> payloadString (pin_body p) ''claimid'' = hr_pin h
                       then Some (new_submission (hr_pin h) p) else None))"
    by (auto simp: sub_walk_step_def Let_def of_node_def mhas_def split: option.splits)
  show ?case by (simp add: Cons.IH step split: option.splits)
qed (simp split: option.splits)

lemma update_filter_key:
  "filter (\<lambda>kv. fst (fst kv) = t) (mput (t', b) v m) =
     (if t' = t then mput (t, b) v (filter (\<lambda>kv. fst (fst kv) = t) m) else filter (\<lambda>kv. fst (fst kv) = t) m)"
  by (induction m) auto

lemma update_map_key:
  "\<forall>kv \<in> set m. fst (fst kv) = t \<Longrightarrow>
   map (\<lambda>kv. (snd (fst kv), snd kv)) (mput (t, b) v m) = mput b v (map (\<lambda>kv. (snd (fst kv), snd kv)) m)"
  by (induction m) auto

lemma ballots_of_target:
  assumes "sr_pin sub \<noteq> ''''"
  shows "map (\<lambda>kv. (snd (fst kv), snd kv)) (filter (\<lambda>kv. fst (fst kv) = sr_pin sub) (foldl ballot_step m ps))
     = foldl (\<lambda>m p. if ballot_target p \<noteq> sr_pin sub \<or> voteInvalid (pin_body p) \<noteq> '''' \<or> pi_globalMetaID p = '''' then m
         else mput (pi_globalMetaID p) (pin_body p) m)
       (map (\<lambda>kv. (snd (fst kv), snd kv)) (filter (\<lambda>kv. fst (fst kv) = sr_pin sub) m)) ps"
proof (induction ps arbitrary: m)
  case (Cons p ps)
  have "map (\<lambda>kv. (snd (fst kv), snd kv)) (filter (\<lambda>kv. fst (fst kv) = sr_pin sub) (ballot_step m p)) =
      (if ballot_target p \<noteq> sr_pin sub \<or> voteInvalid (pin_body p) \<noteq> '''' \<or> pi_globalMetaID p = ''''
       then map (\<lambda>kv. (snd (fst kv), snd kv)) (filter (\<lambda>kv. fst (fst kv) = sr_pin sub) m)
       else mput (pi_globalMetaID p) (pin_body p)
         (map (\<lambda>kv. (snd (fst kv), snd kv)) (filter (\<lambda>kv. fst (fst kv) = sr_pin sub) m)))"
    using assms by (auto simp: ballot_step_def update_filter_key update_map_key)
  with Cons.IH show ?case by simp
qed simp

lemma guard_counts_same:
  assumes "st_last s = collectBallots (st_verifies s)" "mget (st_subs s) node = Some sub" "sr_pin sub \<noteq> ''''"
  shows "verifiedSub s node = (Some sub, guard_counts s (Some sub))"
proof -
  let ?mine = "filter (\<lambda>kv. fst (fst kv) = sr_pin sub) (st_last s)"
  have g: "guard_ballots s sub = map (\<lambda>kv. (snd (fst kv), snd kv)) ?mine"
    using ballots_of_target [OF assms(3), of "[]" "st_verifies s"]
    by (simp add: guard_ballots_def assms(1) collectBallots_def)
  show ?thesis
    by (simp add: verifiedSub_def assms(2) guard_counts_def Let_def g filter_map comp_def)
qed

lemma newSettlement_fields:
  assumes "newSettlement events root_pin = Inr s"
  shows "st_holders s = walkClaims (st_root s) (st_claims s) (st_releases s)"
    "st_subs s = walkSubmissions (st_root s) (st_holders s) (st_subsPins s)"
    "st_last s = collectBallots (st_verifies s)"
    "st_claims s = sortedPins (pins_at events PathClaim)"
    "st_releases s = sortedPins (pins_at events PathRelease)"
    "st_subsPins s = sortedPins (pins_at events PathSubmission)"
  using assms by (auto simp: newSettlement_def Let_def split: option.splits if_splits)

text \<open>
  C37: The guard view of a node answers from the same holder, submission and counted ballots as the
  settled view, although it recomputes them. A node that has a holder and whose lock an unconfirmed
  claim ever took is claimed. Otherwise the guard says verified exactly for settled nodes, open for a
  node with a counted fail or an expired window, and else the settled status. A node with a valid
  fail is therefore open for the guard and claimed in the settled view, with no window expired.
\<close>

theorem guard_state_from_status:
  assumes s: "newSettlement events root_pin = Inr s" and node: "node \<noteq> ''''"
    and ids: "\<forall>p \<in> set (pins_at events PathSubmission). pi_id p \<noteq> ''''"
  shows "fst (guardState s node now ttl window) =
     (let (sub, good, bad) = verifiedSub s node in
      if unconfirmed_lock s node \<and> mget (st_holders s) node \<noteq> None then ''claimed''
      else if node_verified s node then ''verified''
      else if 0 < bad then ''open''
      else if (sub = None \<and> (\<exists>h. mget (st_holders s) node = Some h \<and> claim_expired now ttl h))
           \<or> (\<exists>r. sub = Some r \<and> window_expired now window r \<and> good < st_quorum s) then ''open''
      else node_status s node)"
proof -
  obtain holder inflight where gh: "guard_holder s node = (holder, inflight)" by (cases "guard_holder s node")
  note f = newSettlement_fields [OF s]
  have same: "same_holder holder (mget (st_holders s) node)"
    using guard_holder_same [OF node f(1)] gh by simp
  have infl: "inflight \<longleftrightarrow> unconfirmed_lock s node"
    using guard_inflight_lock [OF node, of s] gh by simp
  let ?gsub = "case holder of None \<Rightarrow> None | Some h \<Rightarrow> guard_sub s node h"
  have sub: "mget (st_subs s) node = ?gsub"
    using same by (cases holder; cases "mget (st_holders s) node")
      (auto simp: f(2) walkSubmissions_def sub_walk_get guard_sub_def)
  have subid: "sr_pin r \<noteq> ''''" if "?gsub = Some r" for r
    using that ids by (auto simp: guard_sub_def f(6) sortedPins_def new_submission_def split: option.splits dest!: find_SomeD)
  have vs: "verifiedSub s node = (?gsub, guard_counts s ?gsub)"
  proof (cases ?gsub)
    case None
    then show ?thesis using sub by (simp add: verifiedSub_def guard_counts_def)
  next
    case (Some r)
    with guard_counts_same [OF f(3) _ subid, of node r] sub show ?thesis by simp
  qed
  have held: "(mget (st_holders s) node = None) = (holder = None)"
    using same by (cases holder; cases "mget (st_holders s) node") auto
  have expd: "(\<exists>h. mget (st_holders s) node = Some h \<and> claim_expired now ttl h)
      = (case holder of None \<Rightarrow> False | Some h \<Rightarrow> claim_expired now ttl h)"
    using same by (cases holder; cases "mget (st_holders s) node") (auto simp: claim_expired_def)
  obtain good bad where gc: "guard_counts s ?gsub = (good, bad)" by (cases "guard_counts s ?gsub")
  have nosub: "?gsub = None \<Longrightarrow> good = 0 \<and> bad = 0" using gc by (auto simp: guard_counts_def)
  show ?thesis
    using vs gc nosub infl held expd
    by (cases ?gsub) (auto simp: guardState_def gh Let_def node_verified_def node_status_def)
qed

theorem guard_state_from_status_witness:
  "fst (guardState (demo_settlement [demo_w]) ''n'' 500 0 0) = ''open'' \<and> node_status (demo_settlement [demo_w]) ''n'' = ''claimed''"
proof -
  have "node_verified (demo_settlement [demo_w]) ''n'' = False" by (simp add: node_verified_def demo_verifiedSub)
  moreover have "\<forall>p \<in> set (claim_timeline ''t'' [demo_c] []). 0 \<le> pi_height p"
    by (simp add: claim_timeline_def set_slice_stable)
  then have "\<not> unconfirmed_lock (demo_settlement [demo_w]) ''n''"
    by (fastforce simp: unconfirmed_lock_def demo_settlement_def)
  ultimately show ?thesis
    using guard_state_from_status [OF demo_settles, of "[demo_w]" "''n''" 500 0 0]
    by (simp add: demo_verifiedSub demo_status)
qed

section \<open>Which ballot the vote columns keep\<close>

lemma last_by_bot_get: "mget (foldl (\<lambda>m v. mput (vo_bot v) v m) m vs) b =
   (case find (\<lambda>v. vo_bot v = b) (rev vs) of Some v \<Rightarrow> Some v | None \<Rightarrow> mget m b)"
proof (induction vs rule: rev_induct)
  case (snoc v vs)
  then show ?case by simp
qed simp

lemma find_last_max:
  assumes "sorted_wrt (\<lambda>a b. \<not> lt b a) vs" "find P (rev vs) = Some v" "\<And>a. \<not> lt a a"
  shows "v \<in> set vs \<and> P v \<and> (\<forall>u \<in> set vs. P u \<longrightarrow> \<not> lt v u)"
  using assms(1,2)
proof (induction vs rule: rev_induct)
  case (snoc x vs)
  show ?case
  proof (cases "P x")
    case True
    with snoc.prems have "v = x" by simp
    with snoc.prems(1) True assms(3) show ?thesis by (auto simp: sorted_wrt_append)
  next
    case False
    with snoc have "v \<in> set vs \<and> P v \<and> (\<forall>u \<in> set vs. P u \<longrightarrow> \<not> lt v u)"
      by (simp add: sorted_wrt_append)
    with False show ?thesis by auto
  qed
qed simp

lemma vote_fields [simp]:
  "vo_valid (vote_of p) \<longleftrightarrow> voteInvalid (pin_body p) = ''''" "vo_bot (vote_of p) = pi_globalMetaID p"
  "vo_pin (vote_of p) = pi_id p"
  by (simp_all add: vote_of_def Let_def)

definition valid_ballots :: "settlement \<Rightarrow> string \<Rightarrow> string \<Rightarrow> pin list" where
  "valid_ballots s target voter = filter (\<lambda>p. ballot_target p = target \<and> pi_globalMetaID p = voter
     \<and> voteInvalid (pin_body p) = '''') (st_verifies s)"

text \<open>
  The vote columns of a node report for every voter the valid ballot with the greatest pin id,
  not the latest one, since the ballots are sorted by pin id before the last one is kept.
\<close>

theorem vote_columns_by_pin_id:
  assumes "mget (lastValidByBot (fst (nodeVotes s target))) voter = Some v"
  shows "\<exists>p \<in> set (valid_ballots s target voter). v = vote_of p
     \<and> (\<forall>q \<in> set (valid_ballots s target voter). \<not> string_less (pi_id p) (pi_id q))"
proof -
  let ?vs = "filter vo_valid (map vote_of (filter (\<lambda>p. ballot_target p = target) (st_verifies s)))"
  have "find (\<lambda>v. vo_bot v = voter) (rev (slice_stable vote_pin_less ?vs)) = Some v"
    using assms by (simp add: lastValidByBot_def last_by_bot_get nodeVotes_def Let_def split: option.splits)
  from find_last_max [OF vote_pin_ord.sorted this vote_pin_ord.irrefl]
  have v: "v \<in> set ?vs" "vo_bot v = voter" "\<forall>u \<in> set ?vs. vo_bot u = voter \<longrightarrow> \<not> vote_pin_less v u"
    by auto
  from v(1,2) obtain p where p: "p \<in> set (valid_ballots s target voter)" "v = vote_of p"
    by (auto simp: valid_ballots_def)
  moreover have "\<not> string_less (pi_id p) (pi_id q)" if "q \<in> set (valid_ballots s target voter)" for q
    using v(3) that p(2) by (auto simp: valid_ballots_def vote_pin_less_def)
  ultimately show ?thesis by blast
qed

theorem vote_columns_by_pin_id_witness:
  "mget (lastValidByBot (fst (nodeVotes (demo_settlement [demo_w, demo_v]) ''s''))) ''B'' = Some (vote_of demo_w)
   \<and> (\<exists>p \<in> set (valid_ballots (demo_settlement [demo_w, demo_v]) ''s'' ''B''). vote_of demo_w = vote_of p
     \<and> (\<forall>q \<in> set (valid_ballots (demo_settlement [demo_w, demo_v]) ''s'' ''B''). \<not> string_less (pi_id p) (pi_id q)))"
proof -
  have "string_less (CHR 0x76 # []) (CHR 0x77 # [])" by code_simp
  then have "mget (lastValidByBot (fst (nodeVotes (demo_settlement [demo_w, demo_v]) ''s''))) ''B'' = Some (vote_of demo_w)"
    by (simp add: lastValidByBot_def nodeVotes_def demo_settlement_def vote_pin_less_def del: demo_bodies)
  with vote_columns_by_pin_id [OF this] show ?thesis by (intro conjI)
qed

section \<open>Pool accounting\<close>

definition report_ok :: "pool_report \<Rightarrow> bool" where
  "report_ok r \<longleftrightarrow> pr_confirmed r + pr_mempool r = pr_inScope r \<and> 0 \<le> pr_validPass r \<and> 0 \<le> pr_validFail r
     \<and> 0 \<le> pr_invalid r \<and> pr_validPass r + pr_validFail r + pr_invalid r \<le> pr_inScope r
     \<and> 0 \<le> pr_confirmed r \<and> 0 \<le> pr_mempool r"

lemma accumulate_ok:
  "pr_records (accumulatePinMeta r p) = pr_records r" "pr_inScope (accumulatePinMeta r p) = pr_inScope r"
  "pr_confirmed (accumulatePinMeta r p) + pr_mempool (accumulatePinMeta r p) = pr_confirmed r + pr_mempool r + 1"
  "pr_validPass (accumulatePinMeta r p) = pr_validPass r" "pr_validFail (accumulatePinMeta r p) = pr_validFail r"
  "pr_invalid (accumulatePinMeta r p) = pr_invalid r"
  by (auto simp: accumulatePinMeta_def)

lemma pool_step_ok:
  assumes "tally = no_tally \<or> tally = vote_tally" "report_ok r"
  shows "report_ok (pool_step scope tally r p) \<and> pr_records (pool_step scope tally r p) = pr_records r + 1
     \<and> pr_inScope (pool_step scope tally r p) = pr_inScope r + (if scope p then 1 else 0)"
  using assms by (auto simp: pool_step_def Let_def report_ok_def no_tally_def vote_tally_def accumulatePinMeta_def)

lemma pool_fold_ok:
  assumes "tally = no_tally \<or> tally = vote_tally" "report_ok r"
  shows "report_ok (foldl (pool_step scope tally) r ps)
     \<and> pr_records (foldl (pool_step scope tally) r ps) = pr_records r + int (length ps)
     \<and> pr_inScope (foldl (pool_step scope tally) r ps) = pr_inScope r + int (length (filter scope ps))"
  using assms(2)
proof (induction ps arbitrary: r)
  case (Cons p ps)
  from Cons.IH [of "pool_step scope tally r p"] pool_step_ok [OF assms(1) Cons.prems, of scope p]
  show ?case by auto
qed simp

definition report_counts :: "(pin \<Rightarrow> bool) \<Rightarrow> pin list \<Rightarrow> pool_report \<Rightarrow> bool" where
  "report_counts scope ps r \<longleftrightarrow>
     pr_records r = int (length ps) \<and> pr_inScope r = int (length (filter scope ps))
     \<and> pr_confirmed r + pr_mempool r = pr_inScope r
     \<and> pr_validPass r + pr_validFail r + pr_invalid r \<le> pr_inScope r
     \<and> pr_participants r = int (card (pi_globalMetaID ` set (filter scope ps)))
     \<and> pr_ignored r = max 0 (pr_inScope r - pr_effective r)
     \<and> pr_rejected r = int (length (pr_rejectedRecords r))"

lemma pool_report_ok:
  assumes "tally = no_tally \<or> tally = vote_tally"
  shows "report_counts scope ps (pool_report s path scope tally ps eff voting)"
proof -
  have "report_ok (empty_report (PoolName path) path)" by (simp add: report_ok_def empty_report_def)
  from pool_fold_ok [OF assms this, of scope ps] show ?thesis
    by (auto simp: report_counts_def pool_report_def Let_def report_ok_def empty_report_def rejectedInPool_def
        rejected_records_def card_set length_remdups_card_conv)
qed

text \<open>
  Every pool report counts its pool: all records, the ones in scope split into confirmed and
  mempool, at most as many votes as records in scope, participants without repetition, and the
  ignored records as what the effective ones leave, never negative.
\<close>

theorem pool_report_counts:
  "\<exists>c u v. poolReports s inScopeSubs taskVotes = [(''claim'', c), (''submission'', u), (''verify'', v)]
     \<and> report_counts (in_root (st_root s)) (st_claims s) c
     \<and> report_counts (in_root (st_root s)) (st_subsPins s) u
     \<and> report_counts (\<lambda>p. ballot_target p \<in> set inScopeSubs) (st_verifies s) v"
  by (simp add: poolReports_def pool_report_ok)

end
