(* ===== verification/RenderProps.thy ===== *)
theory RenderProps
  imports Renderer ReplayProps PoolProps
begin

text \<open>
  Properties of the replay renderer: what is admitted to a replay, the evaluation boundary, and that
  the rendered view does not depend on the order of the pools.
\<close>

section \<open>What is admitted\<close>

text \<open>The pins of the pools in sweep order, each id once, with the path it was found under.\<close>

definition swept :: "pools \<Rightarrow> (string \<times> pin) list" where
  "swept events = concat (map (\<lambda>path. map (Pair path) (pins_at events path)) EventPaths)"

fun first_of :: "string list \<Rightarrow> (string \<times> pin) list \<Rightarrow> (string \<times> pin) list" where
  "first_of seen [] = []"
| "first_of seen (x # xs) =
     (if pi_id (snd x) \<in> set seen then first_of seen xs else x # first_of (pi_id (snd x) # seen) xs)"

definition admissible :: "boundary \<Rightarrow> pin \<Rightarrow> bool" where
  "admissible b p \<longleftrightarrow> 0 \<le> pi_height p \<and> \<not> beyond b p \<and> Accepted (resolvePayload p)"

definition admitted_event :: "pin \<Rightarrow> replay_event" where
  "admitted_event p = \<lparr>re_pin = p, re_body = pin_body p, re_ts = pinTimestamp p\<rparr>"

lemma admit_path_fold:
  "admit_path events b ad path = foldl (\<lambda>ad x. admit_pin b (fst x) ad (snd x)) ad (map (Pair path) (pins_at events path))"
proof -
  have "foldl (admit_pin b path) ad ps = foldl (\<lambda>ad x. admit_pin b (fst x) ad (snd x)) ad (map (Pair path) ps)" for ps
    by (induction ps arbitrary: ad) simp_all
  then show ?thesis by (simp add: admit_path_def)
qed

lemma admit_paths_fold:
  "foldl (admit_path events b) ad paths
     = foldl (\<lambda>ad x. admit_pin b (fst x) ad (snd x)) ad (concat (map (\<lambda>path. map (Pair path) (pins_at events path)) paths))"
  by (induction paths arbitrary: ad) (simp_all add: admit_path_fold)

lemma admit_fold:
  fixes b
  defines "run \<equiv> foldl (\<lambda>ad x. admit_pin b (fst x) ad (snd x))"
  shows "admitted_at (run ad xs) path = admitted_at ad path
       @ map (\<lambda>x. admitted_event (snd x)) (filter (\<lambda>x. fst x = path \<and> admissible b (snd x)) (first_of (ad_seen ad) xs))"
    and "ad_mempool (run ad xs) = ad_mempool ad + int (length (filter (\<lambda>x. pi_height (snd x) < 0) (first_of (ad_seen ad) xs)))"
    and "ad_rejected (run ad xs) = ad_rejected ad + int (length (filter (\<lambda>x. 0 \<le> pi_height (snd x) \<and> \<not> beyond b (snd x)
            \<and> \<not> Accepted (resolvePayload (snd x))) (first_of (ad_seen ad) xs)))"
  unfolding run_def
proof (induction xs arbitrary: ad)
  case (Cons x xs)
  { case 1
    show ?case
      by (simp add: Cons.IH(1)) (auto simp: admit_pin_def Let_def admitted_at_def mappend_def admissible_def
          admitted_event_def split: option.splits) }
  { case 2 show ?case by (simp add: Cons.IH(2)) (auto simp: admit_pin_def Let_def) }
  { case 3 show ?case by (simp add: Cons.IH(3)) (auto simp: admit_pin_def Let_def) }
qed simp_all

lemma first_of_distinct: "distinct (map (\<lambda>x. pi_id (snd x)) (first_of seen xs))
   \<and> set (map (\<lambda>x. pi_id (snd x)) (first_of seen xs)) = set (map (\<lambda>x. pi_id (snd x)) xs) - set seen"
  by (induction seen xs rule: first_of.induct) auto

lemma admitted_at_events:
  "admitted_at (admitEvents events b) path
     = map (\<lambda>x. admitted_event (snd x)) (filter (\<lambda>x. fst x = path \<and> admissible b (snd x)) (first_of [] (swept events)))"
  using admit_fold(1) [of b _ "swept events" path]
  by (simp add: admitEvents_def admit_paths_fold swept_def admitted_at_def)

lemma distinct_by_path:
  assumes "distinct (map g xs)" "distinct paths"
  shows "distinct (concat (map (\<lambda>p. map g (filter (\<lambda>x. fst x = p \<and> P x) xs)) paths))"
  using assms(2)
proof (induction paths)
  case (Cons p ps)
  have inj: "y = x" if "x \<in> set xs" "y \<in> set xs" "g x = g y" for x y
    using assms(1) that by (auto simp: distinct_map dest: inj_onD)
  have "g y \<notin> g ` {x \<in> set xs. fst x = q \<and> P x}" if y: "y \<in> set xs" "fst y = p" "q \<in> set ps" for y q
  proof
    assume "g y \<in> g ` {x \<in> set xs. fst x = q \<and> P x}"
    then obtain x where "x \<in> set xs" "fst x = q" "g x = g y" by auto
    with inj [of x y] y Cons.prems show False by auto
  qed
  then have "set (map g (filter (\<lambda>x. fst x = p \<and> P x) xs))
      \<inter> set (concat (map (\<lambda>p. map g (filter (\<lambda>x. fst x = p \<and> P x) xs)) ps)) = {}"
    by (force simp: disjoint_iff)
  with Cons distinct_map_filter [OF assms(1)] show ?case by simp
qed simp

lemma admitted_pins_distinct: "distinct (map ev_pin (chainEventsFrom (admitEvents events b)))"
proof -
  have "distinct EventPaths"
    by (simp add: EventPaths_def PathTask_def PathTree_def PathSpec_def PathClaim_def PathRelease_def
        PathSubmission_def PathVerify_def PathAmend_def PathChallenge_def)
  with first_of_distinct [of "[]" "swept events"] show ?thesis
    by (simp add: chainEventsFrom_def admitted_at_events map_concat comp_def chain_event_of_def admitted_event_def
        distinct_by_path)
qed

text \<open>
  Admission keeps, in sweep order, the first pin of every id that is confirmed, within the
  boundary and of an accepted payload; it counts the mempool and the rejected pins among these
  first pins; no admitted pin id occurs twice in the event list the engine gets.
\<close>

theorem admission_spec:
  "(\<forall>path. admitted_at (admitEvents events b) path
     = map (\<lambda>x. admitted_event (snd x)) (filter (\<lambda>x. fst x = path \<and> admissible b (snd x)) (first_of [] (swept events))))
   \<and> ad_mempool (admitEvents events b) = int (length (filter (\<lambda>x. pi_height (snd x) < 0) (first_of [] (swept events))))
   \<and> ad_rejected (admitEvents events b) = int (length (filter (\<lambda>x. 0 \<le> pi_height (snd x) \<and> \<not> beyond b (snd x)
            \<and> \<not> Accepted (resolvePayload (snd x))) (first_of [] (swept events))))
   \<and> distinct (map ev_pin (chainEventsFrom (admitEvents events b)))"
  using admit_fold(2,3) [of b "\<lparr>ad_seen = [], ad_events = [], ad_mempool = 0, ad_rejected = 0\<rparr>" "swept events"]
    admitted_at_events admitted_pins_distinct
  by (simp add: admitEvents_def admit_paths_fold swept_def)

section \<open>The evaluation boundary\<close>

definition counts_for_boundary :: "int \<Rightarrow> pin \<Rightarrow> bool" where
  "counts_for_boundary toBlock p \<longleftrightarrow> 0 \<le> pi_height p \<and> \<not> (0 < toBlock \<and> toBlock < pi_height p)"

text \<open>The pins that can set the boundary.\<close>

definition boundary_pins :: "pools \<Rightarrow> int \<Rightarrow> pin list" where
  "boundary_pins events toBlock = filter (counts_for_boundary toBlock) (concat (map (pins_at events) EventPaths))"

definition is_boundary :: "pin list \<Rightarrow> int \<times> int \<Rightarrow> bool" where
  "is_boundary qs st \<longleftrightarrow> (if qs = [] then st = (-1, 0)
     else (\<exists>p \<in> set qs. pi_height p = fst st \<and> pi_ts p = snd st)
        \<and> (\<forall>p \<in> set qs. pi_height p < fst st \<or> pi_height p = fst st \<and> pi_ts p \<le> snd st))"

lemma is_boundary_skip: "\<not> counts_for_boundary toBlock p \<Longrightarrow> boundary_step toBlock st p = st"
  by (auto simp: counts_for_boundary_def boundary_step_def)

lemma is_boundary_step:
  assumes "is_boundary qs st" "counts_for_boundary toBlock p"
  shows "is_boundary (qs @ [p]) (boundary_step toBlock st p)"
proof -
  obtain h t where [simp]: "st = (h, t)" by (cases st)
  have p: "0 \<le> pi_height p" "\<not> (pi_height p < 0 \<or> (0 < toBlock \<and> toBlock < pi_height p))"
    using assms(2) by (auto simp: counts_for_boundary_def)
  consider "h < pi_height p" | "pi_height p = h" "t < pi_ts p" | "pi_height p < h \<or> pi_height p = h \<and> pi_ts p \<le> t"
    by linarith
  then show ?thesis
  proof cases
    case 1
    with p have "boundary_step toBlock st p = (pi_height p, pi_ts p)" by (simp add: boundary_step_def)
    with assms(1) 1 show ?thesis by (force simp: is_boundary_def split: if_splits)
  next
    case 2
    with p have "boundary_step toBlock st p = (pi_height p, pi_ts p)" by (simp add: boundary_step_def)
    with assms(1) 2 show ?thesis by (force simp: is_boundary_def split: if_splits)
  next
    case 3
    with p have "boundary_step toBlock st p = st" by (auto simp: boundary_step_def)
    moreover have "qs \<noteq> []" using 3 p assms(1) by (auto simp: is_boundary_def)
    ultimately show ?thesis using assms(1) 3 by (auto simp: is_boundary_def)
  qed
qed

lemma boundary_fold:
  "is_boundary (filter (counts_for_boundary toBlock) ps) (foldl (boundary_step toBlock) (-1, 0) ps)"
proof (induction ps rule: rev_induct)
  case (snoc p ps)
  then show ?case
    using is_boundary_step [OF snoc] by (cases "counts_for_boundary toBlock p") (simp_all add: is_boundary_skip)
qed (simp add: is_boundary_def)

text \<open>
  The evaluation boundary is the greatest block height among the confirmed pins up to the
  requested block, with the latest time stamp in that block, and zero when there is no such pin.
\<close>

theorem boundary_spec:
  "if boundary_pins events toBlock = [] then DeriveBoundary events toBlock = \<lparr>bd_height = 0, bd_ts = 0\<rparr>
   else (\<exists>p \<in> set (boundary_pins events toBlock).
           DeriveBoundary events toBlock = \<lparr>bd_height = pi_height p, bd_ts = pi_ts p\<rparr>)
      \<and> (\<forall>p \<in> set (boundary_pins events toBlock). pi_height p < bd_height (DeriveBoundary events toBlock)
           \<or> pi_height p = bd_height (DeriveBoundary events toBlock) \<and> pi_ts p \<le> bd_ts (DeriveBoundary events toBlock))"
proof -
  let ?all = "concat (map (pins_at events) EventPaths)" and ?ps = "boundary_pins events toBlock"
  obtain h t where st: "foldl (boundary_step toBlock) (-1, 0) ?all = (h, t)" by fastforce
  have b: "is_boundary ?ps (h, t)" using boundary_fold [of toBlock ?all] st unfolding boundary_pins_def by simp
  have pos: "0 \<le> pi_height p" if "p \<in> set ?ps" for p
    using that by (auto simp: boundary_pins_def counts_for_boundary_def)
  show ?thesis
  proof (cases "?ps = []")
    case True
    with b st show ?thesis by (simp add: is_boundary_def DeriveBoundary_def)
  next
    case False
    with b obtain p where p: "p \<in> set ?ps" "pi_height p = h" "pi_ts p = t" by (auto simp: is_boundary_def)
    with pos have "DeriveBoundary events toBlock = \<lparr>bd_height = h, bd_ts = t\<rparr>"
      using st by (force simp: DeriveBoundary_def)
    with False b p show ?thesis by (auto simp: is_boundary_def)
  qed
qed

lemma demo_sweep: "concat (map (pins_at (demo_pools vs)) EventPaths) = demo_t # demo_c # demo_s # vs"
  by (simp add: EventPaths_def) (simp add: demo_pools_def pins_at_def PathTask_def PathTree_def PathSpec_def PathClaim_def PathRelease_def
      PathSubmission_def PathVerify_def PathAmend_def PathChallenge_def)

theorem boundary_spec_witness:
  "DeriveBoundary (demo_pools [demo_w, demo_v]) 4 = \<lparr>bd_height = 4, bd_ts = 400\<rparr>"
proof -
  have fields: "pi_height demo_t = 1" "pi_height demo_c = 2" "pi_height demo_s = 3" "pi_height demo_w = 4" "pi_height demo_v = 5"
    "pi_ts demo_w = 400"
    by (simp_all add: demo_pins mk_pin_def)
  have "boundary_pins (demo_pools [demo_w, demo_v]) 4 = [demo_t, demo_c, demo_s, demo_w]"
    unfolding boundary_pins_def demo_sweep by (simp add: counts_for_boundary_def fields)
  with boundary_spec [of "demo_pools [demo_w, demo_v]" 4] show ?thesis
    by (auto simp: fields)
qed

section \<open>The same pins give the same view\<close>

lemma mset_concat_map_cong:
  "(\<And>x. x \<in> set xs \<Longrightarrow> mset (f x) = mset (g x)) \<Longrightarrow> mset (concat (map f xs)) = mset (concat (map g xs))"
  by (induction xs) auto

lemma first_of_id: "distinct (map (\<lambda>x. pi_id (snd x)) xs) \<Longrightarrow> set (map (\<lambda>x. pi_id (snd x)) xs) \<inter> set seen = {}
   \<Longrightarrow> first_of seen xs = xs"
  by (induction seen xs rule: first_of.induct) auto

lemma roster_get:
  assumes "distinct (map pi_id ps)"
  shows "mget (foldl (\<lambda>m p. if bad p then m else mput (pi_id p) (f p) m) [] ps) k = Some v
     \<longleftrightarrow> (\<exists>p \<in> set ps. \<not> bad p \<and> pi_id p = k \<and> f p = v)"
  using assms
proof (induction ps rule: rev_induct)
  case (snoc p ps)
  have "pi_id p \<notin> pi_id ` set ps" using snoc.prems by simp
  then have "pi_id q \<noteq> pi_id p" if "q \<in> set ps" for q using that by (metis image_eqI)
  with snoc show ?case by auto
qed simp

definition same_roster :: "v121_options \<Rightarrow> v121_options \<Rightarrow> bool" where
  "same_roster o1 o2 \<longleftrightarrow> mget (op_rosterPins o1) = mget (op_rosterPins o2)
     \<and> o2 = o1\<lparr>op_rosterPins := op_rosterPins o2\<rparr>"

lemma replay_same_roster:
  assumes "same_roster o1 o2"
  shows "ReplayV121 es o1 = ReplayV121 es o2"
proof -
  obtain R where o2: "o2 = o1\<lparr>op_rosterPins := R\<rparr>" and R: "mget R = mget (op_rosterPins o1)"
    using assms by (metis same_roster_def)
  have "setup_env (o1\<lparr>op_rosterPins := R\<rparr>) = setup_env o1"
    by (intro ext) (simp add: setup_env_def R roster_groups_def opt_hAct_def opt_hAct2_def)
  then have "replay_setup es o2 = replay_setup es o1" by (simp add: replay_setup_def o2 cong: option.case_cong)
  moreover have "replay_finish es o2 su fs = replay_finish es o1 su fs" for su fs
  proof -
    have "mhas R = mhas (op_rosterPins o1)" by (simp add: mhas_def fun_eq_iff R)
    then show ?thesis
      unfolding o2 replay_finish_def by (cases o1) (simp only: v121_options.simps)
  qed
  ultimately show ?thesis by (simp only: ReplayV121_def)
qed

definition pools_distinct :: "pools \<Rightarrow> bool" where
  "pools_distinct events \<longleftrightarrow> distinct (map (\<lambda>x. pi_id (snd x)) (swept events)) \<and> distinct (map pi_id (pins_at events PathRoster))"

definition same_pools :: "pools \<Rightarrow> pools \<Rightarrow> bool" where
  "same_pools ev1 ev2 \<longleftrightarrow> (\<forall>path. mset (pins_at ev1 path) = mset (pins_at ev2 path))"

lemma swept_same: "same_pools ev1 ev2 \<Longrightarrow> mset (swept ev1) = mset (swept ev2)"
  unfolding swept_def same_pools_def by (intro mset_concat_map_cong) simp

lemma pools_distinct_same: "same_pools ev1 ev2 \<Longrightarrow> pools_distinct ev1 \<Longrightarrow> pools_distinct ev2"
  using swept_same [of ev1 ev2] unfolding pools_distinct_def same_pools_def
  by (metis mset_eq_imp_distinct_iff mset_map)

lemma admitted_same:
  assumes "same_pools ev1 ev2" "pools_distinct ev1"
  shows "mset (admitted_at (admitEvents ev1 b) path) = mset (admitted_at (admitEvents ev2 b) path)"
    "ad_mempool (admitEvents ev1 b) = ad_mempool (admitEvents ev2 b)"
    "ad_rejected (admitEvents ev1 b) = ad_rejected (admitEvents ev2 b)"
proof -
  have id: "first_of [] (swept ev1) = swept ev1" "first_of [] (swept ev2) = swept ev2"
    using assms(2) pools_distinct_same [OF assms] by (simp_all add: first_of_id pools_distinct_def)
  note m = swept_same [OF assms(1)]
  show "mset (admitted_at (admitEvents ev1 b) path) = mset (admitted_at (admitEvents ev2 b) path)"
    unfolding admitted_at_events id mset_map filter_mset_eq [OF m] ..
  have l: "length (filter P (swept ev1)) = length (filter P (swept ev2))" for P
    using filter_mset_eq [OF m] by (metis size_mset)
  note fold = admit_fold(2,3) [of b "\<lparr>ad_seen = [], ad_events = [], ad_mempool = 0, ad_rejected = 0\<rparr>"]
  show "ad_mempool (admitEvents ev1 b) = ad_mempool (admitEvents ev2 b)"
    "ad_rejected (admitEvents ev1 b) = ad_rejected (admitEvents ev2 b)"
    using fold [of "swept ev1"] fold [of "swept ev2"] l
    by (simp_all add: admitEvents_def admit_paths_fold id flip: swept_def)
qed

lemma unresolved_same:
  assumes "\<And>path. mset (admitted_at a1 path) = mset (admitted_at a2 path)"
    and "distinct (map (\<lambda>e. pi_id (re_pin e)) (admitted_at a1 PathVerify))"
  shows "unresolved_of a1 = unresolved_of a2"
proof -
  have "set (admitted_at a1 PathSubmission) = set (admitted_at a2 PathSubmission)"
    using assms(1) by (rule mset_eq_setD)
  then have s: "set (map f (admitted_at a1 PathSubmission)) = set (map f (admitted_at a2 PathSubmission))" for f :: "replay_event \<Rightarrow> string"
    by simp
  have "inj_on (\<lambda>e. pi_id (re_pin e)) (set (filter P (admitted_at a1 PathVerify)))" for P
    using assms(2) by (auto simp: distinct_map intro: inj_on_subset)
  then have "inj_on er_pin (set (map unresolved_record (filter P (admitted_at a1 PathVerify))))" for P
    by (auto simp: inj_on_def unresolved_record_def)
  then show ?thesis
    unfolding unresolved_of_def s
    by (intro record_ord.slice_stable_perm) (simp_all add: assms(1))
qed

lemma render_same:
  assumes "\<And>path. mset (admitted_at a1 path) = mset (admitted_at a2 path)"
    and "unresolved_of a1 = unresolved_of a2" "ad_mempool a1 = ad_mempool a2" "ad_rejected a1 = ad_rejected a2"
  shows "render_result root_pin b a1 v m = render_result root_pin b a2 v m"
proof -
  have "length (admitted_at a1 p) = length (admitted_at a2 p)" for p using assms(1) by (rule mset_eq_length)
  moreover have "set (admitted_at a1 p) = set (admitted_at a2 p)" for p using assms(1) by (rule mset_eq_setD)
  ultimately show ?thesis using assms(2-4) by (simp add: render_result_def list_ex_iff)
qed

lemma replay_same_pools:
  assumes "same_pools ev1 ev2" "pools_distinct ev1"
  shows "Replay ev1 root_pin b = Replay ev2 root_pin b"
proof -
  let ?a1 = "admitEvents ev1 b" and ?a2 = "admitEvents ev2 b"
  note ad = admitted_same [OF assms]
  have "mset (chainEventsFrom ?a1) = mset (chainEventsFrom ?a2)"
    unfolding chainEventsFrom_def by (intro mset_concat_map_cong) (simp add: ad(1))
  moreover have "inj_on ev_pin (set (chainEventsFrom ?a1))"
    using admitted_pins_distinct [of ev1 b] by (simp add: distinct_map)
  ultimately have events: "ReplayV121 (chainEventsFrom ?a1) opts = ReplayV121 (chainEventsFrom ?a2) opts" for opts
    by (rule replay_by_path [OF byPath_perm])
  have rs: "set (pins_at ev1 PathRoster) = set (pins_at ev2 PathRoster)"
    using assms(1) unfolding same_pools_def by (metis set_mset_mset)
  have "distinct (map pi_id (pins_at ev1 PathRoster))" "distinct (map pi_id (pins_at ev2 PathRoster))"
    using assms(2) pools_distinct_same [OF assms] by (simp_all add: pools_distinct_def)
  then have "mget (roster_pins ev1 b) k = Some v \<longleftrightarrow> mget (roster_pins ev2 b) k = Some v" for k v
    unfolding roster_pins_def by (simp add: roster_get rs)
  then have "mget (roster_pins ev1 b) = mget (roster_pins ev2 b)" by (metis option.exhaust ext)
  then have "same_roster (replay_options ev1 root_pin b) (replay_options ev2 root_pin b)"
    by (simp add: same_roster_def replay_options_def)
  then have R: "ReplayV121 (chainEventsFrom ?a1) (replay_options ev1 root_pin b)
      = ReplayV121 (chainEventsFrom ?a2) (replay_options ev2 root_pin b)" (is "?R1 = ?R2")
    using replay_same_roster events by simp
  have d: "distinct (map (\<lambda>e. pi_id (re_pin e)) (admitted_at ?a1 PathVerify))"
    using first_of_distinct [of "[]" "swept ev1"]
    by (simp add: admitted_at_events comp_def admitted_event_def distinct_map_filter)
  have "render_result root_pin b ?a1 v m = render_result root_pin b ?a2 v m" for v m
    by (rule render_same [OF ad(1) unresolved_same [OF ad(1) d] ad(2,3)])
  then show ?thesis
    unfolding Replay_def Let_def by (simp only: R)
qed

text \<open>
  Replaying a task gives the same rendered result whatever the order in which the
  pools list the pins, as long as no pin id occurs twice.
\<close>

theorem replay_view_deterministic:
  assumes "same_pools ev1 ev2" "pools_distinct ev1"
  shows "Replay ev1 root_pin b = Replay ev2 root_pin b"
  using assms by (rule replay_same_pools)

theorem replay_view_deterministic_witness:
  "demo_pools [demo_w, demo_v] \<noteq> demo_pools [demo_v, demo_w]
   \<and> Replay (demo_pools [demo_w, demo_v]) ''t'' \<lparr>bd_height = 5, bd_ts = 500\<rparr> = Replay (demo_pools [demo_v, demo_w]) ''t'' \<lparr>bd_height = 5, bd_ts = 500\<rparr>"
proof
  have "demo_w \<noteq> demo_v" using demo_fields by (metis list.inject)
  then show "demo_pools [demo_w, demo_v] \<noteq> demo_pools [demo_v, demo_w]" by (simp add: demo_pools_def)
  have "same_pools (demo_pools [demo_w, demo_v]) (demo_pools [demo_v, demo_w])"
    by (simp add: same_pools_def demo_pools_def pins_at_def)
  moreover have "pins_at (demo_pools vs) PathRoster = []" for vs
    by (simp add: demo_pools_def pins_at_def PathTask_def PathClaim_def PathSubmission_def PathVerify_def PathRoster_def)
  moreover have "map (\<lambda>x. pi_id (snd x)) (swept (demo_pools vs)) = map pi_id (concat (map (pins_at (demo_pools vs)) EventPaths))" for vs
    by (simp add: swept_def map_concat comp_def)
  ultimately show "Replay (demo_pools [demo_w, demo_v]) ''t'' \<lparr>bd_height = 5, bd_ts = 500\<rparr> = Replay (demo_pools [demo_v, demo_w]) ''t'' \<lparr>bd_height = 5, bd_ts = 500\<rparr>"
    by (intro replay_view_deterministic) (simp_all add: pools_distinct_def demo_sweep)
qed

end
