(* ===== verification/JsonRoundtrip.thy ===== *)
theory JsonRoundtrip
  imports Payload JsonProps
begin

text \<open>
  Reading back canonical JSON: UTF-8 runes, string escapes, number literals, documents, and the
  payload acceptance rule on canonical text.
\<close>

section \<open>Runes\<close>

definition scalar :: "int \<Rightarrow> bool" where
  "scalar r \<longleftrightarrow> 0 \<le> r \<and> r \<le> 1114111 \<and> \<not> (55296 \<le> r \<and> r \<le> 57343)"

lemma scalar_error: "scalar rune_error"
  by (simp add: scalar_def rune_error_def)

lemma decode_rune_scalar:
  assumes "\<forall>b \<in> set bs. 0 \<le> b \<and> b < 256"
  shows "scalar (fst (decode_rune bs))"
proof (cases bs)
  case (Cons b0 r0)
  have b0: "0 \<le> b0" using assms Cons by simp
  consider "b0 < 128" | "194 \<le> b0" "b0 \<le> 223" | "224 \<le> b0" "b0 \<le> 239" | "240 \<le> b0" "b0 \<le> 244"
    | "\<not> b0 < 128" "\<not> (194 \<le> b0 \<and> b0 \<le> 223)" "\<not> (224 \<le> b0 \<and> b0 \<le> 239)" "\<not> (240 \<le> b0 \<and> b0 \<le> 244)"
    by linarith
  then show ?thesis
  proof cases
    case 2
    then show ?thesis
      by (auto simp: decode_rune_def Cons scalar_error cont_byte_def split: list.split) (auto simp: scalar_def)
  next
    case 3
    then show ?thesis
      by (auto simp: decode_rune_def Cons scalar_error cont_byte_def split: list.split) (auto simp: scalar_def)
  next
    case 4
    then show ?thesis
      by (auto simp: decode_rune_def Cons scalar_error cont_byte_def split: list.split) (auto simp: scalar_def)
  next
    case 1
    with b0 show ?thesis by (simp add: decode_rune_def Cons scalar_def)
  next
    case 5
    then have "decode_rune bs = (rune_error, 1)" unfolding decode_rune_def Cons by (simp only: if_False list.case)
    then show ?thesis by (simp add: scalar_error)
  qed
qed (simp add: decode_rune_def scalar_error)

lemma range_runes_scalar:
  "\<forall>b \<in> set bs. 0 \<le> b \<and> b < 256 \<Longrightarrow> \<forall>x \<in> set (range_runes i bs). scalar (snd x)"
proof (induction i bs rule: range_runes.induct)
  case (1 i bs)
  obtain r w where d: "decode_rune bs = (r, w)" by fastforce
  have "\<forall>b \<in> set (drop w bs). 0 \<le> b \<and> b < 256" using 1(2) by (meson in_set_dropD)
  with 1 d decode_rune_scalar [OF 1(2)] show ?case
    by (subst range_runes.simps) auto
qed

lemma runes_of_scalar: "\<forall>x \<in> set (runes_of s). scalar (snd x)"
  unfolding runes_of_def by (rule range_runes_scalar) auto

lemma rune_digits:
  fixes r :: int
  obtains a b c where "r = a * 4096 + b * 64 + c" "0 \<le> b" "b < 64" "0 \<le> c" "c < 64"
    "r div 4096 = a" "r div 64 mod 64 = b" "r mod 64 = c" "r div 64 = a * 64 + b"
proof -
  have q: "r div 4096 = r div 64 div 64" using zdiv_zmult2_eq [of 64 r 64] by simp
  have "r div 64 * 64 + r mod 64 = r" "r div 64 div 64 * 64 + r div 64 mod 64 = r div 64"
    by (rule div_mult_mod_eq)+
  then have "r = r div 64 div 64 * 4096 + r div 64 mod 64 * 64 + r mod 64" "r div 64 = r div 64 div 64 * 64 + r div 64 mod 64"
    by linarith+
  note eqs = this
  show ?thesis
    by (rule that [of "r div 64 div 64" "r div 64 mod 64" "r mod 64"]) (rule eqs q refl | simp)+
qed

lemma decode_encode_rune:
  assumes "scalar r" "128 \<le> r"
  shows "decode_rune (encode_rune r @ ys) = (r, length (encode_rune r))"
proof -
  consider "r < 2048" | "2048 \<le> r" "r < 65536" | "65536 \<le> r" by linarith
  then show ?thesis
  proof cases
    case 1
    have "2 \<le> r div 64" "r div 64 \<le> 31" using 1 assms(2) by linarith+
    then show ?thesis using 1 assms(2) by (simp add: encode_rune_def decode_rune_def cont_byte_def) 
  next
    case 2
    obtain a b c where r: "r = a * 4096 + b * 64 + c" "0 \<le> b" "b < 64" "0 \<le> c" "c < 64"
      "r div 4096 = a" "r div 64 mod 64 = b" "r mod 64 = c" by (rule rune_digits [of r])
    have a: "0 \<le> a" "a < 16" using 2 r(1-5) by linarith+
    have "a = 0 \<Longrightarrow> 32 \<le> b" "a = 13 \<Longrightarrow> b < 32" using 2 assms(1) r(1-5) by (auto simp: scalar_def)
    then show ?thesis
      using 2 a assms(1) r(2-5) unfolding encode_rune_def r(6-8)
      by (auto simp: decode_rune_def cont_byte_def scalar_def r(1))
  next
    case 3
    obtain a b c where r: "r = a * 4096 + b * 64 + c" "0 \<le> b" "b < 64" "0 \<le> c" "c < 64"
      "r div 4096 = a" "r div 64 mod 64 = b" "r mod 64 = c" by (rule rune_digits [of r])
    obtain u v where u: "a = u * 64 + v" "0 \<le> v" "v < 64" "r div 262144 = u" "r div 4096 mod 64 = v"
    proof
      have "r div 262144 = r div 4096 div 64" using zdiv_zmult2_eq [of 64 r 4096] by simp
      then show "a = r div 262144 * 64 + r div 4096 mod 64"
        unfolding r(6) [symmetric] by (simp add: div_mult_mod_eq)
    qed auto
    have u4: "0 \<le> u" "u \<le> 4" using 3 assms(1) r(1-5) u(1-3) by (auto simp: scalar_def)
    have "u = 0 \<Longrightarrow> 16 \<le> v" "u = 4 \<Longrightarrow> v < 16" using 3 assms(1) r(1-5) u(1-3) by (auto simp: scalar_def)
    then show ?thesis
      using 3 u4 assms(1) r(2-5) u(2,3) unfolding encode_rune_def r(7,8) u(4,5)
      by (auto simp: decode_rune_def cont_byte_def scalar_def r(1) u(1))
  qed
qed

lemma encode_rune_bytes:
  assumes "scalar r"
  shows "\<forall>b \<in> set (encode_rune r). 0 \<le> b \<and> b < 256 \<and> (128 \<le> r \<longrightarrow> 128 \<le> b)"
proof -
  have "r div 262144 < 8" "r div 4096 < 272" "r < 65536 \<Longrightarrow> r div 4096 < 32" "r < 2048 \<Longrightarrow> r div 64 < 64"
    "0 \<le> r div 262144" "0 \<le> r div 4096" "0 \<le> r div 64"
    using assms by (auto simp: scalar_def pos_imp_zdiv_nonneg_iff)
  moreover have "0 \<le> x mod 64" "x mod 64 < 64" "x mod 64 < 128" for x :: int
    using pos_mod_bound [of 64 x] by (simp, simp, linarith)
  moreover have "0 \<le> r" using assms by (simp add: scalar_def)
  ultimately show ?thesis
    unfolding encode_rune_def by (simp del: pos_mod_bound pos_mod_sign)
qed
lemma byte_char_of: "0 \<le> b \<Longrightarrow> b < 256 \<Longrightarrow> byte (char_of b) = (b::int)"
  by (simp add: of_char_of)

lemma map_byte_utf8: "scalar r \<Longrightarrow> map byte (utf8 r) = encode_rune r"
  using encode_rune_bytes [of r] by (auto simp: utf8_def byte_char_of intro!: map_idI)

section \<open>Strings\<close>

definition clean :: "string \<Rightarrow> string" where
  "clean s = concat (map (\<lambda>x. utf8 (snd x)) (runes_of s))"

lemma byte_chars: "byte (CHR 0x22) = 34" "byte (CHR 0x5C) = 92" "byte (CHR ''u'') = 117"
  by (simp_all add: of_char_def)

lemma char_byte_neq: "byte c \<noteq> byte d \<Longrightarrow> c \<noteq> d" by blast

lemma scan_str_plain:
  "32 \<le> byte c \<Longrightarrow> byte c \<noteq> 34 \<Longrightarrow> byte c \<noteq> 92 \<Longrightarrow>
     scan_str (c # r) = map_option (\<lambda>(t, u). (c # t, u)) (scan_str r)"
  using char_byte_neq [of c "CHR 0x22"] char_byte_neq [of c "CHR 0x5C"] by (simp add: byte_chars)

lemma scan_str_high:
  "\<forall>c \<in> set cs. 128 \<le> byte c \<Longrightarrow> scan_str (cs @ X) = map_option (\<lambda>(t, u). (cs @ t, u)) (scan_str X)"
proof (induction cs)
  case Nil
  show ?case by (cases "scan_str X") auto
next
  case (Cons c cs)
  then show ?case by (cases "scan_str X") (auto simp: scan_str_plain simp del: scan_str.simps)
qed

lemma hex_digit_val: "0 \<le> n \<Longrightarrow> n < 16 \<Longrightarrow> hex_val (hex_digit n) = Some n"
  by (auto simp: hex_digit_def hex_val_def byte_char_of)

lemma hex4_digits:
  assumes "0 \<le> r" "r < 65536"
  shows "hex4 r = [hex_digit (r div 4096), hex_digit (r div 256 mod 16), hex_digit (r div 16 mod 16), hex_digit (r mod 16)]"
proof -
  have "r div 4096 < 16" "0 \<le> r div 4096" using assms by (auto simp: pos_imp_zdiv_nonneg_iff)
  then show ?thesis by (simp add: hex4_def)
qed

lemma control_escape:
  assumes "0 \<le> r" "r < 32"
  shows "list_all (\<lambda>h. hex_val h \<noteq> None) (hex4 r) \<and> length (hex4 r) = 4
     \<and> (\<forall>Y. getu4 (CHR 0x5C # CHR ''u'' # hex4 r @ Y) = Some r)"
proof -
  have "r div 4096 = 0" "r div 256 mod 16 = 0" "r div 16 mod 16 = r div 16" "0 \<le> r div 16" "r div 16 < 16"
    "0 \<le> r mod 16" "r mod 16 < 16" "(r div 16) * 16 + r mod 16 = r"
    using assms by (auto simp: pos_imp_zdiv_nonneg_iff)
  then show ?thesis
    using assms by (simp add: hex4_digits hex_digit_val getu4_def)
qed

text \<open>How a rune is written: an escape of two or six characters, itself, or its multi-byte form.\<close>

lemma escape_cases:
  assumes "scalar r"
  obtains (short) e where "escape_rune r = [CHR 0x5C, e]" "esc_char e" "utf8 r = [unescape e]" "e \<noteq> CHR ''u''"
    | (control) "escape_rune r = CHR 0x5C # CHR ''u'' # hex4 r" "r < 32"
    | (plain) "escape_rune r = [char_of r]" "utf8 r = [char_of r]" "32 \<le> r" "r < 128" "r \<noteq> 34" "r \<noteq> 92"
    | (wide) "escape_rune r = utf8 r" "128 \<le> r"
proof -
  have sp: "escape_rune 34 = [CHR 0x5C, CHR 0x22]" "escape_rune 92 = [CHR 0x5C, CHR 0x5C]"
    "escape_rune 8 = [CHR 0x5C, CHR ''b'']" "escape_rune 12 = [CHR 0x5C, CHR ''f'']"
    "escape_rune 10 = [CHR 0x5C, CHR ''n'']" "escape_rune 13 = [CHR 0x5C, CHR ''r'']"
    "escape_rune 9 = [CHR 0x5C, CHR ''t'']"
    by (simp_all add: escape_rune_def)
  have ut: "utf8 34 = [unescape (CHR 0x22)]" "utf8 92 = [unescape (CHR 0x5C)]" "utf8 8 = [unescape (CHR ''b'')]"
    "utf8 12 = [unescape (CHR ''f'')]" "utf8 10 = [unescape (CHR ''n'')]" "utf8 13 = [unescape (CHR ''r'')]"
    "utf8 9 = [unescape (CHR ''t'')]"
    by (simp_all add: utf8_def encode_rune_def unescape_def char_of_def)
  have r0: "0 \<le> r" using assms by (simp add: scalar_def)
  consider "r \<in> {34, 92, 8, 12, 10, 13, 9}" | "r \<notin> {34, 92, 8, 12, 10, 13, 9}" "r < 32"
    | "r \<notin> {34, 92, 8, 12, 10, 13, 9}" "32 \<le> r" "r < 128" | "128 \<le> r" by fastforce
  then show thesis
  proof cases
    case 1
    then have "\<exists>e. escape_rune r = [CHR 0x5C, e] \<and> esc_char e \<and> utf8 r = [unescape e] \<and> e \<noteq> CHR ''u''"
      using sp ut by (auto simp: esc_char_def)
    then show thesis using short by blast
  next
    case 2
    then show thesis by (intro control) (simp_all add: escape_rune_def)
  next
    case 3
    then show thesis by (intro plain) (simp_all add: escape_rune_def utf8_def encode_rune_def)
  next
    case 4
    then show thesis by (intro wide) (simp_all add: escape_rune_def utf8_def)
  qed
qed

lemma utf8_high: "scalar r \<Longrightarrow> 128 \<le> r \<Longrightarrow> \<forall>c \<in> set (utf8 r). 128 \<le> byte c"
  using encode_rune_bytes [of r] by (auto simp: utf8_def byte_char_of)

lemma scan_escape:
  assumes "scalar r"
  shows "scan_str (escape_rune r @ X) = map_option (\<lambda>(t, u). (escape_rune r @ t, u)) (scan_str X)"
  using assms
proof (cases rule: escape_cases)
  case (short e)
  then show ?thesis by simp
next
  case control
  with assms control_escape [of r] obtain h1 h2 h3 h4 where h: "hex4 r = [h1, h2, h3, h4]"
    "list_all (\<lambda>h. hex_val h \<noteq> None) [h1, h2, h3, h4]"
    by (auto simp: scalar_def length_Suc_conv numeral_eq_Suc)
  have "\<not> esc_char (CHR ''u'')" by (simp add: esc_char_def)
  with control h show ?thesis by simp
next
  case plain
  then have "byte (char_of r) = r" by (simp add: byte_char_of)
  with plain show ?thesis by (simp add: scan_str_plain del: scan_str.simps)
next
  case wide
  from utf8_high [OF assms wide(2)] show ?thesis unfolding wide(1) by (rule scan_str_high)
qed

lemma getu4_not_u: "e \<noteq> CHR ''u'' \<Longrightarrow> getu4 (b # e # Y) = None"
  by (auto simp: getu4_def split: list.splits)

lemma unquote_escape:
  assumes "scalar r"
  shows "unquote (escape_rune r @ Y) = utf8 r @ unquote Y"
  using assms
proof (cases rule: escape_cases)
  case (short e)
  then show ?thesis by (subst unquote.simps) (simp add: getu4_not_u)
next
  case control
  have r: "0 \<le> r" using assms by (simp add: scalar_def)
  from control_escape [OF r control(2)] have "length (hex4 r) = 4" "getu4 (CHR 0x5C # CHR ''u'' # hex4 r @ Y) = Some r"
    by blast+
  then show ?thesis unfolding control(1) by (subst unquote.simps) (use control(2) in simp)
next
  case plain
  then have "byte (char_of r) = r" "char_of r \<noteq> CHR 0x5C"
    using char_byte_neq [of "char_of r" "CHR 0x5C"] by (simp_all add: byte_char_of byte_chars)
  with plain show ?thesis by (subst unquote.simps) simp
next
  case wide
  have "encode_rune r \<noteq> []" by (simp add: encode_rune_def)
  then obtain c cs where u: "utf8 r = c # cs" by (cases "utf8 r") (auto simp: utf8_def)
  with utf8_high [OF assms wide(2)] have c: "128 \<le> byte c" by simp
  then have "c \<noteq> CHR 0x5C" using char_byte_neq [of c "CHR 0x5C"] by (simp add: byte_chars)
  moreover have "decode_rune (map byte (utf8 r @ Y)) = (r, length (utf8 r))"
    using decode_encode_rune [OF assms wide(2), of "map byte Y"] map_byte_utf8 [OF assms] by (simp add: utf8_def)
  ultimately show ?thesis
    unfolding wide(1) by (subst unquote.simps) (use c u in simp)
qed

lemma parse_pyJSONString:
  "scan_str (concat (map (\<lambda>(i, r). escape_rune r) (runes_of s)) @ CHR 0x22 # rest)
     = Some (concat (map (\<lambda>(i, r). escape_rune r) (runes_of s)), rest)"
  "unquote (concat (map (\<lambda>(i, r). escape_rune r) (runes_of s))) = clean s"
proof -
  have "scan_str (concat (map (\<lambda>(i, r). escape_rune r) xs) @ CHR 0x22 # rest)
      = Some (concat (map (\<lambda>(i, r). escape_rune r) xs), rest)
    \<and> unquote (concat (map (\<lambda>(i, r). escape_rune r) xs)) = concat (map (\<lambda>x. utf8 (snd x)) xs)"
    if "\<forall>x \<in> set xs. scalar (snd x)" for xs :: "(nat \<times> int) list"
    using that
  proof (induction xs)
    case Nil
    show ?case by (simp add: unquote.simps)
  next
    case (Cons x xs)
    then show ?case by (cases x) (simp add: scan_escape unquote_escape del: scan_str.simps)
  qed
  from this [OF runes_of_scalar] show
    "scan_str (concat (map (\<lambda>(i, r). escape_rune r) (runes_of s)) @ CHR 0x22 # rest)
       = Some (concat (map (\<lambda>(i, r). escape_rune r) (runes_of s)), rest)"
    "unquote (concat (map (\<lambda>(i, r). escape_rune r) (runes_of s))) = clean s"
    by (simp_all add: clean_def)
qed

lemma parse_str_canon: "pyJSONString s = CHR 0x22 # b \<Longrightarrow> parse_str (b @ rest) = Some (clean s, rest)"
  using parse_pyJSONString by (auto simp: pyJSONString_def parse_str_def)

section \<open>Numbers\<close>

text \<open>What may follow a value in canonical text.\<close>

definition follow :: "string \<Rightarrow> bool" where
  "follow rest \<longleftrightarrow> (case rest of [] \<Rightarrow> True | c # r \<Rightarrow> c = CHR '','' \<or> c = CHR '']'' \<or> c = CHR ''}'')"

lemma follow_simps [simp]: "follow []" "follow (CHR '','' # r)" "follow (CHR '']'' # r)" "follow (CHR ''}'' # r)"
  by (simp_all add: follow_def)

lemma followE:
  assumes "follow rest"
  obtains "rest = []" | c r where "rest = c # r" "\<not> is_digit c" "\<not> is_ws c" "c \<noteq> CHR ''.''" "c \<noteq> CHR ''e''" "c \<noteq> CHR ''E''"
  using assms by (cases rest) (auto simp: follow_def is_digit_def is_ws_def of_char_def)

lemma span_follow:
  assumes "follow rest" "span_digits s = (a, u)"
  shows "span_digits (s @ rest) = (a, u @ rest)"
proof -
  have "takeWhile is_digit rest = []" "dropWhile is_digit rest = rest"
    using assms(1) by (auto elim: followE)
  then show ?thesis
    using assms(2)
    by (cases "\<forall>x \<in> set s. is_digit x")
       (auto simp: span_digits_def takeWhile_append dropWhile_append simp flip: takeWhile_eq_all_conv)
qed

lemma scan_parts_follow:
  assumes "follow rest"
  shows "scan_int s = Some (a, u) \<Longrightarrow> scan_int (s @ rest) = Some (a, u @ rest)"
    and "scan_frac s = Some (a, u) \<Longrightarrow> scan_frac (s @ rest) = Some (a, u @ rest)"
    and "scan_exp s = Some (a, u) \<Longrightarrow> scan_exp (s @ rest) = Some (a, u @ rest)"
proof -
  note span = span_follow [OF assms]
  show "scan_int s = Some (a, u) \<Longrightarrow> scan_int (s @ rest) = Some (a, u @ rest)"
    using span [of s] by (auto simp: scan_int_def split: list.splits if_splits)
  show "scan_frac s = Some (a, u) \<Longrightarrow> scan_frac (s @ rest) = Some (a, u @ rest)"
  proof (cases s)
    case Nil
    then show "scan_frac s = Some (a, u) \<Longrightarrow> scan_frac (s @ rest) = Some (a, u @ rest)"
      using assms by (auto simp: scan_frac_def elim: followE)
  next
    case (Cons c r)
    then show "scan_frac s = Some (a, u) \<Longrightarrow> scan_frac (s @ rest) = Some (a, u @ rest)"
      using span [of r] by (auto simp: scan_frac_def Let_def split: prod.splits if_splits)
  qed
  show "scan_exp s = Some (a, u) \<Longrightarrow> scan_exp (s @ rest) = Some (a, u @ rest)"
  proof (cases s)
    case Nil
    then show "scan_exp s = Some (a, u) \<Longrightarrow> scan_exp (s @ rest) = Some (a, u @ rest)"
      using assms by (auto simp: scan_exp_def elim: followE)
  next
    case (Cons c r)
    then show "scan_exp s = Some (a, u) \<Longrightarrow> scan_exp (s @ rest) = Some (a, u @ rest)"
    proof (cases r)
      case Nil
      then show "scan_exp s = Some (a, u) \<Longrightarrow> scan_exp (s @ rest) = Some (a, u @ rest)"
        using Cons by (auto simp: scan_exp_def span_digits_def split: if_splits)
    next
      case (Cons d r')
      then show "scan_exp s = Some (a, u) \<Longrightarrow> scan_exp (s @ rest) = Some (a, u @ rest)"
        using \<open>s = c # r\<close> span [of r'] span [of r]
        by (auto simp: scan_exp_def Let_def split: prod.splits if_splits)
    qed
  qed
qed

definition num_lit :: "string \<Rightarrow> bool" where
  "num_lit s \<longleftrightarrow> scan_number s = Some (s, [])"

lemma scan_number_follow:
  assumes "scan_number s = Some (a, u)" "follow rest"
  shows "scan_number (s @ rest) = Some (a, u @ rest)"
proof (cases s)
  case Nil
  then show ?thesis using assms(1) by (simp add: scan_number_def scan_int_def)
next
  case (Cons c r)
  define sg where "sg = (if c = CHR ''-'' then [c] else [])"
  define s0 where "s0 = (if c = CHR ''-'' then r else s)"
  have split: "(case s @ t of [] \<Rightarrow> ([], s @ t) | c # r \<Rightarrow> if c = CHR ''-'' then ([c], r) else ([], s @ t)) = (sg, s0 @ t)" for t
    by (simp add: Cons sg_def s0_def)
  from assms(1) obtain i s1 f s2 e where parts: "scan_int s0 = Some (i, s1)" "scan_frac s1 = Some (f, s2)"
    "scan_exp s2 = Some (e, u)" "a = sg @ i @ f @ e"
    unfolding scan_number_def using split [of "[]", unfolded append_Nil2] by (auto simp: Let_def split: option.splits)
  show ?thesis
    unfolding scan_number_def split
    using scan_parts_follow [OF assms(2)] parts by simp
qed

lemma num_lit_start:
  assumes "num_lit s"
  obtains c r where "s = c # r" "c = CHR ''-'' \<or> is_digit c"
proof (cases s)
  case Nil
  then show ?thesis using assms by (simp add: num_lit_def scan_number_def scan_int_def)
next
  case (Cons c r)
  have "is_digit (CHR ''0'')" by (simp add: is_digit_def of_char_def)
  with Cons show ?thesis using assms that
    by (auto simp: num_lit_def scan_number_def scan_int_def split: if_splits option.splits)
qed

lemma show_nat_digits:
  "0 \<le> n \<Longrightarrow> show_nat n \<noteq> [] \<and> list_all is_digit (show_nat n) \<and> (n \<noteq> 0 \<longrightarrow> hd (show_nat n) \<noteq> CHR ''0'')"
proof (induction n rule: show_nat.induct)
  case (1 n)
  have dig: "is_digit (char_of (48 + k))" "k \<noteq> 0 \<Longrightarrow> char_of (48 + k) \<noteq> CHR ''0''" if "0 \<le> k" "k < 10" for k :: int
  proof -
    have b: "byte (char_of (48 + k)) = 48 + k" using that by (simp add: byte_char_of)
    then show "is_digit (char_of (48 + k))" using that by (simp add: is_digit_def)
    have "byte (CHR ''0'') = 48" by (simp add: of_char_def)
    then show "char_of (48 + k) \<noteq> CHR ''0''" if "k \<noteq> 0" using b that by (intro char_byte_neq) simp
  qed
  show ?case
  proof (cases "n < 10")
    case True
    with 1(2) dig show ?thesis by (subst (1 2 3) show_nat.simps) simp
  next
    case False
    then have d: "0 \<le> n div 10" "n div 10 \<noteq> 0" using 1(2) by auto
    then have "show_nat (n div 10) \<noteq> [] \<and> list_all is_digit (show_nat (n div 10)) \<and> hd (show_nat (n div 10)) \<noteq> CHR ''0''"
      using 1(1) [OF False] by simp
    with False dig(1) [of "n mod 10"] show ?thesis by (subst (1 2 3) show_nat.simps) simp
  qed
qed

lemma show_int_lit: "num_lit (show_int i)"
proof -
  have z: "show_nat 0 = ''0''" by (simp add: show_nat.simps char_of_def)
  have s: "scan_int (show_nat n) = Some (show_nat n, [])" if "0 \<le> n" for n
  proof (cases "n = 0")
    case True
    then show ?thesis by (simp add: z scan_int_def)
  next
    case False
    with show_nat_digits [OF that] obtain c r where "show_nat n = c # r" "c \<noteq> CHR ''0''" "is_digit c" "list_all is_digit r"
      by (cases "show_nat n") auto
    moreover from this have "takeWhile is_digit r = r" "dropWhile is_digit r = []"
      by (auto simp: list_all_iff takeWhile_eq_all_conv dropWhile_eq_Nil_conv)
    ultimately show ?thesis by (simp add: scan_int_def span_digits_def)
  qed
  have m: "\<not> is_digit (CHR ''-'')" by (simp add: is_digit_def of_char_def)
  have "hd (show_nat n) \<noteq> CHR ''-''" if "0 \<le> n" for n
    using show_nat_digits [OF that] m by (cases "show_nat n") auto
  then show ?thesis
    using s [of i] s [of "- i"] show_nat_digits [of i] m
    by (cases "show_nat i") (auto simp: num_lit_def show_int_def scan_number_def scan_frac_def scan_exp_def Let_def)
qed

section \<open>Documents\<close>

text \<open>Every number literal is one of JSON's, and how deep the document is nested.\<close>

fun lits_ok :: "json \<Rightarrow> bool" where
  "lits_ok (JNum s) \<longleftrightarrow> num_lit s"
| "lits_ok (JArr vs) \<longleftrightarrow> list_all lits_ok vs"
| "lits_ok (JObj fs) \<longleftrightarrow> list_all (\<lambda>f. lits_ok (snd f)) fs"
| "lits_ok _ \<longleftrightarrow> True"

fun nesting :: "json \<Rightarrow> nat" where
  "nesting (JArr vs) = Suc (fold max (map nesting vs) 0)"
| "nesting (JObj fs) = Suc (fold max (map (\<lambda>f. nesting (snd f)) fs) 0)"
| "nesting _ = 0"

text \<open>
  What a canonical text decodes to: the same document with its keys in order, numbers as their
  literals, and every string with U+FFFD for the bytes that are not UTF-8.
\<close>

function normal :: "json \<Rightarrow> json" where
  "normal JNull = JNull"
| "normal (JBool b) = JBool b"
| "normal (JStr s) = JStr (clean s)"
| "normal (JNum s) = JNum s"
| "normal (JInt i) = JNum (show_int i)"
| "normal (JArr vs) = JArr (map normal vs)"
| "normal (JObj fs) = JObj (foldl (\<lambda>m f. mput (fst f) (snd f) m) []
     (map (\<lambda>f. (clean (fst f), normal (snd f))) (slice_stable key_less fs)))"
  by pat_completeness auto

termination
proof (relation "measure size")
  fix fs and f :: "string \<times> json"
  assume "f \<in> set (slice_stable key_less fs)"
  then have "f \<in> set fs" by simp
  then have "size (snd f) \<le> size_list (size_prod (\<lambda>s. 0) size) fs"
    by (rule size_list_estimation') (cases f, simp)
  then show "(snd f, JObj fs) \<in> measure size" by simp
qed (auto simp: less_Suc_eq_le intro: size_list_estimation')

lemma fold_max_le: "fold max xs n \<le> (m::nat) \<longleftrightarrow> n \<le> m \<and> (\<forall>x \<in> set xs. x \<le> m)"
  by (induction xs arbitrary: n) auto

lemma skip_ws_char: "\<not> is_ws c \<Longrightarrow> skip_ws (c # r) = c # r"
  by (simp add: skip_ws_def)

lemma ws_chars [simp]: "\<not> is_ws (CHR ''{'')" "\<not> is_ws (CHR ''['')" "\<not> is_ws (CHR ''}'')" "\<not> is_ws (CHR '']'')"
  "\<not> is_ws (CHR '','')" "\<not> is_ws (CHR '':'')" "\<not> is_ws (CHR 0x22)" "\<not> is_ws (CHR ''-'')"
  "\<not> is_ws (CHR ''t'')" "\<not> is_ws (CHR ''f'')" "\<not> is_ws (CHR ''n'')"
  by (simp_all add: is_ws_def of_char_def)

lemma digit_not_ws: "is_digit c \<Longrightarrow> \<not> is_ws c"
  by (auto simp: is_ws_def is_digit_def)

lemma pyJSONString_start: obtains b where "pyJSONString s = CHR 0x22 # b"
  by (simp add: pyJSONString_def)

lemma canonJ_start:
  assumes "canonJ v = Some t" "lits_ok v"
  obtains c r where "t = c # r" "\<not> is_ws c" "c \<noteq> CHR '']''"
proof -
  have "\<exists>c r. t = c # r \<and> \<not> is_ws c \<and> c \<noteq> CHR '']''"
  proof -
    have "\<exists>c r. s = c # r \<and> \<not> is_ws c \<and> c \<noteq> CHR '']''" if "num_lit s" for s
      using that by (rule num_lit_start) (auto simp: digit_not_ws is_digit_def of_char_def)
    note lit = this
    show ?thesis
    proof (cases v)
      case (JNum s)
      then have "t = s" "num_lit s" using assms by (auto split: if_splits)
      then show ?thesis using lit by blast
    next
      case (JInt i)
      then show ?thesis using assms(1) lit [OF show_int_lit] by auto
    next
      case (JStr s)
      obtain b where "pyJSONString s = CHR 0x22 # b" by (rule pyJSONString_start)
      with JStr assms(1) have "t = CHR 0x22 # b" by simp
      then show ?thesis by simp
    next
      case (JArr vs)
      from assms(1) JArr have "t \<noteq> [] \<and> hd t = CHR ''[''" by (cases "those (map canonJ vs)") auto
      then show ?thesis by (cases t) simp_all
    next
      case (JObj fs)
      from assms(1) JObj have "t \<noteq> [] \<and> hd t = CHR ''{''"
        by (simp split: option.splits) (auto simp: Let_def split: option.splits)
      then show ?thesis by (cases t) simp_all
    next
      case (JBool b)
      with assms(1) have "t = (if b then ''true'' else ''false'')" by simp
      then have "t \<noteq> [] \<and> (hd t = CHR ''t'' \<or> hd t = CHR ''f'')" by simp
      then show ?thesis by (cases t) (simp, elim conjE disjE, simp_all)
    next
      case JNull
      with assms(1) have "t = ''null''" by simp
      then have "t \<noteq> [] \<and> hd t = CHR ''n''" by simp
      then show ?thesis by (cases t) simp_all
    qed
  qed
  then show ?thesis using that by blast
qed

definition reads_back :: "nat \<Rightarrow> json \<Rightarrow> bool" where
  "reads_back d v \<longleftrightarrow> (\<forall>t k rest. canonJ v = Some t \<longrightarrow> follow rest \<longrightarrow> 2 * length t \<le> k \<longrightarrow>
     parse_value (Suc k) d (t @ rest) = Some (normal v, rest))"

lemma those_Cons: "those (x # xs) = Some ys \<longleftrightarrow> (\<exists>z zs. x = Some z \<and> those xs = Some zs \<and> ys = z # zs)"
  by (auto split: option.splits)

lemma parse_elems_canon:
  assumes "\<forall>v \<in> set vs. reads_back d v" "those (map canonJ vs) = Some ts" "vs \<noteq> []"
    "2 * length (join_comma ts) + 2 \<le> k"
  shows "parse_elems k d acc (join_comma ts @ CHR '']'' # rest) = Some (acc @ map normal vs, rest)"
  using assms
proof (induction vs arbitrary: acc k ts)
  case (Cons v vs)
  from Cons.prems(2) obtain t ts' where t: "canonJ v = Some t" and ts': "those (map canonJ vs) = Some ts'" and ts: "ts = t # ts'"
    by (auto simp: those_Cons simp del: those.simps)
  have rb: "parse_value (Suc k) d (t @ rest) = Some (normal v, rest)" if "follow rest" "2 * length t \<le> k" for k rest
    using Cons.prems(1) t that by (simp add: reads_back_def)
  show ?case
  proof (cases vs)
    case Nil
    then have "ts' = []" using ts' by simp
    with ts Cons.prems(4) obtain k2 where "k = Suc (Suc k2)" "2 * length t \<le> k2"
      by (auto dest!: le_Suc_ex)
    with ts \<open>ts' = []\<close> Nil rb show ?thesis by (simp add: skip_ws_char)
  next
    case (Cons v2 vs2)
    with ts' obtain t2 ts2 where t2: "ts' = t2 # ts2" by (auto simp: those_Cons simp del: those.simps)
    with ts Cons.prems(4) obtain k2 where k: "k = Suc (Suc k2)" "2 * length t \<le> k2"
      "2 * length (join_comma ts') + 2 \<le> Suc k2"
      by (auto dest!: le_Suc_ex)
    have "parse_elems (Suc k2) d (acc @ [normal v]) (join_comma ts' @ CHR '']'' # rest)
        = Some ((acc @ [normal v]) @ map normal vs, rest)"
      by (rule Cons.IH) (use Cons.prems(1) ts' k Cons in auto)
    then show ?thesis using ts t2 k rb by (simp add: skip_ws_char)
  qed
qed simp

lemma parse_members_canon:
  assumes "\<forall>f \<in> set fs. reads_back d (snd f)"
    "those (map (\<lambda>f. map_option (\<lambda>t. pyJSONString (fst f) @ CHR '':'' # t) (canonJ (snd f))) fs) = Some ts" "fs \<noteq> []"
    "2 * length (join_comma ts) + 2 \<le> k"
  shows "parse_members k d acc (join_comma ts @ CHR ''}'' # rest)
    = Some (foldl (\<lambda>m f. mput (fst f) (snd f) m) acc (map (\<lambda>f. (clean (fst f), normal (snd f))) fs), rest)"
  using assms
proof (induction fs arbitrary: acc k ts)
  case (Cons f fs)
  let ?m = "\<lambda>f. map_option (\<lambda>t. pyJSONString (fst f) @ CHR '':'' # t) (canonJ (snd f))"
  from Cons.prems(2) obtain t ts' where t: "canonJ (snd f) = Some t" and ts': "those (map ?m fs) = Some ts'"
    and ts: "ts = (pyJSONString (fst f) @ CHR '':'' # t) # ts'"
    by (auto simp: those_Cons simp del: those.simps)
  obtain b where b: "pyJSONString (fst f) = CHR 0x22 # b" by (rule pyJSONString_start)
  note key = parse_str_canon [OF b]
  have rb: "parse_value (Suc k) d (t @ rest) = Some (normal (snd f), rest)" if "follow rest" "2 * length t \<le> k" for k rest
    using Cons.prems(1) t that by (simp add: reads_back_def)
  show ?case
  proof (cases fs)
    case Nil
    then have "ts' = []" using ts' by simp
    with ts Cons.prems(4) b obtain k2 where "k = Suc (Suc k2)" "2 * length t \<le> k2"
      by (auto dest!: le_Suc_ex)
    with ts \<open>ts' = []\<close> Nil rb b key show ?thesis by (simp add: skip_ws_char)
  next
    case (Cons f2 fs2)
    with ts' obtain t2 ts2 where t2: "ts' = t2 # ts2" by (auto simp: those_Cons simp del: those.simps)
    with ts Cons.prems(4) b obtain k2 where k: "k = Suc (Suc k2)" "2 * length t \<le> k2"
      "2 * length (join_comma ts') + 2 \<le> Suc k2"
      by (auto dest!: le_Suc_ex)
    have "parse_members (Suc k2) d (mput (clean (fst f)) (normal (snd f)) acc) (join_comma ts' @ CHR ''}'' # rest)
        = Some (foldl (\<lambda>m f. mput (fst f) (snd f) m) (mput (clean (fst f)) (normal (snd f)) acc)
            (map (\<lambda>f. (clean (fst f), normal (snd f))) fs), rest)"
      by (rule Cons.IH) (use Cons.prems(1) ts' k Cons in auto)
    then show ?thesis using ts t2 k rb b key by (simp add: skip_ws_char)
  qed
qed simp

lemma max_nesting_child:
  "v \<in> set vs \<Longrightarrow> d + nesting (JArr vs) \<le> m \<Longrightarrow> Suc d + nesting v \<le> m"
  "f \<in> set fs \<Longrightarrow> d + nesting (JObj fs) \<le> m \<Longrightarrow> Suc d + nesting (snd f) \<le> m"
proof -
  have "x \<le> fold max xs n" if "x \<in> set xs" for x n :: nat and xs
    using that fold_max_le [of xs n "fold max xs n"] by blast
  note le = this
  show "v \<in> set vs \<Longrightarrow> d + nesting (JArr vs) \<le> m \<Longrightarrow> Suc d + nesting v \<le> m"
    using le [of "nesting v" "map nesting vs" 0] by simp
  show "f \<in> set fs \<Longrightarrow> d + nesting (JObj fs) \<le> m \<Longrightarrow> Suc d + nesting (snd f) \<le> m"
    using le [of "nesting (snd f)" "map (\<lambda>f. nesting (snd f)) fs" 0] by simp
qed

lemma parse_number_value:
  assumes "num_lit s" "follow rest"
  shows "parse_value (Suc k) d (s @ rest) = Some (JNum s, rest)"
proof -
  have "scan_number (s @ rest) = Some (s, rest)"
    using scan_number_follow [OF assms(1) [unfolded num_lit_def] assms(2)] by simp
  moreover obtain c r where "s = c # r" "c = CHR ''-'' \<or> is_digit c" by (rule num_lit_start [OF assms(1)])
  moreover have "\<not> is_digit (CHR ''{'')" "\<not> is_digit (CHR ''['')" "\<not> is_digit (CHR 0x22)" "\<not> is_digit (CHR ''t'')"
    "\<not> is_digit (CHR ''f'')" "\<not> is_digit (CHR ''n'')"
    by (simp_all add: is_digit_def of_char_def)
  ultimately show ?thesis by (auto simp: skip_ws_char digit_not_ws)
qed

lemma canonJ_reads_back: "lits_ok v \<Longrightarrow> d + nesting v \<le> max_nesting \<Longrightarrow> reads_back d v"
proof (induction v arbitrary: d rule: canonJ.induct)
  case 1
  show ?case by (simp add: reads_back_def skip_ws_char expect_def has_prefix_def)
next
  case (2 b)
  show ?case by (auto simp: reads_back_def skip_ws_char expect_def has_prefix_def)
next
  case (3 s)
  show ?case
  proof (unfold reads_back_def, intro allI impI)
    fix t k rest
    assume "canonJ (JStr s) = Some t"
    then have t: "t = pyJSONString s" by simp
    obtain b where b: "pyJSONString s = CHR 0x22 # b" by (rule pyJSONString_start)
    from parse_str_canon [OF b] show "parse_value (Suc k) d (t @ rest) = Some (normal (JStr s), rest)"
      by (simp add: t b skip_ws_char)
  qed
next
  case (4 s)
  then show ?case by (auto simp: reads_back_def parse_number_value simp del: parse_value.simps split: if_splits)
next
  case (5 i)
  show ?case by (simp add: reads_back_def parse_number_value show_int_lit del: parse_value.simps)
next
  case (6 vs)
  have rb: "\<forall>v \<in> set vs. reads_back (Suc d) v"
    using 6 max_nesting_child(1) by (auto simp: list_all_iff)
  have d: "d < max_nesting" using 6(3) by simp
  show ?case
  proof (unfold reads_back_def, intro allI impI)
    fix t k rest
    assume c: "canonJ (JArr vs) = Some t" and k: "2 * length t \<le> k"
    then obtain ts where ts: "those (map canonJ vs) = Some ts" and t: "t = CHR ''['' # join_comma ts @ '']''"
      by (auto split: option.splits)
    show "parse_value (Suc k) d (t @ rest) = Some (normal (JArr vs), rest)"
    proof (cases "vs = []")
      case True
      with ts t d show ?thesis by (simp add: skip_ws_char)
    next
      case False
      then obtain v vs' where vs: "vs = v # vs'" by (cases vs) auto
      with ts obtain t1 ts1 where t1: "canonJ v = Some t1" "ts = t1 # ts1" by (auto simp: those_Cons simp del: those.simps)
      obtain c r where cr: "t1 = c # r" "\<not> is_ws c" "c \<noteq> CHR '']''"
        by (rule canonJ_start [OF t1(1)]) (use 6(2) vs in auto)
      then obtain r' where r': "join_comma ts = c # r'" using t1(2) by (cases ts1) auto
      have "parse_elems k (Suc d) [] (join_comma ts @ CHR '']'' # rest) = Some ([] @ map normal vs, rest)"
        by (rule parse_elems_canon [OF rb ts False]) (use k t in simp)
      with r' cr d show ?thesis unfolding t by (simp add: skip_ws_char)
    qed
  qed
next
  case (7 fs)
  let ?fs = "slice_stable key_less fs"
  have rb: "\<forall>f \<in> set ?fs. reads_back (Suc d) (snd f)"
    using 7 max_nesting_child(2) by (auto simp: list_all_iff)
  have d: "d < max_nesting" using 7(3) by simp
  show ?case
  proof (unfold reads_back_def, intro allI impI)
    fix t k rest
    assume c: "canonJ (JObj fs) = Some t" and k: "2 * length t \<le> k"
    then obtain ts where ts: "those (map (\<lambda>f. map_option (\<lambda>t. pyJSONString (fst f) @ CHR '':'' # t) (canonJ (snd f))) ?fs) = Some ts"
      and t: "t = CHR ''{'' # join_comma ts @ ''}''"
      by (auto split: option.splits)
    show "parse_value (Suc k) d (t @ rest) = Some (normal (JObj fs), rest)"
    proof (cases "?fs = []")
      case True
      with ts t d show ?thesis by (simp add: skip_ws_char)
    next
      case False
      then obtain f fs' where fs: "?fs = f # fs'" by (cases ?fs) auto
      with ts obtain t1 ts1 where t1: "ts = (pyJSONString (fst f) @ CHR '':'' # t1) # ts1"
        by (auto simp: those_Cons simp del: those.simps)
      obtain b where "pyJSONString (fst f) = CHR 0x22 # b" by (rule pyJSONString_start)
      then obtain r' where r': "join_comma ts = CHR 0x22 # r'" using t1 by (cases ts1) auto
      have "parse_members k (Suc d) [] (join_comma ts @ CHR ''}'' # rest)
          = Some (foldl (\<lambda>m f. mput (fst f) (snd f) m) [] (map (\<lambda>f. (clean (fst f), normal (snd f))) ?fs), rest)"
        by (rule parse_members_canon [OF rb ts False]) (use k t in simp)
      with r' d show ?thesis unfolding t by (simp add: skip_ws_char)
    qed
  qed
qed

lemma decode_canon:
  assumes "canonJ v = Some t" "lits_ok v" "nesting v \<le> max_nesting"
  shows "decode_json t = Some (normal v, '''')"
proof -
  have "reads_back 0 v" using canonJ_reads_back [OF assms(2), of 0] assms(3) by simp
  then have "\<forall>k rest. follow rest \<longrightarrow> 2 * length t \<le> k \<longrightarrow> parse_value (Suc k) 0 (t @ rest) = Some (normal v, rest)"
    unfolding reads_back_def using assms(1) by blast
  from this [rule_format, of "[]" "Suc (2 * length t)"] show ?thesis
    by (simp add: decode_json_def del: parse_value.simps)
qed

section \<open>Accepting canonical payloads\<close>

lemma decode_canon_follow:
  assumes "canonJ v = Some t" "lits_ok v" "nesting v \<le> max_nesting" "follow rest"
  shows "decode_json (t @ rest) = Some (normal v, rest)"
proof -
  have "reads_back 0 v" using canonJ_reads_back [OF assms(2), of 0] assms(3) by simp
  then have "\<forall>k rest. follow rest \<longrightarrow> 2 * length t \<le> k \<longrightarrow> parse_value (Suc k) 0 (t @ rest) = Some (normal v, rest)"
    unfolding reads_back_def using assms(1) by blast
  from this [rule_format, OF assms(4), of "Suc (2 * length (t @ rest))"] show ?thesis
    by (simp add: decode_json_def del: parse_value.simps)
qed

definition object_fields :: "jobj \<Rightarrow> jobj" where
  "object_fields fs = foldl (\<lambda>m f. mput (fst f) (snd f) m) []
     (map (\<lambda>f. (clean (fst f), normal (snd f))) (slice_stable key_less fs))"

lemma accept_canon:
  assumes "canonJ (JObj fs) = Some t" "lits_ok (JObj fs)" "nesting (JObj fs) \<le> max_nesting"
    and "follow rest" "\<not> decoder_more rest" "len = 0 \<or> len = int (length (t @ rest))"
  shows "acceptPayload (t @ rest) len = \<lparr>pv_state = PayloadOK, pv_payload = object_fields fs\<rparr>"
proof -
  have "t \<noteq> []" by (rule canonJ_start [OF assms(1,2)]) simp
  moreover have "normal (JObj fs) = JObj (object_fields fs)" by (simp add: object_fields_def)
  ultimately show ?thesis
    using decode_canon_follow [OF assms(1-4)] assms(5,6) by (auto simp: acceptPayload_def as_obj_def)
qed

lemma demo_canonical:
  "canonJ (JObj [(''b'', JArr [JNum ''1'', JNull]), (''a'', JStr ''x'')]) = Some ''{\"a\":\"x\",\"b\":[1,null]}''"
  "lits_ok (JObj [(''b'', JArr [JNum ''1'', JNull]), (''a'', JStr ''x'')])"
  "nesting (JObj [(''b'', JArr [JNum ''1'', JNull]), (''a'', JStr ''x'')]) \<le> max_nesting"
  "object_fields [(''b'', JArr [JNum ''1'', JNull]), (''a'', JStr ''x'')] = [(''a'', JStr ''x''), (''b'', JArr [JNum ''1'', JNull])]"
  by code_simp+

text \<open>
  C38: A payload the code wrote in canonical form is accepted and reads back as the same object: keys in
  order, numbers as their literals, strings with U+FFFD for bytes that are not UTF-8.
\<close>

theorem accept_canonical:
  assumes "canonJ (JObj fs) = Some t" "lits_ok (JObj fs)" "nesting (JObj fs) \<le> max_nesting"
    and "len = 0 \<or> len = int (length t)"
  shows "acceptPayload t len = \<lparr>pv_state = PayloadOK, pv_payload = object_fields fs\<rparr>"
  using accept_canon [OF assms(1-3), of "[]" len] assms(4) by (simp add: decoder_more_def skip_ws_def)

theorem accept_canonical_witness:
  "acceptPayload ''{\"a\":\"x\",\"b\":[1,null]}'' 22
     = \<lparr>pv_state = PayloadOK, pv_payload = [(''a'', JStr ''x''), (''b'', JArr [JNum ''1'', JNull])]\<rparr>"
  using accept_canonical [OF demo_canonical(1-3), of 22] by (simp add: demo_canonical(4))

text \<open>
  A canonical payload followed by a closing bracket or brace and any bytes whatever is accepted as
  if it ended there, because the decoder reports no further value before a closing bracket.
\<close>

theorem accept_trailing_bracket:
  assumes "canonJ (JObj fs) = Some t" "lits_ok (JObj fs)" "nesting (JObj fs) \<le> max_nesting"
    and "b = CHR ''}'' \<or> b = CHR '']''"
  shows "acceptPayload (t @ b # junk) 0 = \<lparr>pv_state = PayloadOK, pv_payload = object_fields fs\<rparr>"
proof -
  from assms(4) have "follow (b # junk)"
    by (elim disjE) (simp_all add: follow_def)
  moreover from assms(4) have "\<not> decoder_more (b # junk)"
    by (elim disjE) (simp_all add: decoder_more_def skip_ws_char)
  ultimately show ?thesis using accept_canon [OF assms(1-3), of "b # junk" 0] by simp
qed

theorem accept_trailing_bracket_witness:
  "acceptPayload (''{\"a\":\"x\",\"b\":[1,null]}'' @ CHR ''}'' # '', not JSON'') 0
     = \<lparr>pv_state = PayloadOK, pv_payload = [(''a'', JStr ''x''), (''b'', JArr [JNum ''1'', JNull])]\<rparr>"
  using accept_trailing_bracket [OF demo_canonical(1-3), of "CHR ''}''" "'', not JSON''"]
  by (simp only: demo_canonical(4) simp_thms)

end
