(* ===== verification/PediaState.thy ===== *)
theory PediaState
  imports JsonDecode Sha256
begin

text \<open>
  State of the Agentpedia replay engine (\<open>internal/agentpedia/replay.go\<close>): events, the records of
  editors, entries, challenges and proposals, the helpers on them, expiry and rulings. Several entry
  keys may share one entry record after a slug transfer, so the records live in a store and the keys
  hold indices into it.
\<close>

section \<open>Numbers and payload fields\<close>

text \<open>
  \<open>float64\<close> arithmetic: the exact result rounded. The sums and quotients of the engine are far from
  the largest \<open>float64\<close>, so the overflow branch is not reached.
\<close>

definition f64_round :: "rat \<Rightarrow> f64" where
  "f64_round x = (case round64 x of Some r \<Rightarrow> r | None \<Rightarrow> x)"

definition f64_int :: "int \<Rightarrow> f64" where
  "f64_int n = f64_round (of_int n)"

type_synonym payload = "(string, any_json) gomap"

definition p_str :: "payload \<Rightarrow> string \<Rightarrow> string" where
  "p_str m k = (case mget m k of Some (AStr s) \<Rightarrow> s | _ \<Rightarrow> '''')"

definition p_num :: "payload \<Rightarrow> string \<Rightarrow> f64 option" where
  "p_num m k = (case mget m k of Some (ANum f) \<Rightarrow> Some f | _ \<Rightarrow> None)"

definition p_bool :: "payload \<Rightarrow> string \<Rightarrow> bool option" where
  "p_bool m k = (case mget m k of Some (ABool b) \<Rightarrow> Some b | _ \<Rightarrow> None)"

definition p_sub :: "payload \<Rightarrow> string \<Rightarrow> payload option" where
  "p_sub m k = (case mget m k of Some (AObj fs) \<Rightarrow> Some fs | _ \<Rightarrow> None)"

text \<open>Indexing a nil map gives the zero value.\<close>

definition nil_map :: "payload option \<Rightarrow> payload" where
  "nil_map m = (case m of Some fs \<Rightarrow> fs | None \<Rightarrow> [])"

definition asStringSlice :: "any_json option \<Rightarrow> string list" where
  "asStringSlice v = (case v of
      Some (AArr items) \<Rightarrow> List.map_filter (\<lambda>i. case i of AStr s \<Rightarrow> if s \<noteq> '''' then Some s else None | _ \<Rightarrow> None) items
    | _ \<Rightarrow> [])"

text \<open>The numeric members of a parameter object.\<close>

definition num_members :: "payload \<Rightarrow> (string, f64) gomap \<Rightarrow> (string, f64) gomap" where
  "num_members raw params = foldl (\<lambda>m kv. case snd kv of ANum f \<Rightarrow> mput (fst kv) f m | _ \<Rightarrow> m) params raw"

section \<open>Events and records\<close>

record pedia_event =
  pe_pin :: string
  pe_path :: string
  pe_height :: int
  pe_tx :: int
  pe_sender :: string
  pe_payload :: payload
  pe_timestamp :: int
  pe_address :: string
  pe_chain :: string

record pedia_options =
  po_bph :: int
  po_bpd :: int
  po_arbiters :: "(string, string list) gomap"
  po_frozenArbiters :: "(string, string list) gomap"
  po_rep :: "(string, f64) gomap"
  po_clusters :: "(string, string) gomap"

record version =
  ve_hash :: string
  ve_author :: string
  ve_parentRev :: string
  ve_basedOn :: string
  ve_summary :: string
  ve_entryKey :: string
  ve_equivalentOf :: string

definition no_version :: version where
  "no_version = \<lparr>ve_hash = '''', ve_author = '''', ve_parentRev = '''', ve_basedOn = '''', ve_summary = '''',
     ve_entryKey = '''', ve_equivalentOf = ''''\<rparr>"

record contest =
  ct_pin :: string
  ct_expected :: string
  ct_declared :: string

record editor_rec =
  ed_founder :: bool
  ed_registeredAt :: "int option"
  ed_registerH :: int
  ed_endorsements :: "string list"
  ed_reputation :: f64
  ed_validRevs :: int
  ed_suspensionUntil :: int
  ed_revoked :: bool
  ed_banned :: bool

definition new_editor :: editor_rec where
  "new_editor = \<lparr>ed_founder = False, ed_registeredAt = None, ed_registerH = 0, ed_endorsements = [],
     ed_reputation = 0, ed_validRevs = 0, ed_suspensionUntil = 0, ed_revoked = False, ed_banned = False\<rparr>"

datatype entry_status = Normal | Frozen | Protected

record revert_weight =
  rw_h :: int
  rw_editor :: string
  rw_weight :: f64
  rw_vf :: bool

record entry_rec =
  en_key :: string
  en_head :: string
  en_status :: entry_status
  en_history :: "string list"
  en_disputed :: "string list"
  en_contests :: "contest list"
  en_versions :: "(string, version) gomap"
  en_redirect :: string
  en_frozenAt :: string
  en_baselineRev :: string
  en_frozenArbiters :: "string list"
  en_revertWeights :: "revert_weight list"

definition new_entry :: "string \<Rightarrow> entry_rec" where
  "new_entry key = \<lparr>en_key = key, en_head = '''', en_status = Normal, en_history = [], en_disputed = [],
     en_contests = [], en_versions = [], en_redirect = '''', en_frozenAt = '''', en_baselineRev = '''',
     en_frozenArbiters = [], en_revertWeights = []\<rparr>"

record challenge_rec =
  ch_targetRev :: string
  ch_challenger :: string
  ch_entryKey :: string

record reg_challenge =
  rc_applicant :: string
  rc_challenger :: string
  rc_h :: int
  rc_pocOk :: bool
  rc_stakeOk :: bool
  rc_registerH :: int
  rc_registerT :: int
  rc_registerPin :: string

datatype proposal_state = Open | Effective | Voided

record proposal_rec =
  pr_pin :: string
  pr_challengePin :: string
  pr_outcome :: string
  pr_params :: "payload option"
  pr_proposer :: string
  pr_height :: int
  pr_expiryH :: int
  pr_arbiters :: "string list"
  pr_approves :: "string list"
  pr_approveCount :: int
  pr_state :: proposal_state
  pr_entryKey :: string
  pr_baselineRev :: string
  pr_voters :: "string list"

record param_proposal =
  pp_effective :: bool
  pp_approves :: "string list"

record review_rec =
  re_pin :: string
  re_reviewer :: string

record pedia =
  ps_opts :: pedia_options
  ps_bph :: int
  ps_bpd :: int
  ps_params :: "(string, f64) gomap option"
  ps_genesis :: int
  ps_bootstrapEnd :: int
  ps_founders :: "string list"
  ps_editors :: "(string, editor_rec) gomap"
  ps_store :: "entry_rec list"
  ps_entries :: "(string, nat) gomap"
  ps_aliasOf :: "(string, string) gomap"
  ps_graveyard :: "(string \<times> string) list"
  ps_pending :: "string list"
  ps_challenges :: "(string, challenge_rec) gomap"
  ps_proposals :: "(string, proposal_rec) gomap"
  ps_paramProposals :: "(string, param_proposal) gomap"
  ps_reviewsByTarget :: "(string, review_rec list) gomap"
  ps_allReviews :: "review_rec list"
  ps_regChallenges :: "(string, reg_challenge) gomap"
  ps_dayGlobal :: "(string, int) gomap"
  ps_daySlug :: "(string, int) gomap"

section \<open>Access\<close>

definition bury :: "string \<Rightarrow> string \<Rightarrow> pedia \<Rightarrow> pedia" where
  "bury pid reason s = s\<lparr>ps_graveyard := ps_graveyard s @ [(pid, reason)]\<rparr>"

definition pfloat :: "pedia \<Rightarrow> string \<Rightarrow> f64 \<Rightarrow> f64" where
  "pfloat s key deflt = (case ps_params s of None \<Rightarrow> deflt
     | Some m \<Rightarrow> (case mget m key of Some v \<Rightarrow> v | None \<Rightarrow> deflt))"

definition pint :: "pedia \<Rightarrow> string \<Rightarrow> f64 \<Rightarrow> int" where
  "pint s key deflt = f64_to_int64 (pfloat s key deflt)"

definition editor_at :: "pedia \<Rightarrow> string \<Rightarrow> editor_rec" where
  "editor_at s eid = (case mget (ps_editors s) eid of Some ed \<Rightarrow> ed | None \<Rightarrow> new_editor)"

text \<open>\<open>editorOf\<close> creates a missing record; an update through the pointer it returns.\<close>

definition upd_editor :: "string \<Rightarrow> (editor_rec \<Rightarrow> editor_rec) \<Rightarrow> pedia \<Rightarrow> pedia" where
  "upd_editor eid f s = s\<lparr>ps_editors := mput eid (f (editor_at s eid)) (ps_editors s)\<rparr>"

definition editorOf :: "string \<Rightarrow> pedia \<Rightarrow> pedia" where
  "editorOf eid s = (if mhas (ps_editors s) eid then s else upd_editor eid (\<lambda>ed. ed) s)"

definition entryOf :: "string \<Rightarrow> pedia \<Rightarrow> pedia" where
  "entryOf key s =
     (if mhas (ps_entries s) key then s
      else s\<lparr>ps_store := ps_store s @ [new_entry key], ps_entries := mput key (length (ps_store s)) (ps_entries s)\<rparr>)"

definition entry_at :: "pedia \<Rightarrow> string \<Rightarrow> entry_rec option" where
  "entry_at s key = map_option (\<lambda>i. ps_store s ! i) (mget (ps_entries s) key)"

text \<open>The code would dereference nil on a missing key; \<open>pedia_wf\<close> shows that no handler gets there.\<close>

definition upd_entry :: "string \<Rightarrow> (entry_rec \<Rightarrow> entry_rec) \<Rightarrow> pedia \<Rightarrow> pedia" where
  "upd_entry key f s =
     (case mget (ps_entries s) key of
        None \<Rightarrow> s
      | Some i \<Rightarrow> s\<lparr>ps_store := (ps_store s)[i := f (ps_store s ! i)]\<rparr>)"

definition countRoot :: "pedia \<Rightarrow> string \<Rightarrow> string" where
  "countRoot s eid = (case mget (po_clusters (ps_opts s)) eid of Some r \<Rightarrow> r | None \<Rightarrow> eid)"

section \<open>Tiers and arbiters\<close>

datatype tier = NoTier | T0 | T0Plus | T1 | T2

definition age_in :: "int \<Rightarrow> int \<Rightarrow> int \<Rightarrow> f64" where
  "age_in h reg unit = f64_round (f64_int (wrap64 (h - reg)) / f64_int unit)"

definition ladder :: "pedia \<Rightarrow> editor_rec \<Rightarrow> int \<Rightarrow> int \<Rightarrow> tier" where
  "ladder s ed reg h =
     (if ed_founder ed \<and> h < ps_bootstrapEnd s then T2
      else let ageH = age_in h reg (ps_bph s); ageDays = age_in h reg (ps_bpd s); revs = f64_int (ed_validRevs ed) in
      if pfloat s ''t2MinDays'' 14 \<le> ageDays \<and> pfloat s ''t2MinValidRevs'' 100 \<le> revs then T2
      else if pfloat s ''t0DurationHours'' 72 \<le> ageH \<and> pfloat s ''t1MinValidRevs'' 10 \<le> revs then T1
      else if pfloat s ''t0DurationHours'' 72 \<le> ageH then T0Plus
      else T0)"

definition tierOf :: "pedia \<Rightarrow> string \<Rightarrow> int \<Rightarrow> tier" where
  "tierOf s eid h =
     (case mget (ps_editors s) eid of
        None \<Rightarrow> NoTier
      | Some ed \<Rightarrow>
          if ed_revoked ed \<or> ed_banned ed then NoTier
          else (case ed_registeredAt ed of
                  None \<Rightarrow> NoTier
                | Some reg \<Rightarrow>
                    if ed_suspensionUntil ed \<noteq> 0 \<and> h < ed_suspensionUntil ed then NoTier else ladder s ed reg h))"

definition isActive :: "pedia \<Rightarrow> string \<Rightarrow> int \<Rightarrow> bool" where
  "isActive s eid h \<longleftrightarrow> tierOf s eid h \<noteq> NoTier"

definition arbiterCandidates :: "pedia \<Rightarrow> int \<Rightarrow> string list" where
  "arbiterCandidates s h = slice_stable string_less (filter (\<lambda>eid. tierOf s eid h = T2) (mkeys (ps_editors s)))"

definition draw_key :: "string \<Rightarrow> string \<Rightarrow> int" where
  "draw_key seed eid = foldl (\<lambda>n b. n * 256 + b) 0 (take 8 (sha256 (map byte (seed @ eid))))"

definition draw_less :: "int \<times> string \<Rightarrow> int \<times> string \<Rightarrow> bool" where
  "draw_less a b = (if fst a \<noteq> fst b then fst a < fst b else string_less (snd a) (snd b))"

interpretation draw_ord: total_order_on draw_less snd
  unfolding draw_less_def [abs_def]
  by (intro total_order_on_lex total_order_on_inv [OF string_order])

text \<open>
  \<open>make([]string, 0, n)\<close> panics when \<open>n\<close> is negative or \<open>n\<close> strings of 16 bytes exceed the address
  space of 48 bits: \<open>None\<close>.
\<close>

definition cap_ok :: "int \<Rightarrow> bool" where
  "cap_ok n \<longleftrightarrow> 0 \<le> n \<and> n \<le> 2 ^ 44"

definition ArbiterDraw :: "string \<Rightarrow> string list \<Rightarrow> int \<Rightarrow> string list option" where
  "ArbiterDraw seed candidates n =
     (if cap_ok n then Some (take (nat n) (map snd (slice_stable draw_less (map (\<lambda>c. (draw_key seed c, c)) candidates))))
      else None)"

section \<open>Expiry\<close>

text \<open>
  The neutral return of a frozen entry whose case expired, and one round of the loop of \<open>closeExpired\<close>.
  The loop ranges over a Go map, whose order is not determined: it is an argument.
\<close>

definition neutral_revert :: "string \<Rightarrow> entry_rec \<Rightarrow> entry_rec" where
  "neutral_revert baseline en =
     (if en_status en = Frozen then en\<lparr>en_head := (if baseline \<noteq> '''' then baseline else en_head en), en_status := Normal\<rparr>
      else en)"

definition close_one :: "int \<Rightarrow> pedia \<Rightarrow> string \<Rightarrow> pedia" where
  "close_one h s pid =
     (case mget (ps_proposals s) pid of
        None \<Rightarrow> s
      | Some p \<Rightarrow>
          if pr_state p = Open \<and> pr_expiryH p \<le> h
          then let s1 = s\<lparr>ps_proposals := mput pid (p\<lparr>pr_state := Voided\<rparr>) (ps_proposals s)\<rparr>
               in if pr_entryKey p \<noteq> '''' then upd_entry (pr_entryKey p) (neutral_revert (pr_baselineRev p)) s1 else s1
          else s)"

definition closeExpired :: "string list \<Rightarrow> int \<Rightarrow> pedia \<Rightarrow> pedia" where
  "closeExpired iter h s = foldl (close_one h) s iter"

section \<open>Rulings\<close>

definition bareSlug :: "string \<Rightarrow> string" where
  "bareSlug key = (case dropWhile (\<lambda>c. c \<noteq> CHR '':'') key of [] \<Rightarrow> '''' | c # rest \<Rightarrow> rest)"

definition revert_entry :: "proposal_rec \<Rightarrow> entry_rec \<Rightarrow> entry_rec" where
  "revert_entry p en =
     (let rt = p_str (nil_map (pr_params p)) ''revertTo'';
          target = (case mget (en_versions en) rt of Some v \<Rightarrow> v | None \<Rightarrow> no_version);
          eq = pr_pin p @ ''::rev''
      in en\<lparr>en_versions := mput eq (no_version\<lparr>ve_hash := ve_hash target, ve_author := pr_proposer p,
               ve_parentRev := en_head en, ve_entryKey := pr_entryKey p, ve_equivalentOf := pr_pin p\<rparr>) (en_versions en),
            en_head := eq, en_history := en_history en @ [eq]\<rparr>)"

text \<open>What the outcome does to the entry; the map of keys changes for a slug transfer only.\<close>

definition outcome_on_entry :: "proposal_rec \<Rightarrow> pedia \<Rightarrow> pedia" where
  "outcome_on_entry p s =
     (let key = pr_entryKey p; params = nil_map (pr_params p) in
      if pr_outcome p = ''dismiss'' then
        (case mget (ps_challenges s) (pr_challengePin p) of
           None \<Rightarrow> s
         | Some ch \<Rightarrow> upd_entry key (\<lambda>en. en\<lparr>en_disputed := filter (\<lambda>r. r \<noteq> ch_targetRev ch) (en_disputed en)\<rparr>) s)
      else if pr_outcome p = ''revert-to'' then upd_entry key (revert_entry p) s
      else if pr_outcome p = ''protect'' then upd_entry key (\<lambda>en. en\<lparr>en_status := Protected\<rparr>) s
      else if pr_outcome p = ''unprotect'' then upd_entry key (\<lambda>en. en\<lparr>en_status := Normal\<rparr>) s
      else if pr_outcome p = ''unfreeze'' then
        upd_entry key (\<lambda>en. if en_status en = Frozen then en\<lparr>en_status := Normal\<rparr> else en) s
      else if pr_outcome p = ''transfer-slug'' then
        (let src = p_str params ''fromEntry''; dst = p_str params ''toEntry'' in
         case mget (ps_entries s) src of
           None \<Rightarrow> s
         | Some i \<Rightarrow>
             let s1 = s\<lparr>ps_entries := mput dst i (ps_entries s)\<rparr>
             in if bareSlug dst \<noteq> '''' then s1\<lparr>ps_aliasOf := mput src (bareSlug dst) (ps_aliasOf s1)\<rparr> else s1)
      else s)"

definition reputation_delta :: "string \<Rightarrow> f64 option" where
  "reputation_delta outcome =
     (if outcome = ''confirm-goodfaith'' then Some 1
      else if outcome = ''warn-editor'' then Some (-1)
      else if outcome = ''slash-stake-half'' then Some (-2)
      else if outcome = ''slash-stake-full'' then Some (-5)
      else if outcome = ''ban-editor'' then Some (-5)
      else None)"

definition outcome_on_editor :: "proposal_rec \<Rightarrow> pedia \<Rightarrow> pedia" where
  "outcome_on_editor p s =
     (let eid = p_str (nil_map (pr_params p)) ''editor'';
          s1 = (case reputation_delta (pr_outcome p) of
                  None \<Rightarrow> s
                | Some d \<Rightarrow> if eid \<noteq> '''' then upd_editor eid (\<lambda>ed. ed\<lparr>ed_reputation := f64_round (ed_reputation ed + d)\<rparr>) s
                            else s)
      in if pr_outcome p = ''ban-editor'' \<and> eid \<noteq> '''' then upd_editor eid (\<lambda>ed. ed\<lparr>ed_banned := True\<rparr>) s1 else s1)"

text \<open>The proposal is stored under the pin of its own event.\<close>

definition applyOutcome :: "proposal_rec \<Rightarrow> pedia \<Rightarrow> pedia" where
  "applyOutcome p s =
     (let s1 = s\<lparr>ps_proposals := mput (pr_pin p) (p\<lparr>pr_state := Effective\<rparr>) (ps_proposals s)\<rparr>;
          s2 = (if pr_entryKey p \<noteq> '''' then outcome_on_entry p s1 else s1)
      in outcome_on_editor p s2)"

definition snapshotArbiters :: "pedia \<Rightarrow> string \<Rightarrow> string \<Rightarrow> int \<Rightarrow> string list option" where
  "snapshotArbiters s pid challengePin h =
     (case mget (po_arbiters (ps_opts s)) pid of
        Some arbs \<Rightarrow> Some arbs
      | None \<Rightarrow> ArbiterDraw challengePin (arbiterCandidates s h) (pint s ''arbiterDrawN'' 7))"

end
