(* ===== verification/Pedia.thy ===== *)
theory Pedia
  imports PediaState
begin

text \<open>
  Handlers of the Agentpedia replay engine and \<open>Replay\<close> itself (\<open>internal/agentpedia/replay.go\<close>). A
  handler takes the event and the state and returns the new state; \<open>None\<close> is a panic, which only the
  allocation in \<open>ArbiterDraw\<close> and a write to the nil parameter map can cause. The order in which
  \<open>closeExpired\<close> visits the proposals is an argument of every step.
\<close>

section \<open>Paths\<close>

definition PediaRev :: string where "PediaRev = ''/protocols/agentpedia/rev''"
definition PediaChallenge :: string where "PediaChallenge = ''/protocols/agentpedia/challenge''"
definition PediaRuling :: string where "PediaRuling = ''/protocols/agentpedia/ruling''"
definition PediaReview :: string where "PediaReview = ''/protocols/agentpedia/review''"
definition PediaEditor :: string where "PediaEditor = ''/protocols/agentpedia/editor''"
definition PediaConstitution :: string where "PediaConstitution = ''/protocols/agentpedia/constitution''"
definition PediaParamProposal :: string where "PediaParamProposal = ''/protocols/agentpedia/param-proposal''"

section \<open>Revision gates and counters\<close>

definition dayOf :: "pedia \<Rightarrow> int \<Rightarrow> int" where
  "dayOf s h = go_div (wrap64 (h - ps_genesis s)) (ps_bpd s)"

definition global_key :: "pedia \<Rightarrow> string \<Rightarrow> int \<Rightarrow> string" where
  "global_key s sender h = countRoot s sender @ ''|'' @ show_int (dayOf s h)"

definition slug_key :: "pedia \<Rightarrow> string \<Rightarrow> int \<Rightarrow> string \<Rightarrow> string" where
  "slug_key s sender h key = global_key s sender h @ ''|'' @ key"

definition count_at :: "(string, int) gomap \<Rightarrow> string \<Rightarrow> int" where
  "count_at m k = (case mget m k of Some n \<Rightarrow> n | None \<Rightarrow> 0)"

text \<open>The reason a revision is refused, the empty string when it may go on.\<close>

definition checkRevGates :: "pedia_event \<Rightarrow> entry_rec \<Rightarrow> int \<Rightarrow> pedia \<Rightarrow> string" where
  "checkRevGates ev en h s =
     (if \<not> isActive s (pe_sender ev) h then ''unregistered''
      else if tierOf s (pe_sender ev) h = T0 then ''t0-no-rev''
      else if en_status en = Frozen \<and> pe_sender ev \<notin> set (en_frozenArbiters en) then ''frozen-unauthorized''
      else if en_status en = Protected
              \<and> \<not> (tierOf s (pe_sender ev) h = T2 \<and> mhas (ps_editors s) (pe_sender ev)
                   \<and> pfloat s ''thetaProtect'' 0 \<le> ed_reputation (editor_at s (pe_sender ev)))
           then ''protected-unauthorized''
      else if pint s ''rateGlobalDaily'' 20 < count_at (ps_dayGlobal s) (global_key s (pe_sender ev) h) + 1
           then ''rate-global''
      else if pint s ''ratePerSlugDaily'' 10 < count_at (ps_daySlug s) (slug_key s (pe_sender ev) h (en_key en)) + 1
           then ''rate-slug''
      else '''')"

definition incr :: "string \<Rightarrow> (string, int) gomap \<Rightarrow> (string, int) gomap" where
  "incr k m = mput k (count_at m k + 1) m"

definition countRev :: "pedia_event \<Rightarrow> string \<Rightarrow> int \<Rightarrow> pedia \<Rightarrow> pedia" where
  "countRev ev enKey h s =
     upd_editor (pe_sender ev) (\<lambda>ed. ed\<lparr>ed_validRevs := ed_validRevs ed + 1\<rparr>)
       (s\<lparr>ps_dayGlobal := incr (global_key s (pe_sender ev) h) (ps_dayGlobal s),
          ps_daySlug := incr (slug_key s (pe_sender ev) h enKey) (ps_daySlug s)\<rparr>)"

section \<open>Revisions\<close>

definition vandalism_fix :: "pedia_event \<Rightarrow> bool" where
  "vandalism_fix ev \<longleftrightarrow> p_str (nil_map (p_sub (pe_payload ev) ''claim'')) ''changeType'' = ''vandalism-fix''"

definition revertWeightFor :: "pedia \<Rightarrow> entry_rec \<Rightarrow> pedia_event \<Rightarrow> f64" where
  "revertWeightFor s en ev =
     (if vandalism_fix ev
      then if list_ex (\<lambda>w. rw_editor w = countRoot s (pe_sender ev) \<and> rw_vf w) (en_revertWeights en) then 1 else 1 / 2
      else 1)"

definition push_head :: "string \<Rightarrow> entry_rec \<Rightarrow> entry_rec" where
  "push_head rv en = en\<lparr>en_head := rv, en_history := en_history en @ [rv]\<rparr>"

definition rev_create :: "pedia_event \<Rightarrow> string \<Rightarrow> int \<Rightarrow> entry_rec \<Rightarrow> pedia \<Rightarrow> pedia" where
  "rev_create ev key h en s =
     (if en_head en \<noteq> '''' then bury (pe_pin ev) ''duplicate-create'' s
      else let v = no_version\<lparr>ve_hash := p_str (pe_payload ev) ''contentHash'', ve_author := pe_sender ev,
                     ve_summary := p_str (pe_payload ev) ''summary'', ve_entryKey := key\<rparr>
           in countRev ev (en_key en) h
                (upd_entry key (\<lambda>en. push_head (pe_pin ev) en\<lparr>en_versions := mput (pe_pin ev) v (en_versions en)\<rparr>) s))"

definition rev_edit :: "pedia_event \<Rightarrow> string \<Rightarrow> int \<Rightarrow> entry_rec \<Rightarrow> pedia \<Rightarrow> pedia" where
  "rev_edit ev key h en s =
     (if en_head en = '''' then bury (pe_pin ev) ''edit-without-entry'' s
      else let b = pe_payload ev; basedOn = p_str b ''basedOn'';
               v = no_version\<lparr>ve_hash := p_str b ''contentHash'', ve_author := pe_sender ev,
                     ve_parentRev := p_str b ''parentRev'', ve_basedOn := basedOn,
                     ve_summary := p_str b ''summary'', ve_entryKey := key\<rparr>;
               contest = (if basedOn \<noteq> '''' \<and> basedOn \<noteq> en_head en
                          then [\<lparr>ct_pin = pe_pin ev, ct_expected = en_head en, ct_declared = basedOn\<rparr>] else [])
           in countRev ev (en_key en) h
                (upd_entry key (\<lambda>en. push_head (pe_pin ev) en\<lparr>en_versions := mput (pe_pin ev) v (en_versions en),
                    en_contests := en_contests en @ contest\<rparr>) s))"

definition rev_known :: "pedia \<Rightarrow> string \<Rightarrow> bool" where
  "rev_known s rv \<longleftrightarrow> list_ex (\<lambda>ki. mhas (en_versions (ps_store s ! snd ki)) rv) (ps_entries s)"

text \<open>The revert war: weights inside the window, the new one last, and the freeze they trigger.\<close>

definition war_weights :: "pedia \<Rightarrow> pedia_event \<Rightarrow> int \<Rightarrow> entry_rec \<Rightarrow> revert_weight list" where
  "war_weights s ev h en =
     (let winH = wrap64 (pint s ''revertWarWindowHours'' 6 * ps_bph s)
      in filter (\<lambda>w. wrap64 (h - winH) < rw_h w) (en_revertWeights en)
         @ [\<lparr>rw_h = h, rw_editor = countRoot s (pe_sender ev), rw_weight = revertWeightFor s en ev,
             rw_vf = vandalism_fix ev\<rparr>])"

definition war_sum :: "revert_weight list \<Rightarrow> f64" where
  "war_sum ws = foldl (\<lambda>acc w. f64_round (acc + rw_weight w)) 0 ws"

definition freezeArbiters :: "pedia \<Rightarrow> string \<Rightarrow> string \<Rightarrow> int \<Rightarrow> string list option" where
  "freezeArbiters s key rv h =
     (case mget (po_frozenArbiters (ps_opts s)) key of
        Some arbs \<Rightarrow> Some arbs
      | None \<Rightarrow> ArbiterDraw rv (arbiterCandidates s h) (pint s ''arbiterDrawN'' 7))"

text \<open>\<open>en\<close> is the entry before the revert, \<open>s\<close> the state after it has been counted.\<close>

definition war_freeze :: "pedia_event \<Rightarrow> string \<Rightarrow> int \<Rightarrow> entry_rec \<Rightarrow> pedia \<Rightarrow> pedia option" where
  "war_freeze ev key h en s =
     (let ws = war_weights s ev h en; s1 = upd_entry key (\<lambda>e. e\<lparr>en_revertWeights := ws\<rparr>) s
      in if en_status en = Normal \<and> pfloat s ''revertWarThreshold'' 3 \<le> war_sum ws
         then (case freezeArbiters s key (pe_pin ev) h of
                 None \<Rightarrow> None
               | Some arbs \<Rightarrow> Some (upd_entry key (\<lambda>e. e\<lparr>en_status := Frozen, en_frozenAt := pe_pin ev,
                     en_baselineRev := en_head en, en_frozenArbiters := arbs\<rparr>) s1))
         else Some s1)"

definition rev_revert :: "pedia_event \<Rightarrow> string \<Rightarrow> int \<Rightarrow> entry_rec \<Rightarrow> pedia \<Rightarrow> pedia option" where
  "rev_revert ev key h en s =
     (let b = pe_payload ev; revertTo = p_str b ''revertTo'' in
      if en_head en = '''' then Some (bury (pe_pin ev) ''revert-without-entry'' s)
      else (case mget (en_versions en) revertTo of
              None \<Rightarrow> Some (bury (pe_pin ev)
                        (if rev_known s revertTo then ''revert-entry-mismatch'' else ''revert-target-unresolvable'') s)
            | Some target \<Rightarrow>
                if ve_entryKey target \<noteq> key then Some (bury (pe_pin ev) ''revert-entry-mismatch'' s)
                else if p_str b ''contentHash'' \<noteq> ve_hash target then Some (bury (pe_pin ev) ''revert-hash-mismatch'' s)
                else let eq = pe_pin ev @ ''::eq'';
                         v = no_version\<lparr>ve_hash := ve_hash target, ve_author := pe_sender ev,
                               ve_parentRev := en_head en, ve_entryKey := key, ve_equivalentOf := pe_pin ev\<rparr>
                     in war_freeze ev key h en (countRev ev (en_key en) h
                          (upd_entry key (\<lambda>e. push_head eq e\<lparr>en_versions := mput eq v (en_versions e)\<rparr>) s))))"

definition rev_redirect :: "pedia_event \<Rightarrow> string \<Rightarrow> string \<Rightarrow> int \<Rightarrow> entry_rec \<Rightarrow> pedia \<Rightarrow> pedia" where
  "rev_redirect ev lang key h en s =
     (let dst = p_str (pe_payload ev) ''redirectTo'' in
      if en_head en = '''' then bury (pe_pin ev) ''redirect-without-entry'' s
      else if (case entry_at s (lang @ '':'' @ dst) of None \<Rightarrow> True | Some t \<Rightarrow> en_head t = '''')
      then bury (pe_pin ev) ''redirect-target-missing'' s
      else countRev ev (en_key en) h (upd_entry key (\<lambda>e. push_head (pe_pin ev) e\<lparr>en_redirect := dst\<rparr>) s))"

definition rev_key :: "pedia_event \<Rightarrow> string" where
  "rev_key ev = p_str (pe_payload ev) ''lang'' @ '':'' @ p_str (pe_payload ev) ''slug''"

definition rev_dispatch :: "pedia_event \<Rightarrow> string \<Rightarrow> int \<Rightarrow> entry_rec \<Rightarrow> pedia \<Rightarrow> pedia option" where
  "rev_dispatch ev key h en s =
     (let kind = p_str (pe_payload ev) ''type'' in
      if kind = ''create'' then Some (rev_create ev key h en s)
      else if kind = ''edit'' then Some (rev_edit ev key h en s)
      else if kind = ''revert'' then rev_revert ev key h en s
      else if kind = ''redirect'' then Some (rev_redirect ev (p_str (pe_payload ev) ''lang'') key h en s)
      else Some (bury (pe_pin ev) ''rev-type-unknown'' s))"

definition applyRev :: "pedia_event \<Rightarrow> int \<Rightarrow> pedia \<Rightarrow> pedia option" where
  "applyRev ev h s0 =
     (let key = rev_key ev; s = entryOf key s0 in
      case entry_at s key of
        None \<Rightarrow> None
      | Some en \<Rightarrow>
          let reason = checkRevGates ev en h s
          in if reason \<noteq> '''' then Some (bury (pe_pin ev) reason s) else rev_dispatch ev key h en s)"

section \<open>Editors\<close>

definition editor_challenge :: "pedia_event \<Rightarrow> string \<Rightarrow> int \<Rightarrow> pedia \<Rightarrow> pedia" where
  "editor_challenge ev applicant h s =
     (if \<not> isActive s (pe_sender ev) h then bury (pe_pin ev) ''unregistered'' s
      else s\<lparr>ps_regChallenges := mput (pe_pin ev)
             \<lparr>rc_applicant = applicant, rc_challenger = pe_sender ev, rc_h = h, rc_pocOk = False, rc_stakeOk = False,
              rc_registerH = 0, rc_registerT = 0, rc_registerPin = ''''\<rparr> (ps_regChallenges s)\<rparr>)"

definition editor_poc :: "pedia_event \<Rightarrow> int \<Rightarrow> pedia \<Rightarrow> pedia" where
  "editor_poc ev h s =
     (let cp = p_str (pe_payload ev) ''challengePin'' in
      case mget (ps_regChallenges s) cp of
        None \<Rightarrow> bury (pe_pin ev) ''poc-challenge-mismatch'' s
      | Some rc \<Rightarrow>
          if rc_applicant rc \<noteq> pe_sender ev then bury (pe_pin ev) ''poc-challenge-mismatch'' s
          else if ps_bph s < wrap64 (h - rc_h rc) then bury (pe_pin ev) ''poc-window-exceeded'' s
          else if \<not> list_ex (\<lambda>r. re_pin r = p_str (pe_payload ev) ''responsePin'' \<and> re_reviewer r = pe_sender ev)
                    (ps_allReviews s) then bury (pe_pin ev) ''poc-response-missing'' s
          else s\<lparr>ps_regChallenges := mput cp (rc\<lparr>rc_pocOk := True\<rparr>) (ps_regChallenges s)\<rparr>)"

definition stake_ok :: "pedia \<Rightarrow> payload \<Rightarrow> bool" where
  "stake_ok s b =
     (case p_sub b ''stake'' of
        None \<Rightarrow> False
      | Some st \<Rightarrow> p_str st ''txid'' \<noteq> ''''
          \<and> pfloat s ''stakeAmountSat'' 1 \<le> (case p_num st ''amountSat'' of Some f \<Rightarrow> f | None \<Rightarrow> 0))"

definition editor_register :: "pedia_event \<Rightarrow> int \<Rightarrow> pedia \<Rightarrow> pedia" where
  "editor_register ev h s =
     (let cp = p_str (pe_payload ev) ''challengePin'' in
      case mget (ps_regChallenges s) cp of
        None \<Rightarrow> bury (pe_pin ev) ''register-invalid'' s
      | Some rc \<Rightarrow>
          if rc_applicant rc \<noteq> pe_sender ev \<or> \<not> rc_pocOk rc then bury (pe_pin ev) ''register-invalid'' s
          else if \<not> stake_ok s (pe_payload ev) then bury (pe_pin ev) ''stake-insufficient'' s
          else upd_editor (pe_sender ev) (\<lambda>ed. ed\<lparr>ed_registerH := h\<rparr>)
                 (s\<lparr>ps_regChallenges := mput cp (rc\<lparr>rc_stakeOk := True, rc_registerH := h, rc_registerT := pe_tx ev,
                      rc_registerPin := pe_pin ev\<rparr>) (ps_regChallenges s)\<rparr>))"

text \<open>The register an endorsement is for: the one it names, else the earliest in the total order.\<close>

definition reg_before :: "reg_challenge \<Rightarrow> reg_challenge \<Rightarrow> bool" where
  "reg_before a b =
     (if rc_registerH a \<noteq> rc_registerH b then rc_registerH a < rc_registerH b
      else if rc_registerT a \<noteq> rc_registerT b then rc_registerT a < rc_registerT b
      else string_less (rc_registerPin a) (rc_registerPin b))"

interpretation reg_ord: total_order_on reg_before rc_registerPin
  unfolding reg_before_def [abs_def]
  by (intro total_order_on_lex total_order_on_inv [OF string_order])

definition earliest_register :: "reg_challenge list \<Rightarrow> reg_challenge option" where
  "earliest_register rcs = foldl (\<lambda>best rc. case best of None \<Rightarrow> Some rc
     | Some b \<Rightarrow> if reg_before rc b then Some rc else best) None rcs"

definition endorse_target :: "pedia \<Rightarrow> string \<Rightarrow> string \<Rightarrow> reg_challenge option" where
  "endorse_target s applicant declared =
     (let rcs = filter (\<lambda>rc. rc_applicant rc = applicant \<and> rc_stakeOk rc) (map snd (ps_regChallenges s));
          named = (if declared \<noteq> '''' then find (\<lambda>rc. rc_registerPin rc = declared) rcs else None)
      in case named of Some rc \<Rightarrow> Some rc | None \<Rightarrow> earliest_register rcs)"

definition endorse_threshold :: "pedia \<Rightarrow> int \<Rightarrow> nat" where
  "endorse_threshold s h = (if h < ps_bootstrapEnd s then 4 else 2)"

definition editor_endorse :: "pedia_event \<Rightarrow> string \<Rightarrow> int \<Rightarrow> pedia \<Rightarrow> pedia" where
  "editor_endorse ev applicant h s =
     (if tierOf s (pe_sender ev) h \<noteq> T2 then bury (pe_pin ev) ''endorser-not-t2'' s
      else (case endorse_target s applicant (p_str (pe_payload ev) ''registerPin'') of
              None \<Rightarrow> bury (pe_pin ev) ''endorse-no-register'' s
            | Some rc \<Rightarrow>
                if pe_sender ev = applicant then bury (pe_pin ev) ''self-endorse'' s
                else if pe_sender ev \<in> set (ed_endorsements (editor_at s applicant))
                then bury (pe_pin ev) ''duplicate-endorse'' s
                else upd_editor applicant (\<lambda>ed.
                       let ends = pe_sender ev # ed_endorsements ed
                       in ed\<lparr>ed_endorsements := ends,
                             ed_registeredAt := (if endorse_threshold s h \<le> length ends \<and> ed_registeredAt ed = None
                                                 then Some (rc_registerH rc) else ed_registeredAt ed)\<rparr>) s))"

definition ruled :: "pedia_event \<Rightarrow> int \<Rightarrow> pedia \<Rightarrow> bool" where
  "ruled ev h s \<longleftrightarrow>
     (case mget (ps_proposals s) (p_str (pe_payload ev) ''rulingPin'') of
        None \<Rightarrow> False
      | Some p \<Rightarrow> pr_state p = Effective \<and> tierOf s (pe_sender ev) h = T2)"

definition applyEditor :: "pedia_event \<Rightarrow> int \<Rightarrow> pedia \<Rightarrow> pedia" where
  "applyEditor ev h s0 =
     (let act = p_str (pe_payload ev) ''action''; applicant = p_str (pe_payload ev) ''editor'';
          s = editorOf applicant s0 in
      if act = ''challenge'' then editor_challenge ev applicant h s
      else if act = ''poc-response'' then editor_poc ev h s
      else if act = ''register'' then editor_register ev h s
      else if act = ''endorse'' then editor_endorse ev applicant h s
      else if act = ''suspend'' then
        (if ruled ev h s
         then upd_editor applicant (\<lambda>ed. ed\<lparr>ed_suspensionUntil :=
                wrap64 (h + wrap64 (pint s ''arbiterSuspensionDays'' 30 * ps_bpd s))\<rparr>) s
         else bury (pe_pin ev) ''suspend-unauthorized'' s)
      else if act = ''revoke'' then
        (if ruled ev h s then upd_editor applicant (\<lambda>ed. ed\<lparr>ed_revoked := True\<rparr>) s
         else bury (pe_pin ev) ''revoke-unauthorized'' s)
      else bury (pe_pin ev) ''editor-action-unknown'' s)"

section \<open>Reviews and challenges\<close>

definition has_rev :: "pedia \<Rightarrow> string \<Rightarrow> string \<Rightarrow> bool" where
  "has_rev s rv key \<longleftrightarrow> (case entry_at s key of None \<Rightarrow> False | Some en \<Rightarrow> mhas (en_versions en) rv)"

text \<open>The key a revision was written under, else the smallest key that reaches it.\<close>

definition entryKeyOfRev :: "pedia \<Rightarrow> string \<Rightarrow> string" where
  "entryKeyOfRev s rv =
     (let holders = filter (has_rev s rv) (mkeys (ps_entries s));
          recorded = (case holders of [] \<Rightarrow> '''' | k # ks \<Rightarrow>
             (case entry_at s k of None \<Rightarrow> '''' | Some en \<Rightarrow>
                (case mget (en_versions en) rv of Some v \<Rightarrow> ve_entryKey v | None \<Rightarrow> '''')))
      in if rv = '''' then ''''
         else if recorded \<noteq> '''' \<and> has_rev s rv recorded then recorded
         else (case slice_stable string_less holders of [] \<Rightarrow> '''' | k # ks \<Rightarrow> k))"

definition rev_author :: "pedia \<Rightarrow> string \<Rightarrow> string \<Rightarrow> string" where
  "rev_author s key rv = (case entry_at s key of None \<Rightarrow> '''' | Some en \<Rightarrow>
     (case mget (en_versions en) rv of Some v \<Rightarrow> ve_author v | None \<Rightarrow> ''''))"

definition applyReview :: "pedia_event \<Rightarrow> pedia \<Rightarrow> pedia" where
  "applyReview ev s =
     (let rv = p_str (pe_payload ev) ''targetRev''; key = entryKeyOfRev s rv;
          r = \<lparr>re_pin = pe_pin ev, re_reviewer = pe_sender ev\<rparr> in
      if key = '''' then bury (pe_pin ev) ''review-target-unresolvable'' s
      else if rev_author s key rv = pe_sender ev then bury (pe_pin ev) ''self-review'' s
      else s\<lparr>ps_reviewsByTarget := mput rv ((case mget (ps_reviewsByTarget s) rv of Some rs \<Rightarrow> rs | None \<Rightarrow> []) @ [r])
               (ps_reviewsByTarget s),
             ps_allReviews := ps_allReviews s @ [r]\<rparr>)"

definition applyChallenge :: "pedia_event \<Rightarrow> pedia \<Rightarrow> pedia" where
  "applyChallenge ev s =
     (let rv = p_str (pe_payload ev) ''targetRev''; key = entryKeyOfRev s rv in
      if key = '''' then bury (pe_pin ev) ''challenge-target-unresolvable'' s
      else if \<not> isActive s (pe_sender ev) (pe_height ev) then bury (pe_pin ev) ''unregistered'' s
      else if rev_author s key rv = pe_sender ev then bury (pe_pin ev) ''self-challenge'' s
      else (upd_entry key (\<lambda>en. en\<lparr>en_disputed := List.insert rv (en_disputed en)\<rparr>) s)
             \<lparr>ps_challenges := mput (pe_pin ev)
                \<lparr>ch_targetRev = rv, ch_challenger = pe_sender ev, ch_entryKey = key\<rparr> (ps_challenges s)\<rparr>)"

section \<open>Rulings\<close>

definition outcome_params_ok :: "entry_rec \<Rightarrow> string \<Rightarrow> payload option \<Rightarrow> bool" where
  "outcome_params_ok en outcome params =
     (let b = nil_map params in
      if outcome = ''revert-to'' then p_str b ''revertTo'' \<noteq> '''' \<and> mhas (en_versions en) (p_str b ''revertTo'')
      else if outcome = ''transfer-slug'' then p_str b ''fromEntry'' \<noteq> '''' \<and> p_str b ''toEntry'' \<noteq> ''''
      else if outcome \<in> {''warn-editor'', ''slash-stake-half'', ''slash-stake-full'', ''ban-editor'', ''confirm-goodfaith''}
      then p_str b ''editor'' \<noteq> ''''
      else if outcome = ''protect'' \<or> outcome = ''unprotect'' then p_bool b ''protected'' \<noteq> None
      else outcome = ''dismiss'' \<or> outcome = ''unfreeze'')"

definition new_proposal ::
    "pedia_event \<Rightarrow> int \<Rightarrow> string \<Rightarrow> string \<Rightarrow> string \<Rightarrow> string list \<Rightarrow> pedia \<Rightarrow> proposal_rec" where
  "new_proposal ev h cp key baseline arbs s =
     \<lparr>pr_pin = pe_pin ev, pr_challengePin = cp, pr_outcome = p_str (pe_payload ev) ''outcome'',
      pr_params = p_sub (pe_payload ev) ''params'', pr_proposer = pe_sender ev, pr_height = h,
      pr_expiryH = wrap64 (h + wrap64 (pint s ''voteWindowHours'' 48 * ps_bph s)),
      pr_arbiters = arbs, pr_approves = [], pr_approveCount = 0, pr_state = Open, pr_entryKey = key,
      pr_baselineRev = baseline, pr_voters = []\<rparr>"

definition ruling_proposal :: "pedia_event \<Rightarrow> int \<Rightarrow> pedia \<Rightarrow> pedia option" where
  "ruling_proposal ev h s =
     (let b = pe_payload ev; cp = p_str b ''challengePin''; declared = p_str b ''baselineRev'' in
      if \<not> isActive s (pe_sender ev) h then Some (bury (pe_pin ev) ''unregistered'' s)
      else (case mget (ps_challenges s) cp of
              None \<Rightarrow> Some (bury (pe_pin ev) ''ruling-challenge-missing'' s)
            | Some ch \<Rightarrow>
                if p_str b ''seed'' \<noteq> cp then Some (bury (pe_pin ev) ''ruling-seed-mismatch'' s)
                else (case entry_at s (ch_entryKey ch) of
                        None \<Rightarrow> None
                      | Some en \<Rightarrow>
                          if en_status en = Frozen \<and> (declared = '''' \<or> declared \<noteq> en_baselineRev en)
                          then Some (bury (pe_pin ev) ''baseline-rev-mismatch'' s)
                          else if en_status en \<noteq> Frozen \<and> declared \<noteq> ''''
                          then Some (bury (pe_pin ev) ''baseline-rev-not-null'' s)
                          else if \<not> outcome_params_ok en (p_str b ''outcome'') (p_sub b ''params'')
                          then Some (bury (pe_pin ev) ''ruling-params-missing'' s)
                          else map_option (\<lambda>arbs. s\<lparr>ps_proposals := mput (pe_pin ev)
                                   (new_proposal ev h cp (ch_entryKey ch) declared arbs s) (ps_proposals s)\<rparr>)
                                 (snapshotArbiters s (pe_pin ev) cp h))))"

definition cast_vote :: "pedia_event \<Rightarrow> proposal_rec \<Rightarrow> proposal_rec" where
  "cast_vote ev p =
     (let p1 = p\<lparr>pr_voters := pe_sender ev # pr_voters p\<rparr> in
      if p_bool (pe_payload ev) ''approve'' = Some True \<and> pe_sender ev \<in> set (pr_arbiters p)
      then let as = List.insert (pe_sender ev) (pr_approves p)
           in p1\<lparr>pr_approves := as, pr_approveCount := int (length as)\<rparr>
      else p1)"

definition counted_vote :: "pedia_event \<Rightarrow> proposal_rec \<Rightarrow> bool" where
  "counted_vote ev p \<longleftrightarrow> p_bool (pe_payload ev) ''approve'' = Some True \<and> pe_sender ev \<in> set (pr_arbiters p)"

definition ruling_vote :: "pedia_event \<Rightarrow> int \<Rightarrow> pedia \<Rightarrow> pedia" where
  "ruling_vote ev h s =
     (let pid = p_str (pe_payload ev) ''proposalPin'' in
      case mget (ps_proposals s) pid of
        None \<Rightarrow> bury (pe_pin ev) ''vote-on-closed-proposal'' s
      | Some p \<Rightarrow>
          if pr_state p \<noteq> Open \<or> pr_expiryH p < h then bury (pe_pin ev) ''vote-on-closed-proposal'' s
          else if pe_sender ev \<in> set (pr_voters p) then bury (pe_pin ev) ''duplicate-vote'' s
          else let p1 = cast_vote ev p; s1 = s\<lparr>ps_proposals := mput pid p1 (ps_proposals s)\<rparr>
               in if counted_vote ev p \<and> pint s ''rulingQuorum'' 5 \<le> pr_approveCount p1 then applyOutcome p1 s1 else s1)"

definition applyRuling :: "pedia_event \<Rightarrow> int \<Rightarrow> pedia \<Rightarrow> pedia option" where
  "applyRuling ev h s =
     (let act = p_str (pe_payload ev) ''action'' in
      if act = ''proposal'' then ruling_proposal ev h s
      else if act = ''vote'' then Some (ruling_vote ev h s)
      else Some (bury (pe_pin ev) ''ruling-action-unknown'' s))"

section \<open>Parameters\<close>

definition param_need :: "pedia \<Rightarrow> int" where
  "param_need s = wrap64 (go_div (wrap64 (pint s ''arbiterPoolK'' 21 * 2)) 3 + 1)"

definition applyParamProposal :: "pedia_event \<Rightarrow> int \<Rightarrow> pedia \<Rightarrow> pedia" where
  "applyParamProposal ev h s =
     (let kind = p_str (pe_payload ev) ''kind''; pid = p_str (pe_payload ev) ''proposalPin'' in
      if kind = ''proposal'' then
        (if \<not> isActive s (pe_sender ev) h then bury (pe_pin ev) ''unregistered'' s
         else s\<lparr>ps_paramProposals := mput (pe_pin ev) \<lparr>pp_effective = False, pp_approves = []\<rparr> (ps_paramProposals s)\<rparr>)
      else if kind = ''vote'' then
        (case mget (ps_paramProposals s) pid of
           None \<Rightarrow> bury (pe_pin ev) ''param-vote-on-closed'' s
         | Some p \<Rightarrow>
             if pp_effective p then bury (pe_pin ev) ''param-vote-on-closed'' s
             else let as = (if p_bool (pe_payload ev) ''approve'' = Some True \<and> tierOf s (pe_sender ev) h = T2
                            then List.insert (pe_sender ev) (pp_approves p) else pp_approves p)
                  in s\<lparr>ps_paramProposals := mput pid \<lparr>pp_effective = (param_need s \<le> int (length as)), pp_approves = as\<rparr>
                         (ps_paramProposals s)\<rparr>)
      else bury (pe_pin ev) ''param-proposal-kind-unknown'' s)"

definition seat_founder :: "int \<Rightarrow> pedia \<Rightarrow> string \<Rightarrow> pedia" where
  "seat_founder h s f = upd_editor f (\<lambda>ed. ed\<lparr>ed_founder := True, ed_registeredAt := Some h\<rparr>) s"

definition seat_rep :: "pedia \<Rightarrow> string \<times> f64 \<Rightarrow> pedia" where
  "seat_rep s ir = upd_editor (fst ir) (\<lambda>ed. ed\<lparr>ed_reputation := snd ir\<rparr>) s"

definition genesis :: "pedia_event \<Rightarrow> int \<Rightarrow> pedia \<Rightarrow> pedia" where
  "genesis ev h s =
     (let s1 = s\<lparr>ps_params := Some (num_members (nil_map (p_sub (pe_payload ev) ''params'')) []), ps_genesis := h,
                 ps_founders := asStringSlice (mget (pe_payload ev) ''founders'')\<rparr>;
          s2 = s1\<lparr>ps_bootstrapEnd := wrap64 (h + wrap64 (pint s1 ''bootstrapWindowDays'' 30 * ps_bpd s1))\<rparr>
      in foldl seat_rep (foldl (seat_founder h) s2 (ps_founders s2)) (po_rep (ps_opts s2)))"

definition applyConstitution :: "pedia_event \<Rightarrow> int \<Rightarrow> pedia \<Rightarrow> pedia option" where
  "applyConstitution ev h s =
     (if (case p_num (pe_payload ev) ''revision'' of Some r \<Rightarrow> r = 0 | None \<Rightarrow> True)
      then Some (if ps_params s \<noteq> None then bury (pe_pin ev) ''duplicate-genesis'' s else genesis ev h s)
      else (case mget (ps_paramProposals s) (p_str (pe_payload ev) ''proposalPin'') of
              None \<Rightarrow> Some (bury (pe_pin ev) ''constitution-without-effective-proposal'' s)
            | Some p \<Rightarrow>
                if \<not> pp_effective p then Some (bury (pe_pin ev) ''constitution-without-effective-proposal'' s)
                else (case p_sub (pe_payload ev) ''params'' of
                        None \<Rightarrow> Some s
                      | Some raw \<Rightarrow>
                          (case ps_params s of
                             None \<Rightarrow> None
                           | Some m \<Rightarrow> Some (s\<lparr>ps_params := Some (num_members raw m)\<rparr>)))))"

section \<open>Steps and runs\<close>

definition handle :: "pedia_event \<Rightarrow> pedia \<Rightarrow> pedia option" where
  "handle ev s =
     (let h = pe_height ev in
      if pe_path ev = PediaConstitution then applyConstitution ev h s
      else if ps_params s = None then Some (bury (pe_pin ev) ''no-genesis'' s)
      else if pe_path ev = PediaEditor then Some (applyEditor ev h s)
      else if pe_path ev = PediaReview then Some (applyReview ev s)
      else if pe_path ev = PediaChallenge then Some (applyChallenge ev s)
      else if pe_path ev = PediaRuling then applyRuling ev h s
      else if pe_path ev = PediaParamProposal then Some (applyParamProposal ev h s)
      else if pe_path ev = PediaRev then applyRev ev h s
      else Some (bury (pe_pin ev) ''unknown-path'' s))"

definition applyEvent :: "string list \<Rightarrow> pedia_event \<Rightarrow> pedia \<Rightarrow> pedia option" where
  "applyEvent iter ev s = handle ev (closeExpired iter (pe_height ev) s)"

text \<open>One step with some visiting order, and a run of steps.\<close>

inductive pedia_step :: "pedia \<Rightarrow> pedia_event \<Rightarrow> pedia \<Rightarrow> bool" where
  "mset iter = mset (mkeys (ps_proposals s)) \<Longrightarrow> applyEvent iter ev s = Some s' \<Longrightarrow> pedia_step s ev s'"

inductive pedia_run :: "pedia \<Rightarrow> pedia_event list \<Rightarrow> pedia \<Rightarrow> bool" where
  run_nil: "pedia_run s [] s"
| run_snoc: "pedia_run s es s' \<Longrightarrow> pedia_step s' ev s'' \<Longrightarrow> pedia_run s (es @ [ev]) s''"

inductive_cases pedia_stepE: "pedia_step s ev s'"
inductive_cases run_nilE: "pedia_run s [] s'"

section \<open>The view\<close>

definition chain_less :: "pedia_event \<Rightarrow> pedia_event \<Rightarrow> bool" where
  "chain_less a b = (if pe_height a \<noteq> pe_height b then pe_height a < pe_height b else pe_tx a < pe_tx b)"

interpretation chain_ord: total_order_on chain_less "\<lambda>e. (pe_height e, pe_tx e)"
  by unfold_locales (auto simp: chain_less_def split: if_splits)

definition chain_order :: "pedia_event list \<Rightarrow> pedia_event list" where
  "chain_order es = slice_stable chain_less (filter (\<lambda>e. 0 \<le> pe_height e) es)"

definition pedia_start :: "pedia_event list \<Rightarrow> pedia_options \<Rightarrow> pedia" where
  "pedia_start es opts =
     \<lparr>ps_opts = opts, ps_bph = (if po_bph opts \<le> 0 then 6 else po_bph opts),
      ps_bpd = (if po_bpd opts \<le> 0 then 144 else po_bpd opts), ps_params = None, ps_genesis = 0, ps_bootstrapEnd = 0,
      ps_founders = [], ps_editors = [], ps_store = [], ps_entries = [], ps_aliasOf = [], ps_graveyard = [],
      ps_pending = map pe_pin (filter (\<lambda>e. pe_height e < 0) es), ps_challenges = [], ps_proposals = [],
      ps_paramProposals = [], ps_reviewsByTarget = [], ps_allReviews = [], ps_regChallenges = [],
      ps_dayGlobal = [], ps_daySlug = []\<rparr>"

record entry_view =
  ew_head :: string
  ew_status :: entry_status
  ew_history :: "string list"
  ew_disputed :: "string list"
  ew_contests :: "contest list"
  ew_redirect :: "string option"
  ew_frozenAt :: string
  ew_baselineRev :: string
  ew_versions :: "(string, version) gomap"

record editor_view =
  dw_status :: string
  dw_tier :: tier
  dw_reputation :: f64
  dw_validRevs :: int
  dw_registeredAt :: "int option"
  dw_revoked :: bool
  dw_banned :: bool

record proposal_view =
  pw_state :: proposal_state
  pw_outcome :: string
  pw_approveCount :: int
  pw_arbiters :: "string list"
  pw_entryKey :: string
  pw_baselineRev :: string

record pedia_view =
  vw_entries :: "(string, entry_view) gomap"
  vw_graveyard :: "(string \<times> string) list"
  vw_pending :: "string list"
  vw_editors :: "(string, editor_view) gomap"
  vw_proposals :: "(string, proposal_view) gomap"
  vw_params :: "(string, f64) gomap option"
  vw_founders :: "string list"

definition plateOf :: "pedia \<Rightarrow> string \<Rightarrow> entry_rec \<Rightarrow> string option" where
  "plateOf s key en =
     (case mget (ps_aliasOf s) key of
        Some dst \<Rightarrow> if dst \<noteq> '''' then Some dst else if en_redirect en \<noteq> '''' then Some (en_redirect en) else None
      | None \<Rightarrow> if en_redirect en \<noteq> '''' then Some (en_redirect en) else None)"

definition view_entry :: "pedia \<Rightarrow> string \<Rightarrow> entry_rec \<Rightarrow> entry_view" where
  "view_entry s key en = \<lparr>ew_head = en_head en, ew_status = en_status en, ew_history = en_history en,
     ew_disputed = slice_stable string_less (en_disputed en), ew_contests = en_contests en, ew_redirect = plateOf s key en,
     ew_frozenAt = en_frozenAt en, ew_baselineRev = en_baselineRev en, ew_versions = en_versions en\<rparr>"

definition view_entries :: "pedia \<Rightarrow> (string, entry_view) gomap" where
  "view_entries s = map (\<lambda>ki. (fst ki, view_entry s (fst ki) (ps_store s ! snd ki)))
     (filter (\<lambda>ki. \<not> (en_history (ps_store s ! snd ki) = [] \<and> en_head (ps_store s ! snd ki) = '''')) (ps_entries s))"

definition view_editor :: "pedia \<Rightarrow> int option \<Rightarrow> string \<Rightarrow> editor_rec \<Rightarrow> editor_view" where
  "view_editor s lastH eid ed =
     \<lparr>dw_status = (if ed_registeredAt ed \<noteq> None then ''active'' else if ed_registerH ed \<noteq> 0 then ''pending'' else ''none''),
      dw_tier = (case lastH of None \<Rightarrow> NoTier | Some h \<Rightarrow> tierOf s eid h),
      dw_reputation = ed_reputation ed, dw_validRevs = ed_validRevs ed, dw_registeredAt = ed_registeredAt ed,
      dw_revoked = ed_revoked ed, dw_banned = ed_banned ed\<rparr>"

definition view_proposal :: "proposal_rec \<Rightarrow> proposal_view" where
  "view_proposal p = \<lparr>pw_state = pr_state p, pw_outcome = pr_outcome p, pw_approveCount = pr_approveCount p,
     pw_arbiters = pr_arbiters p, pw_entryKey = pr_entryKey p, pw_baselineRev = pr_baselineRev p\<rparr>"

definition last_height :: "pedia_event list \<Rightarrow> int option" where
  "last_height es = (if es = [] then None else Some (pe_height (last es)))"

definition final_height :: "pedia_event list \<Rightarrow> int" where
  "final_height es = wrap64 ((case last_height es of None \<Rightarrow> 0 | Some h \<Rightarrow> h) + 1)"

definition view_of :: "int option \<Rightarrow> pedia \<Rightarrow> pedia_view" where
  "view_of lastH s =
     \<lparr>vw_entries = view_entries s, vw_graveyard = ps_graveyard s, vw_pending = ps_pending s,
      vw_editors = map (\<lambda>kv. (fst kv, view_editor s lastH (fst kv) (snd kv))) (ps_editors s),
      vw_proposals = map (\<lambda>kv. (fst kv, view_proposal (snd kv))) (ps_proposals s),
      vw_params = ps_params s, vw_founders = ps_founders s\<rparr>"

text \<open>The views a replay may return, over all visiting orders.\<close>

inductive pedia_replay :: "pedia_event list \<Rightarrow> pedia_options \<Rightarrow> pedia_view \<Rightarrow> bool" where
  "pedia_run (pedia_start es opts) (chain_order es) s \<Longrightarrow> mset iter = mset (mkeys (ps_proposals s)) \<Longrightarrow>
   pedia_replay es opts (view_of (last_height (chain_order es)) (closeExpired iter (final_height (chain_order es)) s))"

text \<open>The replay that visits proposals in the order they were made.\<close>

fun run_events :: "pedia_event list \<Rightarrow> pedia \<Rightarrow> pedia option" where
  "run_events [] s = Some s"
| "run_events (e # es) s =
     (case applyEvent (mkeys (ps_proposals s)) e s of None \<Rightarrow> None | Some s' \<Rightarrow> run_events es s')"

definition ReplayPedia :: "pedia_event list \<Rightarrow> pedia_options \<Rightarrow> pedia_view option" where
  "ReplayPedia es opts =
     map_option (\<lambda>s. view_of (last_height (chain_order es))
         (closeExpired (mkeys (ps_proposals s)) (final_height (chain_order es)) s))
       (run_events (chain_order es) (pedia_start es opts))"

end
