(* ===== verification/Base64.thy ===== *)
theory Base64
  imports GoStd
begin

text \<open>
  Go's \<open>encoding/base64\<close> as the code uses it: the standard alphabet with padding
  (\<open>StdEncoding\<close>) and the URL alphabet without (\<open>RawURLEncoding\<close>). The decoder is not strict: it skips
  line breaks anywhere and does not look at the unused low bits of the last group.
\<close>

section \<open>Alphabets\<close>

definition std_alphabet :: string where
  "std_alphabet = ''ABCDEFGHIJKLMNOPQRSTUVWXYZabcdefghijklmnopqrstuvwxyz0123456789+/''"

definition url_alphabet :: string where
  "url_alphabet = ''ABCDEFGHIJKLMNOPQRSTUVWXYZabcdefghijklmnopqrstuvwxyz0123456789-_''"

fun index_of :: "char \<Rightarrow> string \<Rightarrow> nat option" where
  "index_of c [] = None"
| "index_of c (x # xs) = (if x = c then Some 0 else map_option Suc (index_of c xs))"

definition byte_nat :: "char \<Rightarrow> nat" where
  "byte_nat c = of_char c"

lemma byte_nat_lt: "byte_nat c < 256" "byte_nat c div 4 < 64"
proof -
  show a: "byte_nat c < 256" by (simp add: byte_nat_def)
  then show "byte_nat c div 4 < 64" by linarith
qed

lemma char_of_byte_nat [simp]: "char_of (byte_nat c) = c"
  by (simp add: byte_nat_def)

lemma index_of_nth: "distinct xs \<Longrightarrow> i < length xs \<Longrightarrow> index_of (xs ! i) xs = Some i"
proof (induction xs arbitrary: i)
  case (Cons x xs)
  then show ?case by (cases i) auto
qed simp

section \<open>Encoding\<close>

fun sextets :: "nat list \<Rightarrow> nat list" where
  "sextets (a # b # c # r) = [a div 4, a mod 4 * 16 + b div 16, b mod 16 * 4 + c div 64, c mod 64] @ sextets r"
| "sextets [a, b] = [a div 4, a mod 4 * 16 + b div 16, b mod 16 * 4]"
| "sextets [a] = [a div 4, a mod 4 * 16]"
| "sextets [] = []"

definition encode_raw :: "string \<Rightarrow> string \<Rightarrow> string" where
  "encode_raw alphabet s = map (\<lambda>i. alphabet ! i) (sextets (map byte_nat s))"

definition padding :: "string \<Rightarrow> string" where
  "padding s = (if length s mod 3 = 0 then '''' else if length s mod 3 = 1 then ''=='' else ''='')"

definition std_encode :: "string \<Rightarrow> string" where
  "std_encode s = encode_raw std_alphabet s @ padding s"

definition raw_url_encode :: "string \<Rightarrow> string" where
  "raw_url_encode s = encode_raw url_alphabet s"

section \<open>Decoding\<close>

text \<open>The bytes of a group of four, three or two letters.\<close>

definition group :: "nat list \<Rightarrow> string" where
  "group vs = (case vs of
      [p, q, r, s] \<Rightarrow> [char_of (p * 4 + q div 16), char_of (q mod 16 * 16 + r div 4), char_of (r mod 4 * 64 + s)]
    | [p, q, r] \<Rightarrow> [char_of (p * 4 + q div 16), char_of (q mod 16 * 16 + r div 4)]
    | [p, q] \<Rightarrow> [char_of (p * 4 + q div 16)]
    | _ \<Rightarrow> [])"

definition letters :: "string \<Rightarrow> string \<Rightarrow> string option" where
  "letters alphabet cs = map_option group (those (map (\<lambda>c. index_of c alphabet) cs))"

text \<open>The last, incomplete group of an encoding without padding.\<close>

definition tail_group :: "string \<Rightarrow> bool \<Rightarrow> string \<Rightarrow> string option" where
  "tail_group alphabet padded cs =
     (if cs = [] then Some [] else if padded \<or> length cs = 1 then None else letters alphabet cs)"

fun quanta :: "string \<Rightarrow> bool \<Rightarrow> string \<Rightarrow> string option" where
  "quanta alphabet padded (a # b # c # d # r) =
     (if padded \<and> d = CHR ''='' \<and> r = []
      then letters alphabet (if c = CHR ''='' then [a, b] else [a, b, c])
      else case letters alphabet [a, b, c, d] of
             None \<Rightarrow> None
           | Some bs \<Rightarrow> map_option (\<lambda>t. bs @ t) (quanta alphabet padded r))"
| "quanta alphabet padded cs = tail_group alphabet padded cs"

definition strip_breaks :: "string \<Rightarrow> string" where
  "strip_breaks s = filter (\<lambda>c. byte c \<noteq> 10 \<and> byte c \<noteq> 13) s"

definition std_decode :: "string \<Rightarrow> string option" where
  "std_decode s = quanta std_alphabet True (strip_breaks s)"

definition raw_url_decode :: "string \<Rightarrow> string option" where
  "raw_url_decode s = quanta url_alphabet False (strip_breaks s)"

section \<open>Round trips\<close>

lemma alphabet_ok:
  "length std_alphabet = 64" "length url_alphabet = 64" "distinct std_alphabet" "distinct url_alphabet"
  "CHR ''='' \<notin> set std_alphabet" "list_all (\<lambda>c. byte c \<noteq> 10 \<and> byte c \<noteq> 13) (std_alphabet @ url_alphabet @ ''='')"
  by code_simp+

lemma pack:
  assumes "v < m" shows "(u * m + v) div m = u" "(u * m + v) mod m = (v :: nat)"
  using assms by simp_all

lemma pack_less: "u < 4 \<Longrightarrow> v < 16 \<Longrightarrow> u * 16 + v < (64 :: nat)" "u < 16 \<Longrightarrow> v < 4 \<Longrightarrow> u * 4 + v < (64 :: nat)"
  by simp_all

lemma sextets_small: "\<forall>b \<in> set bs. b < 256 \<Longrightarrow> \<forall>s \<in> set (sextets bs). s < 64"
proof (induction bs rule: sextets.induct)
  case (1 a b c r)
  then have "a div 4 < 64" "b div 16 < 16" "c div 64 < 4" by (simp_all add: less_mult_imp_div_less)
  moreover have "a mod 4 < 4" "b mod 16 < 16" "c mod 64 < 64" by simp_all
  ultimately show ?case using 1 by (simp add: pack_less)
next
  case (2 a b)
  then have "a div 4 < 64" "b div 16 < 16" by (simp_all add: less_mult_imp_div_less)
  moreover have "a mod 4 < 4" "b mod 16 < 16" by simp_all
  ultimately show ?case using pack_less(2) [of "b mod 16" 0] by (simp add: pack_less)
next
  case (3 a)
  then have "a div 4 < 64" "a mod 4 < 4" by (simp_all add: less_mult_imp_div_less)
  then show ?case using pack_less(1) [of "a mod 4" 0] by simp
qed simp

lemma index_alphabet:
  assumes "length alphabet = 64" "distinct alphabet" "i < 64"
  shows "index_of (alphabet ! i) alphabet = Some i"
  using assms by (simp add: index_of_nth)

lemma group_bytes:
  assumes "a < 256" "b < 256" "c < 256"
  shows "group [a div 4, a mod 4 * 16 + b div 16, b mod 16 * 4 + c div 64, c mod 64] = map char_of [a, b, c]"
    "group [a div 4, a mod 4 * 16 + b div 16, b mod 16 * 4] = map char_of [a, b]"
    "group [a div 4, a mod 4 * 16] = map char_of [a :: nat]"
proof -
  have l: "b div 16 < 16" "c div 64 < 4" using assms by (simp_all add: less_mult_imp_div_less)
  then have "b div 16 mod 16 = b div 16" "c div 64 mod 4 = c div 64" by simp_all
  note p = pack [OF l(1)] pack [OF l(2)] this
  show "group [a div 4, a mod 4 * 16 + b div 16, b mod 16 * 4 + c div 64, c mod 64] = map char_of [a, b, c]"
    "group [a div 4, a mod 4 * 16 + b div 16, b mod 16 * 4] = map char_of [a, b]"
    "group [a div 4, a mod 4 * 16] = map char_of [a :: nat]"
    using p by (simp_all add: group_def del: One_nat_def)
qed

text \<open>
  A codec: the encoder's output, padded as \<open>pad\<close> says, is read back by the decoder. Both encodings of
  the code are instances.
\<close>

locale base64_codec =
  fixes alphabet :: string and padded :: bool
  assumes alpha: "length alphabet = 64" "distinct alphabet" "padded \<Longrightarrow> CHR ''='' \<notin> set alphabet"
begin

definition pads :: "string \<Rightarrow> string" where
  "pads s = (if padded then padding s else '''')"

lemma letter_index: "i < 64 \<Longrightarrow> index_of (alphabet ! i) alphabet = Some i"
  using alpha by (simp add: index_alphabet)

lemma letter_not_pad: "padded \<Longrightarrow> i < 64 \<Longrightarrow> alphabet ! i \<noteq> CHR ''=''"
  using alpha by (metis nth_mem)

lemma letters_map: "\<forall>i \<in> set is. i < 64 \<Longrightarrow> letters alphabet (map ((!) alphabet) is) = Some (group is)"
proof -
  have "those (map (\<lambda>c. index_of c alphabet) (map ((!) alphabet) is)) = Some is" if "\<forall>i \<in> set is. i < 64"
    using that by (induction "is") (simp_all add: letter_index)
  then show "\<forall>i \<in> set is. i < 64 \<Longrightarrow> ?thesis" by (simp add: letters_def del: map_map)
qed

lemma decode_encode: "quanta alphabet padded (encode_raw alphabet s @ pads s) = Some s"
proof (induction "map byte_nat s" arbitrary: s rule: sextets.induct)
  case (1 a b c r s)
  then obtain x y z t where s: "s = x # y # z # t" "a = byte_nat x" "b = byte_nat y" "c = byte_nat z" "r = map byte_nat t"
    by (auto simp: map_eq_Cons_conv)
  let ?is = "[a div 4, a mod 4 * 16 + b div 16, b mod 16 * 4 + c div 64, c mod 64]"
  have small: "\<forall>i \<in> set ?is. i < 64"
    using sextets_small [of "[a, b, c]"] s by (simp add: byte_nat_lt)
  then have last: "padded \<Longrightarrow> alphabet ! (c mod 64) \<noteq> CHR ''=''" by (simp add: letter_not_pad)
  have "letters alphabet (map ((!) alphabet) ?is) = Some [x, y, z]"
    using letters_map [OF small] group_bytes(1) [of a b c] s by (simp add: byte_nat_lt)
  moreover have "encode_raw alphabet s @ pads s = map ((!) alphabet) ?is @ encode_raw alphabet t @ pads t"
    by (simp add: encode_raw_def s pads_def padding_def)
  moreover have "quanta alphabet padded (encode_raw alphabet t @ pads t) = Some t"
    by (rule 1(1)) (simp add: s)
  moreover from last have "\<not> (padded \<and> alphabet ! (c mod 64) = CHR ''='')" by blast
  ultimately show ?case by (auto simp: s(1))
next
  case (2 a b s)
  then obtain x y where s: "s = [x, y]" "a = byte_nat x" "b = byte_nat y" by (auto simp: map_eq_Cons_conv)
  let ?is = "[a div 4, a mod 4 * 16 + b div 16, b mod 16 * 4]"
  have small: "\<forall>i \<in> set ?is. i < 64" using sextets_small [of "[a, b]"] s by (simp add: byte_nat_lt)
  then have last: "padded \<Longrightarrow> alphabet ! (b mod 16 * 4) \<noteq> CHR ''=''" by (simp add: letter_not_pad)
  have "letters alphabet (map ((!) alphabet) ?is) = Some [x, y]"
    using letters_map [OF small] group_bytes(2) [of a b 0] s by (simp add: byte_nat_lt)
  then show ?case using last by (simp add: s encode_raw_def pads_def padding_def tail_group_def)
next
  case (3 a s)
  then obtain x where s: "s = [x]" "a = byte_nat x" by (auto simp: map_eq_Cons_conv)
  let ?is = "[a div 4, a mod 4 * 16]"
  have small: "\<forall>i \<in> set ?is. i < 64" using sextets_small [of "[a]"] s by (simp add: byte_nat_lt)
  have "letters alphabet (map ((!) alphabet) ?is) = Some [x]"
    using letters_map [OF small] group_bytes(3) [of a 0 0] s by (simp add: byte_nat_lt)
  then show ?case by (simp add: s encode_raw_def pads_def padding_def tail_group_def)
next
  case (4 s)
  then show ?case by (simp add: encode_raw_def pads_def padding_def tail_group_def)
qed

lemma encode_letters: "set (encode_raw alphabet s) \<subseteq> set alphabet"
  using sextets_small [of "map byte_nat s"] alpha(1) by (auto simp: encode_raw_def byte_nat_lt)
end

interpretation std64: base64_codec std_alphabet True
  by unfold_locales (simp_all add: alphabet_ok)

interpretation url64: base64_codec url_alphabet False
  by unfold_locales (simp_all add: alphabet_ok)

lemma strip_letters: "\<forall>c \<in> set cs. byte c \<noteq> 10 \<and> byte c \<noteq> 13 \<Longrightarrow> strip_breaks cs = cs"
  by (simp add: strip_breaks_def)

theorem std_decode_encode: "std_decode (std_encode s) = Some s"
proof -
  have "strip_breaks (std_encode s) = std_encode s"
    using alphabet_ok(6) std64.encode_letters [of s]
    by (intro strip_letters) (auto simp: std_encode_def padding_def list_all_iff split: if_splits)
  then show ?thesis
    using std64.decode_encode [of s] by (simp add: std_decode_def std_encode_def std64.pads_def)
qed

theorem raw_url_decode_encode: "raw_url_decode (raw_url_encode s) = Some s"
proof -
  have "strip_breaks (raw_url_encode s) = raw_url_encode s"
    using alphabet_ok(6) url64.encode_letters [of s]
    by (intro strip_letters) (auto simp: raw_url_encode_def list_all_iff)
  then show ?thesis
    using url64.decode_encode [of s] by (simp add: raw_url_decode_def raw_url_encode_def url64.pads_def)
qed

end
