(* ===== verification/PediaSync.thy ===== *)
theory PediaSync
  imports Pedia Base64
begin

text \<open>
  The L2 aggregator of Agentpedia (\<open>internal/agentpedia/l2.go\<close>), write side: the pooled event stream,
  its rebuild into a view, and the incremental sync against a page service. The service is not part
  of the tree: what it answers is an argument, per request, so it may change between requests.
\<close>

section \<open>State\<close>

record pin_meta =
  pm_height :: int
  pm_tx :: int
  pm_sender :: string
  pm_path :: string
  pm_title :: string
  pm_ts :: int
  pm_addr :: string
  pm_chain :: string

text \<open>\<open>seenPins\<close> is a set: the list of its keys. \<open>lastSyncSkipped\<close> keeps the pin ids, the reason is fixed.\<close>

record l2 =
  l2_view :: pedia_view
  l2_events :: "pedia_event list"
  l2_pinMeta :: "(string, pin_meta) gomap"
  l2_contents :: "(string, string) gomap"
  l2_cursors :: "(string, string) gomap"
  l2_seen :: "string list"
  l2_skipped :: "string list"
  l2_syncAt :: "int option"
  l2_applied :: int
  l2_error :: string

definition empty_view :: pedia_view where
  "empty_view = \<lparr>vw_entries = [], vw_graveyard = [], vw_pending = [], vw_editors = [], vw_proposals = [],
     vw_params = None, vw_founders = []\<rparr>"

definition NewL2 :: l2 where
  "NewL2 = \<lparr>l2_view = empty_view, l2_events = [], l2_pinMeta = [], l2_contents = [], l2_cursors = [], l2_seen = [],
     l2_skipped = [], l2_syncAt = None, l2_applied = 0, l2_error = ''''\<rparr>"

section \<open>Rebuild\<close>

definition l2_options :: pedia_options where
  "l2_options = \<lparr>po_bph = 6, po_bpd = 144, po_arbiters = [], po_frozenArbiters = [], po_rep = [], po_clusters = []\<rparr>"

definition event_meta :: "pedia_event \<Rightarrow> pin_meta" where
  "event_meta ev = \<lparr>pm_height = pe_height ev, pm_tx = pe_tx ev, pm_sender = pe_sender ev, pm_path = pe_path ev,
     pm_title = (if pe_path ev = PediaRev then p_str (pe_payload ev) ''title'' else ''''),
     pm_ts = pe_timestamp ev, pm_addr = '''', pm_chain = pe_chain ev\<rparr>"

definition event_content :: "pedia_event \<Rightarrow> string" where
  "event_content ev = (if pe_path ev = PediaRev then p_str (pe_payload ev) ''content'' else '''')"

definition add_content :: "(string, string) gomap \<Rightarrow> pedia_event \<Rightarrow> (string, string) gomap" where
  "add_content m ev = (if event_content ev = '''' then m else mput (pe_pin ev) (event_content ev) m)"

text \<open>
  \<open>rebuildLocked\<close>. \<open>replay\<close> is the replay engine with the visiting order of its maps chosen;
  \<open>None\<close> is a panic of the replay.
\<close>

type_synonym replay_fn = "pedia_event list \<Rightarrow> pedia_options \<Rightarrow> pedia_view option"

definition rebuild :: "replay_fn \<Rightarrow> l2 \<Rightarrow> l2 option" where
  "rebuild replay l = map_option (\<lambda>v. l\<lparr>l2_view := v,
       l2_pinMeta := foldl (\<lambda>m ev. mput (pe_pin ev) (event_meta ev) m) [] (l2_events l),
       l2_contents := foldl add_content [] (l2_events l)\<rparr>)
     (replay (l2_events l) l2_options)"

definition Seed :: "replay_fn \<Rightarrow> pedia_event list \<Rightarrow> l2 \<Rightarrow> l2 option" where
  "Seed replay evs l = rebuild replay (l\<lparr>l2_events := evs\<rparr>)"

definition Append :: "replay_fn \<Rightarrow> pedia_event list \<Rightarrow> l2 \<Rightarrow> l2 option" where
  "Append replay evs l = rebuild replay (l\<lparr>l2_events := l2_events l @ evs\<rparr>)"

section \<open>Payloads\<close>

text \<open>\<open>json.Unmarshal\<close> into a \<open>map[string]any\<close>; \<open>null\<close> leaves an empty map.\<close>

definition unmarshal_map :: "string \<Rightarrow> payload option" where
  "unmarshal_map raw = (case decode_json raw of
      None \<Rightarrow> None
    | Some (v, rest) \<Rightarrow>
        if skip_ws rest \<noteq> [] then None
        else (case v of
                JNull \<Rightarrow> Some []
              | JObj fs \<Rightarrow> (case floats v of Some (AObj m) \<Rightarrow> Some m | _ \<Rightarrow> None)
              | _ \<Rightarrow> None))"

definition decodePayload :: "any_json \<Rightarrow> payload" where
  "decodePayload body = (case body of
      AStr s \<Rightarrow>
        if s = '''' then []
        else (case Option.bind (std_decode s) unmarshal_map of
                Some m \<Rightarrow> m
              | None \<Rightarrow> (case unmarshal_map s of Some m \<Rightarrow> m | None \<Rightarrow> []))
    | _ \<Rightarrow> [])"

section \<open>The page service\<close>

record manapi_pin =
  mn_id :: string
  mn_height :: int
  mn_tx :: int
  mn_gmid :: string
  mn_addr :: string
  mn_chain :: string
  mn_ts :: int
  mn_body :: any_json

record manapi_page =
  mg_code :: int
  mg_list :: "manapi_pin list"
  mg_next :: string

text \<open>
  The answers of the service: to request number \<open>n\<close> of a sweep, for a page of a path at a cursor and
  for the body of one pin. \<open>Inl\<close> is any failure of the request or of reading its answer.
\<close>

record service =
  sv_page :: "nat \<Rightarrow> string \<Rightarrow> string \<Rightarrow> string + manapi_page"
  sv_pin :: "nat \<Rightarrow> string \<Rightarrow> string + any_json"

definition fetchPage :: "service \<Rightarrow> nat \<Rightarrow> string \<Rightarrow> string \<Rightarrow> string + manapi_page" where
  "fetchPage sv n path cursor = (case sv_page sv n path cursor of
      Inl e \<Rightarrow> Inl e
    | Inr p \<Rightarrow> if mg_code p \<noteq> 1 then Inl (''manapi '' @ path @ '': code '' @ show_int (mg_code p)) else Inr p)"

section \<open>The sweep\<close>

definition syncPaths :: "string list" where
  "syncPaths = [PediaConstitution, PediaRev, PediaChallenge, PediaRuling, PediaReview, PediaEditor, PediaParamProposal]"

text \<open>\<open>sw_requests\<close> counts the requests, the code keeps no such counter.\<close>

record sweep =
  sw_l2 :: l2
  sw_applied :: int
  sw_skipped :: "string list"
  sw_known :: bool
  sw_requests :: nat

definition pin_event :: "string \<Rightarrow> manapi_pin \<Rightarrow> payload \<Rightarrow> pedia_event" where
  "pin_event path p payload = \<lparr>pe_pin = mn_id p, pe_path = path, pe_height = mn_height p, pe_tx = mn_tx p,
     pe_sender = mn_gmid p, pe_payload = payload, pe_timestamp = mn_ts p, pe_address = mn_addr p, pe_chain = mn_chain p\<rparr>"

definition envelope_payload :: "service \<Rightarrow> nat \<Rightarrow> string \<Rightarrow> payload" where
  "envelope_payload sv n pin = (case sv_pin sv n pin of Inl e \<Rightarrow> [] | Inr body \<Rightarrow> decodePayload body)"

definition take_pin :: "service \<Rightarrow> string \<Rightarrow> sweep \<Rightarrow> manapi_pin \<Rightarrow> sweep" where
  "take_pin sv path sw p =
     (if mn_id p \<in> set (l2_seen (sw_l2 sw)) then sw\<lparr>sw_known := True\<rparr>
      else if mn_height p < 0 then sw
      else let l = (sw_l2 sw)\<lparr>l2_seen := mn_id p # l2_seen (sw_l2 sw)\<rparr>;
               listed = decodePayload (mn_body p);
               payload = (if listed = [] then envelope_payload sv (sw_requests sw) (mn_id p) else listed);
               sw1 = sw\<lparr>sw_l2 := l, sw_requests := (if listed = [] then Suc (sw_requests sw) else sw_requests sw)\<rparr>
           in if payload = [] then sw1\<lparr>sw_skipped := sw_skipped sw @ [mn_id p]\<rparr>
              else sw1\<lparr>sw_l2 := l\<lparr>l2_events := l2_events l @ [pin_event path p payload]\<rparr>, sw_applied := sw_applied sw + 1\<rparr>)"

definition set_cursor :: "string \<Rightarrow> string \<Rightarrow> sweep \<Rightarrow> sweep" where
  "set_cursor path c sw = sw\<lparr>sw_l2 := (sw_l2 sw)\<lparr>l2_cursors := mput path c (l2_cursors (sw_l2 sw))\<rparr>\<rparr>"

text \<open>The pages of a path, at most as many as the first number; an error ends the sweep.\<close>

fun sync_pages :: "service \<Rightarrow> string \<Rightarrow> nat \<Rightarrow> string \<Rightarrow> sweep \<Rightarrow> sweep \<times> string option" where
  "sync_pages sv path 0 cursor sw = (sw, None)"
| "sync_pages sv path (Suc n) cursor sw =
     (let sw0 = sw\<lparr>sw_requests := Suc (sw_requests sw)\<rparr> in
      case fetchPage sv (sw_requests sw) path cursor of
        Inl e \<Rightarrow> (sw0, Some e)
      | Inr page \<Rightarrow>
          if mg_list page = [] then (set_cursor path (mg_next page) sw0, None)
          else let sw1 = foldl (take_pin sv path) sw0 (mg_list page); sw2 = set_cursor path (mg_next page) sw1
               in if sw_known sw1 \<or> mg_next page = '''' then (sw2, None)
                  else sync_pages sv path n (mg_next page) sw2)"

definition sync_path :: "service \<Rightarrow> string \<Rightarrow> sweep \<Rightarrow> sweep \<times> string option" where
  "sync_path sv path sw = sync_pages sv path 50 '''' (sw\<lparr>sw_known := False\<rparr>)"

fun sync_paths :: "service \<Rightarrow> string list \<Rightarrow> sweep \<Rightarrow> sweep \<times> string option" where
  "sync_paths sv [] sw = (sw, None)"
| "sync_paths sv (path # paths) sw =
     (case sync_path sv path sw of
        (sw1, Some e) \<Rightarrow> (sw1, Some e)
      | (sw1, None) \<Rightarrow> sync_paths sv paths sw1)"

text \<open>
  \<open>SyncOnce\<close> at time \<open>now\<close>: the state after it and its error. \<open>None\<close> is a panic of the rebuild, which
  ends the process when the loop runs the sweep.
\<close>

definition start_sweep :: "int \<Rightarrow> l2 \<Rightarrow> sweep" where
  "start_sweep now l = \<lparr>sw_l2 = l\<lparr>l2_syncAt := Some now, l2_error := ''''\<rparr>, sw_applied = 0, sw_skipped = [],
     sw_known = False, sw_requests = 0\<rparr>"

definition SyncOnce :: "replay_fn \<Rightarrow> service \<Rightarrow> int \<Rightarrow> l2 \<Rightarrow> (l2 \<times> string option) option" where
  "SyncOnce replay sv now l =
     (case sync_paths sv syncPaths (start_sweep now l) of
        (sw, Some e) \<Rightarrow> Some ((sw_l2 sw)\<lparr>l2_error := e, l2_applied := sw_applied sw\<rparr>, Some e)
      | (sw, None) \<Rightarrow>
          map_option (\<lambda>l1. (l1\<lparr>l2_skipped := sw_skipped sw, l2_applied := sw_applied sw\<rparr>, None))
            (if 0 < sw_applied sw then rebuild replay (sw_l2 sw) else Some (sw_l2 sw)))"

record sync_status =
  ss_lastSyncAt :: "int option"
  ss_events :: nat
  ss_applied :: int
  ss_skipped :: nat
  ss_error :: string

definition SyncStatus :: "l2 \<Rightarrow> sync_status" where
  "SyncStatus l = \<lparr>ss_lastSyncAt = l2_syncAt l, ss_events = length (l2_events l), ss_applied = l2_applied l,
     ss_skipped = length (l2_skipped l), ss_error = l2_error l\<rparr>"

text \<open>\<open>RunSyncLoop\<close>: one sweep at the start and one per tick, whatever their errors.\<close>

fun sync_rounds :: "replay_fn \<Rightarrow> (service \<times> int) list \<Rightarrow> l2 \<Rightarrow> l2 option" where
  "sync_rounds replay [] l = Some l"
| "sync_rounds replay ((sv, now) # rs) l =
     (case SyncOnce replay sv now l of None \<Rightarrow> None | Some (l', _) \<Rightarrow> sync_rounds replay rs l')"

end
