(* ===== verification/PediaInv.thy ===== *)
theory PediaInv
  imports Pedia
begin

text \<open>
  The well-formedness invariant of the Agentpedia engine: keys point into the store, challenges and
  proposals at known entries, approvals are votes of arbiters. Every handler keeps it, and on it no
  handler panics.
\<close>

section \<open>The part of the state other records point into\<close>

definition core :: "pedia \<Rightarrow> _" where
  "core s = (ps_entries s, length (ps_store s), ps_challenges s, ps_proposals s, ps_paramProposals s, ps_params s)"

lemma core_bury [simp]: "core (bury pid r s) = core s"
  by (simp add: core_def bury_def)

lemma core_upd_editor [simp]: "core (upd_editor e f s) = core s"
  by (simp add: core_def upd_editor_def)

lemma core_editorOf [simp]: "core (editorOf e s) = core s"
  by (simp add: editorOf_def)

lemma core_upd_entry [simp]: "core (upd_entry k f s) = core s"
  by (simp add: core_def upd_entry_def split: option.splits)

lemma core_countRev [simp]: "core (countRev ev k h s) = core s"
  unfolding countRev_def core_upd_editor by (simp add: core_def)

lemma core_fields:
  assumes "core s = core t"
  shows "ps_entries s = ps_entries t" "length (ps_store s) = length (ps_store t)" "ps_challenges s = ps_challenges t"
    "ps_proposals s = ps_proposals t" "ps_paramProposals s = ps_paramProposals t" "ps_params s = ps_params t"
  using assms by (simp_all add: core_def)

text \<open>
  An observation of the state that burying an event and updating an editor or a registration leave
  alone: the whole editor handler leaves it alone.
\<close>

locale editor_blind =
  fixes obs :: "pedia \<Rightarrow> 'o"
  assumes bury: "obs (bury pid r s) = obs s"
    and editor: "obs (upd_editor e f s) = obs s"
    and registration: "obs (s\<lparr>ps_regChallenges := m\<rparr>) = obs s"
begin

lemma handler: "obs (applyEditor ev h s) = obs s"
proof -
  have "obs (editor_challenge ev a h t) = obs t" for a t
    by (simp add: editor_challenge_def bury registration)
  moreover have "obs (editor_poc ev h t) = obs t" for t
    by (simp add: editor_poc_def Let_def bury registration split: option.split)
  moreover have "obs (editor_register ev h t) = obs t" for t
    by (simp add: editor_register_def Let_def bury editor registration split: option.split)
  moreover have "obs (editor_endorse ev a h t) = obs t" for a t
    by (simp add: editor_endorse_def bury editor split: option.split)
  ultimately show ?thesis by (simp add: applyEditor_def Let_def bury editor editorOf_def)
qed

end

interpretation core_blind: editor_blind core
  by unfold_locales (simp_all, simp add: core_def)

lemmas core_editor = core_blind.handler

lemma core_review: "core (applyReview ev s) = core s"
  by (simp add: applyReview_def Let_def) (simp add: core_def)

lemma core_freeze: "war_freeze ev key h en s = Some s' \<Longrightarrow> core s' = core s"
  by (auto simp: war_freeze_def Let_def split: if_splits option.splits)

lemma core_dispatch: "rev_dispatch ev key h en s = Some s' \<Longrightarrow> core s' = core s"
  by (auto simp: rev_dispatch_def rev_create_def rev_edit_def rev_revert_def rev_redirect_def Let_def
      dest!: core_freeze split: if_splits option.splits)

lemma core_rev:
  assumes "applyRev ev h s = Some s'"
  shows "core s' = core (entryOf (rev_key ev) s)"
  using assms by (auto simp: applyRev_def Let_def dest!: core_dispatch split: if_splits option.splits)

lemma core_genesis:
  "core (genesis ev h s) = core (s\<lparr>ps_params := Some (num_members (nil_map (p_sub (pe_payload ev) ''params'')) [])\<rparr>)"
proof -
  have "core (foldl (seat_founder h) t fs) = core t" for fs t
    by (induction fs arbitrary: t) (simp_all add: seat_founder_def)
  moreover have "core (foldl seat_rep t rs) = core t" for rs t
    by (induction rs arbitrary: t) (simp_all add: seat_rep_def)
  ultimately show ?thesis by (simp add: genesis_def Let_def) (simp add: core_def)
qed

section \<open>Well-formed states\<close>

definition proposal_ok :: "(string, nat) gomap \<Rightarrow> string \<Rightarrow> proposal_rec \<Rightarrow> bool" where
  "proposal_ok entries pid p \<longleftrightarrow> pr_pin p = pid \<and> mhas entries (pr_entryKey p) \<and> distinct (pr_approves p)
     \<and> set (pr_approves p) \<subseteq> set (pr_arbiters p) \<inter> set (pr_voters p)
     \<and> pr_approveCount p = int (length (pr_approves p))"

definition pedia_wf :: "pedia \<Rightarrow> bool" where
  "pedia_wf s \<longleftrightarrow> (\<forall>k i. mget (ps_entries s) k = Some i \<longrightarrow> i < length (ps_store s))
     \<and> (\<forall>c ch. mget (ps_challenges s) c = Some ch \<longrightarrow> mhas (ps_entries s) (ch_entryKey ch))
     \<and> (\<forall>pid p. mget (ps_proposals s) pid = Some p \<longrightarrow> proposal_ok (ps_entries s) pid p)
     \<and> distinct (mkeys (ps_proposals s))
     \<and> (ps_paramProposals s \<noteq> [] \<longrightarrow> ps_params s \<noteq> None)"

lemma wf_core: "core s = core t \<Longrightarrow> pedia_wf s \<longleftrightarrow> pedia_wf t"
  unfolding pedia_wf_def by (simp add: core_def)

lemma proposal_ok_mono: "proposal_ok m pid p \<Longrightarrow> (\<And>k. mhas m k \<Longrightarrow> mhas m' k) \<Longrightarrow> proposal_ok m' pid p"
  by (simp add: proposal_ok_def)

lemma wf_entries:
  assumes "pedia_wf s" "\<And>k. mhas (ps_entries s) k \<Longrightarrow> mhas m k" "\<And>k i. mget m k = Some i \<Longrightarrow> i < length st"
  shows "pedia_wf (s\<lparr>ps_store := st, ps_entries := m\<rparr>)"
proof -
  have "proposal_ok m pid p" if "mget (ps_proposals s) pid = Some p" for pid p
  proof (rule proposal_ok_mono)
    show "proposal_ok (ps_entries s) pid p" using assms(1) that by (simp add: pedia_wf_def)
  qed (rule assms(2))
  with assms(1,3) show ?thesis unfolding pedia_wf_def by (auto intro: assms(2))
qed

lemma wf_entryOf:
  assumes "pedia_wf s" shows "pedia_wf (entryOf key s)"
proof -
  have "pedia_wf (s\<lparr>ps_store := ps_store s @ [new_entry key], ps_entries := mput key (length (ps_store s)) (ps_entries s)\<rparr>)"
    by (rule wf_entries [OF assms])
      (use assms in \<open>auto simp: mhas_def pedia_wf_def less_Suc_eq split: if_splits\<close>)
  with assms show ?thesis by (simp add: entryOf_def)
qed

lemma wf_put_proposal:
  assumes "pedia_wf s" "proposal_ok (ps_entries s) pid p"
  shows "pedia_wf (s\<lparr>ps_proposals := mput pid p (ps_proposals s)\<rparr>)"
  using assms unfolding pedia_wf_def by (auto split: if_splits)

lemma wf_start: "pedia_wf (pedia_start es opts)"
  by (simp add: pedia_wf_def pedia_start_def mkeys_def)

lemma wf_close_one: "pedia_wf s \<Longrightarrow> pedia_wf (close_one h s pid)"
proof -
  assume wf: "pedia_wf s"
  have "pedia_wf (s\<lparr>ps_proposals := mput pid (p\<lparr>pr_state := Voided\<rparr>) (ps_proposals s)\<rparr>)"
    if "mget (ps_proposals s) pid = Some p" for p
    using wf that by (intro wf_put_proposal) (auto simp: pedia_wf_def proposal_ok_def)
  moreover have "pedia_wf (upd_entry k f t) \<longleftrightarrow> pedia_wf t" for k f t
    by (rule wf_core) simp
  ultimately show ?thesis using wf by (simp add: close_one_def Let_def split: option.split)
qed

lemma wf_close: "pedia_wf s \<Longrightarrow> pedia_wf (closeExpired iter h s)"
  unfolding closeExpired_def by (induction iter arbitrary: s) (simp_all add: wf_close_one)

lemma wf_outcome_entry:
  assumes "pedia_wf s" shows "pedia_wf (outcome_on_entry p s)"
proof -
  have u: "pedia_wf (upd_entry k f s)" for k f using assms wf_core [OF core_upd_entry] by blast
  have t: "pedia_wf (s\<lparr>ps_entries := mput k i (ps_entries s)\<rparr>)" if "mget (ps_entries s) j = Some i" for j k i
  proof -
    have "i < length (ps_store s)" "\<And>k i. mget (ps_entries s) k = Some i \<Longrightarrow> i < length (ps_store s)"
      using that assms by (auto simp: pedia_wf_def)
    then have "pedia_wf (s\<lparr>ps_store := ps_store s, ps_entries := mput k i (ps_entries s)\<rparr>)"
      by (intro wf_entries [OF assms]) (auto simp: mhas_def split: if_splits)
    then show ?thesis by simp
  qed
  have a: "pedia_wf (x\<lparr>ps_aliasOf := al\<rparr>) \<longleftrightarrow> pedia_wf x" for x al
    by (rule wf_core) (simp add: core_def)
  show ?thesis using assms u t by (auto simp: outcome_on_entry_def Let_def a split: option.split)
qed

lemma wf_outcome:
  assumes "pedia_wf s" "proposal_ok (ps_entries s) (pr_pin p) p"
  shows "pedia_wf (applyOutcome p s)"
proof -
  let ?s1 = "s\<lparr>ps_proposals := mput (pr_pin p) (p\<lparr>pr_state := Effective\<rparr>) (ps_proposals s)\<rparr>"
  have "pedia_wf ?s1" using assms by (intro wf_put_proposal) (auto simp: proposal_ok_def)
  moreover have "core (outcome_on_editor p t) = core t" for t
    by (simp add: outcome_on_editor_def Let_def split: option.split)
  ultimately show ?thesis
    using wf_core [of "outcome_on_editor p t" t for t] wf_outcome_entry [of ?s1 p] by (simp add: applyOutcome_def Let_def)
qed

lemma cast_vote_ok: "proposal_ok m pid p \<Longrightarrow> proposal_ok m pid (cast_vote ev p)"
  by (auto simp: proposal_ok_def cast_vote_def Let_def)

lemma wf_vote:
  assumes "pedia_wf s" shows "pedia_wf (ruling_vote ev h s)"
proof (cases "mget (ps_proposals s) (p_str (pe_payload ev) ''proposalPin'')")
  case None
  then show ?thesis using assms wf_core [OF core_bury] by (simp add: ruling_vote_def)
next
  case (Some p)
  let ?pid = "p_str (pe_payload ev) ''proposalPin''"
  let ?s1 = "s\<lparr>ps_proposals := mput ?pid (cast_vote ev p) (ps_proposals s)\<rparr>"
  have ok: "proposal_ok (ps_entries s) ?pid (cast_vote ev p)"
    using assms Some by (auto simp: pedia_wf_def intro: cast_vote_ok)
  then have pid: "pr_pin (cast_vote ev p) = ?pid" by (simp add: proposal_ok_def)
  have "pedia_wf ?s1" using assms ok by (rule wf_put_proposal)
  moreover from this have "pedia_wf (applyOutcome (cast_vote ev p) ?s1)"
    by (rule wf_outcome) (use ok pid in simp)
  ultimately show ?thesis using assms Some wf_core [OF core_bury]
    by (simp add: ruling_vote_def Let_def)
qed

lemma has_rev_key: "has_rev s r k \<Longrightarrow> mhas (ps_entries s) k"
  by (auto simp: has_rev_def entry_at_def mhas_def split: option.splits)

lemma entryKeyOfRev_has:
  assumes "entryKeyOfRev s r \<noteq> ''''" shows "has_rev s r (entryKeyOfRev s r)"
proof (cases "slice_stable string_less (filter (has_rev s r) (mkeys (ps_entries s)))")
  case Nil
  with assms show ?thesis by (auto simp: entryKeyOfRev_def Let_def split: if_splits)
next
  case (Cons k ks)
  then have "k \<in> set (filter (has_rev s r) (mkeys (ps_entries s)))" by (metis list.set_intros(1) set_slice_stable)
  with assms Cons show ?thesis by (auto simp: entryKeyOfRev_def Let_def split: if_splits)
qed

lemma wf_challenge:
  assumes "pedia_wf s" shows "pedia_wf (applyChallenge ev s)"
proof -
  let ?rv = "p_str (pe_payload ev) ''targetRev''"
  let ?key = "entryKeyOfRev s ?rv"
  let ?s1 = "upd_entry ?key (\<lambda>en. en\<lparr>en_disputed := List.insert ?rv (en_disputed en)\<rparr>) s"
  have wf1: "pedia_wf ?s1" using assms wf_core [OF core_upd_entry] by blast
  have eqs: "ps_entries ?s1 = ps_entries s" "ps_challenges ?s1 = ps_challenges s"
    using core_fields [OF core_upd_entry] by blast+
  have "pedia_wf (?s1\<lparr>ps_challenges := mput c ch (ps_challenges s)\<rparr>)"
    if "mhas (ps_entries s) (ch_entryKey ch)" for c ch
    using wf1 that unfolding pedia_wf_def eqs [symmetric] by (auto split: if_splits)
  moreover have "?key \<noteq> '''' \<Longrightarrow> mhas (ps_entries s) ?key" using entryKeyOfRev_has has_rev_key by blast
  moreover have "pedia_wf (bury p r s)" for p r using assms wf_core [OF core_bury] by blast
  ultimately show ?thesis
    by (simp add: applyChallenge_def Let_def)
qed

lemma wf_params: "pedia_wf s \<Longrightarrow> pedia_wf (s\<lparr>ps_params := Some m\<rparr>)"
  by (auto simp: pedia_wf_def)

lemma wf_bury: "pedia_wf s \<Longrightarrow> pedia_wf (bury p r s)"
  using wf_core [OF core_bury] by blast

lemma wf_constitution: "pedia_wf s \<Longrightarrow> applyConstitution ev h s = Some s' \<Longrightarrow> pedia_wf s'"
  using wf_core [OF core_genesis, of ev h s]
  by (auto simp: applyConstitution_def wf_params wf_bury split: if_splits option.splits)

lemma wf_param:
  assumes "pedia_wf s" "ps_params s \<noteq> None" shows "pedia_wf (applyParamProposal ev h s)"
proof -
  have "pedia_wf (s\<lparr>ps_paramProposals := m\<rparr>)" for m
    using assms by (auto simp: pedia_wf_def)
  with assms(1) show ?thesis by (simp add: applyParamProposal_def Let_def wf_bury split: option.split)
qed

lemma wf_proposal:
  assumes "pedia_wf s" "ruling_proposal ev h s = Some s'" shows "pedia_wf s'"
proof -
  have "pedia_wf (s\<lparr>ps_proposals := mput (pe_pin ev) (new_proposal ev h cp (ch_entryKey ch) b arbs s) (ps_proposals s)\<rparr>)"
    if "mget (ps_challenges s) cp = Some ch" for cp ch b arbs
    using assms(1) that by (intro wf_put_proposal) (auto simp: proposal_ok_def new_proposal_def pedia_wf_def)
  with assms show ?thesis
    by (auto simp: ruling_proposal_def Let_def wf_bury split: option.splits if_splits)
qed

lemma wf_handle:
  assumes "pedia_wf s" "handle ev s = Some s'" shows "pedia_wf s'"
proof -
  have "pedia_wf (applyEditor ev h s)" "pedia_wf (applyReview ev s)" for h
    using assms(1) wf_core [OF core_editor] wf_core [OF core_review] by blast+
  moreover have "applyRev ev h s = Some s' \<Longrightarrow> pedia_wf s'" for h
    using assms(1) wf_core [OF core_rev] wf_entryOf by blast
  moreover have "applyRuling ev h s = Some s' \<Longrightarrow> pedia_wf s'" for h
    using assms(1) by (auto simp: applyRuling_def Let_def wf_bury wf_vote intro: wf_proposal split: if_splits)
  ultimately show ?thesis
    using assms by (auto simp: handle_def Let_def wf_bury wf_challenge wf_param intro: wf_constitution split: if_splits)
qed

lemma wf_step: "pedia_step s ev s' \<Longrightarrow> pedia_wf s \<Longrightarrow> pedia_wf s'"
  by (auto simp: applyEvent_def elim!: pedia_stepE intro: wf_handle wf_close)

lemma wf_run: "pedia_run s es s' \<Longrightarrow> pedia_wf s \<Longrightarrow> pedia_wf s'"
  by (induction rule: pedia_run.induct) (auto intro: wf_step)

section \<open>No panic\<close>

lemma pint_core: "core s = core t \<Longrightarrow> pint s k d = pint t k d"
  by (simp add: pint_def pfloat_def core_def)

lemma pint_cong: "ps_params s = ps_params t \<Longrightarrow> pint s k d = pint t k d"
  by (simp add: pint_def pfloat_def)

lemma draw_some: "cap_ok n \<Longrightarrow> ArbiterDraw seed cs n \<noteq> None"
  by (simp add: ArbiterDraw_def)

lemma freeze_some:
  assumes "cap_ok (pint s ''arbiterDrawN'' 7)" shows "war_freeze ev key h en s \<noteq> None"
proof -
  have "freezeArbiters s key (pe_pin ev) h \<noteq> None"
    using draw_some [OF assms] by (simp add: freezeArbiters_def split: option.split)
  then show ?thesis by (auto simp: war_freeze_def Let_def split: option.split)
qed

lemma entry_at_entryOf: "\<exists>en. entry_at (entryOf key s) key = Some en"
  by (cases "mget (ps_entries s) key") (simp_all add: entry_at_def entryOf_def mhas_def)

lemma rev_some:
  assumes "cap_ok (pint s ''arbiterDrawN'' 7)" shows "applyRev ev h s \<noteq> None"
proof -
  let ?s = "entryOf (rev_key ev) s"
  have p: "pint ?s ''arbiterDrawN'' 7 = pint s ''arbiterDrawN'' 7"
    by (rule pint_cong) (simp add: entryOf_def)
  obtain en where en: "entry_at ?s (rev_key ev) = Some en"
    using entry_at_entryOf by blast
  have "rev_revert ev key h en ?s \<noteq> None" for key en
    using assms freeze_some pint_core [OF trans [OF core_countRev core_upd_entry]] p
    by (simp add: rev_revert_def Let_def split: option.split)
  then show ?thesis using en by (auto simp: applyRev_def rev_dispatch_def Let_def)
qed

lemma ruling_some:
  assumes "cap_ok (pint s ''arbiterDrawN'' 7)" "pedia_wf s" shows "applyRuling ev h s \<noteq> None"
proof -
  have "snapshotArbiters s p c h \<noteq> None" for p c
    using draw_some [OF assms(1)] by (simp add: snapshotArbiters_def split: option.split)
  moreover have "mget (ps_challenges s) c = Some ch \<Longrightarrow> entry_at s (ch_entryKey ch) \<noteq> None" for c ch
    using assms(2) by (auto simp: pedia_wf_def entry_at_def mhas_def)
  ultimately have "ruling_proposal ev h s \<noteq> None"
    by (fastforce simp: ruling_proposal_def Let_def split: option.split)
  then show ?thesis by (simp add: applyRuling_def Let_def)
qed

lemma handle_some:
  assumes "cap_ok (pint s ''arbiterDrawN'' 7)" "pedia_wf s" shows "handle ev s \<noteq> None"
proof -
  have "applyConstitution ev h s \<noteq> None" for h
    using assms(2) by (auto simp: applyConstitution_def pedia_wf_def split: option.split)
  then show ?thesis using rev_some [OF assms(1)] ruling_some [OF assms] by (simp add: handle_def Let_def)
qed

lemma params_close: "ps_params (closeExpired iter h s) = ps_params s"
proof -
  have "ps_params (close_one h t p) = ps_params t" for t p
    using core_fields(6) [OF core_upd_entry] by (simp add: close_one_def Let_def split: option.split)
  then show ?thesis unfolding closeExpired_def by (induction iter arbitrary: s) simp_all
qed

text \<open>
  C11: Every state a replay reaches is well-formed: entry keys point into the store, challenges and
  proposals at known entries, approvals are votes of the proposal's arbiters, each once. In such a
  state no event makes the engine panic, whatever the visiting order, as long as the parameter
  arbiterDrawN is a size the allocation of a draw accepts.
\<close>

theorem pedia_no_panic:
  assumes "pedia_run (pedia_start es opts) evs s" "cap_ok (pint s ''arbiterDrawN'' 7)"
  shows "pedia_wf s \<and> (\<exists>s'. applyEvent iter ev s = Some s')"
proof -
  have wf: "pedia_wf s" using assms(1) wf_start by (rule wf_run)
  moreover have "handle ev (closeExpired iter (pe_height ev) s) \<noteq> None"
  proof (rule handle_some)
    show "cap_ok (pint (closeExpired iter (pe_height ev) s) ''arbiterDrawN'' 7)"
      using assms(2) pint_cong [OF params_close] by metis
  qed (use wf in \<open>rule wf_close\<close>)
  ultimately show ?thesis by (auto simp: applyEvent_def)
qed

end
