(* ===== verification/PediaProps.thy ===== *)
theory PediaProps
  imports PediaInv
begin

text \<open>
  Properties of the Agentpedia engine: the life of a proposal, the order in which expired proposals
  are visited, writes to a frozen entry, the daily limits, and the runs of a small stream.
\<close>

section \<open>What a step does to the proposals\<close>

definition void :: "int \<Rightarrow> proposal_rec \<Rightarrow> proposal_rec" where
  "void h p = (if pr_state p = Open \<and> pr_expiryH p \<le> h then p\<lparr>pr_state := Voided\<rparr> else p)"

lemma void_void [simp]: "void h (void h p) = void h p"
  by (simp add: void_def)

lemma void_fields [simp]:
  "pr_expiryH (void h p) = pr_expiryH p" "pr_voters (void h p) = pr_voters p" "pr_approves (void h p) = pr_approves p"
  "pr_arbiters (void h p) = pr_arbiters p" "pr_pin (void h p) = pr_pin p"
  by (simp_all add: void_def)

lemma close_one_proposals:
  "mget (ps_proposals (close_one h s pid)) q = (if q = pid then map_option (void h) (mget (ps_proposals s) q)
     else mget (ps_proposals s) q)"
  using core_fields(4) [OF core_upd_entry] by (auto simp: close_one_def void_def Let_def split: option.split)

lemma close_proposals:
  "mget (ps_proposals (closeExpired iter h s)) q =
     (if q \<in> set iter then map_option (void h) (mget (ps_proposals s) q) else mget (ps_proposals s) q)"
  unfolding closeExpired_def
proof (induction iter arbitrary: s)
  case (Cons pid iter)
  then show ?case by (cases "mget (ps_proposals s) q") (auto simp: close_one_proposals)
qed simp

lemma close_all_proposals:
  assumes "mset iter = mset (mkeys (ps_proposals s))"
  shows "mget (ps_proposals (closeExpired iter h s)) q = map_option (void h) (mget (ps_proposals s) q)"
proof -
  have "set iter = set (mkeys (ps_proposals s))" using assms by (rule mset_eq_setD)
  then show ?thesis using gm.keys_iff [of q "ps_proposals s"] by (auto simp: close_proposals)
qed

lemma core_outcome_editor: "core (outcome_on_editor p s) = core s"
  by (simp add: outcome_on_editor_def Let_def split: option.split)

lemma proposals_outcome: "ps_proposals (applyOutcome p s) = mput (pr_pin p) (p\<lparr>pr_state := Effective\<rparr>) (ps_proposals s)"
proof -
  have "ps_proposals (outcome_on_entry p t) = ps_proposals t" for t
    using core_fields(4) [OF core_upd_entry] by (simp add: outcome_on_entry_def Let_def split: option.split)
  then show ?thesis
    using core_fields(4) [OF core_outcome_editor] by (simp add: applyOutcome_def Let_def)
qed

definition is_vote :: "pedia_event \<Rightarrow> string \<Rightarrow> bool" where
  "is_vote ev pid \<longleftrightarrow> pe_path ev = PediaRuling \<and> p_str (pe_payload ev) ''action'' = ''vote''
     \<and> p_str (pe_payload ev) ''proposalPin'' = pid"

text \<open>A vote that is taken, and the proposal after it.\<close>

definition takes_vote :: "pedia_event \<Rightarrow> int \<Rightarrow> proposal_rec \<Rightarrow> bool" where
  "takes_vote ev h p \<longleftrightarrow> pr_state p = Open \<and> h \<le> pr_expiryH p \<and> pe_sender ev \<notin> set (pr_voters p)"

definition voted :: "int \<Rightarrow> pedia_event \<Rightarrow> proposal_rec \<Rightarrow> proposal_rec" where
  "voted quorum ev p = (let p1 = cast_vote ev p in
     if counted_vote ev p \<and> quorum \<le> pr_approveCount p1 then p1\<lparr>pr_state := Effective\<rparr> else p1)"

lemma cast_vote_fields [simp]:
  "pr_state (cast_vote ev p) = pr_state p" "pr_expiryH (cast_vote ev p) = pr_expiryH p" "pr_pin (cast_vote ev p) = pr_pin p"
  "pr_arbiters (cast_vote ev p) = pr_arbiters p"
  by (simp_all add: cast_vote_def Let_def)

lemma voted_fields [simp]: "pr_expiryH (voted q ev p) = pr_expiryH p"
  by (simp add: voted_def Let_def)

lemma vote_proposals:
  fixes ev
  assumes "pedia_wf s"
  defines "pid \<equiv> p_str (pe_payload ev) ''proposalPin''"
  shows "mget (ps_proposals (ruling_vote ev h s)) q =
     (case mget (ps_proposals s) q of None \<Rightarrow> None
      | Some p \<Rightarrow> Some (if q = pid \<and> takes_vote ev h p then voted (pint s ''rulingQuorum'' 5) ev p else p))"
proof (cases "mget (ps_proposals s) pid")
  case None
  then show ?thesis using core_fields(4) [OF core_bury]
    by (auto simp: ruling_vote_def pid_def split: option.split)
next
  case (Some p)
  with assms have "pr_pin p = pid" by (simp add: pedia_wf_def proposal_ok_def)
  with Some show ?thesis using core_fields(4) [OF core_bury]
    by (auto simp: ruling_vote_def pid_def [symmetric] Let_def takes_vote_def voted_def proposals_outcome split: option.split)
qed

lemma handle_proposals:
  assumes "handle ev s = Some s'" "pedia_wf s"
  shows "mget (ps_proposals s') q = mget (ps_proposals s) q
     \<or> (q = pe_pin ev \<and> (\<exists>p. mget (ps_proposals s') q = Some p \<and> pr_state p = Open))
     \<or> (is_vote ev q \<and> (\<exists>p. mget (ps_proposals s) q = Some p \<and> takes_vote ev (pe_height ev) p
           \<and> mget (ps_proposals s') q = Some (voted (pint s ''rulingQuorum'' 5) ev p)))"
proof -
  have b: "ps_proposals (bury p r s) = ps_proposals s" for p r by (simp add: bury_def)
  have "applyConstitution ev h s = Some s' \<Longrightarrow> ps_proposals s' = ps_proposals s" for h
    using core_fields(4) [OF core_genesis, of ev h s] by (auto simp: applyConstitution_def b split: if_splits option.splits)
  moreover have "ps_proposals (applyEditor ev h s) = ps_proposals s" "ps_proposals (applyReview ev s) = ps_proposals s" for h
    using core_fields(4) [OF core_editor] core_fields(4) [OF core_review] by blast+
  moreover have "ps_proposals (applyChallenge ev s) = ps_proposals s"
    using core_fields(4) [OF core_upd_entry] by (simp add: applyChallenge_def Let_def b)
  moreover have "ps_proposals (applyParamProposal ev h s) = ps_proposals s" for h
    by (simp add: applyParamProposal_def Let_def b split: option.split)
  moreover have "applyRev ev h s = Some s' \<Longrightarrow> ps_proposals s' = ps_proposals s" for h
    using core_fields(4) [OF core_rev, of ev h s s'] by (simp add: entryOf_def split: if_splits)
  moreover have "ruling_proposal ev h s = Some s' \<Longrightarrow> ?thesis" for h
    by (auto simp: ruling_proposal_def Let_def b new_proposal_def split: option.splits if_splits)
  moreover have ?thesis if "pe_path ev = PediaRuling" "p_str (pe_payload ev) ''action'' = ''vote''"
    "s' = ruling_vote ev (pe_height ev) s"
    using that vote_proposals [OF assms(2), of ev "pe_height ev" q]
    by (auto simp: is_vote_def split: option.splits)
  ultimately show ?thesis
    using assms(1) b by (simp add: handle_def applyRuling_def Let_def split: if_splits) (auto simp: b)
qed

lemma step_proposals:
  assumes "pedia_step s ev s'" "pedia_wf s"
  shows "mget (ps_proposals s') q = map_option (void (pe_height ev)) (mget (ps_proposals s) q)
     \<or> (q = pe_pin ev \<and> (\<exists>p. mget (ps_proposals s') q = Some p \<and> pr_state p = Open))
     \<or> (is_vote ev q \<and> (\<exists>p. mget (ps_proposals s) q = Some p \<and> takes_vote ev (pe_height ev) (void (pe_height ev) p)
           \<and> mget (ps_proposals s') q = Some (voted (pint s ''rulingQuorum'' 5) ev (void (pe_height ev) p))))"
proof -
  obtain iter where iter: "mset iter = mset (mkeys (ps_proposals s))"
    and h: "handle ev (closeExpired iter (pe_height ev) s) = Some s'"
    using assms(1) by (auto simp: applyEvent_def elim: pedia_stepE)
  show ?thesis
    using handle_proposals [OF h wf_close [OF assms(2)], of q] pint_cong [OF params_close]
    by (auto simp: close_all_proposals [OF iter])
qed

lemma counted_void [simp]: "counted_vote ev (void h p) = counted_vote ev p"
  by (simp add: counted_vote_def)

text \<open>
  C5: A ruling becomes effective only by the approving vote of an arbiter of its proposal that had not
  voted yet, cast before the expiry, which brings the approvals of different arbiters to the quorum.
\<close>

theorem effective_by_quorum:
  assumes "pedia_run (pedia_start es opts) evs s" "pedia_step s ev s'"
    and "mget (ps_proposals s') pid = Some p'" "pr_state p' = Effective"
    and "\<forall>p. mget (ps_proposals s) pid = Some p \<longrightarrow> pr_state p \<noteq> Effective"
  shows "\<exists>p. mget (ps_proposals s) pid = Some p \<and> pr_state p = Open \<and> pe_height ev < pr_expiryH p \<and> is_vote ev pid
     \<and> pe_sender ev \<notin> set (pr_voters p) \<and> pe_sender ev \<in> set (pr_approves p')
     \<and> set (pr_approves p') \<subseteq> set (pr_arbiters p') \<inter> set (pr_voters p') \<and> pr_arbiters p' = pr_arbiters p
     \<and> pint s ''rulingQuorum'' 5 \<le> int (card (set (pr_approves p')))"
proof -
  have wf: "pedia_wf s" using assms(1) wf_start by (rule wf_run)
  with assms(2) have "pedia_wf s'" by (rule wf_step)
  then have ok: "proposal_ok (ps_entries s') pid p'" using assms(3) by (simp add: pedia_wf_def)
  have "pr_state (void h p) \<noteq> Effective" if "mget (ps_proposals s) pid = Some p" for p h
    using that assms(5) by (simp add: void_def)
  with step_proposals [OF assms(2) wf, of pid] assms(3,4)
  obtain p where p: "mget (ps_proposals s) pid = Some p" "is_vote ev pid" "takes_vote ev (pe_height ev) (void (pe_height ev) p)"
    "p' = voted (pint s ''rulingQuorum'' 5) ev (void (pe_height ev) p)"
    by (cases "mget (ps_proposals s) pid") auto
  from p(3) have op: "pr_state p = Open" "pe_height ev < pr_expiryH p" "pe_sender ev \<notin> set (pr_voters p)"
    by (auto simp: takes_vote_def void_def split: if_splits)
  then have v: "void (pe_height ev) p = p" by (simp add: void_def)
  from assms(4) op(1) have "counted_vote ev p" "pint s ''rulingQuorum'' 5 \<le> pr_approveCount (cast_vote ev p)"
    by (auto simp: p(4) v voted_def Let_def split: if_splits)
  moreover from this have "pe_sender ev \<in> set (pr_approves (cast_vote ev p))"
    by (simp add: cast_vote_def counted_vote_def Let_def)
  ultimately show ?thesis
    using p(1,2,4) op ok v by (auto simp: voted_def Let_def proposal_ok_def distinct_card)
qed

lemma step_decided:
  assumes "pedia_step s ev s'" "pedia_wf s" "mget (ps_proposals s) pid = Some p" "pe_pin ev \<noteq> pid"
  shows "\<exists>p'. mget (ps_proposals s') pid = Some p' \<and> pr_expiryH p' = pr_expiryH p
     \<and> (pr_state p \<noteq> Open \<longrightarrow> pr_state p' = pr_state p) \<and> (pr_expiryH p \<le> pe_height ev \<longrightarrow> pr_state p' \<noteq> Open)"
  using step_proposals [OF assms(1,2), of pid] assms(3,4)
  by (auto simp: takes_vote_def void_def split: if_splits)

text \<open>
  C28: Every proposal is decided: after the first event at or past its expiry it is effective or voided,
  and a decision is never taken back.
\<close>

theorem proposals_decided:
  assumes "pedia_run (pedia_start es opts) evs s" "mget (ps_proposals s) pid = Some p"
    and "pedia_run s evs' s'" "pid \<notin> pe_pin ` set evs'" "\<exists>ev \<in> set evs'. pr_expiryH p \<le> pe_height ev"
  shows "\<exists>p'. mget (ps_proposals s') pid = Some p' \<and> pr_state p' \<in> {Effective, Voided}
     \<and> (pr_state p \<noteq> Open \<longrightarrow> pr_state p' = pr_state p)"
proof -
  have "\<exists>p'. mget (ps_proposals s') pid = Some p' \<and> pr_expiryH p' = pr_expiryH p
     \<and> (pr_state p \<noteq> Open \<longrightarrow> pr_state p' = pr_state p)
     \<and> ((\<exists>ev \<in> set evs'. pr_expiryH p \<le> pe_height ev) \<longrightarrow> pr_state p' \<noteq> Open)"
    if "pedia_run s evs' s'" "pid \<notin> pe_pin ` set evs'" "pedia_wf s" "mget (ps_proposals s) pid = Some p" for s evs' s'
    using that
  proof (induction rule: pedia_run.induct)
    case (run_snoc s es s' ev s'')
    then obtain p' where p': "mget (ps_proposals s') pid = Some p'" "pr_expiryH p' = pr_expiryH p"
      "pr_state p \<noteq> Open \<longrightarrow> pr_state p' = pr_state p" "(\<exists>ev \<in> set es. pr_expiryH p \<le> pe_height ev) \<longrightarrow> pr_state p' \<noteq> Open"
      by auto
    have "pe_pin ev \<noteq> pid" using run_snoc.prems(1) by auto
    from step_decided [OF run_snoc.hyps(2) wf_run [OF run_snoc.hyps(1) run_snoc.prems(2)] p'(1) this] p' show ?case
      by auto
  qed auto
  from this [OF assms(3,4) wf_run [OF assms(1) wf_start] assms(2)] assms(5) show ?thesis
    using proposal_state.exhaust by auto
qed

section \<open>The order in which expired proposals are visited\<close>

lemma update_commute:
  assumes "k \<noteq> k'" "mget m k \<noteq> None" "mget m k' \<noteq> None"
  shows "mput k v (mput k' v' m) = mput k' v' (mput k v m)"
  using assms by (induction m) auto

definition expiring :: "int \<Rightarrow> pedia \<Rightarrow> string \<Rightarrow> proposal_rec \<Rightarrow> bool" where
  "expiring h s pid p \<longleftrightarrow> mget (ps_proposals s) pid = Some p \<and> pr_state p = Open \<and> pr_expiryH p \<le> h \<and> pr_entryKey p \<noteq> ''''"

text \<open>Cases that expire together on one frozen entry fall back to the same revision.\<close>

definition agree :: "int \<Rightarrow> pedia \<Rightarrow> bool" where
  "agree h s \<longleftrightarrow> (\<forall>pid p pid' p' i. expiring h s pid p \<longrightarrow> expiring h s pid' p'
     \<longrightarrow> mget (ps_entries s) (pr_entryKey p) = Some i \<longrightarrow> mget (ps_entries s) (pr_entryKey p') = Some i
     \<longrightarrow> en_status (ps_store s ! i) = Frozen \<longrightarrow> pr_baselineRev p = pr_baselineRev p')"

lemma close_one_idle: "(\<And>p. mget (ps_proposals s) pid = Some p \<Longrightarrow> \<not> (pr_state p = Open \<and> pr_expiryH p \<le> h)) \<Longrightarrow> close_one h s pid = s"
  by (auto simp: close_one_def split: option.split)

lemma close_one_act:
  assumes "mget (ps_proposals s) pid = Some p" "pr_state p = Open" "pr_expiryH p \<le> h"
  shows "close_one h s pid = s\<lparr>ps_proposals := mput pid (p\<lparr>pr_state := Voided\<rparr>) (ps_proposals s),
     ps_store := (case mget (ps_entries s) (pr_entryKey p) of
        Some i \<Rightarrow> if pr_entryKey p = '''' then ps_store s else (ps_store s)[i := neutral_revert (pr_baselineRev p) (ps_store s ! i)]
      | None \<Rightarrow> ps_store s)\<rparr>"
  using assms by (simp add: close_one_def Let_def upd_entry_def split: option.split)

lemma status_neutral: "en_status (neutral_revert b en) = Frozen \<longleftrightarrow> False"
  by (cases "en_status en") (simp_all add: neutral_revert_def)

lemma neutral_twice: "neutral_revert b' (neutral_revert b en) = neutral_revert b en"
  by (cases "en_status en") (simp_all add: neutral_revert_def)

lemma neutral_idle: "en_status en \<noteq> Frozen \<Longrightarrow> neutral_revert b en = en"
  by (simp add: neutral_revert_def)

lemma agree_mono:
  assumes "agree h s" "\<And>q r. expiring h t q r \<Longrightarrow> expiring h s q r" "ps_entries t = ps_entries s"
    and "\<And>i. en_status (ps_store t ! i) = Frozen \<Longrightarrow> en_status (ps_store s ! i) = Frozen"
  shows "agree h t"
  unfolding agree_def
proof (intro allI impI)
  fix pid p pid' p' i
  assume "expiring h t pid p" "expiring h t pid' p'" "mget (ps_entries t) (pr_entryKey p) = Some i"
    "mget (ps_entries t) (pr_entryKey p') = Some i" "en_status (ps_store t ! i) = Frozen"
  with assms show "pr_baselineRev p = pr_baselineRev p'" unfolding agree_def by metis
qed

lemma agree_close: "agree h s \<Longrightarrow> agree h (close_one h s pid)"
proof (cases "\<exists>p. mget (ps_proposals s) pid = Some p \<and> pr_state p = Open \<and> pr_expiryH p \<le> h")
  case False
  then have "close_one h s pid = s" by (intro close_one_idle) auto
  then show "agree h s \<Longrightarrow> ?thesis" by simp
next
  case True
  then obtain p where p: "mget (ps_proposals s) pid = Some p" "pr_state p = Open" "pr_expiryH p \<le> h" by blast
  let ?t = "close_one h s pid"
  have st: "en_status ((ps_store s)[j := neutral_revert b (ps_store s ! j)] ! i) = Frozen \<Longrightarrow> en_status (ps_store s ! i) = Frozen"
    for i j b
    by (cases "j < length (ps_store s)") (auto simp: nth_list_update status_neutral list_update_beyond not_less split: if_splits)
  show ?thesis if "agree h s"
  proof (rule agree_mono [OF that])
    show "expiring h ?t q r \<Longrightarrow> expiring h s q r" for q r
      by (auto simp: expiring_def close_one_act [OF p] split: if_splits)
    show "ps_entries ?t = ps_entries s" by (simp add: close_one_act [OF p])
    show "en_status (ps_store ?t ! i) = Frozen \<Longrightarrow> en_status (ps_store s ! i) = Frozen" for i
      by (auto simp: close_one_act [OF p] dest: st split: option.splits if_splits)
  qed
qed

lemma close_commute:
  assumes "agree h s" shows "close_one h (close_one h s x) y = close_one h (close_one h s y) x"
proof (cases "(\<exists>p. mget (ps_proposals s) x = Some p \<and> pr_state p = Open \<and> pr_expiryH p \<le> h)
    \<and> (\<exists>q. mget (ps_proposals s) y = Some q \<and> pr_state q = Open \<and> pr_expiryH q \<le> h) \<and> x \<noteq> y")
  case False
  have idle: "close_one h t z = t" if "mget (ps_proposals t) z = mget (ps_proposals s) z"
    "\<not> (\<exists>p. mget (ps_proposals s) z = Some p \<and> pr_state p = Open \<and> pr_expiryH p \<le> h)" for t z
    using that by (intro close_one_idle) auto
  have keep: "mget (ps_proposals (close_one h s z)) w = mget (ps_proposals s) w" if "z \<noteq> w" for z w
    using that by (simp add: close_one_proposals)
  consider "x = y" | "x \<noteq> y" "\<not> (\<exists>p. mget (ps_proposals s) x = Some p \<and> pr_state p = Open \<and> pr_expiryH p \<le> h)"
    | "x \<noteq> y" "\<not> (\<exists>p. mget (ps_proposals s) y = Some p \<and> pr_state p = Open \<and> pr_expiryH p \<le> h)"
    using False by blast
  then show ?thesis
  proof cases
    case 2
    then show ?thesis using idle [of s x] idle [of "close_one h s y" x] keep [of y x] by simp
  next
    case 3
    then show ?thesis using idle [of s y] idle [of "close_one h s x" y] keep [of x y] by simp
  qed simp
next
  case True
  then obtain p q where p: "mget (ps_proposals s) x = Some p" "pr_state p = Open" "pr_expiryH p \<le> h"
    and q: "mget (ps_proposals s) y = Some q" "pr_state q = Open" "pr_expiryH q \<le> h" and ne: "x \<noteq> y" by blast
  let ?sx = "close_one h s x" and ?sy = "close_one h s y"
  have py: "mget (ps_proposals ?sy) x = Some p" and qx: "mget (ps_proposals ?sx) y = Some q"
    using p(1) q(1) ne by (simp_all add: close_one_proposals)
  have props: "mput y v (mput x u (ps_proposals s)) = mput x u (mput y v (ps_proposals s))" for u v
    using p(1) q(1) ne by (intro update_commute) auto
  have same: "pr_baselineRev p = pr_baselineRev q"
    if "pr_entryKey p \<noteq> ''''" "pr_entryKey q \<noteq> ''''" "mget (ps_entries s) (pr_entryKey p) = Some i"
      "mget (ps_entries s) (pr_entryKey q) = Some i" "en_status (ps_store s ! i) = Frozen" for i
    using assms that p q unfolding agree_def expiring_def by blast
  have store: "(ps_store s)[i := neutral_revert (pr_baselineRev p) (ps_store s ! i),
         j := neutral_revert (pr_baselineRev q) ((ps_store s)[i := neutral_revert (pr_baselineRev p) (ps_store s ! i)] ! j)]
     = (ps_store s)[j := neutral_revert (pr_baselineRev q) (ps_store s ! j),
         i := neutral_revert (pr_baselineRev p) ((ps_store s)[j := neutral_revert (pr_baselineRev q) (ps_store s ! j)] ! i)]"
    if "pr_entryKey p \<noteq> ''''" "pr_entryKey q \<noteq> ''''" "mget (ps_entries s) (pr_entryKey p) = Some i"
      "mget (ps_entries s) (pr_entryKey q) = Some j" for i j
  proof (cases "i = j")
    case True
    then show ?thesis using same [OF that(1,2)] that(3,4)
      by (cases "i < length (ps_store s)"; cases "en_status (ps_store s ! i) = Frozen")
        (auto simp: neutral_twice neutral_idle list_update_beyond not_less)
  next
    case False
    then show ?thesis by (simp add: list_update_swap)
  qed
  show ?thesis
    unfolding close_one_act [OF qx q(2,3)] close_one_act [OF py p(2,3)] unfolding close_one_act [OF p] close_one_act [OF q]
    using store by (auto simp: props split: option.split)
qed

interpretation expiry: commuting_fold "close_one h" "agree h" for h
  by unfold_locales (simp_all add: agree_close close_commute)

lemma close_order: "agree h s \<Longrightarrow> mset iter = mset iter' \<Longrightarrow> closeExpired iter h s = closeExpired iter' h s"
  unfolding closeExpired_def by (rule expiry.order_irrelevant)

section \<open>Writes to a frozen entry\<close>

definition content :: "entry_rec \<Rightarrow> string \<times> string list \<times> (string, version) gomap" where
  "content en = (en_head en, en_history en, en_versions en)"

lemma store_bury [simp]: "ps_store (bury p r s) = ps_store s"
  by (simp add: bury_def)

lemma store_upd_editor [simp]: "ps_store (upd_editor e f s) = ps_store s"
  by (simp add: upd_editor_def)

lemma store_editorOf [simp]: "ps_store (editorOf e s) = ps_store s"
  by (simp add: editorOf_def)

interpretation store_blind: editor_blind ps_store
  by unfold_locales simp_all

lemmas store_editor = store_blind.handler

lemma store_review: "ps_store (applyReview ev s) = ps_store s"
  by (simp add: applyReview_def Let_def)

lemma store_param: "ps_store (applyParamProposal ev h s) = ps_store s"
  by (simp add: applyParamProposal_def Let_def split: option.split)

lemma store_genesis: "ps_store (genesis ev h s) = ps_store s"
proof -
  have "ps_store (foldl (seat_founder h) t fs) = ps_store t" for fs t
    by (induction fs arbitrary: t) (simp_all add: seat_founder_def)
  moreover have "ps_store (foldl seat_rep t rs) = ps_store t" for rs t
    by (induction rs arbitrary: t) (simp_all add: seat_rep_def)
  ultimately show ?thesis by (simp add: genesis_def Let_def)
qed

lemma store_constitution: "applyConstitution ev h s = Some s' \<Longrightarrow> ps_store s' = ps_store s"
  by (auto simp: applyConstitution_def store_genesis split: if_splits option.splits)

lemma store_proposal: "ruling_proposal ev h s = Some s' \<Longrightarrow> ps_store s' = ps_store s"
  by (auto simp: ruling_proposal_def Let_def split: if_splits option.splits)

lemma content_challenge: "content (ps_store (applyChallenge ev s) ! i) = content (ps_store s ! i)"
proof -
  have "content ((ps_store s)[j := (ps_store s ! j)\<lparr>en_disputed := d\<rparr>] ! i) = content (ps_store s ! i)" for j d
    by (cases "j < length (ps_store s)") (auto simp: nth_list_update content_def list_update_beyond not_less)
  then show ?thesis by (simp add: applyChallenge_def upd_entry_def Let_def split: option.split)
qed

text \<open>A revision that is refused, or written under a key of another record, leaves this record alone.\<close>

lemma store_upd_entry_other: "mget (ps_entries s) key \<noteq> Some i \<Longrightarrow> ps_store (upd_entry key f s) ! i = ps_store s ! i"
  by (auto simp: upd_entry_def split: option.split)

lemma entries_upd [simp]: "ps_entries (upd_entry key f s) = ps_entries s" "ps_entries (countRev ev k h s) = ps_entries s"
  using core_fields(1) [OF core_upd_entry] core_fields(1) [OF core_countRev] by blast+

lemma store_countRev [simp]: "ps_store (countRev ev k h s) = ps_store s"
  by (simp add: countRev_def)

lemma store_freeze_other:
  "war_freeze ev key h en s = Some s' \<Longrightarrow> mget (ps_entries s) key \<noteq> Some i \<Longrightarrow> ps_store s' ! i = ps_store s ! i"
  by (auto simp: war_freeze_def Let_def store_upd_entry_other split: if_splits option.splits)

lemma store_dispatch_other:
  "rev_dispatch ev key h en s = Some s' \<Longrightarrow> mget (ps_entries s) key \<noteq> Some i \<Longrightarrow> ps_store s' ! i = ps_store s ! i"
  by (auto simp: rev_dispatch_def rev_create_def rev_edit_def rev_revert_def rev_redirect_def Let_def
      store_upd_entry_other dest!: store_freeze_other split: if_splits option.splits)

lemma entryOf_old:
  assumes "pedia_wf s" "i < length (ps_store s)"
  shows "ps_store (entryOf key s) ! i = ps_store s ! i"
    and "mget (ps_entries (entryOf key s)) key = Some i \<Longrightarrow> mget (ps_entries s) key = Some i"
  using assms by (auto simp: entryOf_def mhas_def nth_append split: if_splits)

lemma rev_writes:
  assumes "applyRev ev h s = Some s'" "pedia_wf s" "i < length (ps_store s)"
    and "ps_store s' ! i \<noteq> ps_store s ! i"
  shows "mget (ps_entries s) (rev_key ev) = Some i \<and> checkRevGates ev (ps_store s ! i) h (entryOf (rev_key ev) s) = ''''"
proof -
  let ?t = "entryOf (rev_key ev) s"
  obtain en where en: "entry_at ?t (rev_key ev) = Some en" using entry_at_entryOf by blast
  from assms(1,4) en have gate: "checkRevGates ev en h ?t = ''''" and d: "rev_dispatch ev (rev_key ev) h en ?t = Some s'"
    by (auto simp: applyRev_def Let_def entryOf_old [OF assms(2,3)] split: if_splits)
  from d assms(4) entryOf_old(1) [OF assms(2,3)] have i: "mget (ps_entries ?t) (rev_key ev) = Some i"
    using store_dispatch_other by metis
  with en have "en = ps_store s ! i" by (auto simp: entry_at_def entryOf_old(1) [OF assms(2,3)])
  with i gate entryOf_old(2) [OF assms(2,3)] show ?thesis by simp
qed

lemma handle_writes:
  assumes "handle ev s = Some s'" "pedia_wf s" "i < length (ps_store s)"
    and "content (ps_store s' ! i) \<noteq> content (ps_store s ! i)" "en_status (ps_store s ! i) = Frozen"
  shows "(pe_path ev = PediaRev \<and> mget (ps_entries s) (rev_key ev) = Some i
       \<and> pe_sender ev \<in> set (en_frozenArbiters (ps_store s ! i)))
     \<or> (pe_path ev = PediaRuling \<and> p_str (pe_payload ev) ''action'' = ''vote'')"
proof -
  have "pe_sender ev \<in> set (en_frozenArbiters (ps_store s ! i))" if "checkRevGates ev (ps_store s ! i) h t = ''''" for h t
    using that assms(5) by (simp add: checkRevGates_def split: if_splits)
  moreover have "ps_store s' ! i \<noteq> ps_store s ! i" using assms(4) by auto
  ultimately show ?thesis
    using assms(1,4) rev_writes [OF _ assms(2,3), of ev "pe_height ev" s'] content_challenge [of ev s i]
    by (auto simp: handle_def applyRuling_def Let_def store_editor store_review store_param
        dest: store_constitution store_proposal split: if_splits)
qed

lemma close_one_writes:
  assumes "i < length (ps_store s)" "en_status (ps_store s ! i) = Frozen"
  shows "ps_store (close_one h s pid) ! i = ps_store s ! i
     \<or> (\<exists>p. expiring h s pid p \<and> mget (ps_entries s) (pr_entryKey p) = Some i)"
proof (cases "\<exists>p. mget (ps_proposals s) pid = Some p \<and> pr_state p = Open \<and> pr_expiryH p \<le> h")
  case False
  then show ?thesis by (intro disjI1) (subst close_one_idle, auto)
next
  case True
  then obtain p where p: "mget (ps_proposals s) pid = Some p" "pr_state p = Open" "pr_expiryH p \<le> h" by blast
  then show ?thesis
    by (auto simp: close_one_act [OF p] expiring_def nth_list_update split: option.split)
qed

lemma close_writes:
  assumes "i < length (ps_store s)" "en_status (ps_store s ! i) = Frozen"
  shows "ps_store (closeExpired iter h s) ! i = ps_store s ! i
     \<or> (\<exists>pid p. expiring h s pid p \<and> mget (ps_entries s) (pr_entryKey p) = Some i)"
  using assms unfolding closeExpired_def
proof (induction iter arbitrary: s)
  case (Cons pid iter)
  let ?t = "close_one h s pid"
  have sub: "expiring h ?t q r \<Longrightarrow> expiring h s q r" for q r
    by (auto simp: expiring_def close_one_proposals void_def split: if_splits)
  have len: "length (ps_store ?t) = length (ps_store s)" and ent: "ps_entries ?t = ps_entries s"
    using core_fields [OF core_upd_entry] by (simp_all add: close_one_def Let_def split: option.split)
  from close_one_writes [OF Cons.prems, of h pid] show ?case
  proof
    assume eq: "ps_store ?t ! i = ps_store s ! i"
    with Cons.IH [of ?t] Cons.prems len ent sub show ?thesis by auto
  qed blast
qed simp

text \<open>
  C29: Head, history and versions of a frozen entry change only through a revision by one of its frozen
  arbiters, a vote on a ruling, or the expiry of a case on it.
\<close>

theorem frozen_writes:
  assumes "pedia_run (pedia_start es opts) evs s" "pedia_step s ev s'"
    and "i < length (ps_store s)" "en_status (ps_store s ! i) = Frozen"
    and "content (ps_store s' ! i) \<noteq> content (ps_store s ! i)"
  shows "(pe_path ev = PediaRev \<and> mget (ps_entries s) (rev_key ev) = Some i
       \<and> pe_sender ev \<in> set (en_frozenArbiters (ps_store s ! i)))
     \<or> (pe_path ev = PediaRuling \<and> p_str (pe_payload ev) ''action'' = ''vote'')
     \<or> (\<exists>pid p. expiring (pe_height ev) s pid p \<and> mget (ps_entries s) (pr_entryKey p) = Some i)"
proof -
  obtain iter where h: "handle ev (closeExpired iter (pe_height ev) s) = Some s'"
    using assms(2) by (auto simp: applyEvent_def elim: pedia_stepE)
  have wf: "pedia_wf (closeExpired iter (pe_height ev) s)" using assms(1) wf_start wf_run wf_close by blast
  have same: "ps_entries (closeExpired iter k s) = ps_entries s \<and> length (ps_store (closeExpired iter k s)) = length (ps_store s)" for iter k
    unfolding closeExpired_def
  proof (induction iter arbitrary: s)
    case (Cons p ps)
    have "ps_entries (close_one k s p) = ps_entries s \<and> length (ps_store (close_one k s p)) = length (ps_store s)"
      using core_fields [OF core_upd_entry] by (simp add: close_one_def Let_def split: option.split)
    with Cons [of "close_one k s p"] show ?case by simp
  qed simp
  from close_writes [OF assms(3,4), of iter "pe_height ev"] show ?thesis
  proof
    assume eq: "ps_store (closeExpired iter (pe_height ev) s) ! i = ps_store s ! i"
    with handle_writes [OF h wf, of i] assms(3-5) same show ?thesis by auto
  qed blast
qed

section \<open>Daily limits\<close>

definition limited :: "int \<Rightarrow> (string, int) gomap \<Rightarrow> (string, int) gomap \<Rightarrow> bool" where
  "limited limit m m' \<longleftrightarrow> (\<forall>k. count_at m' k \<le> max (count_at m k) limit)"

lemma limited_refl [simp]: "limited n m m"
  by (simp add: limited_def)

definition counts :: "pedia \<Rightarrow> (string, int) gomap \<times> (string, int) gomap" where
  "counts s = (ps_dayGlobal s, ps_daySlug s)"

lemma counts_simps [simp]: "counts (bury p r s) = counts s" "counts (upd_editor e f s) = counts s"
  "counts (upd_entry k g s) = counts s" "counts (editorOf e s) = counts s" "counts (entryOf k s) = counts s"
  by (simp_all add: counts_def bury_def upd_editor_def upd_entry_def editorOf_def entryOf_def split: option.split)

interpretation counts_blind: editor_blind counts
  by unfold_locales (simp_all, simp add: counts_def)

lemmas counts_editor = counts_blind.handler

lemma counts_constitution:
  assumes "applyConstitution ev h s = Some s'" shows "counts s' = counts s"
proof -
  have "counts (foldl (seat_founder h) t fs) = counts t" for fs t
    by (induction fs arbitrary: t) (simp_all add: seat_founder_def)
  moreover have "counts (foldl seat_rep t rs) = counts t" for rs t
    by (induction rs arbitrary: t) (simp_all add: seat_rep_def)
  ultimately have "counts (genesis ev h s) = counts s" by (simp add: genesis_def Let_def) (simp add: counts_def)
  moreover have "counts (s\<lparr>ps_params := m\<rparr>) = counts s" for m by (simp add: counts_def)
  ultimately show ?thesis using assms by (auto simp: applyConstitution_def split: if_splits option.splits)
qed

lemma counts_outcome: "counts (applyOutcome p s) = counts s"
proof -
  have c: "counts (s\<lparr>ps_proposals := m\<rparr>) = counts s" "counts (s\<lparr>ps_entries := e\<rparr>) = counts s"
    "counts (s\<lparr>ps_aliasOf := a\<rparr>) = counts s" for s m e a
    by (simp_all add: counts_def)
  show ?thesis
    by (simp add: applyOutcome_def outcome_on_entry_def outcome_on_editor_def Let_def c split: option.split)
qed

lemma counts_ruling: "applyRuling ev h s = Some s' \<Longrightarrow> counts s' = counts s"
proof -
  have c: "counts (s\<lparr>ps_proposals := m\<rparr>) = counts s" for s m by (simp add: counts_def)
  show "applyRuling ev h s = Some s' \<Longrightarrow> counts s' = counts s"
    by (auto simp: applyRuling_def ruling_proposal_def ruling_vote_def Let_def c counts_outcome split: if_splits option.splits)
qed

lemma counts_others: "counts (applyReview ev s) = counts s" "counts (applyChallenge ev s) = counts s"
  "counts (applyParamProposal ev h s) = counts s"
proof -
  have c: "counts (s\<lparr>ps_challenges := m\<rparr>) = counts s" "counts (s\<lparr>ps_paramProposals := n\<rparr>) = counts s"
    "counts (s\<lparr>ps_reviewsByTarget := a, ps_allReviews := b\<rparr>) = counts s" for s m n a b
    by (simp_all add: counts_def)
  show "counts (applyReview ev s) = counts s" "counts (applyChallenge ev s) = counts s"
    "counts (applyParamProposal ev h s) = counts s"
    by (simp_all add: applyReview_def applyChallenge_def applyParamProposal_def Let_def c split: option.split)
qed

lemma counts_countRev: "counts (countRev ev k h s) =
   (incr (global_key s (pe_sender ev) h) (ps_dayGlobal s), incr (slug_key s (pe_sender ev) h k) (ps_daySlug s))"
  by (simp add: countRev_def) (simp add: counts_def)

lemma key_upd: "global_key (upd_entry k f s) = global_key s" "slug_key (upd_entry k f s) = slug_key s"
  by (intro ext, simp add: global_key_def slug_key_def countRoot_def dayOf_def upd_entry_def split: option.split)+

lemma counts_countRev_upd: "counts (countRev ev k h (upd_entry key f s)) = counts (countRev ev k h s)"
proof -
  have "ps_dayGlobal (upd_entry key f s) = ps_dayGlobal s" "ps_daySlug (upd_entry key f s) = ps_daySlug s"
    by (simp_all add: upd_entry_def split: option.split)
  then show ?thesis by (simp add: counts_countRev key_upd)
qed

lemma counts_freeze: "war_freeze ev key h en s = Some s' \<Longrightarrow> counts s' = counts s"
  by (auto simp: war_freeze_def Let_def split: if_splits option.splits)

lemma counts_dispatch:
  "rev_dispatch ev key h en s = Some s' \<Longrightarrow> counts s' = counts s \<or> counts s' = counts (countRev ev (en_key en) h s)"
  by (auto simp: rev_dispatch_def rev_create_def rev_edit_def rev_revert_def rev_redirect_def Let_def
      counts_countRev_upd dest!: counts_freeze split: if_splits option.splits)

lemma limited_incr: "count_at m k + 1 \<le> n \<Longrightarrow> limited n m (incr k m)"
  by (auto simp: limited_def incr_def count_at_def)

lemma gates_limits:
  assumes "checkRevGates ev en h s = ''''"
  shows "limited (pint s ''rateGlobalDaily'' 20) (ps_dayGlobal s) (fst (counts (countRev ev (en_key en) h s)))"
    and "limited (pint s ''ratePerSlugDaily'' 10) (ps_daySlug s) (snd (counts (countRev ev (en_key en) h s)))"
  using assms by (auto simp: counts_countRev checkRevGates_def intro!: limited_incr split: if_splits)

lemma handle_limits:
  assumes "handle ev s = Some s'"
  shows "limited (pint s ''rateGlobalDaily'' 20) (ps_dayGlobal s) (ps_dayGlobal s')
     \<and> limited (pint s ''ratePerSlugDaily'' 10) (ps_daySlug s) (ps_daySlug s')"
proof (cases "pe_path ev = PediaRev \<and> counts s' \<noteq> counts s")
  case True
  let ?t = "entryOf (rev_key ev) s"
  have t: "ps_dayGlobal ?t = ps_dayGlobal s" "ps_daySlug ?t = ps_daySlug s"
    using counts_simps(5) [of "rev_key ev" s] by (simp_all add: counts_def)
  have p: "pint ?t k d = pint s k d" for k d by (rule pint_cong) (simp add: entryOf_def)
  from assms True have "applyRev ev (pe_height ev) s = Some s'"
    by (auto simp: handle_def Let_def PediaRev_def PediaConstitution_def PediaEditor_def PediaReview_def
        PediaChallenge_def PediaRuling_def PediaParamProposal_def split: if_splits)
  with True obtain en where gate: "checkRevGates ev en (pe_height ev) ?t = ''''"
    and c: "counts s' = counts (countRev ev (en_key en) (pe_height ev) ?t)"
    by (auto simp: applyRev_def Let_def dest!: counts_dispatch split: option.splits if_splits)
  from gates_limits [OF gate] c show ?thesis by (simp add: counts_def t p)
next
  case False
  then have "counts s' = counts s"
    using assms by (auto simp: handle_def Let_def counts_editor counts_others
        dest: counts_constitution counts_ruling split: if_splits)
  then show ?thesis by (simp add: counts_def)
qed

lemma counts_close: "counts (closeExpired iter h s) = counts s"
proof -
  have "counts (s\<lparr>ps_proposals := m\<rparr>) = counts s" for s m by (simp add: counts_def)
  then have "counts (close_one h s p) = counts s" for s p
    by (simp add: close_one_def Let_def split: option.split)
  then show ?thesis unfolding closeExpired_def by (induction iter arbitrary: s) simp_all
qed

text \<open>
  C40: No step brings a daily counter above its limit: the counters of accepted revisions, for a sender's
  root and for a sender's root on an entry, stay within what they were or the limit in force.
\<close>

theorem rate_limits:
  assumes "pedia_step s ev s'"
  shows "limited (pint s ''rateGlobalDaily'' 20) (ps_dayGlobal s) (ps_dayGlobal s')
     \<and> limited (pint s ''ratePerSlugDaily'' 10) (ps_daySlug s) (ps_daySlug s')"
proof -
  obtain iter where "handle ev (closeExpired iter (pe_height ev) s) = Some s'"
    using assms by (auto simp: applyEvent_def elim: pedia_stepE)
  from handle_limits [OF this] show ?thesis
    using counts_close [of iter "pe_height ev" s] pint_cong [OF params_close] by (simp add: counts_def)
qed

section \<open>Parameter votes\<close>

lemma param_need_21: "pint s ''arbiterPoolK'' 21 = 21 \<Longrightarrow> param_need s = 15"
  by (simp add: param_need_def go_div_def wrap64_id int64_range_def min_int64_def max_int64_def)

section \<open>A stream with two outcomes\<close>

definition mk_event :: "string \<Rightarrow> string \<Rightarrow> int \<Rightarrow> string \<Rightarrow> payload \<Rightarrow> pedia_event" where
  "mk_event pid path h sender b = \<lparr>pe_pin = pid, pe_path = path, pe_height = h, pe_tx = 0, pe_sender = sender,
     pe_payload = b, pe_timestamp = 0, pe_address = '''', pe_chain = ''''\<rparr>"

definition demo_options :: pedia_options where
  "demo_options = \<lparr>po_bph = 6, po_bpd = 144, po_arbiters = [], po_frozenArbiters = [], po_rep = [], po_clusters = []\<rparr>"

text \<open>
  An entry is challenged and a case opened on it; a revert freezes it and a second case is opened.
  Both cases are still open when the next event comes, a week later.
\<close>

definition demo_stream :: "pedia_event list" where
  "demo_stream =
     [mk_event ''g'' PediaConstitution 1 ''A'' [(''revision'', ANum 0), (''founders'', AArr [AStr ''A'', AStr ''B'']),
        (''params'', AObj [(''revertWarThreshold'', ANum 1), (''arbiterDrawN'', ANum 0), (''rulingQuorum'', ANum 1)])],
      mk_event ''r1'' PediaRev 2 ''A'' [(''lang'', AStr ''en''), (''slug'', AStr ''x''), (''type'', AStr ''create''), (''contentHash'', AStr ''1'')],
      mk_event ''c1'' PediaChallenge 3 ''B'' [(''targetRev'', AStr ''r1'')],
      mk_event ''q1'' PediaRuling 4 ''B'' [(''action'', AStr ''proposal''), (''challengePin'', AStr ''c1''), (''seed'', AStr ''c1''),
        (''outcome'', AStr ''dismiss'')],
      mk_event ''r2'' PediaRev 5 ''A'' [(''lang'', AStr ''en''), (''slug'', AStr ''x''), (''type'', AStr ''revert''), (''revertTo'', AStr ''r1''),
        (''contentHash'', AStr ''1'')],
      mk_event ''q2'' PediaRuling 6 ''B'' [(''action'', AStr ''proposal''), (''challengePin'', AStr ''c1''), (''seed'', AStr ''c1''),
        (''baselineRev'', AStr ''r1''), (''outcome'', AStr ''unfreeze'')]]"

lemma draw_none [simp]: "ArbiterDraw seed cs 0 = Some []"
  by (simp add: ArbiterDraw_def cap_ok_def)

lemma draw_code [code]: "ArbiterDraw seed cs n =
  (if n = 0 then Some [] else if cap_ok n
   then Some (take (nat n) (map snd (slice_stable draw_less (map (\<lambda>c. (draw_key seed c, c)) cs)))) else None)"
  by (simp add: ArbiterDraw_def cap_ok_def)

definition demo_late :: pedia_event where
  "demo_late = mk_event ''z'' PediaReview 1000 ''B'' []"

definition demo_head :: "string list \<Rightarrow> pedia \<Rightarrow> string option" where
  "demo_head iter s = (case applyEvent iter demo_late s of
      None \<Rightarrow> None
    | Some s' \<Rightarrow> map_option ew_head
        (mget (vw_entries (view_of (Some 1000) (closeExpired (mkeys (ps_proposals s')) 1001 s'))) ''en:x''))"

lemma demo_heads:
  "map_option (\<lambda>s. (mkeys (ps_proposals s), demo_head [''q1'', ''q2''] s, demo_head [''q2'', ''q1''] s))
     (run_events demo_stream (pedia_start demo_stream demo_options))
     = Some ([''q1'', ''q2''], Some ''r2::eq'', Some ''r1'')"
  by code_simp

lemma demo_order: "chain_order (demo_stream @ [demo_late]) = demo_stream @ [demo_late]"
  "map pe_pin (filter (\<lambda>e. pe_height e < 0) (demo_stream @ [demo_late])) = []"
  by code_simp+

lemma run_events_run: "run_events es s = Some s' \<Longrightarrow> pedia_run s es s'"
proof (induction es arbitrary: s' rule: rev_induct)
  case Nil
  then show ?case by (simp add: run_nil)
next
  case (snoc e es)
  have app: "run_events (es @ [e]) t = (case run_events es t of None \<Rightarrow> None | Some t' \<Rightarrow> run_events [e] t')" for t
    by (induction es arbitrary: t) (auto split: option.splits)
  from snoc.prems obtain s1 where s1: "run_events es s = Some s1" "applyEvent (mkeys (ps_proposals s1)) e s1 = Some s'"
    by (auto simp: app split: option.splits)
  from snoc.IH [OF s1(1)] show ?case
    by (rule run_snoc) (use s1(2) in \<open>auto intro: pedia_step.intros\<close>)
qed

text \<open>
  C39: The same event stream has two replays whose views show different heads of an entry: when a case
  opened before a freeze and one opened after it expire at once, the result depends on the iteration
  order of a Go map.
\<close>

theorem expiry_order_matters:
  "\<exists>v w a b. pedia_replay (demo_stream @ [demo_late]) demo_options v \<and> pedia_replay (demo_stream @ [demo_late]) demo_options w
     \<and> mget (vw_entries v) ''en:x'' = Some a \<and> mget (vw_entries w) ''en:x'' = Some b \<and> ew_head a \<noteq> ew_head b"
proof -
  let ?es = "demo_stream @ [demo_late]"
  have start: "pedia_start ?es demo_options = pedia_start demo_stream demo_options"
    using demo_order(2) by (simp add: pedia_start_def)
  obtain s where s: "run_events demo_stream (pedia_start demo_stream demo_options) = Some s"
    and keys: "mkeys (ps_proposals s) = [''q1'', ''q2'']"
    and heads: "demo_head [''q1'', ''q2''] s = Some ''r2::eq''" "demo_head [''q2'', ''q1''] s = Some ''r1''"
    using demo_heads by auto
  have view: "\<exists>v a. pedia_replay ?es demo_options v \<and> mget (vw_entries v) ''en:x'' = Some a \<and> ew_head a = r"
    if iter: "mset iter = mset [''q1'', ''q2'']" and h: "demo_head iter s = Some r" for iter r
  proof -
    from h obtain s' where s': "applyEvent iter demo_late s = Some s'"
      "map_option ew_head (mget (vw_entries (view_of (Some 1000) (closeExpired (mkeys (ps_proposals s')) 1001 s'))) ''en:x'') = Some r"
      by (auto simp: demo_head_def split: option.splits)
    from run_events_run [OF s] have "pedia_run (pedia_start ?es demo_options) ?es s'"
      unfolding start by (rule run_snoc) (use s'(1) iter keys in \<open>auto intro: pedia_step.intros\<close>)
    then have "pedia_replay ?es demo_options
        (view_of (last_height (chain_order ?es)) (closeExpired (mkeys (ps_proposals s')) (final_height (chain_order ?es)) s'))"
      by (intro pedia_replay.intros) (simp_all add: demo_order(1))
    moreover have "last_height (chain_order ?es) = Some 1000" "final_height (chain_order ?es) = 1001"
      unfolding demo_order(1)
      by (simp_all add: last_height_def final_height_def demo_late_def mk_event_def wrap64_id int64_range_def
          min_int64_def max_int64_def)
    ultimately show ?thesis using s'(2) by auto
  qed
  obtain v a where v: "pedia_replay ?es demo_options v" "mget (vw_entries v) ''en:x'' = Some a" "ew_head a = ''r2::eq''"
    using view [OF _ heads(1)] by auto
  moreover obtain w b where "pedia_replay ?es demo_options w" "mget (vw_entries w) ''en:x'' = Some b" "ew_head b = ''r1''"
    using view [OF _ heads(2)] by (auto simp: add_mset_commute)
  ultimately show ?thesis by (intro exI [of _ v] exI [of _ w] exI [of _ a] exI [of _ b]) simp
qed

lemma param_quorum_21:
  assumes "pint s ''arbiterPoolK'' 21 = 21" "mget (ps_paramProposals (applyParamProposal ev h s)) pid = Some p'"
    and "pp_effective p'" "\<forall>p. mget (ps_paramProposals s) pid = Some p \<longrightarrow> \<not> pp_effective p"
  shows "15 \<le> length (pp_approves p')"
  using assms param_need_21 [OF assms(1)]
  by (auto simp: applyParamProposal_def Let_def bury_def split: if_splits option.splits)

text \<open>
  The step does not depend on the order in which expired proposals are visited, when those that
  expire together on one frozen entry name the same baseline revision.
\<close>

theorem expiry_order_irrelevant:
  assumes "agree (pe_height ev) s" "mset iter = mset iter'"
  shows "applyEvent iter ev s = applyEvent iter' ev s"
  using close_order [OF assms] by (simp add: applyEvent_def)

section \<open>Witnesses\<close>

text \<open>The state of the sample stream before its last event, and the stream cut after five events.\<close>

definition demo_cut :: "pedia option" where
  "demo_cut = run_events (take 5 demo_stream) (pedia_start demo_stream demo_options)"

lemma demo_cut_facts:
  "map_option (\<lambda>s. (map en_status (ps_store s), mget (ps_entries s) ''en:x'', pint s ''arbiterDrawN'' 7, map fst (ps_proposals s)))
     demo_cut = Some ([Frozen], Some 0, 0, [''q1''])"
  by code_simp

theorem pedia_no_panic_witness:
  "\<exists>s s'. run_events (take 5 demo_stream) (pedia_start demo_stream demo_options) = Some s
     \<and> applyEvent [''q1''] demo_late s = Some s' \<and> pedia_wf s"
proof -
  obtain s where s: "run_events (take 5 demo_stream) (pedia_start demo_stream demo_options) = Some s"
    and n: "pint s ''arbiterDrawN'' 7 = 0"
    using demo_cut_facts by (auto simp: demo_cut_def)
  from pedia_no_panic [OF run_events_run [OF s], of "[''q1'']" demo_late] s show ?thesis
    by (auto simp: n cap_ok_def)
qed

theorem proposals_decided_witness:
  "\<exists>s s' p p'. run_events demo_stream (pedia_start demo_stream demo_options) = Some s
     \<and> applyEvent [''q1'', ''q2''] demo_late s = Some s' \<and> mget (ps_proposals s) ''q1'' = Some p \<and> pr_state p = Open
     \<and> mget (ps_proposals s') ''q1'' = Some p' \<and> pr_state p' \<noteq> Open"
proof -
  have "map_option (\<lambda>s. (mkeys (ps_proposals s), map_option (\<lambda>p. (pr_state p, pr_expiryH p)) (mget (ps_proposals s) ''q1''),
      applyEvent [''q1'', ''q2''] demo_late s \<noteq> None)) (run_events demo_stream (pedia_start demo_stream demo_options))
      = Some ([''q1'', ''q2''], Some (Open, 292), True)"
    by code_simp
  then obtain s p s' where s: "run_events demo_stream (pedia_start demo_stream demo_options) = Some s"
    and keys: "mkeys (ps_proposals s) = [''q1'', ''q2'']" and p: "mget (ps_proposals s) ''q1'' = Some p" "pr_state p = Open"
      "pr_expiryH p = 292" and s': "applyEvent [''q1'', ''q2''] demo_late s = Some s'"
    by auto
  have "pedia_step s demo_late s'" using s' keys by (auto intro: pedia_step.intros)
  with run_nil have "pedia_run s ([] @ [demo_late]) s'" by (rule run_snoc)
  from proposals_decided [OF run_events_run [OF s] p(1) this] p s s' show ?thesis
    by (auto simp: demo_late_def mk_event_def)
qed

lemma run_step:
  assumes "run_events es s = Some t" "applyEvent (mkeys (ps_proposals t)) e t = Some t'"
  shows "pedia_run s es t \<and> pedia_step t e t'"
  using assms by (auto intro: run_events_run pedia_step.intros)

definition demo_vote :: pedia_event where
  "demo_vote = mk_event ''w1'' PediaRuling 7 ''B'' [(''action'', AStr ''vote''), (''proposalPin'', AStr ''q1''), (''approve'', ABool True)]"

definition demo_bench :: pedia_options where
  "demo_bench = demo_options\<lparr>po_arbiters := [(''q1'', [''B'', ''C''])]\<rparr>"

theorem effective_by_quorum_witness:
  "\<exists>s s' p p'. run_events (take 4 demo_stream) (pedia_start demo_stream demo_bench) = Some s
     \<and> applyEvent [''q1''] demo_vote s = Some s' \<and> mget (ps_proposals s) ''q1'' = Some p \<and> pr_state p = Open
     \<and> mget (ps_proposals s') ''q1'' = Some p' \<and> pr_state p' = Effective \<and> 1 \<le> card (set (pr_approves p'))"
proof -
  have "map_option (\<lambda>s. (mkeys (ps_proposals s), map_option pr_state (mget (ps_proposals s) ''q1''), pint s ''rulingQuorum'' 5,
      map_option (\<lambda>s'. map_option pr_state (mget (ps_proposals s') ''q1'')) (applyEvent [''q1''] demo_vote s)))
      (run_events (take 4 demo_stream) (pedia_start demo_stream demo_bench))
      = Some ([''q1''], Some Open, 1, Some (Some Effective))"
    by code_simp
  then obtain s p s' p' where s: "run_events (take 4 demo_stream) (pedia_start demo_stream demo_bench) = Some s"
    and keys: "mkeys (ps_proposals s) = [''q1'']" and p: "mget (ps_proposals s) ''q1'' = Some p" "pr_state p = Open"
    and s': "applyEvent [''q1''] demo_vote s = Some s'" and p': "mget (ps_proposals s') ''q1'' = Some p'" "pr_state p' = Effective"
    and q: "pint s ''rulingQuorum'' 5 = 1"
    by auto
  from run_step [OF s, of demo_vote s'] keys s' have run: "pedia_run (pedia_start demo_stream demo_bench) (take 4 demo_stream) s"
    "pedia_step s demo_vote s'" by simp_all
  from effective_by_quorum [OF run p'] p s s' p' q show ?thesis by auto
qed

definition demo_second :: pedia_event where
  "demo_second = mk_event ''q3'' PediaRuling 5 ''B'' [(''action'', AStr ''proposal''), (''challengePin'', AStr ''c1''),
     (''seed'', AStr ''c1''), (''outcome'', AStr ''dismiss'')]"

theorem expiry_order_irrelevant_witness:
  "\<exists>s. run_events (take 4 demo_stream @ [demo_second]) (pedia_start demo_stream demo_options) = Some s
     \<and> mkeys (ps_proposals s) = [''q1'', ''q3'']
     \<and> applyEvent [''q1'', ''q3''] demo_late s = applyEvent [''q3'', ''q1''] demo_late s"
proof -
  have "map_option (\<lambda>s. (mkeys (ps_proposals s), map en_status (ps_store s), map snd (ps_entries s)))
      (run_events (take 4 demo_stream @ [demo_second]) (pedia_start demo_stream demo_options))
      = Some ([''q1'', ''q3''], [Normal], [0])"
    by code_simp
  then obtain s where s: "run_events (take 4 demo_stream @ [demo_second]) (pedia_start demo_stream demo_options) = Some s"
    and keys: "mkeys (ps_proposals s) = [''q1'', ''q3'']" and st: "map en_status (ps_store s) = [Normal]" "map snd (ps_entries s) = [0]"
    by auto
  have "i = 0" if "mget (ps_entries s) k = Some i" for k i
    using st(2) map_of_SomeD [OF that] by auto
  moreover have "en_status (ps_store s ! 0) = Normal" using st(1) by auto
  ultimately have "agree h s" for h unfolding agree_def by (metis entry_status.distinct(1))
  from expiry_order_irrelevant [OF this, of "[''q1'', ''q3'']" "[''q3'', ''q1'']"] s keys show ?thesis
    by (auto simp: add_mset_commute)
qed

theorem frozen_writes_witness:
  "\<exists>s s' pid p. run_events demo_stream (pedia_start demo_stream demo_options) = Some s
     \<and> applyEvent [''q2'', ''q1''] demo_late s = Some s' \<and> en_status (ps_store s ! 0) = Frozen
     \<and> content (ps_store s' ! 0) \<noteq> content (ps_store s ! 0)
     \<and> expiring 1000 s pid p \<and> mget (ps_entries s) (pr_entryKey p) = Some 0"
proof -
  have "map_option (\<lambda>s. (mkeys (ps_proposals s), map (\<lambda>en. (en_status en, en_head en)) (ps_store s),
      map_option (\<lambda>s'. map en_head (ps_store s')) (applyEvent [''q2'', ''q1''] demo_late s)))
      (run_events demo_stream (pedia_start demo_stream demo_options))
      = Some ([''q1'', ''q2''], [(Frozen, ''r2::eq'')], Some [''r1''])"
    by code_simp
  then obtain s s' en en' where s: "run_events demo_stream (pedia_start demo_stream demo_options) = Some s"
    and keys: "mkeys (ps_proposals s) = [''q1'', ''q2'']" and st: "ps_store s = [en]" "en_status en = Frozen" "en_head en = ''r2::eq''"
    and s': "applyEvent [''q2'', ''q1''] demo_late s = Some s'" "ps_store s' = [en']" "en_head en' = ''r1''"
    by auto
  have step: "pedia_step s demo_late s'" using s'(1) keys by (intro pedia_step.intros [of "[''q2'', ''q1'']"]) (simp_all add: add_mset_commute)
  have "content en' \<noteq> content en" using st(3) s'(3) by (simp add: content_def)
  with frozen_writes [OF run_events_run [OF s] step, of 0] st s'
  have "\<exists>pid p. expiring 1000 s pid p \<and> mget (ps_entries s) (pr_entryKey p) = Some 0"
    by (simp add: demo_late_def mk_event_def PediaReview_def PediaRev_def PediaRuling_def)
  then show ?thesis using s s' st \<open>content en' \<noteq> content en\<close> by auto
qed

theorem rate_limits_witness:
  "\<exists>s s'. run_events (take 1 demo_stream) (pedia_start demo_stream demo_options) = Some s
     \<and> applyEvent [] (demo_stream ! 1) s = Some s' \<and> count_at (ps_dayGlobal s') ''A|0'' = 1
     \<and> limited 20 (ps_dayGlobal s) (ps_dayGlobal s')"
proof -
  have "map_option (\<lambda>s. (mkeys (ps_proposals s), pint s ''rateGlobalDaily'' 20,
      map_option (\<lambda>s'. count_at (ps_dayGlobal s') ''A|0'') (applyEvent [] (demo_stream ! 1) s)))
      (run_events (take 1 demo_stream) (pedia_start demo_stream demo_options)) = Some ([], 20, Some 1)"
    by code_simp
  then obtain s s' where s: "run_events (take 1 demo_stream) (pedia_start demo_stream demo_options) = Some s"
    "mkeys (ps_proposals s) = []" "pint s ''rateGlobalDaily'' 20 = 20" "applyEvent [] (demo_stream ! 1) s = Some s'"
    "count_at (ps_dayGlobal s') ''A|0'' = 1" by auto
  have "pedia_step s (demo_stream ! 1) s'" using s(2,4) by (auto intro: pedia_step.intros)
  from rate_limits [OF this] s show ?thesis by auto
qed

end
