(* ===== verification/PediaSyncProps.thy ===== *)
theory PediaSyncProps
  imports PediaSync PediaProps
begin

text \<open>
  The sync of the L2 aggregator: what a sweep may change, that no pin enters the stream twice, that a
  sweep without errors finds everything new, that an error in the middle of a sweep loses pins for
  good, and that the order of arrival does not reach the view.
\<close>

section \<open>What a sweep changes\<close>

text \<open>
  From state \<open>l\<close> to \<open>l'\<close> the stream has grown at its end by confirmed pins that were not known, each
  once and now known.
\<close>

definition event_ok :: "pedia_event \<Rightarrow> bool" where
  "event_ok ev \<longleftrightarrow> 0 \<le> pe_height ev \<and> pe_payload ev \<noteq> [] \<and> pe_path ev \<in> set syncPaths"

definition grows :: "l2 \<Rightarrow> l2 \<Rightarrow> bool" where
  "grows l l' \<longleftrightarrow> (\<exists>new. l2_events l' = l2_events l @ new \<and> list_all event_ok new \<and> distinct (map pe_pin new)
     \<and> set (map pe_pin new) \<inter> set (l2_seen l) = {} \<and> set (map pe_pin new) \<subseteq> set (l2_seen l'))
     \<and> set (l2_seen l) \<subseteq> set (l2_seen l')"

lemma grows_refl [simp, intro]: "grows l l"
  by (auto simp: grows_def)

lemma grows_trans [trans]:
  assumes "grows l m" "grows m n" shows "grows l n"
proof -
  from assms obtain a b where a: "l2_events m = l2_events l @ a" "list_all event_ok a" "distinct (map pe_pin a)"
      "set (map pe_pin a) \<inter> set (l2_seen l) = {}" "set (map pe_pin a) \<subseteq> set (l2_seen m)"
    and b: "l2_events n = l2_events m @ b" "list_all event_ok b" "distinct (map pe_pin b)"
      "set (map pe_pin b) \<inter> set (l2_seen m) = {}" "set (map pe_pin b) \<subseteq> set (l2_seen n)"
    and s: "set (l2_seen l) \<subseteq> set (l2_seen m)" "set (l2_seen m) \<subseteq> set (l2_seen n)"
    unfolding grows_def by blast
  have "l2_events n = l2_events l @ (a @ b)" using a(1) b(1) by simp
  moreover have "distinct (map pe_pin (a @ b))"
    using a(3,5) b(3,4) unfolding map_append distinct_append by blast
  moreover have "set (map pe_pin (a @ b)) \<inter> set (l2_seen l) = {}" "set (map pe_pin (a @ b)) \<subseteq> set (l2_seen n)"
    using a(4,5) b(4,5) s unfolding map_append set_append by blast+
  moreover have "list_all event_ok (a @ b)" using a(2) b(2) by simp
  ultimately show ?thesis
    unfolding grows_def using s by blast
qed

text \<open>Fields a sweep sets that the stream does not depend on.\<close>

lemma grows_cong:
  "l2_events m = l2_events m' \<Longrightarrow> l2_seen m = l2_seen m' \<Longrightarrow> grows l m = grows l m'"
  "l2_events l = l2_events l' \<Longrightarrow> l2_seen l = l2_seen l' \<Longrightarrow> grows l m = grows l' m"
  by (simp_all add: grows_def)

lemma grows_take:
  assumes "path \<in> set syncPaths" shows "grows (sw_l2 sw) (sw_l2 (take_pin sv path sw p))"
proof -
  have "grows l (l\<lparr>l2_seen := i # l2_seen l\<rparr>)" for l i
    by (auto simp: grows_def)
  moreover have "grows l (l\<lparr>l2_seen := pe_pin ev # l2_seen l, l2_events := l2_events l @ [ev]\<rparr>)"
    if "event_ok ev" "pe_pin ev \<notin> set (l2_seen l)" for l ev
    unfolding grows_def using that by (intro conjI exI [of _ "[ev]"]) auto
  from this [of "pin_event path p pl" "sw_l2 sw" for pl]
  have "grows (sw_l2 sw) ((sw_l2 sw)\<lparr>l2_seen := mn_id p # l2_seen (sw_l2 sw), l2_events := l2_events (sw_l2 sw) @ [pin_event path p pl]\<rparr>)"
    if "0 \<le> mn_height p" "pl \<noteq> []" "mn_id p \<notin> set (l2_seen (sw_l2 sw))" for pl
    using that assms by (simp add: event_ok_def pin_event_def)
  ultimately show ?thesis
    by (simp add: take_pin_def Let_def)
qed

lemma grows_page:
  "path \<in> set syncPaths \<Longrightarrow> grows (sw_l2 sw) (sw_l2 (foldl (take_pin sv path) sw ps))"
proof (induction ps arbitrary: sw)
  case (Cons p ps)
  from grows_take [OF Cons.prems] Cons.IH [OF Cons.prems] show ?case
    by (metis foldl_Cons grows_trans)
qed simp

lemma cursor_fields [simp]:
  "l2_events (sw_l2 (set_cursor path c sw)) = l2_events (sw_l2 sw)" "l2_seen (sw_l2 (set_cursor path c sw)) = l2_seen (sw_l2 sw)"
  "l2_view (sw_l2 (set_cursor path c sw)) = l2_view (sw_l2 sw)"
  "sw_applied (set_cursor path c sw) = sw_applied sw" "sw_skipped (set_cursor path c sw) = sw_skipped sw"
  "sw_known (set_cursor path c sw) = sw_known sw" "sw_requests (set_cursor path c sw) = sw_requests sw"
  by (simp_all add: set_cursor_def)

lemma grows_cursor [simp]:
  "grows l (sw_l2 (set_cursor path c sw)) = grows l (sw_l2 sw)" "grows (sw_l2 (set_cursor path c sw)) l = grows (sw_l2 sw) l"
  by (rule grows_cong; simp)+

lemma grows_pages:
  assumes "path \<in> set syncPaths"
  shows "grows (sw_l2 sw) (sw_l2 (fst (sync_pages sv path n cursor sw)))"
proof (induction n arbitrary: cursor sw)
  case (Suc n)
  let ?sw = "sw\<lparr>sw_requests := Suc (sw_requests sw)\<rparr>"
  have "grows (sw_l2 sw') (sw_l2 (fst (sync_pages sv path n c (set_cursor path d sw'))))" for sw' c d
    using Suc.IH [of "set_cursor path d sw'" c] by simp
  from grows_trans [OF grows_page [where sw = ?sw and sv = sv, OF assms] this]
  have "grows (sw_l2 sw) (sw_l2 (fst (sync_pages sv path n c (set_cursor path d (foldl (take_pin sv path) ?sw ps)))))" for c d ps
    by simp
  then show ?case
    using grows_page [OF assms, of ?sw sv] by (auto simp: Let_def split: sum.split)
qed simp

lemma grows_paths:
  "set paths \<subseteq> set syncPaths \<Longrightarrow> grows (sw_l2 sw) (sw_l2 (fst (sync_paths sv paths sw)))"
proof (induction paths arbitrary: sw)
  case (Cons path paths)
  have "grows (sw_l2 sw) (sw_l2 (fst (sync_path sv path sw)))"
    using grows_pages [of path "sw\<lparr>sw_known := False\<rparr>" sv 50 "''''"] Cons.prems by (simp add: sync_path_def)
  with Cons.IH Cons.prems show ?case
    by (auto split: prod.split option.split intro: grows_trans)
qed simp


lemma rebuild_fields:
  "rebuild replay l = Some l' \<Longrightarrow> l2_events l' = l2_events l \<and> l2_seen l' = l2_seen l"
  by (auto simp: rebuild_def)

lemma grows_sync: "SyncOnce replay sv now l = Some (l', e) \<Longrightarrow> grows l l'"
  using grows_paths [of syncPaths "start_sweep now l" sv]
  by (auto simp: SyncOnce_def start_sweep_def grows_def dest!: rebuild_fields split: prod.splits option.splits if_splits)

text \<open>The counter of applied pins counts the events a sweep appends.\<close>

definition balance :: "sweep \<Rightarrow> int" where
  "balance sw = int (length (l2_events (sw_l2 sw))) - sw_applied sw"

lemma balance_simps [simp]:
  "balance (set_cursor path c sw) = balance sw" "balance (sw\<lparr>sw_known := b\<rparr>) = balance sw"
  "balance (sw\<lparr>sw_requests := n\<rparr>) = balance sw" "balance (take_pin sv path sw p) = balance sw"
  by (simp_all add: balance_def take_pin_def Let_def)

lemma balance_page [simp]: "balance (foldl (take_pin sv path) sw ps) = balance sw"
  by (induction ps arbitrary: sw) simp_all

lemma balance_pages [simp]: "balance (fst (sync_pages sv path n c sw)) = balance sw"
  by (induction n arbitrary: c sw) (simp_all add: Let_def split: sum.split)

lemma balance_paths: "balance (fst (sync_paths sv paths sw)) = balance sw"
proof (induction paths arbitrary: sw)
  case (Cons path paths)
  have "balance (fst (sync_path sv path sw)) = balance sw" by (simp add: sync_path_def)
  with Cons.IH show ?case by (auto split: prod.split option.split)
qed simp

lemma applied_sync:
  "SyncOnce replay sv now l = Some (l', e) \<Longrightarrow> l2_applied l' = int (length (l2_events l')) - int (length (l2_events l))"
  using balance_paths [of sv syncPaths "start_sweep now l"]
  by (auto simp: SyncOnce_def start_sweep_def balance_def dest!: rebuild_fields split: prod.splits option.splits if_splits)

section \<open>Each pin once\<close>

text \<open>The states the sync loop reaches, whatever the service answers.\<close>

inductive l2_reach :: "replay_fn \<Rightarrow> l2 \<Rightarrow> bool" for replay where
  reach_new: "l2_reach replay NewL2"
| reach_sync: "l2_reach replay l \<Longrightarrow> SyncOnce replay sv now l = Some (l', e) \<Longrightarrow> l2_reach replay l'"

definition stream_ok :: "l2 \<Rightarrow> bool" where
  "stream_ok l \<longleftrightarrow> distinct (map pe_pin (l2_events l)) \<and> set (map pe_pin (l2_events l)) \<subseteq> set (l2_seen l)
     \<and> list_all event_ok (l2_events l)"

lemma stream_grows:
  assumes "grows l l'" "stream_ok l" shows "stream_ok l'"
  using assms unfolding stream_ok_def grows_def by (auto, blast+)

lemma reach_ok: "l2_reach replay l \<Longrightarrow> stream_ok l"
proof (induction rule: l2_reach.induct)
  case reach_new
  show ?case by (simp add: stream_ok_def NewL2_def)
next
  case (reach_sync l sv now l' e)
  then show ?case by (blast intro: stream_grows grows_sync)
qed

text \<open>
  C22: A sweep only appends to the stream, also when it ends in an error. Whatever the page service
  answers, every event of the stream is a confirmed pin of one of the seven paths with a payload, no
  pin enters twice, and the applied count is the number of events the sweep added.
\<close>

theorem sync_appends:
  assumes "l2_reach replay l" "SyncOnce replay sv now l = Some (l', e)"
  shows "\<exists>new. l2_events l' = l2_events l @ new \<and> l2_applied l' = int (length new)
     \<and> set (map pe_pin new) \<inter> set (l2_seen l) = {}
     \<and> distinct (map pe_pin (l2_events l')) \<and> set (map pe_pin (l2_events l')) \<subseteq> set (l2_seen l')
     \<and> (\<forall>ev \<in> set (l2_events l'). 0 \<le> pe_height ev \<and> pe_payload ev \<noteq> [] \<and> pe_path ev \<in> set syncPaths)"
proof -
  from grows_sync [OF assms(2)] obtain new where
    new: "l2_events l' = l2_events l @ new" "set (map pe_pin new) \<inter> set (l2_seen l) = {}"
    unfolding grows_def by blast
  have "stream_ok l'" by (rule reach_ok [OF reach_sync [OF assms]])
  then show ?thesis
    using new applied_sync [OF assms(2)]
    by (intro exI [of _ new]) (auto simp: stream_ok_def list_all_iff event_ok_def)
qed

text \<open>A pin a sweep has seen and not taken, for instance because its body could not be read, never enters.\<close>

lemma grows_lost: "grows l l' \<Longrightarrow> pin \<in> set (l2_seen l) \<Longrightarrow> pin \<notin> pe_pin ` set (l2_events l) \<Longrightarrow> pin \<notin> pe_pin ` set (l2_events l')"
  by (auto simp: grows_def disjoint_iff)

lemma rounds_grow: "sync_rounds replay rs l = Some l' \<Longrightarrow> grows l l'"
proof (induction rs arbitrary: l)
  case (Cons r rs)
  then obtain m e where "SyncOnce replay (fst r) (snd r) l = Some (m, e)" "sync_rounds replay rs m = Some l'"
    by (cases r) (auto split: option.splits)
  with Cons.IH show ?case by (blast intro: grows_trans grows_sync)
qed simp


lemma skipped_forever:
  "sync_rounds replay rs l = Some l' \<Longrightarrow> pin \<in> set (l2_seen l) \<Longrightarrow> pin \<notin> pe_pin ` set (l2_events l) \<Longrightarrow>
     pin \<notin> pe_pin ` set (l2_events l')"
  by (rule grows_lost [OF rounds_grow])

section \<open>A sweep without errors is complete\<close>

text \<open>The service answers the pages of a path in a chain of cursors, the last page without a next one.\<close>

fun serves :: "service \<Rightarrow> string \<Rightarrow> string \<Rightarrow> manapi_page list \<Rightarrow> bool" where
  "serves sv path c [] \<longleftrightarrow> False"
| "serves sv path c [p] \<longleftrightarrow> (\<forall>n. sv_page sv n path c = Inr p) \<and> mg_code p = 1 \<and> mg_next p = ''''"
| "serves sv path c (p # q # ps) \<longleftrightarrow> (\<forall>n. sv_page sv n path c = Inr p) \<and> mg_code p = 1 \<and> mg_list p \<noteq> [] \<and> mg_next p \<noteq> ''''
     \<and> serves sv path (mg_next p) (q # ps)"

definition page_pins :: "manapi_page list \<Rightarrow> manapi_pin list" where
  "page_pins ps = concat (map mg_list ps)"

definition all_seen :: "string set \<Rightarrow> manapi_pin list \<Rightarrow> bool" where
  "all_seen seen ps \<longleftrightarrow> (\<forall>p \<in> set ps. 0 \<le> mn_height p \<longrightarrow> mn_id p \<in> seen)"

text \<open>Newest first: behind a page with a known pin there is nothing confirmed that is not known.\<close>

fun caught_up :: "string set \<Rightarrow> manapi_page list \<Rightarrow> bool" where
  "caught_up seen [] \<longleftrightarrow> True"
| "caught_up seen (p # ps) \<longleftrightarrow>
     ((\<exists>x \<in> set (mg_list p). mn_id x \<in> seen) \<longrightarrow> all_seen seen (page_pins ps)) \<and> caught_up seen ps"

lemma page_pins_simps [simp]: "page_pins [] = []" "page_pins (p # ps) = mg_list p @ page_pins ps"
  by (simp_all add: page_pins_def)

lemma caught_up_cong:
  "(\<And>x. x \<in> mn_id ` set (page_pins ps) \<Longrightarrow> x \<in> S \<longleftrightarrow> x \<in> T) \<Longrightarrow> caught_up S ps = caught_up T ps"
  by (induction ps) (auto simp: all_seen_def)

text \<open>What a piece of the sweep did for the pins it went through.\<close>

definition confirmed_ids :: "manapi_pin list \<Rightarrow> string set" where
  "confirmed_ids ps = mn_id ` {p \<in> set ps. 0 \<le> mn_height p}"

definition took :: "string \<Rightarrow> l2 \<Rightarrow> l2 \<Rightarrow> manapi_pin list \<Rightarrow> bool" where
  "took path l l' ps \<longleftrightarrow> set (l2_events l) \<subseteq> set (l2_events l') \<and> set (l2_seen l') = set (l2_seen l) \<union> confirmed_ids ps
     \<and> (\<forall>p \<in> set ps. 0 \<le> mn_height p \<and> mn_id p \<notin> set (l2_seen l) \<and> decodePayload (mn_body p) \<noteq> [] \<longrightarrow>
          pin_event path p (decodePayload (mn_body p)) \<in> set (l2_events l'))"

lemma took_append:
  assumes "took path l m ps" "took path m n qs" "mn_id ` set ps \<inter> mn_id ` set qs = {}"
  shows "took path l n (ps @ qs)"
proof -
  have "mn_id q \<notin> confirmed_ids ps" if "q \<in> set qs" for q
    using assms(3) that unfolding confirmed_ids_def by blast
  then show ?thesis
    using assms(1,2) unfolding took_def by (auto simp: confirmed_ids_def)
qed
lemma took_page:
  "distinct (map mn_id ps) \<Longrightarrow> took path (sw_l2 sw) (sw_l2 (foldl (take_pin sv path) sw ps)) ps
     \<and> (sw_known (foldl (take_pin sv path) sw ps) \<longleftrightarrow> sw_known sw \<or> (\<exists>p \<in> set ps. mn_id p \<in> set (l2_seen (sw_l2 sw))))"
proof (induction ps arbitrary: sw)
  case Nil
  show ?case by (simp add: took_def confirmed_ids_def)
next
  case (Cons p ps)
  let ?sw = "take_pin sv path sw p"
  have one: "took path (sw_l2 sw) (sw_l2 ?sw) [p]"
    "sw_known ?sw \<longleftrightarrow> sw_known sw \<or> mn_id p \<in> set (l2_seen (sw_l2 sw))"
    by (auto simp: took_def confirmed_ids_def take_pin_def Let_def)
  from one(1) have seen: "set (l2_seen (sw_l2 ?sw)) = set (l2_seen (sw_l2 sw)) \<union> confirmed_ids [p]"
    by (simp add: took_def)
  have rest: "took path (sw_l2 ?sw) (sw_l2 (foldl (take_pin sv path) ?sw ps)) ps"
    "sw_known (foldl (take_pin sv path) ?sw ps) \<longleftrightarrow> sw_known ?sw \<or> (\<exists>q \<in> set ps. mn_id q \<in> set (l2_seen (sw_l2 ?sw)))"
    using Cons.IH [of ?sw] Cons.prems by auto
  show ?case
    using took_append [OF one(1) rest(1)] rest(2) one(2) seen Cons.prems by (auto simp: confirmed_ids_def image_iff)
qed

lemma took_cursor [simp]:
  "took path l (sw_l2 (set_cursor p c sw)) ps = took path l (sw_l2 sw) ps"
  "took path (sw_l2 (set_cursor p c sw)) l ps = took path (sw_l2 sw) l ps"
  by (simp_all add: took_def)

lemma took_seen_rest:
  assumes "took path l m ps" "all_seen (set (l2_seen l)) qs" shows "took path l m (ps @ qs)"
  using assms by (auto simp: took_def all_seen_def confirmed_ids_def)

lemma took_pages:
  assumes "serves sv path c ps" "length ps \<le> n" "distinct (map mn_id (page_pins ps))"
    and "caught_up (set (l2_seen (sw_l2 sw))) ps" "\<not> sw_known sw"
  shows "snd (sync_pages sv path n c sw) = None
     \<and> took path (sw_l2 sw) (sw_l2 (fst (sync_pages sv path n c sw))) (page_pins ps)"
  using assms
proof (induction ps arbitrary: n c sw)
  case Nil
  then show ?case by simp
next
  case (Cons p ps)
  then obtain m where n: "n = Suc m" by (cases n) auto
  let ?sw0 = "sw\<lparr>sw_requests := Suc (sw_requests sw)\<rparr>"
  let ?sw1 = "foldl (take_pin sv path) ?sw0 (mg_list p)"
  have f: "fetchPage sv (sw_requests sw) path c = Inr p"
    using Cons.prems(1) by (cases ps) (auto simp: fetchPage_def)
  have d: "distinct (map mn_id (mg_list p))" "distinct (map mn_id (page_pins ps))"
    "mn_id ` set (mg_list p) \<inter> mn_id ` set (page_pins ps) = {}"
    using Cons.prems(3) by auto
  from took_page [OF d(1), of path ?sw0 sv]
  have page: "took path (sw_l2 sw) (sw_l2 ?sw1) (mg_list p)"
    "sw_known ?sw1 \<longleftrightarrow> (\<exists>x \<in> set (mg_list p). mn_id x \<in> set (l2_seen (sw_l2 sw)))"
    using Cons.prems(5) by auto
  show ?case
  proof (cases ps)
    case Nil
    have "took path (sw_l2 sw) (sw_l2 sw) []" by (simp add: took_def confirmed_ids_def)
    with Nil page Cons.prems(1) show ?thesis
      by (auto simp: n f Let_def took_def)
  next
    case (Cons q qs)
    with \<open>serves sv path c (p # ps)\<close> have ne: "mg_list p \<noteq> []" "mg_next p \<noteq> ''''" and s: "serves sv path (mg_next p) ps"
      by auto
    show ?thesis
    proof (cases "sw_known ?sw1")
      case True
      with page(2) Cons.prems(4) have "all_seen (set (l2_seen (sw_l2 sw))) (page_pins ps)" by simp
      from took_seen_rest [OF page(1) this] True show ?thesis
        using ne by (simp add: n f Let_def)
    next
      case False
      let ?sw2 = "set_cursor path (mg_next p) ?sw1"
      have "caught_up (set (l2_seen (sw_l2 ?sw2))) ps"
        using Cons.prems(4) page(1) d(3)
        by (subst caught_up_cong [where T = "set (l2_seen (sw_l2 sw))"]) (auto simp: took_def confirmed_ids_def disjoint_iff)
      with Cons.IH [OF s, of m ?sw2] False Cons.prems(2) d(2) n
      have "snd (sync_pages sv path m (mg_next p) ?sw2) = None"
        "took path (sw_l2 ?sw1) (sw_l2 (fst (sync_pages sv path m (mg_next p) ?sw2))) (page_pins ps)"
        by simp_all
      with took_append [OF page(1) this(2) d(3)] ne False show ?thesis
        by (simp add: n f Let_def)
    qed
  qed
qed

definition feed_pins :: "(string \<Rightarrow> manapi_page list) \<Rightarrow> string list \<Rightarrow> manapi_pin list" where
  "feed_pins feed paths = concat (map (\<lambda>path. page_pins (feed path)) paths)"

lemma feed_pins_simps [simp]:
  "feed_pins feed [] = []" "feed_pins feed (path # paths) = page_pins (feed path) @ feed_pins feed paths"
  by (simp_all add: feed_pins_def)

definition swept :: "(string \<Rightarrow> manapi_page list) \<Rightarrow> string list \<Rightarrow> l2 \<Rightarrow> l2 \<Rightarrow> bool" where
  "swept feed paths l l' \<longleftrightarrow> set (l2_events l) \<subseteq> set (l2_events l')
     \<and> set (l2_seen l') = set (l2_seen l) \<union> confirmed_ids (feed_pins feed paths)
     \<and> (\<forall>path \<in> set paths. \<forall>p \<in> set (page_pins (feed path)).
          0 \<le> mn_height p \<and> mn_id p \<notin> set (l2_seen l) \<and> decodePayload (mn_body p) \<noteq> [] \<longrightarrow>
            pin_event path p (decodePayload (mn_body p)) \<in> set (l2_events l'))"

lemma confirmed_append [simp]: "confirmed_ids (ps @ qs) = confirmed_ids ps \<union> confirmed_ids qs"
  by (auto simp: confirmed_ids_def)

lemma swept_Cons:
  assumes "took path l m (page_pins (feed path))" "swept feed paths m n"
    and "mn_id ` set (page_pins (feed path)) \<inter> mn_id ` set (feed_pins feed paths) = {}"
  shows "swept feed (path # paths) l n"
proof -
  have "mn_id q \<notin> confirmed_ids (page_pins (feed path))" if "r \<in> set paths" "q \<in> set (page_pins (feed r))" for q r
    using assms(3) that unfolding confirmed_ids_def feed_pins_def by auto
  then show ?thesis
    using assms(1,2) unfolding took_def swept_def by (auto simp: subset_iff)
qed

lemma swept_paths:
  assumes "\<forall>path \<in> set paths. serves sv path '''' (feed path) \<and> length (feed path) \<le> 50
      \<and> caught_up (set (l2_seen (sw_l2 sw))) (feed path)"
    and "distinct (map mn_id (feed_pins feed paths))"
  shows "snd (sync_paths sv paths sw) = None \<and> swept feed paths (sw_l2 sw) (sw_l2 (fst (sync_paths sv paths sw)))"
  using assms
proof (induction paths arbitrary: sw)
  case Nil
  show ?case by (simp add: swept_def confirmed_ids_def)
next
  case (Cons path paths)
  obtain sw1 e where sw1: "sync_path sv path sw = (sw1, e)" by (cases "sync_path sv path sw")
  have d: "distinct (map mn_id (page_pins (feed path)))" "distinct (map mn_id (feed_pins feed paths))"
    "mn_id ` set (page_pins (feed path)) \<inter> mn_id ` set (feed_pins feed paths) = {}"
    using Cons.prems(2) by auto
  have t: "e = None" "took path (sw_l2 sw) (sw_l2 sw1) (page_pins (feed path))"
    using took_pages [of sv path "''''" "feed path" 50 "sw\<lparr>sw_known := False\<rparr>"] Cons.prems(1) d(1) sw1
    by (auto simp: sync_path_def)
  have "caught_up (set (l2_seen (sw_l2 sw1))) (feed r)" if "r \<in> set paths" for r
  proof -
    have "caught_up (set (l2_seen (sw_l2 sw1))) (feed r) = caught_up (set (l2_seen (sw_l2 sw))) (feed r)"
      using t(2) d(3) that by (intro caught_up_cong) (auto simp: took_def confirmed_ids_def feed_pins_def disjoint_iff)
    with Cons.prems(1) that show ?thesis by simp
  qed
  with Cons.IH [OF _ d(2), of sw1] Cons.prems(1)
  have "snd (sync_paths sv paths sw1) = None" "swept feed paths (sw_l2 sw1) (sw_l2 (fst (sync_paths sv paths sw1)))"
    by simp_all
  with swept_Cons [where feed = feed, OF t(2) _ d(3)] show ?case by (simp add: sw1 t(1))
qed

text \<open>
  A sweep the service answers without errors finds everything. If every path is served as a chain
  of at most 50 pages, no id occurs twice, and behind a page with a known pin everything confirmed is
  known (as it is for a feed that puts new pins first), then after the sweep every confirmed pin of
  the feed is known, each one that was not and whose listed body can be read is an event of the
  stream, and the condition holds again for the next sweep.
\<close>

theorem sync_complete:
  assumes "SyncOnce replay sv now l = Some (l', e)"
    and "\<forall>path \<in> set syncPaths. serves sv path '''' (feed path) \<and> length (feed path) \<le> 50
      \<and> caught_up (set (l2_seen l)) (feed path)"
    and "distinct (map mn_id (feed_pins feed syncPaths))"
  shows "e = None \<and> (\<forall>path \<in> set syncPaths. caught_up (set (l2_seen l')) (feed path) \<and>
    (\<forall>p \<in> set (page_pins (feed path)). 0 \<le> mn_height p \<longrightarrow> mn_id p \<in> set (l2_seen l')
      \<and> (mn_id p \<notin> set (l2_seen l) \<and> decodePayload (mn_body p) \<noteq> [] \<longrightarrow>
           pin_event path p (decodePayload (mn_body p)) \<in> set (l2_events l'))))"
proof -
  let ?sw = "fst (sync_paths sv syncPaths (start_sweep now l))"
  have w: "snd (sync_paths sv syncPaths (start_sweep now l)) = None" "swept feed syncPaths l (sw_l2 ?sw)"
    using swept_paths [of syncPaths sv feed "start_sweep now l"] assms(2,3) by (auto simp: start_sweep_def swept_def)
  with assms(1) have e: "e = None" "set (l2_events l') = set (l2_events (sw_l2 ?sw))" "set (l2_seen l') = set (l2_seen (sw_l2 ?sw))"
    by (auto simp: SyncOnce_def dest: rebuild_fields split: prod.splits option.splits if_splits)
  with w(2) have s: "swept feed syncPaths l l'" by (simp add: swept_def)
  then have seen: "mn_id p \<in> set (l2_seen l')" if "path \<in> set syncPaths" "p \<in> set (page_pins (feed path))" "0 \<le> mn_height p" for path p
    using that by (auto simp: swept_def confirmed_ids_def feed_pins_def)
  have "caught_up (set (l2_seen l')) ps" if "all_seen (set (l2_seen l')) (page_pins ps)" for ps
    using that by (induction ps) (auto simp: all_seen_def)
  with seen have "caught_up (set (l2_seen l')) (feed path)" if "path \<in> set syncPaths" for path
    using that by (simp add: all_seen_def)
  with e(1) seen s show ?thesis by (simp add: swept_def)
qed

section \<open>A known pin on the first page hides the later pages\<close>

lemma take_pin_seen: "set (l2_seen (sw_l2 sw)) \<subseteq> set (l2_seen (sw_l2 (take_pin sv path sw p)))
    \<and> set (l2_seen (sw_l2 (take_pin sv path sw p))) \<subseteq> insert (mn_id p) (set (l2_seen (sw_l2 sw)))
    \<and> (sw_known sw \<or> mn_id p \<in> set (l2_seen (sw_l2 sw)) \<longrightarrow> sw_known (take_pin sv path sw p))"
  by (auto simp: take_pin_def Let_def)

lemma take_page_seen:
  "set (l2_seen (sw_l2 sw)) \<subseteq> set (l2_seen (sw_l2 (foldl (take_pin sv path) sw ps)))
   \<and> set (l2_seen (sw_l2 (foldl (take_pin sv path) sw ps))) \<subseteq> set (l2_seen (sw_l2 sw)) \<union> mn_id ` set ps
   \<and> (sw_known sw \<or> mn_id ` set ps \<inter> set (l2_seen (sw_l2 sw)) \<noteq> {} \<longrightarrow> sw_known (foldl (take_pin sv path) sw ps))"
proof (induction ps arbitrary: sw)
  case (Cons p ps)
  from take_pin_seen [of sw sv path p] Cons.IH [of "take_pin sv path sw p"] show ?case by (simp; blast)
qed simp

text \<open>Every first page holds pins of \<open>I\<close> and is the last of its path or has a pin of \<open>S\<close>.\<close>

definition first_known :: "service \<Rightarrow> string set \<Rightarrow> string set \<Rightarrow> bool" where
  "first_known sv S I \<longleftrightarrow> (\<forall>path \<in> set syncPaths. \<forall>n. case fetchPage sv n path '''' of
      Inl e \<Rightarrow> True
    | Inr pg \<Rightarrow> mn_id ` set (mg_list pg) \<subseteq> I \<and> (mg_list pg = [] \<or> mg_next pg = '''' \<or> mn_id ` set (mg_list pg) \<inter> S \<noteq> {}))"

lemma sync_path_first:
  assumes "first_known sv S I" "path \<in> set syncPaths" "S \<subseteq> set (l2_seen (sw_l2 sw))"
  shows "set (l2_seen (sw_l2 sw)) \<subseteq> set (l2_seen (sw_l2 (fst (sync_path sv path sw))))
    \<and> set (l2_seen (sw_l2 (fst (sync_path sv path sw)))) \<subseteq> set (l2_seen (sw_l2 sw)) \<union> I"
proof -
  have n: "(50 :: nat) = Suc 49" by simp
  let ?sw = "sw\<lparr>sw_known := False, sw_requests := Suc (sw_requests sw)\<rparr>"
  show ?thesis
  proof (cases "fetchPage sv (sw_requests sw) path ''''")
    case (Inl e)
    then show ?thesis unfolding sync_path_def n sync_pages.simps(2) by simp
  next
    case (Inr pg)
    from assms(1,2) have "case fetchPage sv (sw_requests sw) path '''' of Inl e \<Rightarrow> True
      | Inr pg \<Rightarrow> mn_id ` set (mg_list pg) \<subseteq> I \<and> (mg_list pg = [] \<or> mg_next pg = '''' \<or> mn_id ` set (mg_list pg) \<inter> S \<noteq> {})"
      unfolding first_known_def by blast
    then have pg: "mn_id ` set (mg_list pg) \<subseteq> I"
        "mg_list pg = [] \<or> mg_next pg = '''' \<or> mn_id ` set (mg_list pg) \<inter> S \<noteq> {}"
      by (simp_all only: Inr sum.case)
    have stop: "sw_known (foldl (take_pin sv path) ?sw (mg_list pg)) \<or> mg_next pg = ''''" if "mg_list pg \<noteq> []"
      using that pg(2) assms(3) take_page_seen [of ?sw sv path "mg_list pg"] by auto
    have "fst (sync_path sv path sw) = set_cursor path (mg_next pg) (foldl (take_pin sv path) ?sw (mg_list pg))"
      unfolding sync_path_def n sync_pages.simps(2) using stop by (simp add: Inr Let_def)
    then have "set (l2_seen (sw_l2 (fst (sync_path sv path sw)))) = set (l2_seen (sw_l2 (foldl (take_pin sv path) ?sw (mg_list pg))))" by simp
    with take_page_seen [of ?sw sv path "mg_list pg"] pg(1) show ?thesis by simp blast
  qed
qed

lemma sync_paths_first:
  "first_known sv S I \<Longrightarrow> set paths \<subseteq> set syncPaths \<Longrightarrow> S \<subseteq> set (l2_seen (sw_l2 sw)) \<Longrightarrow>
     set (l2_seen (sw_l2 (fst (sync_paths sv paths sw)))) \<subseteq> set (l2_seen (sw_l2 sw)) \<union> I"
proof (induction paths arbitrary: sw)
  case (Cons path paths)
  obtain sw1 e where sw1: "sync_path sv path sw = (sw1, e)" by fastforce
  from sync_path_first [OF Cons.prems(1) _ Cons.prems(3), of path] Cons.prems(2)
  have s: "set (l2_seen (sw_l2 sw)) \<subseteq> set (l2_seen (sw_l2 sw1))" "set (l2_seen (sw_l2 sw1)) \<subseteq> set (l2_seen (sw_l2 sw)) \<union> I"
    by (simp_all add: sw1)
  show ?case
  proof (cases e)
    case None
    with Cons.IH [OF Cons.prems(1), of sw1] Cons.prems(2,3) s show ?thesis by (simp add: sw1) blast
  next
    case (Some x)
    with s show ?thesis by (simp add: sw1)
  qed
qed simp

lemma sync_once_first:
  assumes "SyncOnce replay sv now l = Some (l', e)" "first_known sv S I" "S \<subseteq> set (l2_seen l)"
  shows "set (l2_seen l') \<subseteq> set (l2_seen l) \<union> I"
proof -
  have "set (l2_seen (sw_l2 (fst (sync_paths sv syncPaths (start_sweep now l))))) \<subseteq> set (l2_seen l) \<union> I"
    using sync_paths_first [OF assms(2), of syncPaths "start_sweep now l"] assms(3) by (simp add: start_sweep_def)
  with assms(1) show ?thesis
    by (auto simp: SyncOnce_def dest!: rebuild_fields split: prod.splits option.splits if_splits)
qed

text \<open>
  C23: Pins left out behind a known pin are never pulled. In any number of sweeps, as long as the first
  page of every path is the only one or holds a pin that is already known, the stream grows only by pins
  of first pages, whatever the later pages hold. This is the state a sweep leaves that fails after
  its first page.
\<close>

theorem sync_gap_stays:
  assumes "sync_rounds replay rounds l = Some l'" "\<forall>(sv, now) \<in> set rounds. first_known sv (set (l2_seen l)) I"
  shows "set (l2_seen l') \<subseteq> set (l2_seen l) \<union> I
    \<and> (\<exists>new. l2_events l' = l2_events l @ new \<and> set (map pe_pin new) \<subseteq> I)"
proof -
  have "grows l0 l' \<and> set (l2_seen l') \<subseteq> set (l2_seen l0) \<union> I"
    if "sync_rounds replay rounds l0 = Some l'" "set (l2_seen l) \<subseteq> set (l2_seen l0)" for l0
    using that assms(2)
  proof (induction rounds arbitrary: l0)
    case (Cons r rounds)
    obtain sv now where r: "r = (sv, now)" by fastforce
    with Cons.prems(1) obtain l1 e where s: "SyncOnce replay sv now l0 = Some (l1, e)" "sync_rounds replay rounds l1 = Some l'"
      by (auto split: option.splits)
    have g: "grows l0 l1" using s(1) by (rule grows_sync)
    then have mono: "set (l2_seen l0) \<subseteq> set (l2_seen l1)" by (simp add: grows_def)
    have "set (l2_seen l1) \<subseteq> set (l2_seen l0) \<union> I"
      using sync_once_first [OF s(1)] Cons.prems(2,3) r by auto
    moreover have "grows l1 l' \<and> set (l2_seen l') \<subseteq> set (l2_seen l1) \<union> I"
      using Cons.prems(2,3) mono by (intro Cons.IH [OF s(2)]) auto
    ultimately show ?case using grows_trans [OF g] by blast
  qed simp
  from this [OF assms(1)] have g: "grows l l'" "set (l2_seen l') \<subseteq> set (l2_seen l) \<union> I" by simp_all
  then show ?thesis unfolding grows_def by blast
qed

section \<open>An error in the middle loses pins\<close>

text \<open>A service with two pages of revisions, the newer one \<open>c\<close> first; the second page is an argument.\<close>

definition demo_pin :: "string \<Rightarrow> int \<Rightarrow> manapi_pin" where
  "demo_pin i h = \<lparr>mn_id = i, mn_height = h, mn_tx = 0, mn_gmid = ''m'', mn_addr = '''', mn_chain = ''mvc'', mn_ts = h,
     mn_body = AStr (''{'' @ [CHR 0x22] @ ''type'' @ [CHR 0x22] @ '':1}'')\<rparr>"

definition demo_page :: "manapi_pin list \<Rightarrow> string \<Rightarrow> manapi_page" where
  "demo_page ps next = \<lparr>mg_code = 1, mg_list = ps, mg_next = next\<rparr>"

definition demo_service :: "string + manapi_page \<Rightarrow> service" where
  "demo_service second = \<lparr>sv_page = (\<lambda>n path cursor.
       if path \<noteq> PediaRev then Inr (demo_page [] '''')
       else if cursor = '''' then Inr (demo_page [demo_pin ''c'' 20] ''k'') else second),
     sv_pin = (\<lambda>n pin. Inl ''no such pin'')\<rparr>"

definition older_page :: manapi_page where
  "older_page = demo_page [demo_pin ''a'' 10] ''''"

lemma demo_payload: "decodePayload (mn_body (demo_pin i h)) = [(''type'', ANum 1)]"
  unfolding demo_pin_def by code_simp

definition stuck :: "l2 \<Rightarrow> bool" where
  "stuck l \<longleftrightarrow> map pe_pin (l2_events l) = [''c''] \<and> l2_seen l = [''c''] \<and> l2_view l = empty_view"

lemma path_names: "PediaConstitution \<noteq> PediaRev" "PediaChallenge \<noteq> PediaRev" "PediaRuling \<noteq> PediaRev"
  "PediaReview \<noteq> PediaRev" "PediaEditor \<noteq> PediaRev" "PediaParamProposal \<noteq> PediaRev"
  by code_simp+

lemma demo_other: "path \<noteq> PediaRev \<Longrightarrow> sync_path (demo_service x) path sw
     = (set_cursor path '''' (sw\<lparr>sw_known := False, sw_requests := Suc (sw_requests sw)\<rparr>), None)"
  by (simp add: sync_path_def numeral_eq_Suc fetchPage_def demo_service_def demo_page_def Let_def)

lemma demo_first:
  "sync_path (demo_service x) PediaRev sw = (if ''c'' \<in> set (l2_seen (sw_l2 sw))
     then (set_cursor PediaRev ''k'' (sw\<lparr>sw_requests := Suc (sw_requests sw), sw_known := True\<rparr>), None)
     else sync_pages (demo_service x) PediaRev 49 ''k'' (set_cursor PediaRev ''k''
       (take_pin (demo_service x) PediaRev (sw\<lparr>sw_known := False, sw_requests := Suc (sw_requests sw)\<rparr>) (demo_pin ''c'' 20))))"
proof -
  have n: "(50 :: nat) = Suc 49" by simp
  have "mn_id (demo_pin ''c'' 20) = ''c''" "mn_height (demo_pin ''c'' 20) = 20" by (simp_all add: demo_pin_def)
  then show ?thesis unfolding sync_path_def n sync_pages.simps(2)
    by (simp add: fetchPage_def demo_service_def demo_page_def Let_def take_pin_def demo_payload)
qed

lemma stuck_sync:
  assumes "stuck l" shows "\<exists>l'. SyncOnce replay (demo_service x) now l = Some (l', None) \<and> stuck l'"
  using assms
  by (simp add: SyncOnce_def syncPaths_def demo_other path_names demo_first start_sweep_def stuck_def set_cursor_def)

lemma stuck_first: "\<exists>l'. SyncOnce replay (demo_service (Inl e)) now NewL2 = Some (l', Some e) \<and> stuck l'"
proof -
  have n: "(49 :: nat) = Suc 48" by simp
  have "sync_pages (demo_service (Inl e)) PediaRev 49 ''k'' sw = (sw\<lparr>sw_requests := Suc (sw_requests sw)\<rparr>, Some e)" for sw
    unfolding n sync_pages.simps(2) by (simp add: fetchPage_def demo_service_def Let_def)
  moreover have "mn_id (demo_pin ''c'' 20) = ''c''" "mn_height (demo_pin ''c'' 20) = 20" by (simp_all add: demo_pin_def)
  ultimately show ?thesis
    by (simp add: SyncOnce_def syncPaths_def demo_other path_names demo_first start_sweep_def stuck_def set_cursor_def
        NewL2_def take_pin_def Let_def demo_payload pin_event_def)
qed

lemma demo_full: "map_option (\<lambda>l. map pe_pin (l2_events l)) (sync_rounds ReplayPedia [(demo_service (Inr older_page), t)] NewL2)
      = Some [''c'', ''a'']"
  by code_simp

text \<open>
  An error in the middle of a sweep loses pins for good. The service has pin \<open>c\<close> on the first page
  and the older pin \<open>a\<close> on the second, which fails once. After that, however often the service is asked
  and answers without errors, \<open>a\<close> never enters the stream, and the view stays the one from before the
  failed sweep, although \<open>c\<close> is in the stream. The same service without the failure gives both pins.
\<close>

theorem sync_error_gap:
  "(\<exists>l. sync_rounds replay ((demo_service (Inl ''timeout''), t) # map (\<lambda>u. (demo_service (Inr older_page), u)) us) NewL2 = Some l
      \<and> map pe_pin (l2_events l) = [''c''] \<and> l2_view l = empty_view)
   \<and> map_option (\<lambda>l. map pe_pin (l2_events l)) (sync_rounds ReplayPedia [(demo_service (Inr older_page), t)] NewL2)
      = Some [''c'', ''a'']"
proof (rule conjI [OF _ demo_full])
  obtain l0 where l0: "SyncOnce replay (demo_service (Inl ''timeout'')) t NewL2 = Some (l0, Some ''timeout'')" "stuck l0"
    using stuck_first by blast
  have "\<exists>l. sync_rounds replay (map (\<lambda>u. (demo_service (Inr older_page), u)) us) l1 = Some l \<and> stuck l" if "stuck l1" for l1
    using that
  proof (induction us arbitrary: l1)
    case (Cons u us)
    then obtain l2 where "SyncOnce replay (demo_service (Inr older_page)) u l1 = Some (l2, None)" "stuck l2"
      using stuck_sync by blast
    with Cons.IH show ?case by simp
  qed simp
  from this [OF l0(2)] obtain l where l: "sync_rounds replay (map (\<lambda>u. (demo_service (Inr older_page), u)) us) l0 = Some l" "stuck l"
    by blast
  show "\<exists>l. sync_rounds replay ((demo_service (Inl ''timeout''), t) # map (\<lambda>u. (demo_service (Inr older_page), u)) us) NewL2 = Some l
      \<and> map pe_pin (l2_events l) = [''c''] \<and> l2_view l = empty_view"
    by (rule exI [of _ l]) (use l in \<open>simp add: l0(1) stuck_def\<close>)
qed

theorem sync_gap_stays_witness:
  "\<exists>l0 l'. SyncOnce ReplayPedia (demo_service (Inl ''timeout'')) 0 NewL2 = Some (l0, Some ''timeout'')
     \<and> sync_rounds ReplayPedia [(demo_service (Inr older_page), 1)] l0 = Some l' \<and> ''a'' \<notin> set (l2_seen l')"
proof -
  obtain l0 where l0: "SyncOnce ReplayPedia (demo_service (Inl ''timeout'')) 0 NewL2 = Some (l0, Some ''timeout'')" "stuck l0"
    using stuck_first by blast
  obtain l' where l': "sync_rounds ReplayPedia [(demo_service (Inr older_page), 1)] l0 = Some l'"
    using stuck_sync [OF l0(2), of ReplayPedia "Inr older_page" 1] by auto
  have "fetchPage (demo_service (Inr older_page)) n path '''' = Inr (demo_page (if path = PediaRev then [demo_pin ''c'' 20] else []) (if path = PediaRev then ''k'' else ''''))" for n path
    by (simp add: fetchPage_def demo_service_def demo_page_def)
  then have "first_known (demo_service (Inr older_page)) (set (l2_seen l0)) {''c''}"
    using l0(2) by (simp add: first_known_def stuck_def demo_page_def demo_pin_def)
  with sync_gap_stays [OF l', of "{''c''}"] have "set (l2_seen l') \<subseteq> set (l2_seen l0) \<union> {''c''}" by simp
  with l0 l' show ?thesis by (auto simp: stuck_def)
qed

theorem sync_appends_witness:
  "\<exists>l' new. SyncOnce ReplayPedia (demo_service (Inl ''timeout'')) 0 NewL2 = Some (l', Some ''timeout'')
     \<and> l2_events l' = l2_events NewL2 @ new \<and> l2_applied l' = int (length new)"
proof -
  obtain l' where l': "SyncOnce ReplayPedia (demo_service (Inl ''timeout'')) 0 NewL2 = Some (l', Some ''timeout'')"
    using stuck_first by blast
  from sync_appends [OF reach_new this] l' show ?thesis by blast
qed

text \<open>The demo service, seen as a feed.\<close>

definition demo_feed :: "string \<Rightarrow> manapi_page list" where
  "demo_feed path = (if path = PediaRev then [demo_page [demo_pin ''c'' 20] ''k'', older_page] else [demo_page [] ''''])"

theorem sync_complete_witness:
  "\<exists>l'. SyncOnce ReplayPedia (demo_service (Inr older_page)) 0 NewL2 = Some (l', None) \<and> ''a'' \<in> set (l2_seen l')"
proof -
  obtain l' e where s: "SyncOnce ReplayPedia (demo_service (Inr older_page)) 0 NewL2 = Some (l', e)"
    using demo_full [of 0] by (auto split: option.splits)
  have "serves (demo_service (Inr older_page)) path '''' (demo_feed path) \<and> length (demo_feed path) \<le> 50
      \<and> caught_up (set (l2_seen NewL2)) (demo_feed path)" for path
    by (simp add: demo_feed_def demo_service_def demo_page_def older_page_def NewL2_def)
  moreover have "distinct (map mn_id (feed_pins demo_feed syncPaths))"
    by (simp add: feed_pins_def syncPaths_def demo_feed_def path_names page_pins_def demo_page_def older_page_def demo_pin_def)
  ultimately have "e = None \<and> (\<forall>path \<in> set syncPaths. caught_up (set (l2_seen l')) (demo_feed path) \<and>
    (\<forall>p \<in> set (page_pins (demo_feed path)). 0 \<le> mn_height p \<longrightarrow> mn_id p \<in> set (l2_seen l')
      \<and> (mn_id p \<notin> set (l2_seen NewL2) \<and> decodePayload (mn_body p) \<noteq> [] \<longrightarrow>
           pin_event path p (decodePayload (mn_body p)) \<in> set (l2_events l'))))"
    by (intro sync_complete [OF s]) blast+
  moreover have "PediaRev \<in> set syncPaths" "demo_pin ''a'' 10 \<in> set (page_pins (demo_feed PediaRev))"
    by (simp_all add: syncPaths_def demo_feed_def older_page_def demo_page_def)
  ultimately have "e = None \<and> mn_id (demo_pin ''a'' 10) \<in> set (l2_seen l')"
    by (metis (no_types, lifting) demo_pin_def manapi_pin.select_convs(2) zero_le_numeral)
  with s show ?thesis by (auto simp: demo_pin_def)
qed

end
