(* ===== verification/PediaPull.thy ===== *)
theory PediaPull
  imports PediaSyncProps
begin

section \<open>The order of arrival does not reach the view\<close>

fun appends :: "replay_fn \<Rightarrow> pedia_event list list \<Rightarrow> l2 \<Rightarrow> l2 option" where
  "appends replay [] l = Some l"
| "appends replay (b # bs) l = Option.bind (Append replay b l) (appends replay bs)"

definition position :: "pedia_event \<Rightarrow> int \<times> int" where
  "position e = (pe_height e, pe_tx e)"

lemma replay_perm:
  assumes "mset es = mset es'" "\<forall>e \<in> set es. 0 \<le> pe_height e" "inj_on position (set es)"
  shows "chain_order es = chain_order es'" "pedia_start es opts = pedia_start es' opts"
proof -
  have "filter (\<lambda>e. 0 \<le> pe_height e) es = es" "set es = set es'" using assms(1,2) by (auto dest: mset_eq_setD)
  moreover from this have "filter (\<lambda>e. 0 \<le> pe_height e) es' = es'" using assms(2) by auto
  ultimately show "chain_order es = chain_order es'"
    using chain_ord.slice_stable_perm [OF assms(1)] assms(3) by (simp add: chain_order_def position_def [abs_def])
  have "filter (\<lambda>e. pe_height e < 0) es = []" "filter (\<lambda>e. pe_height e < 0) es' = []"
    using \<open>set es = set es'\<close> assms(2) by (auto simp: filter_empty_conv)
  then show "pedia_start es opts = pedia_start es' opts"
    by (simp add: pedia_start_def)
qed

lemma put_all_perm:
  assumes "mset es = mset es'" "distinct (map pe_pin es)"
  shows "mget (foldl (\<lambda>m ev. mput (pe_pin ev) (f ev) m) [] es) = mget (foldl (\<lambda>m ev. mput (pe_pin ev) (f ev) m) [] es')"
proof -
  let ?kv = "\<lambda>ev. (pe_pin ev, f ev)"
  have put: "mget (foldl (\<lambda>m ev. mput (pe_pin ev) (f ev) m) m es) = mget m ++ map_of (rev (map ?kv es))" for m es
    by (induction es arbitrary: m) (simp_all add: map_add_upd_left)
  have "distinct (map pe_pin es')" using assms by (metis mset_eq_imp_distinct_iff mset_map)
  moreover have "set es = set es'" using assms(1) by (rule mset_eq_setD)
  ultimately have "map_of (rev (map ?kv es)) = map_of (rev (map ?kv es'))"
    using assms(2) by (subst map_of_inject_set) (simp_all add: rev_map [symmetric] comp_def)
  then show ?thesis by (simp add: put)
qed

lemma contents_filter: "foldl add_content m es
    = foldl (\<lambda>m ev. mput (pe_pin ev) (event_content ev) m) m (filter (\<lambda>ev. event_content ev \<noteq> '''') es)"
  by (induction es arbitrary: m) (simp_all add: add_content_def)

lemma appends_events: "appends replay bs l = Some l' \<Longrightarrow> l2_events l' = l2_events l @ concat bs"
proof (induction bs arbitrary: l)
  case (Cons b bs)
  then obtain m where "Append replay b l = Some m" "appends replay bs m = Some l'"
    by (auto split: bind_splits)
  with Cons.IH show ?case by (auto simp: Append_def rebuild_def)
qed simp

lemma appends_rebuilt: "appends replay bs l = Some l' \<Longrightarrow> bs \<noteq> [] \<Longrightarrow> \<exists>m. l2_events m = l2_events l' \<and> rebuild replay m = Some l'"
proof (induction bs arbitrary: l)
  case (Cons b bs)
  then obtain m where m: "Append replay b l = Some m" "appends replay bs m = Some l'"
    by (auto split: bind_splits)
  show ?case
  proof (cases bs)
    case Nil
    with m show ?thesis by (auto simp: Append_def rebuild_def)
  next
    case Cons
    with m Cons.IH show ?thesis by simp
  qed
qed simp

text \<open>
  C24: The order of arrival does not reach the view. Two sequences of batches with the same confirmed
  events, at distinct chain positions and with distinct pins, give the same view, the same metadata
  and the same contents, and the same set of views a replay may return.
\<close>

theorem pull_order:
  assumes "appends ReplayPedia bs NewL2 = Some l" "appends ReplayPedia cs NewL2 = Some l'"
    and "bs \<noteq> []" "cs \<noteq> []" "mset (concat bs) = mset (concat cs)"
    and "\<forall>e \<in> set (concat bs). 0 \<le> pe_height e" "inj_on position (set (concat bs))" "distinct (map pe_pin (concat bs))"
  shows "l2_view l = l2_view l' \<and> mget (l2_pinMeta l) = mget (l2_pinMeta l') \<and> mget (l2_contents l) = mget (l2_contents l')
     \<and> (\<forall>v. pedia_replay (l2_events l) l2_options v \<longleftrightarrow> pedia_replay (l2_events l') l2_options v)"
proof -
  have e: "l2_events l = concat bs" "l2_events l' = concat cs"
    using appends_events [OF assms(1)] appends_events [OF assms(2)] by (simp_all add: NewL2_def)
  note same = replay_perm [OF assms(5,6,7)]
  obtain m m' where m: "l2_events m = concat bs" "rebuild ReplayPedia m = Some l"
    and m': "l2_events m' = concat cs" "rebuild ReplayPedia m' = Some l'"
    using appends_rebuilt [OF assms(1,3)] appends_rebuilt [OF assms(2,4)] e by auto
  have "ReplayPedia (concat bs) l2_options = ReplayPedia (concat cs) l2_options"
    by (simp add: ReplayPedia_def same)
  moreover have "pedia_replay (concat bs) l2_options v \<longleftrightarrow> pedia_replay (concat cs) l2_options v" for v
    by (simp add: pedia_replay.simps same)
  moreover have "mget (foldl add_content [] (concat bs)) = mget (foldl add_content [] (concat cs))"
    unfolding contents_filter using assms(5,8) by (intro put_all_perm) (simp_all add: mset_filter distinct_map_filter)
  ultimately show ?thesis
    using m m' e put_all_perm [OF assms(5,8), of event_meta] by (auto simp: rebuild_def)
qed

definition pull_a :: pedia_event where "pull_a = mk_event ''a'' ''/x'' 7 ''m'' []"
definition pull_b :: pedia_event where "pull_b = mk_event ''b'' ''/x'' 9 ''m'' []"

theorem pull_order_witness:
  "rel_option (\<lambda>l l'. l2_view l = l2_view l') (appends ReplayPedia [[pull_b], [pull_a]] NewL2) (appends ReplayPedia [[pull_a, pull_b]] NewL2)"
proof -
  have "appends ReplayPedia [[pull_b], [pull_a]] NewL2 \<noteq> None" "appends ReplayPedia [[pull_a, pull_b]] NewL2 \<noteq> None"
    by code_simp+
  then obtain l l' where l: "appends ReplayPedia [[pull_b], [pull_a]] NewL2 = Some l" "appends ReplayPedia [[pull_a, pull_b]] NewL2 = Some l'"
    by auto
  have "l2_view l = l2_view l' \<and> mget (l2_pinMeta l) = mget (l2_pinMeta l') \<and> mget (l2_contents l) = mget (l2_contents l')
     \<and> (\<forall>v. pedia_replay (l2_events l) l2_options v \<longleftrightarrow> pedia_replay (l2_events l') l2_options v)"
    by (rule pull_order [OF l]) (simp_all add: pull_a_def pull_b_def mk_event_def position_def inj_on_def)
  then show ?thesis unfolding l by simp
qed

end
