(* ===== verification/GoJson.thy ===== *)
theory GoJson
  imports JsonRoundtrip
begin

text \<open>
  \<open>json.Marshal\<close> of strings, int64 values and arrays of them, and what \<open>json.Unmarshal\<close> reads from
  the text: the strings come back with U+FFFD for bytes that are not UTF-8, the numbers as \<open>float64\<close>s,
  exactly as long as they are at most \<open>2 ^ 53\<close>.
\<close>

section \<open>Strings\<close>

text \<open>How \<open>Marshal\<close> writes a rune: HTML characters and line separators escaped, an invalid byte as an escape.\<close>

definition go_escape :: "string \<Rightarrow> nat \<times> int \<Rightarrow> string" where
  "go_escape s x =
     (if snd x = rune_error \<and> snd (decode_rune (drop (fst x) (map byte s))) = 1 then CHR 0x5C # CHR ''u'' # hex4 65533
      else if snd x \<in> {60, 62, 38, 8232, 8233} then CHR 0x5C # CHR ''u'' # hex4 (snd x)
      else escape_rune (snd x))"

definition go_json_str :: "string \<Rightarrow> string" where
  "go_json_str s = CHR 0x22 # concat (map (go_escape s) (runes_of s)) @ [CHR 0x22]"

text \<open>
  A writer of strings: what it writes for a rune is scanned as part of the string and unquoted to the
  rune. Both writers of the code are instances.
\<close>

locale json_writer =
  fixes esc :: "string \<Rightarrow> nat \<times> int \<Rightarrow> string"
  assumes scan: "scalar (snd x) \<Longrightarrow> scan_str (esc s x @ X) = map_option (\<lambda>(t, u). (esc s x @ t, u)) (scan_str X)"
    and unq: "scalar (snd x) \<Longrightarrow> unquote (esc s x @ Y) = utf8 (snd x) @ unquote Y"
begin

lemma scan_runes: "\<forall>x \<in> set xs. scalar (snd x) \<Longrightarrow>
    scan_str (concat (map (esc s) xs) @ CHR 0x22 # rest) = Some (concat (map (esc s) xs), rest)"
  by (induction xs) (simp_all add: scan del: scan_str.simps(2), simp)

lemma unquote_runes: "\<forall>x \<in> set xs. scalar (snd x) \<Longrightarrow>
    unquote (concat (map (esc s) xs)) = concat (map (\<lambda>x. utf8 (snd x)) xs)"
  by (induction xs) (simp_all add: unq, simp add: unquote.simps)

lemma parse_written: "parse_str (concat (map (esc s) (runes_of s)) @ CHR 0x22 # rest) = Some (clean s, rest)"
  using scan_runes [OF runes_of_scalar, of s s rest] unquote_runes [OF runes_of_scalar, of s s]
  by (simp add: parse_str_def clean_def)

end

interpretation canon_writer: json_writer "\<lambda>s x. escape_rune (snd x)"
  by unfold_locales (simp_all add: scan_escape unquote_escape)

lemma hex_escape:
  assumes "0 \<le> r" "r < 65536"
  shows "scan_str ((CHR 0x5C # CHR ''u'' # hex4 r) @ X) = map_option (\<lambda>(t, u). ((CHR 0x5C # CHR ''u'' # hex4 r) @ t, u)) (scan_str X)"
    and "\<not> (55296 \<le> r \<and> r < 57344) \<Longrightarrow> unquote ((CHR 0x5C # CHR ''u'' # hex4 r) @ Y) = utf8 r @ unquote Y"
proof -
  have "r div 4096 < 16" "0 \<le> r div 4096" using assms by (auto simp: pos_imp_zdiv_nonneg_iff)
  then have v: "list_all (\<lambda>h. hex_val h \<noteq> None) (hex4 r)" "length (hex4 r) = 4"
    "those (map hex_val (hex4 r)) = Some [r div 4096, r div 256 mod 16, r div 16 mod 16, r mod 16]"
    by (simp_all add: hex4_digits [OF assms] hex_digit_val)
  from v(2) obtain a b c d where h: "hex4 r = [a, b, c, d]" by (auto simp: length_Suc_conv numeral_eq_Suc)
  have "\<not> esc_char (CHR ''u'')" by (simp add: esc_char_def)
  with v(1) h show "scan_str ((CHR 0x5C # CHR ''u'' # hex4 r) @ X)
      = map_option (\<lambda>(t, u). ((CHR 0x5C # CHR ''u'' # hex4 r) @ t, u)) (scan_str X)" by simp
  have "r div 4096 * 16 + r div 256 mod 16 = r div 256" "r div 256 * 16 + r div 16 mod 16 = r div 16"
    using div_mult_mod_eq [of "r div 256" 16] div_mult_mod_eq [of "r div 16" 16] by (simp_all flip: zdiv_zmult2_eq)
  then have d: "((r div 4096 * 16 + r div 256 mod 16) * 16 + r div 16 mod 16) * 16 + r mod 16 = r"
    by (simp only: div_mult_mod_eq)
  have g: "getu4 (CHR 0x5C # CHR ''u'' # hex4 r @ Y) = Some r"
    unfolding getu4_def h append_Cons append_Nil list.case simp_thms if_True v(3) [unfolded h] option.case d ..
  show "unquote ((CHR 0x5C # CHR ''u'' # hex4 r) @ Y) = utf8 r @ unquote Y" if "\<not> (55296 \<le> r \<and> r < 57344)"
    by (subst unquote.simps) (use g that v(2) in auto)
qed

interpretation go_writer: json_writer go_escape
proof
  fix x :: "nat \<times> int" and s X
  assume "scalar (snd x)"
  then show "scan_str (go_escape s x @ X) = map_option (\<lambda>(t, u). (go_escape s x @ t, u)) (scan_str X)"
    using hex_escape(1) [of 65533 X] hex_escape(1) [of "snd x" X] scan_escape [of "snd x" X]
    by (auto simp: go_escape_def simp del: append_Cons)
next
  fix x :: "nat \<times> int" and s Y
  assume "scalar (snd x)"
  then show "unquote (go_escape s x @ Y) = utf8 (snd x) @ unquote Y"
    using hex_escape(2) [of 65533 Y] hex_escape(2) [of "snd x" Y] unquote_escape [of "snd x" Y]
    by (auto simp: go_escape_def rune_error_def simp del: append_Cons)
qed

section \<open>Numbers\<close>

lemma read_digits_nat: "0 \<le> n \<Longrightarrow> \<exists>k > 0. \<forall>r a j. read_digits (show_nat n @ r) a j = read_digits r (a * 10 ^ k + n) (j + k)"
proof (induction n rule: show_nat.induct)
  case (1 n)
  have dig: "digit_val (char_of (48 + d)) = Some d" if "0 \<le> d" "d < 10" for d :: int
    using that by (simp add: digit_val_def byte_char_of)
  show ?case
  proof (cases "n < 10")
    case True
    with 1(2) dig [of n] have "\<forall>r a j. read_digits (show_nat n @ r) a j = read_digits r (a * 10 ^ 1 + n) (j + 1)"
      by (subst show_nat.simps) (simp add: algebra_simps)
    then show ?thesis by (metis zero_less_one)
  next
    case False
    with 1 obtain k where k: "\<forall>r a j. read_digits (show_nat (n div 10) @ r) a j = read_digits r (a * 10 ^ k + n div 10) (j + k)"
      using pos_imp_zdiv_nonneg_iff [of 10 n] by auto
    have "(a * 10 ^ k + n div 10) * 10 + n mod 10 = a * 10 ^ Suc k + n" for a
      by (simp add: algebra_simps)
    with False k dig [of "n mod 10"]
    have "\<forall>r a j. read_digits (show_nat n @ r) a j = read_digits r (a * 10 ^ Suc k + n) (j + Suc k)"
      by (subst show_nat.simps) (simp add: algebra_simps)
    then show ?thesis by blast
  qed
qed

lemma show_nat_start: "0 \<le> k \<Longrightarrow> show_nat k \<noteq> [] \<and> hd (show_nat k) \<noteq> CHR ''-'' \<and> hd (show_nat k) \<noteq> CHR ''+''"
  using show_nat_digits [of k] by (cases "show_nat k") (auto simp: is_digit_def of_char_def)

lemma read_show_nat:
  assumes "0 \<le> k"
  obtains j where "0 < j" "read_digits (show_nat k) 0 0 = (k, j, [])"
proof -
  obtain j where j: "0 < j" "\<forall>r a i. read_digits (show_nat k @ r) a i = read_digits r (a * 10 ^ j + k) (i + j)"
    using read_digits_nat [OF assms] by blast
  from j(2) [rule_format, of "[]" 0 0] have "read_digits (show_nat k) 0 0 = (k, j, [])" by simp
  with j(1) show ?thesis by (rule that)
qed

lemma parse_show_int: "parse_f64 (show_int n) = round64 (of_int n)"
proof (cases "n < 0")
  case True
  then obtain j where "0 < j" "read_digits (show_nat (- n)) 0 0 = (- n, j, [])" using read_show_nat [of "- n"] by auto
  with True show ?thesis by (simp add: parse_f64_def show_int_def read_exponent_def Let_def)
next
  case False
  then obtain j where "0 < j" "read_digits (show_nat n) 0 0 = (n, j, [])" using read_show_nat [of n] by auto
  with False show_nat_start [of n] show ?thesis by (simp add: parse_f64_def show_int_def read_exponent_def Let_def)
qed

lemma parse_int64_show: "int64_range n \<Longrightarrow> parse_int64 (show_int n) = Some n"
proof (cases "n < 0")
  case True
  then obtain j where "0 < j" "read_digits (show_nat (- n)) 0 0 = (- n, j, [])" using read_show_nat [of "- n"] by auto
  moreover assume "int64_range n"
  ultimately show ?thesis using True by (simp add: parse_int64_def parse_signed_def show_int_def Let_def)
next
  case False
  then obtain j where "0 < j" "read_digits (show_nat n) 0 0 = (n, j, [])" using read_show_nat [of n] by auto
  moreover assume "int64_range n"
  ultimately show ?thesis using False show_nat_start [of n] by (simp add: parse_int64_def parse_signed_def show_int_def Let_def)
qed

text \<open>Integers up to \<open>2 ^ 53\<close> are \<open>float64\<close> values.\<close>

lemma nlog2_bounds: "1 \<le> n \<Longrightarrow> 2 ^ nlog2 n \<le> n \<and> n < 2 ^ Suc (nlog2 n)"
proof (induction n rule: nlog2.induct)
  case (1 n)
  show ?case
  proof (cases "n < 2")
    case True
    with 1(2) have "n = 1" by simp
    then show ?thesis by (simp add: nlog2.simps)
  next
    case False
    then have "1 \<le> n div 2" by simp
    with 1(1) [OF False] have h: "2 ^ nlog2 (n div 2) \<le> n div 2" "n div 2 < 2 ^ Suc (nlog2 (n div 2))" by simp_all
    have "nlog2 n = Suc (nlog2 (n div 2))" using False by (subst nlog2.simps) simp
    with h show ?thesis by simp linarith
  qed
qed

lemma round_half_even_int [simp]: "round_half_even (of_int z) = z"
  by (simp add: round_half_even_def)


lemma round64_pos_exact:
  assumes "1 \<le> n" "n \<le> 2 ^ 53" shows "round64_pos (of_int n) = Some (of_int n)"
proof -
  have q: "quotient_of (of_int n :: rat) = (n, 1)"
    by (simp add: of_int_rat quotient_of_Fract normalize_def)
  have one: "nlog2 1 = 0" by (simp add: nlog2.simps)
  define k where "k = nlog2 n"
  have k: "2 ^ k \<le> n" "n < 2 ^ Suc k" using nlog2_bounds [OF assms(1)] by (simp_all add: k_def)
  then have "(2 :: int) ^ k \<le> 2 ^ 53" using assms(2) by linarith
  then have k53: "k \<le> 53" by (rule power_le_imp_le_exp [rotated]) simp
  have p: "pow2_int (int k) \<le> of_int n" using k(1) by (simp add: pow2_int_def flip: of_int_power)
  have small: "of_int n < pow2_int 1024"
  proof -
    have "n < 2 ^ 1024" using assms(2) by (rule order.strict_trans1) simp
    then have "(of_int n :: rat) < of_int (2 ^ 1024)" by (simp only: of_int_less_iff)
    then show ?thesis by (simp add: pow2_int_def)
  qed
  have "of_int (round_half_even (of_int n * pow2_int (- max (int k - 52) (-1074)))) * pow2_int (max (int k - 52) (-1074)) = (of_int n :: rat)"
  proof (cases "k = 53")
    case True
    with k(1) assms(2) have n: "n = 2 ^ 53" by simp
    have "(of_int n :: rat) * pow2_int (- 1) = of_int (2 ^ 52)" by (simp add: n pow2_int_def)
    then have "round_half_even (of_int n * pow2_int (- 1)) = 2 ^ 52" by (simp only: round_half_even_int)
    then show ?thesis using True by (simp add: n pow2_int_def)
  next
    case False
    with k53 obtain j where j: "52 = k + j" by (metis le_Suc_ex less_Suc_eq_le nat_less_le numeral_eq_Suc pred_numeral_simps(3) semiring_norm(26) semiring_norm(27))
    then have e: "max (int k - 52) (-1074) = - int j" by linarith
    have "(of_int n :: rat) * pow2_int (int j) = of_int (n * 2 ^ j)" by (simp add: pow2_int_def)
    then have "round_half_even (of_int n * pow2_int (int j)) = n * 2 ^ j" by (simp only: round_half_even_int)
    moreover have "pow2_int (- int j) = 1 / 2 ^ j" by (cases "j = 0") (simp_all add: pow2_int_def)
    ultimately show ?thesis by (simp add: e)
  qed
  then show ?thesis
    using p small by (simp add: round64_pos_def q one Let_def flip: k_def)
qed

lemma round64_exact:
  assumes "\<bar>n\<bar> \<le> 2 ^ 53" shows "round64 (of_int n) = Some (of_int n)"
proof -
  consider "n = 0" | "1 \<le> n" | "1 \<le> - n" by linarith
  then show ?thesis
  proof cases
    case 3
    then have "round64_pos (of_int (- n)) = Some (of_int (- n))" using assms by (intro round64_pos_exact) simp_all
    with 3 show ?thesis by (simp add: round64_def)
  next
    case 2
    with round64_pos_exact [OF 2] assms show ?thesis by (simp add: round64_def)
  qed (simp add: round64_def)
qed

section \<open>Arrays of scalars\<close>

definition marshal_array :: "string list \<Rightarrow> string" where
  "marshal_array ts = CHR ''['' # join_comma ts @ '']''"

text \<open>A text that reads as a value wherever a value may end.\<close>

definition reads_as :: "string \<Rightarrow> json \<Rightarrow> bool" where
  "reads_as t v \<longleftrightarrow> t \<noteq> [] \<and> (\<forall>k d rest. follow rest \<longrightarrow> parse_value (Suc k) d (t @ rest) = Some (v, rest))
     \<and> \<not> is_ws (hd t) \<and> hd t \<noteq> CHR '']''"

lemma reads_int: "reads_as (show_int n) (JNum (show_int n))"
proof -
  obtain c r where "show_int n = c # r" "c = CHR ''-'' \<or> is_digit c" by (rule num_lit_start [OF show_int_lit])
  moreover have "\<not> is_ws (CHR ''-'')" "\<not> is_digit (CHR '']'')" by (simp_all add: is_ws_def is_digit_def of_char_def)
  ultimately have "show_int n \<noteq> [] \<and> \<not> is_ws (hd (show_int n)) \<and> hd (show_int n) \<noteq> CHR '']''"
    using digit_not_ws by auto
  then show ?thesis
    unfolding reads_as_def using parse_number_value [OF show_int_lit] by blast
qed

lemma reads_str: "reads_as (go_json_str s) (JStr (clean s))"
proof -
  have q: "\<not> is_ws (CHR 0x22)" by (simp add: is_ws_def of_char_def)
  then show ?thesis
    using go_writer.parse_written by (simp add: reads_as_def go_json_str_def skip_ws_char)
qed

lemma parse_elems_reads:
  "list_all2 reads_as ts vs \<Longrightarrow> ts \<noteq> [] \<Longrightarrow> length ts < k \<Longrightarrow>
     parse_elems k d acc (join_comma ts @ CHR '']'' # rest) = Some (acc @ vs, rest)"
proof (induction ts vs arbitrary: k acc rule: list_all2_induct)
  case (Cons t ts v vs)
  then obtain j where k: "k = Suc (Suc j)" by (cases k; cases "k - 1") auto
  have rd: "parse_value (Suc j) d (t @ r) = Some (v, r)" if "follow r" for r
    using Cons.hyps(1) that by (simp add: reads_as_def)
  show ?case
  proof (cases ts)
    case Nil
    with Cons.hyps(2) rd show ?thesis by (simp add: k skip_ws_char)
  next
    case (Cons t2 ts2)
    with Cons.IH [of "Suc j" "acc @ [v]"] Cons.prems rd show ?thesis
      by (simp add: k skip_ws_char)
  qed
qed simp

lemma decode_array:
  assumes "list_all2 reads_as ts vs" "ts \<noteq> []"
  shows "decode_json (marshal_array ts) = Some (JArr vs, '''')"
proof -
  have "length ts \<le> length (join_comma ts)" if "\<forall>t \<in> set ts. t \<noteq> []" for ts
    using that by (induction ts rule: join_comma.induct) (auto simp: Suc_le_eq)
  moreover have "\<forall>t \<in> set ts. reads_as t (vs ! 0) \<or> t \<noteq> []"
    using assms(1) by (auto simp: list_all2_conv_all_nth reads_as_def in_set_conv_nth)
  ultimately have len: "length ts \<le> length (join_comma ts)" by (auto simp: reads_as_def)
  from assms obtain t ts' v vs' where t: "ts = t # ts'" "reads_as t v" by (cases ts; cases vs) auto
  then obtain c r where c: "t = c # r" "\<not> is_ws c" "c \<noteq> CHR '']''" by (cases t) (auto simp: reads_as_def)
  with t(1) obtain r' where j: "join_comma ts = c # r'" by (cases ts') auto
  have "parse_elems (Suc (2 * length (marshal_array ts))) (Suc 0) [] (join_comma ts @ CHR '']'' # []) = Some ([] @ vs, [])"
    by (rule parse_elems_reads [OF assms]) (use len in \<open>simp add: marshal_array_def\<close>)
  then show ?thesis
    using c j by (simp add: decode_json_def marshal_array_def skip_ws_char max_nesting_def)
qed

end
