(* ===== verification/PediaFeed.thy ===== *)
theory PediaFeed
  imports PediaSync GoJson
begin

text \<open>
  The read side of \<open>internal/agentpedia/l2.go\<close>: the cursor-paged feed of pins, its opaque cursor, and the
  entry list with its offset cursor. A request is its query parameters, empty when absent; a response
  is the data a handler writes.
\<close>

section \<open>Rows and their order\<close>

record pins_item =
  it_pin :: string
  it_path :: string
  it_chain :: string
  it_ts :: int
  it_height :: int
  it_tx :: int
  it_gmid :: string
  it_addr :: string
  it_title :: string
  it_summary :: string
  it_excerpt :: string
  it_type :: string

definition pinsOrder :: "pins_item \<Rightarrow> pins_item \<Rightarrow> bool" where
  "pinsOrder a b =
     (if it_ts a \<noteq> it_ts b then it_ts b < it_ts a
      else if it_height a \<noteq> it_height b then it_height b < it_height a
      else if it_tx a \<noteq> it_tx b then it_tx b < it_tx a
      else string_less (it_pin a) (it_pin b))"

interpretation pins_ord: total_order_on pinsOrder it_pin
proof -
  have o: "pinsOrder = (\<lambda>a b. if - it_ts a \<noteq> - it_ts b then - it_ts a < - it_ts b
      else if - it_height a \<noteq> - it_height b then - it_height a < - it_height b
      else if - it_tx a \<noteq> - it_tx b then - it_tx a < - it_tx b else string_less (it_pin a) (it_pin b))"
    by (simp add: pinsOrder_def fun_eq_iff)
  show "total_order_on pinsOrder it_pin"
    unfolding o by (intro total_order_on_lex total_order_on_inv [OF string_order])
qed

section \<open>Cursors\<close>

definition encodePinsCursor :: "pins_item \<Rightarrow> string" where
  "encodePinsCursor i = ''k:'' @ raw_url_encode
     (marshal_array [show_int (it_ts i), show_int (it_height i), show_int (it_tx i), go_json_str (it_pin i)])"

text \<open>The zero row with the four fields of a cursor.\<close>

definition key_item :: "int \<Rightarrow> int \<Rightarrow> int \<Rightarrow> string \<Rightarrow> pins_item" where
  "key_item ts h tx pin = \<lparr>it_pin = pin, it_path = '''', it_chain = '''', it_ts = ts, it_height = h, it_tx = tx,
     it_gmid = '''', it_addr = '''', it_title = '''', it_summary = '''', it_excerpt = '''', it_type = ''''\<rparr>"

text \<open>\<open>json.Unmarshal\<close> into a \<open>[]any\<close>; \<open>null\<close> leaves it nil, which has no elements.\<close>

definition unmarshal_array :: "string \<Rightarrow> any_json list option" where
  "unmarshal_array raw = (case decode_json raw of
      None \<Rightarrow> None
    | Some (v, rest) \<Rightarrow>
        if skip_ws rest \<noteq> [] then None
        else (case v of
                JNull \<Rightarrow> Some []
              | JArr vs \<Rightarrow> (case floats v of Some (AArr xs) \<Rightarrow> Some xs | _ \<Rightarrow> None)
              | _ \<Rightarrow> None))"

definition cursor_tuple :: "any_json list \<Rightarrow> pins_item option" where
  "cursor_tuple xs = (case xs of
      [ANum ts, ANum h, ANum tx, AStr pin] \<Rightarrow> Some (key_item (f64_to_int64 ts) (f64_to_int64 h) (f64_to_int64 tx) pin)
    | _ \<Rightarrow> None)"

definition decodePinsCursor :: "string \<Rightarrow> pins_item option" where
  "decodePinsCursor cursor =
     (let c = trim_space cursor in
      if c = '''' then Some (key_item 0 0 0 '''')
      else if \<not> has_prefix c ''k:'' then None
      else Option.bind (Option.bind (raw_url_decode (drop 2 c)) unmarshal_array) cursor_tuple)"

section \<open>Rows of the stream\<close>

text \<open>\<open>[]rune(s)\<close> cut to \<open>n\<close> runes; bytes that are not UTF-8 become U+FFFD when it is cut.\<close>

definition capRunes :: "string \<Rightarrow> nat \<Rightarrow> string" where
  "capRunes s n = (if length (runes_of s) \<le> n then s else concat (map (\<lambda>x. utf8 (snd x)) (take n (runes_of s))))"

definition no_meta :: pin_meta where
  "no_meta = \<lparr>pm_height = 0, pm_tx = 0, pm_sender = '''', pm_path = '''', pm_title = '''', pm_ts = 0, pm_addr = '''', pm_chain = ''''\<rparr>"

definition meta_of :: "l2 \<Rightarrow> string \<Rightarrow> pin_meta" where
  "meta_of l pin = (case mget (l2_pinMeta l) pin of Some m \<Rightarrow> m | None \<Rightarrow> no_meta)"

definition event_row :: "l2 \<Rightarrow> pedia_event \<Rightarrow> pins_item" where
  "event_row l ev =
     (let m = meta_of l (pe_pin ev); summary = p_str (pe_payload ev) ''summary'' in
      \<lparr>it_pin = pe_pin ev, it_path = pe_path ev, it_chain = pm_chain m, it_ts = pm_ts m, it_height = pm_height m,
       it_tx = pm_tx m, it_gmid = pe_sender ev, it_addr = pm_addr m, it_title = p_str (pe_payload ev) ''title'',
       it_summary = (if summary = '''' then p_str (pe_payload ev) ''reason'' else summary),
       it_excerpt = capRunes (p_str (pe_payload ev) ''content'') 280, it_type = p_str (pe_payload ev) ''type''\<rparr>)"

definition pinsSnapshot :: "l2 \<Rightarrow> pins_item list" where
  "pinsSnapshot l = map (event_row l) (l2_events l)"

section \<open>Query parameters\<close>

definition last_segment :: "string \<Rightarrow> string" where
  "last_segment path = (case last_index (CHR ''/'') path of Some i \<Rightarrow> drop (Suc i) path | None \<Rightarrow> path)"

text \<open>The path a filter names, \<open>Some ''\<close> without a filter and \<open>None\<close> for an unknown one.\<close>

definition resolvePinsPathFilter :: "(int \<Rightarrow> int) \<Rightarrow> string \<Rightarrow> string option" where
  "resolvePinsPathFilter ulower raw =
     (let r = to_lower ulower (rev (dropWhile (\<lambda>c. c = CHR ''/'') (rev (trim_space raw)))) in
      if r = '''' then Some '''' else find (\<lambda>path. r = path \<or> r = last_segment path) syncPaths)"

definition since_param :: "string \<Rightarrow> int option" where
  "since_param raw = (if raw = '''' then Some 0
     else case parse_int64 raw of None \<Rightarrow> None | Some v \<Rightarrow> if v < 0 then None else Some v)"

definition pinsMaxSize :: int where "pinsMaxSize = 200"

definition size_param :: "string \<Rightarrow> nat option" where
  "size_param raw = (if raw = '''' then Some 50
     else case parse_int64 raw of None \<Rightarrow> None | Some v \<Rightarrow> if v < 1 \<or> pinsMaxSize < v then None else Some (nat v))"

definition cursor_param :: "string \<Rightarrow> pins_item option" where
  "cursor_param raw = (if raw = '''' then Some (key_item 0 0 0 '''') else decodePinsCursor raw)"

section \<open>The pins handler\<close>

record pins_query =
  pq_path :: string
  pq_since :: string
  pq_size :: string
  pq_cursor :: string

record pins_page =
  pg_items :: "pins_item list"
  pg_more :: bool
  pg_next :: "string option"

text \<open>
  The rows a request selects, newest first. \<open>sort.Slice\<close> is not stable, but the comparator is total on
  rows of different pins, which the sync keeps different.
\<close>

definition pins_feed :: "l2 \<Rightarrow> string \<Rightarrow> int \<Rightarrow> pins_item list" where
  "pins_feed l path since =
     (let rows = pinsSnapshot l;
          all = slice_stable pinsOrder (if path \<noteq> '''' then filter (\<lambda>i. it_path i = path) rows else rows)
      in if 0 < since then takeWhile (\<lambda>i. \<not> it_ts i < since) all else all)"

definition page_of :: "pins_item list \<Rightarrow> nat \<Rightarrow> nat \<Rightarrow> pins_page" where
  "page_of all start n =
     (let page = take n (drop start all); more = (start + n < length all)
      in \<lparr>pg_items = page, pg_more = more, pg_next = (if more \<and> page \<noteq> [] then Some (encodePinsCursor (last page)) else None)\<rparr>)"

definition handlePins :: "(int \<Rightarrow> int) \<Rightarrow> l2 \<Rightarrow> pins_query \<Rightarrow> string + pins_page" where
  "handlePins ulower l q =
     (case resolvePinsPathFilter ulower (pq_path q) of
        None \<Rightarrow> Inl ''unknown agentpedia path''
      | Some path \<Rightarrow>
          (case since_param (trim_space (pq_since q)) of
             None \<Rightarrow> Inl ''invalid since (unix seconds)''
           | Some since \<Rightarrow>
               (case size_param (trim_space (pq_size q)) of
                  None \<Rightarrow> Inl ''invalid size (1-200)''
                | Some n \<Rightarrow>
                    (case cursor_param (trim_space (pq_cursor q)) of
                       None \<Rightarrow> Inl ''invalid cursor''
                     | Some key \<Rightarrow>
                         let all = pins_feed l path since;
                             start = (if pq_cursor q \<noteq> '''' then length (takeWhile (\<lambda>i. \<not> pinsOrder key i) all) else 0)
                         in Inr (page_of all start n)))))"

section \<open>The entry list\<close>

record entry_list_item =
  el_lang :: string
  el_slug :: string
  el_key :: string
  el_head :: string
  el_status :: entry_status
  el_title :: string
  el_updated :: int

definition entry_list_item_of :: "l2 \<Rightarrow> string \<times> entry_view \<Rightarrow> entry_list_item" where
  "entry_list_item_of l kv =
     (let key = fst kv; m = meta_of l (ew_head (snd kv)) in
      \<lparr>el_lang = takeWhile (\<lambda>c. c \<noteq> CHR '':'') key, el_slug = tl (dropWhile (\<lambda>c. c \<noteq> CHR '':'') key), el_key = key,
       el_head = ew_head (snd kv), el_status = ew_status (snd kv), el_title = pm_title m, el_updated = pm_height m\<rparr>)"

text \<open>The entries in some order of the map; a key without a colon is left out.\<close>

definition entryListItems :: "(string \<times> entry_view) list \<Rightarrow> string \<Rightarrow> l2 \<Rightarrow> entry_list_item list" where
  "entryListItems iter lang l =
     filter (\<lambda>i. lang = '''' \<or> el_lang i = lang)
       (map (entry_list_item_of l) (filter (\<lambda>kv. CHR '':'' \<in> set (fst kv)) iter))"

definition graveyardSummary :: "l2 \<Rightarrow> nat \<times> (string, int) gomap" where
  "graveyardSummary l = (length (vw_graveyard (l2_view l)), foldl (\<lambda>m g. incr (snd g) m) [] (vw_graveyard (l2_view l)))"

record list_query =
  lq_lang :: string
  lq_sort :: string
  lq_cursor :: string
  lq_limit :: string

record list_page =
  lp_total :: nat
  lp_items :: "entry_list_item list"
  lp_cursor :: string
  lp_sort :: string
  lp_graveyard :: "nat \<times> (string, int) gomap"

definition list_less :: "string \<Rightarrow> entry_list_item \<Rightarrow> entry_list_item \<Rightarrow> bool" where
  "list_less srt a b = (if srt = ''updated'' then el_updated b < el_updated a else string_less (el_key a) (el_key b))"

definition limit_of :: "string \<Rightarrow> int" where
  "limit_of v = (if v = '''' then 50 else case parse_int64 v of None \<Rightarrow> 50 | Some n \<Rightarrow> if 0 < n \<and> n \<le> 200 then n else 50)"

definition offset_of :: "string \<Rightarrow> int" where
  "offset_of c = (if c = '''' then 0 else atoi_value c)"

text \<open>The page of the sorted items; \<open>None\<close> is a panic of the slice expression.\<close>

definition entry_page :: "(nat \<times> (string, int) gomap) \<Rightarrow> list_query \<Rightarrow> entry_list_item list \<Rightarrow> list_page option" where
  "entry_page grave q items =
     (let offset = offset_of (lq_cursor q); last = wrap64 (offset + limit_of (lq_limit q));
          more = (last < int (length items)); stop = (if more then last else int (length items))
      in if 0 \<le> offset \<and> offset \<le> stop
         then Some \<lparr>lp_total = length items, lp_items = take (nat (stop - offset)) (drop (nat offset) items),
                lp_cursor = (if more then show_int last else ''''), lp_sort = (if lq_sort q = '''' then ''updated'' else lq_sort q),
                lp_graveyard = grave\<rparr>
         else None)"

text \<open>
  \<open>handleEntryList\<close>: the items in any order of the map, sorted by an unstable sort, so rows of the same
  height come in any order.
\<close>

inductive handleEntryList :: "l2 \<Rightarrow> list_query \<Rightarrow> list_page option \<Rightarrow> bool" for l q where
  "mset iter = mset (vw_entries (l2_view l)) \<Longrightarrow> mset items = mset (entryListItems iter (lq_lang q) l) \<Longrightarrow>
   sorted_wrt (\<lambda>a b. \<not> list_less (if lq_sort q = '''' then ''updated'' else lq_sort q) b a) items \<Longrightarrow>
   handleEntryList l q (entry_page (graveyardSummary l) q items)"

end
