(* ===== verification/PediaFeedProps.thy ===== *)
theory PediaFeedProps
  imports PediaFeed
begin

text \<open>
  What the read side promises: the cursor of the pins feed reads back, a page continues exactly behind
  its cursor, and a walk over the pages neither skips nor repeats a row while the stream grows; the
  entry list, whose cursor is an offset, panics on offsets out of range.
\<close>

section \<open>Cursors read back\<close>

lemma url_visible: "list_all (\<lambda>c. ascii c \<and> \<not> is_space (byte c)) (''k:'' @ url_alphabet)"
  by code_simp

lemma cursor_visible: "trim_space (''k:'' @ raw_url_encode s) = ''k:'' @ raw_url_encode s"
  using url_visible url64.encode_letters [of s] by (intro trim_visible) (auto simp: list_all_iff raw_url_encode_def)

definition small :: "int \<Rightarrow> bool" where
  "small n \<longleftrightarrow> \<bar>n\<bar> \<le> 2 ^ 53"

lemma small_number: "small n \<Longrightarrow> parse_f64 (show_int n) = Some (of_int n) \<and> f64_to_int64 (of_int n) = n"
proof -
  assume s: "small n"
  then have "int64_range n" by (auto simp: small_def int64_range_def min_int64_def max_int64_def)
  with s show ?thesis by (simp add: small_def parse_show_int round64_exact f64_to_int64_of_int)
qed

text \<open>A row whose key fits a \<open>float64\<close> and whose pin id is UTF-8.\<close>

definition row_ok :: "pins_item \<Rightarrow> bool" where
  "row_ok i \<longleftrightarrow> small (it_ts i) \<and> small (it_height i) \<and> small (it_tx i) \<and> clean (it_pin i) = it_pin i"

lemma cursor_reads_back:
  assumes "row_ok i"
  shows "decodePinsCursor (encodePinsCursor i) = Some (key_item (it_ts i) (it_height i) (it_tx i) (it_pin i))"
proof -
  let ?ts = "[show_int (it_ts i), show_int (it_height i), show_int (it_tx i), go_json_str (it_pin i)]"
  let ?vs = "[JNum (show_int (it_ts i)), JNum (show_int (it_height i)), JNum (show_int (it_tx i)), JStr (it_pin i)]"
  have n: "parse_f64 (show_int n) = Some (of_int n)" "f64_to_int64 (of_int n) = n"
    if "n \<in> {it_ts i, it_height i, it_tx i}" for n
    using assms that small_number unfolding row_ok_def by blast+
  have "list_all2 reads_as ?ts ?vs"
    using reads_int reads_str [of "it_pin i"] assms by (simp add: row_ok_def)
  then have "decode_json (marshal_array ?ts) = Some (JArr ?vs, '''')" by (rule decode_array) simp
  moreover have "floats (JArr ?vs) = Some (AArr [ANum (of_int (it_ts i)), ANum (of_int (it_height i)), ANum (of_int (it_tx i)), AStr (it_pin i)])"
    by (simp add: n)
  ultimately have "Option.bind (unmarshal_array (marshal_array ?ts)) cursor_tuple
      = Some (key_item (it_ts i) (it_height i) (it_tx i) (it_pin i))"
    by (simp add: unmarshal_array_def skip_ws_def cursor_tuple_def n)
  moreover have "has_prefix (''k:'' @ u) ''k:''" for u by (simp add: has_prefix_def)
  ultimately show ?thesis
    unfolding decodePinsCursor_def encodePinsCursor_def cursor_visible Let_def
    by (simp add: raw_url_decode_encode)
qed

text \<open>
  C26: The cursor of the pins feed is opaque and exact. A cursor made from a row whose time stamp, height
  and index are at most \<open>2 ^ 53\<close> and whose pin id is UTF-8 decodes to the key of that row, and resumes
  behind the same rows as the row itself.
\<close>

theorem cursor_roundtrip:
  assumes "small (it_ts i)" "small (it_height i)" "small (it_tx i)" "clean (it_pin i) = it_pin i"
  shows "\<exists>k. decodePinsCursor (encodePinsCursor i) = Some k \<and> it_ts k = it_ts i \<and> it_height k = it_height i
     \<and> it_tx k = it_tx i \<and> it_pin k = it_pin i \<and> pinsOrder k = pinsOrder i"
  using cursor_reads_back [of i] assms by (simp add: row_ok_def key_item_def pinsOrder_def fun_eq_iff)

section \<open>Sorted rows\<close>

definition rows_ok :: "l2 \<Rightarrow> bool" where
  "rows_ok l \<longleftrightarrow> distinct (map pe_pin (l2_events l)) \<and> (\<forall>i \<in> set (pinsSnapshot l). row_ok i)"

lemma snapshot_pins: "map it_pin (pinsSnapshot l) = map pe_pin (l2_events l)"
  by (simp add: pinsSnapshot_def event_row_def Let_def)

lemma sorted_takeWhile: "sorted_wrt P xs \<Longrightarrow> sorted_wrt P (takeWhile Q xs)"
  by (metis sorted_wrt_append takeWhile_dropWhile_id)

lemma feed_sorted:
  assumes "rows_ok l" shows "sorted_wrt pinsOrder (pins_feed l path since)"
proof -
  let ?rows = "if path \<noteq> '''' then filter (\<lambda>i. it_path i = path) (pinsSnapshot l) else pinsSnapshot l"
  have d: "distinct (map it_pin (slice_stable pinsOrder ?rows))"
    using assms unfolding rows_ok_def snapshot_pins [symmetric] by (auto simp: distinct_map_filter)
  have "sorted_wrt pinsOrder xs" if "sorted_wrt (\<lambda>a b. \<not> pinsOrder b a) xs" "distinct (map it_pin xs)" for xs
    using that pins_ord.total by (induction xs) fastforce+
  from this [OF pins_ord.sorted d] show ?thesis
    by (simp add: pins_feed_def Let_def sorted_takeWhile)
qed

text \<open>The feed is the rows of the path not older than the bound.\<close>

lemma order_ts: "pinsOrder a b \<Longrightarrow> it_ts b \<le> it_ts a"
  by (auto simp: pinsOrder_def split: if_splits)

lemma takeWhile_sorted:
  assumes "sorted_wrt R xs" "\<And>a b. R a b \<Longrightarrow> P b \<Longrightarrow> P a" shows "takeWhile P xs = filter P xs"
  using assms(1)
proof (induction xs)
  case (Cons x xs)
  show ?case
  proof (cases "P x")
    case False
    with Cons.prems assms(2) have "\<forall>y \<in> set xs. \<not> P y" by auto
    with False show ?thesis by simp
  qed (use Cons in auto)
qed simp

lemma feed_rows:
  assumes "rows_ok l"
  shows "i \<in> set (pins_feed l path since) \<longleftrightarrow> i \<in> set (pinsSnapshot l) \<and> (path \<noteq> '''' \<longrightarrow> it_path i = path) \<and> (0 < since \<longrightarrow> since \<le> it_ts i)"
proof -
  have f: "pins_feed l path since = (if 0 < since then filter (\<lambda>i. \<not> it_ts i < since) (pins_feed l path 0) else pins_feed l path 0)"
    using takeWhile_sorted [OF feed_sorted [OF assms, of path 0], of "\<lambda>i. \<not> it_ts i < since"] order_ts
    by (fastforce simp: pins_feed_def Let_def)
  have "set (pins_feed l path 0) = {i \<in> set (pinsSnapshot l). path \<noteq> '''' \<longrightarrow> it_path i = path}"
    by (auto simp: pins_feed_def Let_def)
  then show ?thesis by (subst f) auto
qed

lemma drop_until:
  assumes "sorted_wrt pinsOrder xs"
  shows "drop (length (takeWhile (\<lambda>i. \<not> pinsOrder k i) xs)) xs = filter (pinsOrder k) xs"
proof -
  have "filter (pinsOrder k) ys = ys" if "sorted_wrt pinsOrder ys" "ys \<noteq> [] \<Longrightarrow> pinsOrder k (hd ys)" for ys
    using that pins_ord.trans by (cases ys) (auto simp: filter_id_conv)
  from this [of "dropWhile (\<lambda>i. \<not> pinsOrder k i) xs"] assms
  have "filter (pinsOrder k) (dropWhile (\<lambda>i. \<not> pinsOrder k i) xs) = dropWhile (\<lambda>i. \<not> pinsOrder k i) xs"
    by (metis (mono_tags, lifting) hd_dropWhile sorted_wrt_append takeWhile_dropWhile_id)
  moreover have "filter (pinsOrder k) xs = filter (pinsOrder k) (takeWhile (\<lambda>i. \<not> pinsOrder k i) xs)
      @ filter (pinsOrder k) (dropWhile (\<lambda>i. \<not> pinsOrder k i) xs)"
    by (metis filter_append takeWhile_dropWhile_id)
  moreover have "filter (pinsOrder k) (takeWhile (\<lambda>i. \<not> pinsOrder k i) xs) = []"
    by (auto simp: filter_empty_conv dest: set_takeWhileD)
  ultimately show ?thesis by (simp add: dropWhile_eq_drop)
qed

section \<open>Pages\<close>

text \<open>The rows behind a cursor: all of them without one.\<close>

definition behind :: "pins_item option \<Rightarrow> pins_item \<Rightarrow> bool" where
  "behind c i \<longleftrightarrow> (case c of None \<Rightarrow> True | Some k \<Rightarrow> pinsOrder k i)"

definition cursor_text :: "pins_item option \<Rightarrow> string" where
  "cursor_text c = (case c of None \<Rightarrow> '''' | Some k \<Rightarrow> encodePinsCursor k)"

definition first_page :: "nat \<Rightarrow> pins_item list \<Rightarrow> pins_page" where
  "first_page n xs = \<lparr>pg_items = take n xs, pg_more = (n < length xs),
     pg_next = (if n < length xs then Some (encodePinsCursor (last (take n xs))) else None)\<rparr>"

lemma size_positive: "size_param s = Some n \<Longrightarrow> 0 < n \<and> n \<le> 200"
  by (auto simp: size_param_def pinsMaxSize_def split: if_splits option.splits)

lemma page_behind:
  assumes "rows_ok l" "\<And>k. c = Some k \<Longrightarrow> row_ok k"
    and "resolvePinsPathFilter ulower (pq_path q) = Some path" "since_param (trim_space (pq_since q)) = Some since"
    and "size_param (trim_space (pq_size q)) = Some n"
  shows "handlePins ulower l (q\<lparr>pq_cursor := cursor_text c\<rparr>) = Inr (first_page n (filter (behind c) (pins_feed l path since)))"
proof -
  let ?all = "pins_feed l path since"
  have page: "page_of xs s n = first_page n (drop s xs)" if "0 < n" for xs :: "pins_item list" and s
    using that by (auto simp: page_of_def first_page_def Let_def)
  have n: "0 < n" using size_positive [OF assms(5)] by simp
  have vis: "trim_space (cursor_text c) = cursor_text c"
    using cursor_visible trim_visible [of "[]"] by (auto simp: cursor_text_def encodePinsCursor_def split: option.split)
  show ?thesis
  proof (cases c)
    case None
    then have "filter (behind c) ?all = ?all" by (simp add: behind_def)
    with None n vis show ?thesis
      by (simp add: handlePins_def assms(3,4,5) cursor_text_def cursor_param_def page Let_def)
  next
    case (Some k)
    with assms(2) have "decodePinsCursor (cursor_text c) = Some (key_item (it_ts k) (it_height k) (it_tx k) (it_pin k))"
      by (simp add: cursor_text_def cursor_reads_back)
    moreover have "pinsOrder (key_item (it_ts k) (it_height k) (it_tx k) (it_pin k)) = pinsOrder k"
      by (simp add: key_item_def pinsOrder_def fun_eq_iff)
    moreover have "cursor_text c \<noteq> ''''" using Some by (simp add: cursor_text_def encodePinsCursor_def)
    moreover have "behind c = pinsOrder k" using Some by (simp add: behind_def fun_eq_iff)
    ultimately show ?thesis
      using n vis by (simp add: handlePins_def assms(3,4,5) cursor_param_def page drop_until [OF feed_sorted [OF assms(1)]] Let_def)
  qed
qed

text \<open>
  A client that follows the cursors: each page may be answered by a later state of the stream, the last
  one says that there is no more.
\<close>

inductive pins_walk :: "(int \<Rightarrow> int) \<Rightarrow> pins_query \<Rightarrow> string \<Rightarrow> l2 list \<Rightarrow> pins_item list list \<Rightarrow> bool" for ulower q where
  walk_last: "handlePins ulower l (q\<lparr>pq_cursor := c\<rparr>) = Inr p \<Longrightarrow> \<not> pg_more p \<Longrightarrow> pins_walk ulower q c [l] [pg_items p]"
| walk_next: "handlePins ulower l (q\<lparr>pq_cursor := c\<rparr>) = Inr p \<Longrightarrow> pg_next p = Some c' \<Longrightarrow> pins_walk ulower q c' ls ps \<Longrightarrow>
    pins_walk ulower q c (l # ls) (pg_items p # ps)"

lemma take_split:
  assumes "sorted_wrt pinsOrder xs" "n < length xs" "0 < n"
  shows "last (take n xs) \<in> set xs" "x \<in> set (take n xs) \<Longrightarrow> x = last (take n xs) \<or> pinsOrder x (last (take n xs))"
    "x \<in> set (drop n xs) \<Longrightarrow> pinsOrder (last (take n xs)) x"
proof -
  have ne: "take n xs \<noteq> []" using assms(2,3) by auto
  then have in_take: "last (take n xs) \<in> set (take n xs)" by simp
  then show "last (take n xs) \<in> set xs" by (rule in_set_takeD)
  have s: "sorted_wrt pinsOrder (butlast (take n xs) @ [last (take n xs)])"
    using assms(1) ne by (simp add: sorted_wrt_take)
  show "x = last (take n xs) \<or> pinsOrder x (last (take n xs))" if "x \<in> set (take n xs)"
  proof -
    from ne that have "x \<in> set (butlast (take n xs) @ [last (take n xs)])" by simp
    with s show ?thesis by (auto simp: sorted_wrt_append)
  qed
  have "sorted_wrt pinsOrder (take n xs @ drop n xs)" using assms(1) by simp
  with in_take show "pinsOrder (last (take n xs)) x" if "x \<in> set (drop n xs)"
    using that by (simp only: sorted_wrt_append)
qed

lemma walk_rows:
  assumes "pins_walk ulower q ct ls ps" "ct = cursor_text c" "\<And>k. c = Some k \<Longrightarrow> row_ok k" "\<forall>l \<in> set ls. rows_ok l"
    and par: "resolvePinsPathFilter ulower (pq_path q) = Some path" "since_param (trim_space (pq_since q)) = Some since"
      "size_param (trim_space (pq_size q)) = Some n"
  shows "sorted_wrt pinsOrder (concat ps) \<and> (\<forall>i \<in> set (concat ps). behind c i \<and> (\<exists>l \<in> set ls. i \<in> set (pins_feed l path since)))
     \<and> (\<forall>i. behind c i \<and> (\<forall>l \<in> set ls. i \<in> set (pins_feed l path since)) \<longrightarrow> i \<in> set (concat ps))"
  using assms(1-4)
proof (induction arbitrary: c rule: pins_walk.induct)
  case (walk_last l ct p)
  from walk_last.prems page_behind [OF _ _ par, of l c] walk_last.hyps
  have p: "p = first_page n (filter (behind c) (pins_feed l path since))" "\<not> pg_more p" by auto
  then have "pg_items p = filter (behind c) (pins_feed l path since)" by (simp add: first_page_def)
  with walk_last.prems show ?case by (auto simp: sorted_wrt_filter feed_sorted)
next
  case (walk_next l ct p c' ls ps)
  let ?F = "filter (behind c) (pins_feed l path since)"
  from walk_next.prems page_behind [OF _ _ par, of l c] walk_next.hyps(1,2)
  have p: "p = first_page n ?F" "pg_next p = Some c'" by auto
  then have len: "n < length ?F" and c': "c' = cursor_text (Some (last (take n ?F)))" and it: "pg_items p = take n ?F"
    by (auto simp: first_page_def cursor_text_def split: if_splits)
  have s: "sorted_wrt pinsOrder ?F" using walk_next.prems by (simp add: sorted_wrt_filter feed_sorted)
  have n: "0 < n" using size_positive [OF par(3)] by simp
  define k where "k = last (take n ?F)"
  note split = take_split [OF s len n, folded k_def]
  have "k \<in> set (pinsSnapshot l)" "behind c k"
    using split(1) feed_rows [of l k path since] walk_next.prems(3) by auto
  then have k: "row_ok k" "behind c k" using walk_next.prems(3) by (auto simp: rows_ok_def)
  have rest: "sorted_wrt pinsOrder (concat ps)"
    "\<And>i. i \<in> set (concat ps) \<Longrightarrow> pinsOrder k i \<and> (\<exists>l \<in> set ls. i \<in> set (pins_feed l path since))"
    "\<And>i. pinsOrder k i \<Longrightarrow> (\<forall>l \<in> set ls. i \<in> set (pins_feed l path since)) \<Longrightarrow> i \<in> set (concat ps)"
    using walk_next.IH [of "Some k"] c' k(1) walk_next.prems(3) by (auto simp: behind_def k_def)
  have mono: "behind c i" if "pinsOrder k i" for i
    using k(2) that pins_ord.trans by (auto simp: behind_def split: option.splits)
  have "pinsOrder x y" if "x \<in> set (take n ?F)" "y \<in> set (concat ps)" for x y
    using split(2) [OF that(1)] rest(2) [OF that(2)] pins_ord.trans by blast
  then have all: "sorted_wrt pinsOrder (take n ?F @ concat ps)"
    unfolding sorted_wrt_append using sorted_wrt_take [OF s] rest(1) by blast
  have origin: "behind c i \<and> (\<exists>m \<in> set (l # ls). i \<in> set (pins_feed m path since))" if "i \<in> set (take n ?F @ concat ps)" for i
    using that rest(2) [of i] mono in_set_takeD [of i n ?F] by auto
  have gap: "i \<in> set (take n ?F @ concat ps)" if "behind c i" "\<forall>m \<in> set (l # ls). i \<in> set (pins_feed m path since)" for i
  proof -
    have "i \<in> set ?F" using that by simp
    then have "i \<in> set (take n ?F) \<or> i \<in> set (drop n ?F)" by (metis Un_iff append_take_drop_id set_append)
    then show ?thesis using split(3) rest(3) that(2) by auto
  qed
  show ?case unfolding concat.simps it using all origin gap by blast
qed

text \<open>
  C25: Walking the pins feed neither skips nor repeats a row, also while new pins arrive. When a client
  follows the cursors to the end, each page answered by any state of the stream, the rows come
  strictly in feed order, every row belongs to the feed of one of the states, and every row that is
  in the feed of all of them comes. The states have distinct pins, and rows whose keys fit a \<open>float64\<close>
  and whose pin ids are UTF-8.
\<close>

theorem pins_walk_exact:
  assumes "pins_walk ulower q '''' ls ps" "\<forall>l \<in> set ls. rows_ok l"
    and "resolvePinsPathFilter ulower (pq_path q) = Some path" "since_param (trim_space (pq_since q)) = Some since"
    and "size_param (trim_space (pq_size q)) = Some n"
  shows "sorted_wrt pinsOrder (concat ps) \<and> (\<forall>i \<in> set (concat ps). \<exists>l \<in> set ls. i \<in> set (pins_feed l path since))
     \<and> (\<forall>i. (\<forall>l \<in> set ls. i \<in> set (pins_feed l path since)) \<longrightarrow> i \<in> set (concat ps))"
  using walk_rows [where c = None, OF assms(1) _ _ assms(2-5)] by (simp add: cursor_text_def behind_def)

lemma filter_after:
  assumes "sorted_wrt pinsOrder xs" "n < length xs" "0 < n"
  shows "filter (pinsOrder (last (take n xs))) xs = drop n xs"
proof -
  note split = take_split [OF assms]
  have "\<not> pinsOrder (last (take n xs)) x" if "x \<in> set (take n xs)" for x
    using split(2) [OF that] pins_ord.irrefl pins_ord.asym by blast
  then have "filter (pinsOrder (last (take n xs))) (take n xs) = []" by (simp add: filter_empty_conv)
  moreover have "filter (pinsOrder (last (take n xs))) (drop n xs) = drop n xs"
    using split(3) by (simp add: filter_id_conv)
  moreover have "filter P xs = filter P (take n xs) @ filter P (drop n xs)" for P
    by (metis append_take_drop_id filter_append)
  ultimately show ?thesis by simp
qed

lemma walk_exists:
  assumes "rows_ok l" and par: "resolvePinsPathFilter ulower (pq_path q) = Some path"
      "since_param (trim_space (pq_since q)) = Some since" "size_param (trim_space (pq_size q)) = Some n"
    and "\<And>k. c = Some k \<Longrightarrow> row_ok k"
  shows "\<exists>ps. pins_walk ulower q (cursor_text c) (replicate (length ps) l) ps \<and> concat ps = filter (behind c) (pins_feed l path since)"
  using assms(5)
proof (induction "length (filter (behind c) (pins_feed l path since))" arbitrary: c rule: less_induct)
  case less
  let ?F = "filter (behind c) (pins_feed l path since)"
  have page: "handlePins ulower l (q\<lparr>pq_cursor := cursor_text c\<rparr>) = Inr (first_page n ?F)"
    by (rule page_behind [OF assms(1) less.prems par])
  have n: "0 < n" using size_positive [OF par(3)] by simp
  show ?case
  proof (cases "n < length ?F")
    case False
    then have "\<not> pg_more (first_page n ?F)" "pg_items (first_page n ?F) = ?F" by (simp_all add: first_page_def)
    with walk_last [OF page] have "pins_walk ulower q (cursor_text c) (replicate (length [?F]) l) [?F]" by simp
    then show ?thesis by (intro exI [of _ "[?F]"]) simp
  next
    case True
    have s: "sorted_wrt pinsOrder ?F" using assms(1) by (simp add: sorted_wrt_filter feed_sorted)
    define k where "k = last (take n ?F)"
    have k: "k \<in> set ?F" "filter (pinsOrder k) ?F = drop n ?F"
      using take_split(1) [OF s True n] filter_after [OF s True n] by (simp_all add: k_def)
    then have "row_ok k" using assms(1) feed_rows [OF assms(1), of k path since] by (simp add: rows_ok_def)
    have "behind c i" if "pinsOrder k i" for i
      using k(1) that pins_ord.trans by (auto simp: behind_def split: option.splits)
    then have "filter (behind (Some k)) (pins_feed l path since) = filter (pinsOrder k) ?F"
      by (auto simp: behind_def intro: filter_cong)
    with k(2) have d: "filter (behind (Some k)) (pins_feed l path since) = drop n ?F" by simp
    have "length (drop n ?F) < length ?F" using True n by simp
    with less.hyps [of "Some k"] \<open>row_ok k\<close> d obtain ps where
      ps: "pins_walk ulower q (cursor_text (Some k)) (replicate (length ps) l) ps" "concat ps = drop n ?F"
      by auto
    have "pg_next (first_page n ?F) = Some (cursor_text (Some k))" "pg_items (first_page n ?F) = take n ?F"
      using True by (simp_all add: first_page_def cursor_text_def k_def)
    with walk_next [OF page _ ps(1)] have "pins_walk ulower q (cursor_text c) (replicate (length (take n ?F # ps)) l) (take n ?F # ps)"
      by simp
    with ps(2) show ?thesis by (intro exI [of _ "take n ?F # ps"]) simp
  qed
qed

text \<open>
  On a stream that does not change the walk ends, and its pages in sequence are the feed: the rows of
  the path that are not older than the bound, newest first.
\<close>

theorem pins_walk_total:
  assumes "rows_ok l" "resolvePinsPathFilter ulower (pq_path q) = Some path"
    and "since_param (trim_space (pq_since q)) = Some since" "size_param (trim_space (pq_size q)) = Some n"
  shows "\<exists>ps. pins_walk ulower q '''' (replicate (length ps) l) ps \<and> concat ps = pins_feed l path since
     \<and> sorted_wrt pinsOrder (concat ps)
     \<and> set (concat ps) = {i \<in> set (pinsSnapshot l). (path \<noteq> '''' \<longrightarrow> it_path i = path) \<and> (0 < since \<longrightarrow> since \<le> it_ts i)}"
proof -
  obtain ps where "pins_walk ulower q '''' (replicate (length ps) l) ps" "concat ps = pins_feed l path since"
    using walk_exists [OF assms, of None] by (auto simp: cursor_text_def behind_def)
  moreover have "set (pins_feed l path since) = {i \<in> set (pinsSnapshot l). (path \<noteq> '''' \<longrightarrow> it_path i = path) \<and> (0 < since \<longrightarrow> since \<le> it_ts i)}"
    using feed_rows [OF assms(1)] by blast
  ultimately show ?thesis
    using feed_sorted [OF assms(1), of path since] by (intro exI [of _ ps] conjI) (simp_all del: set_concat)
qed

section \<open>A small stream\<close>

definition demo_row_event :: "string \<Rightarrow> pedia_event" where
  "demo_row_event pin = \<lparr>pe_pin = pin, pe_path = PediaRev, pe_height = 7, pe_tx = 0, pe_sender = ''m'', pe_payload = [],
     pe_timestamp = 9, pe_address = '''', pe_chain = ''mvc''\<rparr>"

definition demo_rows :: l2 where
  "demo_rows = NewL2\<lparr>l2_events := [demo_row_event ''a'', demo_row_event ''b'']\<rparr>"

definition demo_query :: pins_query where
  "demo_query = \<lparr>pq_path = ''rev/'', pq_since = '''', pq_size = ''1'', pq_cursor = ''''\<rparr>"

lemma demo_query_ok: "resolvePinsPathFilter (\<lambda>r. r) (pq_path demo_query) = Some PediaRev"
  "since_param (trim_space (pq_since demo_query)) = Some 0" "size_param (trim_space (pq_size demo_query)) = Some 1"
  by code_simp+

lemma demo_rows_ok: "rows_ok demo_rows"
proof -
  have "clean ''a'' = ''a''" "clean ''b'' = ''b''" by code_simp+
  then show ?thesis
    by (simp add: rows_ok_def demo_rows_def NewL2_def demo_row_event_def pinsSnapshot_def event_row_def row_ok_def small_def
        meta_of_def no_meta_def Let_def)
qed

theorem cursor_roundtrip_witness:
  "\<exists>k. decodePinsCursor (encodePinsCursor (key_item 1700000000 (-1) 3 ''ai0'')) = Some k \<and> it_ts k = 1700000000"
proof -
  have "clean ''ai0'' = ''ai0''" by code_simp
  then show ?thesis
    using cursor_roundtrip [of "key_item 1700000000 (-1) 3 ''ai0''"] by (auto simp: key_item_def small_def)
qed

theorem pins_walk_total_witness:
  "\<exists>ps. pins_walk (\<lambda>r. r) demo_query '''' (replicate (length ps) demo_rows) ps \<and> concat ps = pins_feed demo_rows PediaRev 0"
  using pins_walk_total [OF demo_rows_ok demo_query_ok] by blast

theorem pins_walk_exact_witness:
  "\<exists>ps. pins_walk (\<lambda>r. r) demo_query '''' (replicate (length ps) demo_rows) ps \<and> sorted_wrt pinsOrder (concat ps)"
proof -
  obtain ps where w: "pins_walk (\<lambda>r. r) demo_query '''' (replicate (length ps) demo_rows) ps"
    using walk_exists [OF demo_rows_ok demo_query_ok, of None] by (auto simp: cursor_text_def)
  from pins_walk_exact [OF w _ demo_query_ok] demo_rows_ok have "sorted_wrt pinsOrder (concat ps)" by simp
  with w show ?thesis by blast
qed

section \<open>The entry list\<close>

lemma limit_range: "0 < limit_of v" "limit_of v \<le> 200"
  by (auto simp: limit_of_def split: option.split)

lemma offset_range: "offset_of c \<le> max_int64"
  by (auto simp: offset_of_def atoi_value_def max_int64_def min_int64_def split: option.split)

text \<open>
  C27: The entry list answers exactly the offsets from zero to the number of items, with the items from
  there on. Any other cursor, which a client may send, makes the slice expression panic.
\<close>

theorem entry_page_offsets:
  assumes "int (length items) + 200 \<le> max_int64"
  shows "case entry_page grave q items of
      None \<Rightarrow> offset_of (lq_cursor q) < 0 \<or> int (length items) < offset_of (lq_cursor q)
    | Some p \<Rightarrow> 0 \<le> offset_of (lq_cursor q) \<and> offset_of (lq_cursor q) \<le> int (length items)
        \<and> lp_items p = take (nat (limit_of (lq_limit q))) (drop (nat (offset_of (lq_cursor q))) items)"
proof -
  let ?o = "offset_of (lq_cursor q)" and ?n = "limit_of (lq_limit q)" and ?len = "int (length items)"
  note r = limit_range [of "lq_limit q"] offset_range [of "lq_cursor q"]
  consider "?o < 0" | "0 \<le> ?o" "?o \<le> ?len" | "?len < ?o" by linarith
  then show ?thesis
  proof cases
    case 1
    then show ?thesis by (simp add: entry_page_def Let_def)
  next
    case 2
    then have "int64_range (?o + ?n)" using r assms by (simp add: int64_range_def min_int64_def)
    then have "wrap64 (?o + ?n) = ?o + ?n" by (rule wrap64_id)
    with 2 r show ?thesis
      by (auto simp: entry_page_def Let_def nat_diff_distrib intro: arg_cong2 [where f = take])
  next
    case 3
    have "wrap64 (?o + ?n) < ?o \<or> ?len \<le> wrap64 (?o + ?n)"
    proof (cases "?o + ?n \<le> max_int64")
      case True
      then have "int64_range (?o + ?n)" using 3 r by (simp add: int64_range_def min_int64_def)
      then show ?thesis using 3 r by simp
    next
      case False
      then have "wrap64 (?o + ?n - 2 ^ 64) = ?o + ?n - 2 ^ 64"
        using r by (intro wrap64_id) (simp add: int64_range_def max_int64_def min_int64_def)
      moreover have "wrap64 (?o + ?n - 2 ^ 64) = wrap64 (?o + ?n)"
        using minus_mod_self2 [of "?o + ?n + 2 ^ 63" "2 ^ 64 :: int"] by (simp add: wrap64_def algebra_simps)
      ultimately show ?thesis using r by simp
    qed
    with 3 show ?thesis by (auto simp: entry_page_def Let_def)
  qed
qed

definition demo_item :: "string \<Rightarrow> entry_list_item" where
  "demo_item key = \<lparr>el_lang = ''en'', el_slug = key, el_key = ''en:'' @ key, el_head = ''h'', el_status = Normal, el_title = '''', el_updated = 0\<rparr>"

theorem entry_page_offsets_witness:
  "entry_page (0, []) \<lparr>lq_lang = '''', lq_sort = '''', lq_cursor = ''3'', lq_limit = ''''\<rparr> [demo_item ''a'', demo_item ''b''] = None"
proof -
  let ?q = "\<lparr>lq_lang = '''', lq_sort = '''', lq_cursor = ''3'', lq_limit = ''''\<rparr>"
  have "offset_of (lq_cursor ?q) = 3" by code_simp
  with entry_page_offsets [where items = "[demo_item ''a'', demo_item ''b'']" and grave = "(0, [])" and q = ?q] show ?thesis
    by (cases "entry_page (0, []) ?q [demo_item ''a'', demo_item ''b'']") (simp_all add: max_int64_def)
qed

text \<open>A view with two entries of the same height.\<close>

definition demo_view_entry :: entry_view where
  "demo_view_entry = \<lparr>ew_head = ''h'', ew_status = Normal, ew_history = [''h''], ew_disputed = [], ew_contests = [], ew_redirect = None,
     ew_frozenAt = '''', ew_baselineRev = '''', ew_versions = []\<rparr>"

definition demo_entries :: l2 where
  "demo_entries = NewL2\<lparr>l2_view := empty_view\<lparr>vw_entries := [(''en:a'', demo_view_entry), (''en:b'', demo_view_entry)]\<rparr>\<rparr>"

definition demo_list_query :: "string \<Rightarrow> list_query" where
  "demo_list_query c = \<lparr>lq_lang = '''', lq_sort = '''', lq_cursor = c, lq_limit = ''1''\<rparr>"

text \<open>
  The offset cursor of the entry list does not page a list whose order is not fixed. Two entries have
  the same height; the first page may show \<open>a\<close> and the second page, at the cursor of the first and the
  last of the list, \<open>a\<close> again, so a client never sees \<open>b\<close> although nothing changed.
\<close>

theorem entry_list_skips:
  "\<exists>p1 p2. handleEntryList demo_entries (demo_list_query '''') (Some p1)
     \<and> handleEntryList demo_entries (demo_list_query (lp_cursor p1)) (Some p2)
     \<and> lp_cursor p1 \<noteq> '''' \<and> lp_cursor p2 = '''' \<and> lp_total p1 = 2 \<and> lp_total p2 = 2
     \<and> map el_key (lp_items p1) = [''en:a''] \<and> map el_key (lp_items p2) = [''en:a'']"
proof -
  define a where "a = demo_item ''a''"
  define b where "b = demo_item ''b''"
  have items: "entryListItems (vw_entries (l2_view demo_entries)) '''' demo_entries = [a, b]"
    unfolding a_def b_def by code_simp
  have run: "handleEntryList demo_entries (demo_list_query c) (entry_page (graveyardSummary demo_entries) (demo_list_query c) xs)"
    if "xs = [a, b] \<or> xs = [b, a]" for c xs
    by (rule handleEntryList.intros [of "vw_entries (l2_view demo_entries)"])
       (use that items in \<open>auto simp: demo_list_query_def list_less_def a_def b_def demo_item_def\<close>)
  have "map_option (\<lambda>p. (lp_cursor p, lp_total p, map el_key (lp_items p)))
      (entry_page (graveyardSummary demo_entries) (demo_list_query '''') [a, b]) = Some (''1'', 2, [''en:a''])"
    unfolding a_def b_def by code_simp
  then obtain p1 where p1: "entry_page (graveyardSummary demo_entries) (demo_list_query '''') [a, b] = Some p1"
      "lp_cursor p1 = ''1''" "lp_total p1 = 2" "map el_key (lp_items p1) = [''en:a'']"
    by auto
  have "map_option (\<lambda>p. (lp_cursor p, lp_total p, map el_key (lp_items p)))
      (entry_page (graveyardSummary demo_entries) (demo_list_query ''1'') [b, a]) = Some ('''', 2, [''en:a''])"
    unfolding a_def b_def by code_simp
  then obtain p2 where p2: "entry_page (graveyardSummary demo_entries) (demo_list_query ''1'') [b, a] = Some p2"
      "lp_cursor p2 = ''''" "lp_total p2 = 2" "map el_key (lp_items p2) = [''en:a'']"
    by auto
  show ?thesis
    using run [of "[a, b]" "''''"] run [of "[b, a]" "''1''"] p1 p2 by (intro exI [of _ p1] exI [of _ p2]) simp
qed

end
