(* ===== verification/GoStruct.thy ===== *)
theory GoStruct
  imports GoJson
begin

text \<open>
  Structs in JSON: \<open>json.Marshal\<close> writes the fields of a struct in their order, \<open>json.Unmarshal\<close> takes the
  fields of an object in its order, matching names up to case. Also the cut sets of \<open>strings.Trim\<close>.
\<close>

section \<open>Trimming\<close>

definition trim_left_set :: "(char \<Rightarrow> bool) \<Rightarrow> string \<Rightarrow> string" where
  "trim_left_set cset s = dropWhile cset s"

definition trim_right_set :: "(char \<Rightarrow> bool) \<Rightarrow> string \<Rightarrow> string" where
  "trim_right_set cset s = rev (dropWhile cset (rev s))"

definition trim_set :: "(char \<Rightarrow> bool) \<Rightarrow> string \<Rightarrow> string" where
  "trim_set cset s = trim_right_set cset (trim_left_set cset s)"

section \<open>Reading a struct\<close>

text \<open>The name of a field in lower case; the long s folds to s.\<close>

fun fold_name :: "string \<Rightarrow> string" where
  "fold_name (a # b # r) =
     (if byte a = 197 \<and> byte b = 191 then CHR ''s'' # fold_name r else char_of (lower_byte (byte a)) # fold_name (b # r))"
| "fold_name [a] = [char_of (lower_byte (byte a))]"
| "fold_name [] = []"

fun fold_fields :: "('a \<Rightarrow> 'b \<Rightarrow> 'a option) \<Rightarrow> 'a \<Rightarrow> 'b list \<Rightarrow> 'a option" where
  "fold_fields f a [] = Some a"
| "fold_fields f a (x # xs) = (case f a x of None \<Rightarrow> None | Some b \<Rightarrow> fold_fields f b xs)"

text \<open>The members of an object document; a \<open>null\<close> document leaves a struct as it is.\<close>

definition object_members :: "string \<Rightarrow> jobj option" where
  "object_members raw = (case decode_json raw of
      None \<Rightarrow> None
    | Some (v, rest) \<Rightarrow>
        if skip_ws rest \<noteq> [] then None else (case v of JNull \<Rightarrow> Some [] | JObj fs \<Rightarrow> Some fs | _ \<Rightarrow> None))"

section \<open>Writing a struct\<close>

definition marshal_field :: "string \<times> string \<Rightarrow> string" where
  "marshal_field f = go_json_str (fst f) @ CHR '':'' # snd f"

definition marshal_object :: "(string \<times> string) list \<Rightarrow> string" where
  "marshal_object fs = CHR ''{'' # join_comma (map marshal_field fs) @ [CHR ''}'']"

lemma reads_true: "reads_as ''true'' (JBool True)"
  by (simp add: reads_as_def skip_ws_char is_ws_def of_char_def expect_def has_prefix_def)

text \<open>A written field and the member it is read as.\<close>

definition reads_member :: "string \<times> string \<Rightarrow> string \<times> json \<Rightarrow> bool" where
  "reads_member f g \<longleftrightarrow> fst g = clean (fst f) \<and> reads_as (snd f) (snd g)"

lemma parse_members_reads:
  "list_all2 reads_member fs gs \<Longrightarrow> fs \<noteq> [] \<Longrightarrow> length fs < k \<Longrightarrow>
     parse_members k d acc (join_comma (map marshal_field fs) @ CHR ''}'' # rest) = Some (foldl (\<lambda>a g. mput (fst g) (snd g) a) acc gs, rest)"
proof (induction fs gs arbitrary: k acc rule: list_all2_induct)
  case (Cons f fs g gs)
  then obtain j where k: "k = Suc (Suc j)" by (cases k; cases "k - 1") auto
  have rd: "parse_value (Suc j) d (snd f @ r) = Some (snd g, r)" if "follow r" for r
    using Cons.hyps(1) that by (simp add: reads_member_def reads_as_def)
  have g: "fst g = clean (fst f)" using Cons.hyps(1) by (simp add: reads_member_def)
  have key: "parse_str (concat (map (go_escape (fst f)) (runes_of (fst f))) @ CHR 0x22 # r) = Some (clean (fst f), r)" for r
    by (rule go_writer.parse_written)
  have q: "\<not> is_ws (CHR 0x22)" "\<not> is_ws (CHR '':'')" by (simp_all add: is_ws_def of_char_def)
  show ?case
  proof (cases fs)
    case Nil
    with Cons.hyps(2) rd g q show ?thesis
      by (simp add: k marshal_field_def go_json_str_def skip_ws_char key)
  next
    case (Cons f2 fs2)
    with Cons.IH [of "Suc j" "mput (fst g) (snd g) acc"] Cons.prems rd g q show ?thesis
      by (simp add: k marshal_field_def go_json_str_def skip_ws_char key)
  qed
qed simp

lemma object_written:
  assumes "list_all2 reads_member fs gs" "fs \<noteq> []"
  shows "object_members (marshal_object fs) = Some (foldl (\<lambda>a g. mput (fst g) (snd g) a) [] gs)"
proof -
  have "length fs \<le> length (join_comma (map marshal_field fs))"
    by (induction fs rule: induct_list012) (auto simp: marshal_field_def go_json_str_def)
  then have "parse_members (Suc (2 * length (marshal_object fs))) (Suc 0) [] (join_comma (map marshal_field fs) @ CHR ''}'' # [])
      = Some (foldl (\<lambda>a g. mput (fst g) (snd g) a) [] gs, [])"
    by (intro parse_members_reads [OF assms]) (simp add: marshal_object_def)
  moreover obtain r where "join_comma (map marshal_field fs) = CHR 0x22 # r"
    using assms(2) by (cases fs; cases "tl fs") (auto simp: marshal_field_def go_json_str_def)
  moreover have "\<not> is_ws (CHR 0x22)" "\<not> is_ws (CHR ''{'')" by (simp_all add: is_ws_def of_char_def)
  ultimately show ?thesis
    by (simp add: object_members_def decode_json_def marshal_object_def skip_ws_char max_nesting_def skip_ws_def)
qed

end
