(* ===== verification/Enumerate.thy ===== *)
theory Enumerate
  imports GoStruct Base64
begin

text \<open>
  The enumeration of the pools (\<open>internal/metatask/enumerate.go\<close>): the walk of one protocol path with its
  termination report, the walk of all paths, the decoding of list responses into pins, the payload
  loader and the lister that replays a frozen crawl. A lister answers requests numbered by the page of
  their walk; an answer is a page or the text of an error. Times are nanoseconds since the epoch.
\<close>

section \<open>The walk of one path\<close>

datatype termination_kind = TermEmptyPageCursorExhausted | TermFullPageNoCursor | TermEmptyPageWithCursor
  | TermListNullWithCursor | TermListNullEmptyCursor | TermListFieldMissing | TermMaxPages | TermFetchError

definition MaxPages :: nat where "MaxPages = 400"

record list_page_in =
  li_pins :: "pin list"
  li_url :: string
  li_status :: int
  li_raw :: string
  li_hash :: string
  li_fetched :: int
  li_cursorIn :: string
  li_next :: string
  li_present :: bool
  li_null :: bool
  li_cursorPresent :: bool
  li_total :: int

type_synonym lister = "nat \<Rightarrow> string \<Rightarrow> string \<Rightarrow> int \<Rightarrow> string + list_page_in"

text \<open>\<open>rp_fetched\<close> is the second of the RFC 3339 text, \<open>None\<close> for the empty text.\<close>

record page_enumeration =
  rp_path :: string
  rp_pages :: nat
  rp_records :: nat
  rp_unique :: nat
  rp_dups :: nat
  rp_term :: termination_kind
  rp_exhausted :: bool
  rp_complete :: bool
  rp_hashes :: "string list"
  rp_sizes :: "nat list"
  rp_totals :: "int list"
  rp_fetched :: "int option"

definition start_report :: "string \<Rightarrow> page_enumeration" where
  "start_report path = \<lparr>rp_path = path, rp_pages = 0, rp_records = 0, rp_unique = 0, rp_dups = 0,
     rp_term = TermEmptyPageCursorExhausted, rp_exhausted = False, rp_complete = False, rp_hashes = [], rp_sizes = [],
     rp_totals = [], rp_fetched = None\<rparr>"

definition seconds :: "int \<Rightarrow> int" where "seconds t = t div 10 ^ 9"

definition note_page :: "list_page_in \<Rightarrow> page_enumeration \<Rightarrow> page_enumeration" where
  "note_page p r = r\<lparr>rp_pages := rp_pages r + 1, rp_hashes := rp_hashes r @ [li_hash p], rp_sizes := rp_sizes r @ [length (li_pins p)],
     rp_totals := rp_totals r @ [li_total p],
     rp_fetched := (case rp_fetched r of None \<Rightarrow> Some (seconds (li_fetched p))
        | Some s \<Rightarrow> if s * 10 ^ 9 < li_fetched p then Some (seconds (li_fetched p)) else Some s)\<rparr>"

text \<open>The pins found, the ids among them and the report.\<close>

record enum_walk =
  wk_pins :: "pin list"
  wk_seen :: "string set"
  wk_report :: page_enumeration

definition take_record :: "enum_walk \<Rightarrow> pin \<Rightarrow> enum_walk" where
  "take_record w p =
     (let r = (wk_report w)\<lparr>rp_records := rp_records (wk_report w) + 1\<rparr> in
      if pi_id p \<in> wk_seen w then w\<lparr>wk_report := r\<lparr>rp_dups := rp_dups r + 1\<rparr>\<rparr>
      else w\<lparr>wk_pins := wk_pins w @ [p], wk_seen := insert (pi_id p) (wk_seen w), wk_report := r\<rparr>)"

definition stop_walk :: "termination_kind \<Rightarrow> bool \<Rightarrow> enum_walk \<Rightarrow> enum_walk" where
  "stop_walk t done w = w\<lparr>wk_report := (wk_report w)\<lparr>rp_term := t, rp_exhausted := done, rp_complete := done, rp_unique := length (wk_pins w)\<rparr>\<rparr>"

text \<open>The loop with the pages left, the number of the page and the cursor.\<close>

fun walk_pages :: "lister \<Rightarrow> string \<Rightarrow> int \<Rightarrow> nat \<Rightarrow> nat \<Rightarrow> string \<Rightarrow> enum_walk \<Rightarrow> enum_walk \<times> string option" where
  "walk_pages ask path sz 0 k cursor w = (stop_walk TermMaxPages False w, None)"
| "walk_pages ask path sz (Suc n) k cursor w =
     (case ask k path cursor sz of
        Inl e \<Rightarrow> (w\<lparr>wk_report := (wk_report w)\<lparr>rp_term := TermFetchError, rp_complete := False\<rparr>\<rparr>, Some e)
      | Inr p \<Rightarrow>
          let w1 = w\<lparr>wk_report := note_page p (wk_report w)\<rparr> in
          if \<not> li_present p then (w1\<lparr>wk_report := (wk_report w1)\<lparr>rp_term := TermListFieldMissing\<rparr>\<rparr>, None)
          else
            let w2 = foldl take_record w1 (li_pins p); last = (trim_space (li_next p) = '''') in
            if li_null p \<and> last then (stop_walk TermListNullEmptyCursor True w2, None)
            else if li_null p then (stop_walk TermListNullWithCursor False w2, None)
            else if li_pins p = [] \<and> last then (stop_walk TermEmptyPageCursorExhausted True w2, None)
            else if li_pins p = [] then (stop_walk TermEmptyPageWithCursor False w2, None)
            else if last then (stop_walk TermFullPageNoCursor False w2, None)
            else walk_pages ask path sz n (Suc k) (li_next p) w2)"

definition Enumerate :: "lister \<Rightarrow> string \<Rightarrow> int \<Rightarrow> pin list \<times> page_enumeration \<times> string option" where
  "Enumerate ask path sz =
     (let (w, err) = walk_pages ask path (if sz \<le> 0 then 50 else sz) MaxPages 0 ''''
          \<lparr>wk_pins = [], wk_seen = {}, wk_report = start_report path\<rparr>
      in (wk_pins w, wk_report w, err))"

section \<open>The walk of all paths\<close>

record enumeration =
  eu_size :: int
  eu_paths :: "(string, page_enumeration) gomap"
  eu_complete :: bool
  eu_unresolved :: "string list"
  eu_hash :: string

text \<open>The lister of a walk is that of the position of its path; the last component is an error.\<close>

fun enumerate_paths :: "(nat \<Rightarrow> lister) \<Rightarrow> int \<Rightarrow> nat \<Rightarrow> string list \<Rightarrow> pools \<Rightarrow> enumeration \<Rightarrow> string list
    \<Rightarrow> pools \<times> enumeration \<times> string list \<times> string option" where
  "enumerate_paths asks sz i [] events en ids = (events, en, ids, None)"
| "enumerate_paths asks sz i (path # paths) events en ids =
     (case Enumerate (asks i) path sz of
        (pins, rep, Some e) \<Rightarrow> (events, en, ids, Some e)
      | (pins, rep, None) \<Rightarrow>
          enumerate_paths asks sz (Suc i) paths (mput path pins events)
            (let e1 = en\<lparr>eu_paths := mput path rep (eu_paths en)\<rparr>
             in if rp_complete rep then e1 else e1\<lparr>eu_complete := False, eu_unresolved := eu_unresolved e1 @ [path]\<rparr>)
            (ids @ map pi_id pins))"

fun join_lines :: "string list \<Rightarrow> string" where
  "join_lines [] = ''''"
| "join_lines [s] = s"
| "join_lines (s # ss) = s @ char_of (10 :: int) # join_lines ss"

definition EnumerateAll :: "(nat \<Rightarrow> lister) \<Rightarrow> string list \<Rightarrow> int \<Rightarrow> pools \<times> enumeration \<times> string option" where
  "EnumerateAll asks paths sz =
     (case enumerate_paths asks sz 0 paths [] \<lparr>eu_size = sz, eu_paths = [], eu_complete = True, eu_unresolved = [], eu_hash = ''''\<rparr> [] of
        (events, en, ids, Some e) \<Rightarrow> (events, en, Some e)
      | (events, en, ids, None) \<Rightarrow> (events, en\<lparr>eu_hash := sha256_hex (join_lines (slice_stable string_less ids))\<rparr>, None))"

section \<open>List responses\<close>

text \<open>
  \<open>json.Unmarshal\<close> into the response struct: a field is matched by its name or, failing that, up to the
  case of its letters (the long s folds to s); a value of the wrong type is an error; \<open>null\<close> leaves a
  scalar as it is. The fields of an object are taken in order, the last of two equal names counting.
\<close>

record page_data =
  pd_list :: "(string \<times> any_json) list list option"
  pd_next :: "string option"
  pd_total :: int

definition as_map :: "json \<Rightarrow> (string \<times> any_json) list option" where
  "as_map v = (case v of JNull \<Rightarrow> Some [] | JObj fs \<Rightarrow> (case floats v of Some (AObj m) \<Rightarrow> Some m | _ \<Rightarrow> None) | _ \<Rightarrow> None)"

definition data_field :: "page_data \<Rightarrow> string \<times> json \<Rightarrow> page_data option" where
  "data_field d kv =
     (let name = fold_name (fst kv) in
      if name = ''list'' then
        (case snd kv of JNull \<Rightarrow> Some (d\<lparr>pd_list := None\<rparr>)
         | JArr vs \<Rightarrow> map_option (\<lambda>ms. d\<lparr>pd_list := Some ms\<rparr>) (those (map as_map vs)) | _ \<Rightarrow> None)
      else if name = ''nextcursor'' then
        (case snd kv of JNull \<Rightarrow> Some (d\<lparr>pd_next := None\<rparr>) | JStr s \<Rightarrow> Some (d\<lparr>pd_next := Some s\<rparr>) | _ \<Rightarrow> None)
      else if name = ''total'' then
        (case snd kv of JNull \<Rightarrow> Some d | JNum s \<Rightarrow> map_option (\<lambda>n. d\<lparr>pd_total := n\<rparr>) (parse_int64 s) | _ \<Rightarrow> None)
      else Some d)"

text \<open>The data object of the response, \<open>None\<close> inside when it is absent or \<open>null\<close>.\<close>

definition response_field :: "page_data option \<Rightarrow> string \<times> json \<Rightarrow> page_data option option" where
  "response_field d kv =
     (let name = fold_name (fst kv) in
      if name = ''code'' then
        (case snd kv of JNull \<Rightarrow> Some d | JNum s \<Rightarrow> map_option (\<lambda>_. d) (parse_int64 s) | _ \<Rightarrow> None)
      else if name = ''message'' then (case snd kv of JNull \<Rightarrow> Some d | JStr s \<Rightarrow> Some d | _ \<Rightarrow> None)
      else if name = ''data'' then
        (case snd kv of JNull \<Rightarrow> Some None
         | JObj fs \<Rightarrow> map_option Some
             (fold_fields data_field (case d of None \<Rightarrow> \<lparr>pd_list = None, pd_next = None, pd_total = 0\<rparr> | Some d0 \<Rightarrow> d0) fs)
         | _ \<Rightarrow> None)
      else Some d)"

definition unmarshal_response :: "string \<Rightarrow> page_data option option" where
  "unmarshal_response raw = (case decode_json raw of
      None \<Rightarrow> None
    | Some (v, rest) \<Rightarrow>
        if skip_ws rest \<noteq> [] then None
        else (case v of JNull \<Rightarrow> Some None | JObj fs \<Rightarrow> fold_fields response_field None fs | _ \<Rightarrow> None))"

section \<open>Pins of a response\<close>

definition DecodeBase64Payload :: "string \<Rightarrow> string option" where
  "DecodeBase64Payload s = (let t = trim_space s in if t = '''' then Some '''' else std_decode t)"

text \<open>\<open>marshal\<close> is the library's JSON text of a value that is no string; \<open>strings.Trim\<close> takes its quotes off.\<close>

definition trim_quotes :: "string \<Rightarrow> string" where
  "trim_quotes s = rev (dropWhile (\<lambda>c. c = CHR 0x22) (rev (dropWhile (\<lambda>c. c = CHR 0x22) s)))"

definition asString :: "(any_json \<Rightarrow> string) \<Rightarrow> any_json \<Rightarrow> string" where
  "asString marshal v = (case v of AStr s \<Rightarrow> s | ANull \<Rightarrow> '''' | _ \<Rightarrow> trim_quotes (marshal v))"

definition asInt :: "any_json \<Rightarrow> int \<Rightarrow> int" where
  "asInt v def = (case v of
      ANum f \<Rightarrow> f64_to_int64 f
    | AStr s \<Rightarrow> (case parse_int64 (trim_space s) of Some n \<Rightarrow> n | None \<Rightarrow> def)
    | _ \<Rightarrow> def)"

definition no_pin :: pin where
  "no_pin = \<lparr>pi_id = '''', pi_path = '''', pi_operation = '''', pi_globalMetaID = '''', pi_metaID = '''', pi_address = '''',
     pi_height = 0, pi_tx = 0, pi_ts = 0, pi_seen = 0, pi_genesisTx = '''', pi_fee = 0, pi_out = 0, pi_number = 0, pi_length = 0,
     pi_version = 0, pi_summary = '''', pi_payload = '''', pi_channel = '''', pi_state = '''', pi_error = ''''\<rparr>"

definition pin_field :: "(any_json \<Rightarrow> string) \<Rightarrow> pin \<Rightarrow> string \<times> any_json \<Rightarrow> pin" where
  "pin_field marshal p kv =
     (let k = fst kv; v = snd kv; str = asString marshal v in
      if k = ''id'' then p\<lparr>pi_id := str\<rparr>
      else if k = ''path'' then p\<lparr>pi_path := str\<rparr>
      else if k = ''operation'' then p\<lparr>pi_operation := str\<rparr>
      else if k = ''globalMetaId'' then p\<lparr>pi_globalMetaID := str\<rparr>
      else if k = ''metaId'' then p\<lparr>pi_metaID := str\<rparr>
      else if k = ''address'' then p\<lparr>pi_address := str\<rparr>
      else if k = ''genesisHeight'' then p\<lparr>pi_height := asInt v (-1)\<rparr>
      else if k = ''txIndex'' then p\<lparr>pi_tx := asInt v 0\<rparr>
      else if k = ''timestamp'' then p\<lparr>pi_ts := asInt v 0\<rparr>
      else if k = ''seenTime'' then p\<lparr>pi_seen := asInt v 0\<rparr>
      else if k = ''genesisTransaction'' then p\<lparr>pi_genesisTx := str\<rparr>
      else if k = ''genesisFee'' then p\<lparr>pi_fee := asInt v 0\<rparr>
      else if k = ''outputValue'' then p\<lparr>pi_out := asInt v 0\<rparr>
      else if k = ''number'' then p\<lparr>pi_number := asInt v (-1)\<rparr>
      else if k = ''version'' then p\<lparr>pi_version := asInt v 0\<rparr>
      else if k = ''contentLength'' then p\<lparr>pi_length := asInt v 0\<rparr>
      else if k = ''contentSummary'' then p\<lparr>pi_summary := str\<rparr>
      else if k = ''contentBody'' then
        (case DecodeBase64Payload str of
           Some raw \<Rightarrow> if raw \<noteq> '''' then p\<lparr>pi_payload := raw, pi_channel := ''contentBody''\<rparr> else p
         | None \<Rightarrow> p)
      else p)"

definition pinFromMap :: "(any_json \<Rightarrow> string) \<Rightarrow> (string \<times> any_json) list \<Rightarrow> pin" where
  "pinFromMap marshal m = foldl (pin_field marshal) no_pin m"

text \<open>The zero time, the first instant of the year 1.\<close>

definition zero_time :: int where "zero_time = - 62135596800 * 10 ^ 9"

definition decodePage :: "(any_json \<Rightarrow> string) \<Rightarrow> string \<Rightarrow> string + list_page_in" where
  "decodePage marshal raw =
     (case unmarshal_response raw of
        None \<Rightarrow> Inl ''decode list response''
      | Some None \<Rightarrow> Inl ''list response has no data object''
      | Some (Some d) \<Rightarrow>
          Inr \<lparr>li_pins = (case pd_list d of None \<Rightarrow> [] | Some ms \<Rightarrow> map (pinFromMap marshal) ms), li_url = '''', li_status = 0,
               li_raw = raw, li_hash = sha256_hex raw, li_fetched = zero_time, li_cursorIn = '''',
               li_next = (case pd_next d of Some c \<Rightarrow> c | None \<Rightarrow> ''''), li_present = True, li_null = (pd_list d = None),
               li_cursorPresent = (pd_next d \<noteq> None), li_total = pd_total d\<rparr>)"

section \<open>Payloads\<close>

definition state_text :: "payload_state \<Rightarrow> string" where
  "state_text st = (case st of PayloadOK \<Rightarrow> ''ok'' | PayloadEmpty \<Rightarrow> ''empty'' | PayloadShort \<Rightarrow> ''short_item''
     | PayloadMalformed \<Rightarrow> ''malformed_json'' | PayloadNotObject \<Rightarrow> ''not_object'')"

text \<open>\<open>fetch\<close> gives the bytes and the channel or an error's text; \<open>reason\<close> is the text of a refusal.\<close>

definition load_payload :: "(pin \<Rightarrow> string + string \<times> string) \<Rightarrow> (string \<Rightarrow> int \<Rightarrow> string \<Rightarrow> string) \<Rightarrow> pin \<Rightarrow> pin" where
  "load_payload fetch reason p =
     (case fetch p of
        Inl e \<Rightarrow> p\<lparr>pi_state := state_text PayloadEmpty, pi_error := e\<rparr>
      | Inr (raw, channel) \<Rightarrow>
          let v = acceptPayload raw (pi_length p); p1 = p\<lparr>pi_payload := raw, pi_channel := channel, pi_state := state_text (pv_state v)\<rparr>
          in if Accepted v then p1 else p1\<lparr>pi_error := reason raw (pi_length p) channel\<rparr>)"

definition LoadPayloads :: "(pin \<Rightarrow> string + string \<times> string) \<Rightarrow> (string \<Rightarrow> int \<Rightarrow> string \<Rightarrow> string) \<Rightarrow> pin list \<Rightarrow> pin list" where
  "LoadPayloads fetch reason pins = map (load_payload fetch reason) pins"

section \<open>The frozen crawl\<close>

definition CollectionPaths :: "string list" where
  "CollectionPaths = EventPaths @ [PathRoster]"

text \<open>
  A crawl directory: the files of a pool's page directory by their names without \<open>.json\<close>, in name
  order, the modification time of that directory when it exists, and the content files by pin.
\<close>

record crawl =
  cr_files :: "string \<Rightarrow> (string \<times> string) list"
  cr_mtime :: "string \<Rightarrow> int option"
  cr_content :: "string \<Rightarrow> string option"

type_synonym snapshot = "(string, (string, string) gomap) gomap"

definition page_numbers :: "(string \<times> string) list \<Rightarrow> int list" where
  "page_numbers files = List.map_filter (\<lambda>f. parse_int64 (fst f)) files"

definition by_number :: "(string \<times> string) list \<Rightarrow> (int, string) gomap" where
  "by_number files = foldl (\<lambda>m f. case parse_int64 (fst f) of Some n \<Rightarrow> mput n (snd f) m | None \<Rightarrow> m) [] files"

fun load_pages :: "(any_json \<Rightarrow> string) \<Rightarrow> string list \<Rightarrow> string \<Rightarrow> (string, string) gomap \<Rightarrow> string + (string, string) gomap" where
  "load_pages marshal [] cursor m = Inr m"
| "load_pages marshal (raw # raws) cursor m =
     (case decodePage marshal raw of
        Inl e \<Rightarrow> Inl e
      | Inr page \<Rightarrow> load_pages marshal raws (li_next page) (mput cursor raw m))"

definition pool_pages :: "(any_json \<Rightarrow> string) \<Rightarrow> (string \<times> string) list \<Rightarrow> string + (string, string) gomap" where
  "pool_pages marshal files =
     load_pages marshal (map (\<lambda>n. the (mget (by_number files) n)) (sort (page_numbers files))) '''' []"

fun load_pools :: "(any_json \<Rightarrow> string) \<Rightarrow> crawl \<Rightarrow> string list \<Rightarrow> snapshot \<Rightarrow> string + snapshot" where
  "load_pools marshal cr [] m = Inr m"
| "load_pools marshal cr (path # paths) m =
     (case pool_pages marshal (cr_files cr (PoolName path)) of
        Inl e \<Rightarrow> Inl e
      | Inr pages \<Rightarrow> load_pools marshal cr paths (mput path pages m))"

definition load :: "(any_json \<Rightarrow> string) \<Rightarrow> crawl \<Rightarrow> string + snapshot" where
  "load marshal cr = load_pools marshal cr CollectionPaths []"

definition pages_at :: "snapshot \<Rightarrow> string \<Rightarrow> (string, string) gomap" where
  "pages_at m path = (case mget m path of Some p \<Rightarrow> p | None \<Rightarrow> [])"

text \<open>\<open>ListPath\<close> of the snapshot at the time \<open>now\<close>, which only the page made up for a missing roster shows.\<close>

definition snapshot_list :: "(any_json \<Rightarrow> string) \<Rightarrow> crawl \<Rightarrow> int \<Rightarrow> string \<Rightarrow> string \<Rightarrow> string + list_page_in" where
  "snapshot_list marshal cr now path cursor =
     (case load marshal cr of
        Inl e \<Rightarrow> Inl e
      | Inr m \<Rightarrow>
          (case mget (pages_at m path) cursor of
             None \<Rightarrow>
               if path = PathRoster \<and> cursor = '''' \<and> pages_at m path = [] then
                 Inr \<lparr>li_pins = [], li_url = ''snapshot:'' @ path, li_status = 200, li_raw = '''', li_hash = '''', li_fetched = now,
                   li_cursorIn = cursor, li_next = '''', li_present = True, li_null = True, li_cursorPresent = False, li_total = 0\<rparr>
               else Inl ''no recorded page''
           | Some raw \<Rightarrow>
               (case decodePage marshal raw of
                  Inl e \<Rightarrow> Inl e
                | Inr page \<Rightarrow> Inr (page\<lparr>li_url := ''snapshot:'' @ path, li_status := 200, li_cursorIn := cursor,
                    li_fetched := (case cr_mtime cr (PoolName path) of Some t \<Rightarrow> t | None \<Rightarrow> li_fetched page)\<rparr>))))"

definition snapshot_fetch :: "crawl \<Rightarrow> pin \<Rightarrow> string + string \<times> string" where
  "snapshot_fetch cr p =
     (if pi_payload p \<noteq> '''' then Inr (pi_payload p, pi_channel p)
      else case cr_content cr (pi_id p) of Some raw \<Rightarrow> Inr (raw, ''content'') | None \<Rightarrow> Inl ''no content file'')"

section \<open>The lister over HTTP\<close>

text \<open>
  \<open>ListPath\<close> of the HTTP lister: \<open>url\<close> is the request of a path, a cursor and a size, \<open>get\<close> the answer to the
  request of a page, its status and body or the text of an error, \<open>now\<close> the time of the answer. The
  status is recorded and not looked at.
\<close>

definition http_list :: "(any_json \<Rightarrow> string) \<Rightarrow> (string \<Rightarrow> string \<Rightarrow> int \<Rightarrow> string) \<Rightarrow> (nat \<Rightarrow> string \<Rightarrow> string + int \<times> string)
    \<Rightarrow> (nat \<Rightarrow> int) \<Rightarrow> lister" where
  "http_list marshal url get now k path cursor sz =
     (case get k (url path cursor sz) of
        Inl e \<Rightarrow> Inl e
      | Inr (status, body) \<Rightarrow>
          (case decodePage marshal body of
             Inl e \<Rightarrow> Inl e
           | Inr page \<Rightarrow> Inr (page\<lparr>li_url := url path cursor sz, li_status := status, li_fetched := now k, li_cursorIn := cursor\<rparr>)))"

definition http_fetch :: "(string \<Rightarrow> string + int \<times> string) \<Rightarrow> string \<Rightarrow> pin \<Rightarrow> string + string \<times> string" where
  "http_fetch get base p =
     (if pi_payload p \<noteq> '''' then Inr (pi_payload p, pi_channel p)
      else case get (base @ ''/content/'' @ pi_id p) of
             Inl e \<Rightarrow> Inl e
           | Inr (status, body) \<Rightarrow> if status \<noteq> 200 then Inl ''content returned an HTTP error'' else Inr (body, ''content''))"

end
