(* ===== verification/EnumerateProps.thy ===== *)
theory EnumerateProps
  imports Enumerate
begin

text \<open>
  What an enumeration reports: when it is complete and what it then holds, the replay of a frozen
  crawl, and a response without a list.
\<close>

section \<open>Complete walks\<close>

fun first_by_id :: "string set \<Rightarrow> pin list \<Rightarrow> pin list" where
  "first_by_id seen [] = []"
| "first_by_id seen (p # ps) = (if pi_id p \<in> seen then first_by_id seen ps else p # first_by_id (insert (pi_id p) seen) ps)"

text \<open>The pages of a walk that ends on a page without pins and without a cursor.\<close>

inductive full_walk :: "lister \<Rightarrow> string \<Rightarrow> int \<Rightarrow> nat \<Rightarrow> string \<Rightarrow> list_page_in list \<Rightarrow> bool" for ask path sz where
  walk_end: "ask k path cursor sz = Inr p \<Longrightarrow> li_present p \<Longrightarrow> trim_space (li_next p) = '''' \<Longrightarrow> li_null p \<or> li_pins p = []
     \<Longrightarrow> full_walk ask path sz k cursor [p]"
| walk_more: "ask k path cursor sz = Inr p \<Longrightarrow> li_present p \<Longrightarrow> trim_space (li_next p) \<noteq> '''' \<Longrightarrow> \<not> li_null p \<Longrightarrow> li_pins p \<noteq> []
     \<Longrightarrow> full_walk ask path sz (Suc k) (li_next p) ps \<Longrightarrow> full_walk ask path sz k cursor (p # ps)"

inductive_simps full_walk_iff: "full_walk ask path sz k cursor ps"

lemma full_walk_page:
  "ask k path cursor sz = Inr p \<Longrightarrow> full_walk ask path sz k cursor qs \<longleftrightarrow> li_present p
     \<and> (if trim_space (li_next p) = '''' then (li_null p \<or> li_pins p = []) \<and> qs = [p]
        else \<not> li_null p \<and> li_pins p \<noteq> [] \<and> (\<exists>ps. qs = p # ps \<and> full_walk ask path sz (Suc k) (li_next p) ps))"
  by (subst full_walk_iff) auto

lemma full_walk_error: "ask k path cursor sz = Inl e \<Longrightarrow> \<not> full_walk ask path sz k cursor qs"
  by (subst full_walk_iff) auto

definition balanced :: "enum_walk \<Rightarrow> bool" where
  "balanced w \<longleftrightarrow> rp_records (wk_report w) = length (wk_pins w) + rp_dups (wk_report w) \<and> \<not> rp_complete (wk_report w)"

lemma take_records:
  "wk_pins (foldl take_record w ps) = wk_pins w @ first_by_id (wk_seen w) ps
   \<and> wk_seen (foldl take_record w ps) = wk_seen w \<union> pi_id ` set ps
   \<and> rp_records (wk_report (foldl take_record w ps)) = rp_records (wk_report w) + length ps
   \<and> (balanced w \<longrightarrow> balanced (foldl take_record w ps))"
proof (induction ps arbitrary: w)
  case (Cons p ps)
  have "balanced w \<longrightarrow> balanced (take_record w p)" by (simp add: balanced_def take_record_def Let_def)
  with Cons.IH [of "take_record w p"] show ?case by (auto simp: take_record_def Let_def)
qed simp

lemma first_by_id_append:
  "first_by_id seen (ps @ qs) = first_by_id seen ps @ first_by_id (seen \<union> pi_id ` set ps) qs"
  by (induction seen ps rule: first_by_id.induct) (auto simp: insert_absorb)

lemma note_page_simps [simp]:
  "rp_records (note_page p r) = rp_records r" "rp_dups (note_page p r) = rp_dups r" "rp_complete (note_page p r) = rp_complete r"
  by (simp_all add: note_page_def)

text \<open>What the walk from a state makes of the pages it gets.\<close>

definition walk_result :: "enum_walk \<Rightarrow> list_page_in list \<Rightarrow> enum_walk \<Rightarrow> bool" where
  "walk_result w ps w' \<longleftrightarrow>
     (let found = concat (map li_pins ps) in
      wk_pins w' = wk_pins w @ first_by_id (wk_seen w) found \<and> rp_unique (wk_report w') = length (wk_pins w')
      \<and> rp_records (wk_report w') = rp_records (wk_report w) + length found
      \<and> rp_records (wk_report w') = rp_unique (wk_report w') + rp_dups (wk_report w'))"

lemma walk_pages_complete:
  assumes "walk_pages ask path sz n k cursor w = (w', err)" "balanced w"
  shows "if rp_complete (wk_report w')
    then err = None \<and> (\<exists>ps. full_walk ask path sz k cursor ps \<and> length ps \<le> n \<and> walk_result w ps w')
    else \<not> (\<exists>ps. full_walk ask path sz k cursor ps \<and> length ps \<le> n)"
  using assms
proof (induction n arbitrary: k cursor w)
  case 0
  have "full_walk ask path sz k cursor ps \<Longrightarrow> ps \<noteq> []" for ps by (auto elim: full_walk.cases)
  with 0 show ?case by (auto simp: stop_walk_def balanced_def)
next
  case (Suc n)
  show ?case
  proof (cases "ask k path cursor sz")
    case (Inl e)
    with Suc.prems full_walk_error [of ask k path cursor sz e] show ?thesis by (auto simp: balanced_def)
  next
    case (Inr p)
    let ?w1 = "w\<lparr>wk_report := note_page p (wk_report w)\<rparr>"
    let ?w2 = "foldl take_record ?w1 (li_pins p)"
    note page = full_walk_page [of ask k path cursor sz, OF Inr]
    have b1: "balanced ?w1" using Suc.prems(2) by (simp add: balanced_def)
    note t = take_records [of ?w1 "li_pins p"]
    then have b2: "balanced ?w2" using b1 by blast
    show ?thesis
    proof (cases "li_present p \<and> trim_space (li_next p) \<noteq> '''' \<and> \<not> li_null p \<and> li_pins p \<noteq> []")
      case True
      then have run: "walk_pages ask path sz n (Suc k) (li_next p) ?w2 = (w', err)"
        using Suc.prems(1) Inr by (simp add: Let_def)
      have walk: "full_walk ask path sz k cursor qs \<longleftrightarrow> (\<exists>ps. qs = p # ps \<and> full_walk ask path sz (Suc k) (li_next p) ps)" for qs
        using True by (simp add: page)
      have res: "walk_result ?w2 ps w' \<Longrightarrow> walk_result w (p # ps) w'" for ps
        using t by (auto simp: walk_result_def Let_def first_by_id_append)
      from Suc.IH [OF run b2] show ?thesis
        using res by (auto simp: walk split: if_splits)
    next
      case False
      then show ?thesis
        using Suc.prems Inr b2 t by (auto simp: page Let_def stop_walk_def balanced_def walk_result_def split: if_splits)
    qed
  qed
qed

definition page_size :: "int \<Rightarrow> int" where "page_size sz = (if sz \<le> 0 then 50 else sz)"

text \<open>
  C12: The completeness report is exact. An enumeration is reported complete exactly when the pages it
  was given form a walk, of at most 400 pages, that ends on a page with neither pins nor a cursor. Its
  pins are then the first of every id over all the pages, and its counts add up.
\<close>

theorem enumerate_complete:
  "case Enumerate ask path sz of (pins, r, err) \<Rightarrow>
     if rp_complete r
     then err = None \<and> (\<exists>ps. full_walk ask path (page_size sz) 0 '''' ps \<and> length ps \<le> MaxPages
            \<and> pins = first_by_id {} (concat (map li_pins ps)) \<and> rp_unique r = length pins
            \<and> rp_records r = length (concat (map li_pins ps)) \<and> rp_records r = rp_unique r + rp_dups r)
     else \<not> (\<exists>ps. full_walk ask path (page_size sz) 0 '''' ps \<and> length ps \<le> MaxPages)"
proof -
  let ?w = "\<lparr>wk_pins = [], wk_seen = {}, wk_report = start_report path\<rparr>"
  obtain w err where run: "walk_pages ask path (page_size sz) MaxPages 0 '''' ?w = (w, err)" by fastforce
  have "balanced ?w" by (simp add: balanced_def start_report_def)
  from walk_pages_complete [OF run this] run show ?thesis
    by (auto simp: Enumerate_def page_size_def walk_result_def Let_def start_report_def split: if_splits)
qed

section \<open>A response without a list\<close>

text \<open>The response \<open>{"data":{}}\<close>.\<close>

definition no_list :: string where
  "no_list = CHR ''{'' # CHR 0x22 # ''data'' @ CHR 0x22 # '':{}}''"

lemma decode_present: "decodePage marshal raw = Inr p \<Longrightarrow> li_present p"
  by (auto simp: decodePage_def split: option.splits)

lemma decode_no_list: "unmarshal_response no_list = Some (Some \<lparr>pd_list = None, pd_next = None, pd_total = 0\<rparr>)"
  unfolding no_list_def by code_simp

lemma walk_present:
  assumes "\<And>k cursor p. ask k path cursor sz = Inr p \<Longrightarrow> li_present p" "rp_term (wk_report w) \<noteq> TermListFieldMissing"
  shows "rp_term (wk_report (fst (walk_pages ask path sz n k cursor w))) \<noteq> TermListFieldMissing"
  using assms(2)
proof (induction n arbitrary: k cursor w)
  case (Suc n)
  have keep: "rp_term (wk_report (foldl take_record v ps)) = rp_term (wk_report v)" for v ps
    by (induction ps arbitrary: v) (simp_all add: take_record_def Let_def)
  have "rp_term (note_page p r) = rp_term r" for p r by (simp add: note_page_def)
  then have "rp_term (wk_report (foldl take_record (w\<lparr>wk_report := note_page p (wk_report w)\<rparr>) ps)) \<noteq> TermListFieldMissing" for p ps
    using Suc.prems by (simp add: keep)
  from Suc.IH [OF this] show ?case
    using assms(1) by (auto simp: Let_def stop_walk_def split: sum.split)
qed (simp add: stop_walk_def)

lemma trim_nil: "trim_space '''' = ''''"
  by code_simp

lemma walk_null:
  "ask k path cursor sz = Inr p \<Longrightarrow> li_present p \<Longrightarrow> li_null p \<Longrightarrow> li_pins p = []
   \<Longrightarrow> walk_pages ask path sz (Suc n) k cursor w =
     ((if trim_space (li_next p) = '''' then stop_walk TermListNullEmptyCursor True else stop_walk TermListNullWithCursor False)
        (w\<lparr>wk_report := note_page p (wk_report w)\<rparr>), None)"
  by simp

lemma walk_no_list:
  assumes "get k (url path cursor sz) = Inr (status, raw)" "unmarshal_response raw = Some (Some d)" "pd_list d = None"
  obtains q where "li_next q = (case pd_next d of Some c \<Rightarrow> c | None \<Rightarrow> '''')"
    "\<And>n w. walk_pages (http_list marshal url get now) path sz (Suc n) k cursor w =
     ((if trim_space (li_next q) = '''' then stop_walk TermListNullEmptyCursor True else stop_walk TermListNullWithCursor False)
        (w\<lparr>wk_report := note_page q (wk_report w)\<rparr>), None)"
proof -
  obtain q where q: "http_list marshal url get now k path cursor sz = Inr q"
      "li_present q" "li_null q" "li_pins q = []" "li_next q = (case pd_next d of Some c \<Rightarrow> c | None \<Rightarrow> '''')"
    by (simp add: http_list_def decodePage_def assms)
  from walk_null [where ask = "http_list marshal url get now", OF q(1-4)] show ?thesis by (intro that [OF q(5)])
qed

lemma no_list_walk:
  assumes "\<And>u. get 0 u = Inr (status, no_list)"
  obtains r where "Enumerate (http_list marshal url get now) path sz = ([], r, None)" "rp_complete r" "rp_term r = TermListNullEmptyCursor"
proof -
  obtain q where q: "li_next q = ''''" and run:
    "\<And>n w. walk_pages (http_list marshal url get now) path (page_size sz) (Suc n) 0 '''' w =
      ((if trim_space (li_next q) = '''' then stop_walk TermListNullEmptyCursor True else stop_walk TermListNullWithCursor False)
        (w\<lparr>wk_report := note_page q (wk_report w)\<rparr>), None)"
    using walk_no_list [where get = get and url = url and k = 0 and path = path and cursor = "''''" and sz = "page_size sz"
      and marshal = marshal and now = now, OF assms decode_no_list] by auto
  have n: "MaxPages = Suc 399" by (simp add: MaxPages_def)
  have "Enumerate (http_list marshal url get now) path sz = ([], wk_report (stop_walk TermListNullEmptyCursor True
      \<lparr>wk_pins = [], wk_seen = {}, wk_report = note_page q (start_report path)\<rparr>), None)"
    unfolding Enumerate_def Let_def page_size_def [symmetric] n run by (simp add: stop_walk_def q trim_nil)
  then show ?thesis by (rule that) (simp_all add: stop_walk_def)
qed

text \<open>
  A response without a list is not told from one whose list is null. The lister over HTTP never
  reports a missing list field: at any request of a walk, an answer with a data object but no list
  adds no pins and ends the walk, as complete when it has no cursor.
\<close>

theorem missing_list_complete:
  assumes "get k (url path cursor sz) = Inr (status, raw)" "unmarshal_response raw = Some (Some d)" "pd_list d = None"
  shows "(case Enumerate (http_list marshal url get now) path' sz' of (_, r, _) \<Rightarrow> rp_term r \<noteq> TermListFieldMissing)
   \<and> (case walk_pages (http_list marshal url get now) path sz (Suc n) k cursor w of (w', err) \<Rightarrow>
        err = None \<and> wk_pins w' = wk_pins w
        \<and> rp_complete (wk_report w') = (trim_space (case pd_next d of Some c \<Rightarrow> c | None \<Rightarrow> '''') = '''')
        \<and> rp_term (wk_report w') = (if rp_complete (wk_report w') then TermListNullEmptyCursor else TermListNullWithCursor))"
proof -
  have "li_present p" if "http_list marshal url get now j p' c z = Inr p" for j p' c z p
    using that decode_present by (fastforce simp: http_list_def split: sum.splits)
  then have p: "rp_term (wk_report (fst (walk_pages (http_list marshal url get now) path' z m 0 '''' v))) \<noteq> TermListFieldMissing"
    if "rp_term (wk_report v) = TermEmptyPageCursorExhausted" for z m v
    using that by (intro walk_present) simp_all
  have "case Enumerate (http_list marshal url get now) path' sz' of (_, r, _) \<Rightarrow> rp_term r \<noteq> TermListFieldMissing"
    unfolding Enumerate_def Let_def case_prod_unfold fst_conv snd_conv by (rule p) (simp add: start_report_def)
  moreover obtain q where "li_next q = (case pd_next d of Some c \<Rightarrow> c | None \<Rightarrow> '''')"
    "\<And>n w. walk_pages (http_list marshal url get now) path sz (Suc n) k cursor w =
      ((if trim_space (li_next q) = '''' then stop_walk TermListNullEmptyCursor True else stop_walk TermListNullWithCursor False)
        (w\<lparr>wk_report := note_page q (wk_report w)\<rparr>), None)"
    using walk_no_list [where get = get and url = url and marshal = marshal and now = now, OF assms] by blast
  ultimately show ?thesis by (simp add: stop_walk_def)
qed

theorem missing_list_complete_witness:
  "\<forall>marshal url now w. rp_complete (wk_report (fst (walk_pages (http_list marshal url (\<lambda>_ _. Inr (200, no_list)) now) PathTask 20 (Suc 399) 0 '''' w)))"
  using missing_list_complete [where get = "\<lambda>_ _. Inr (200, no_list)" and k = 0 and path = PathTask and cursor = "''''" and sz = 20 and n = 399
      and status = 200, OF _ decode_no_list]
  by (auto simp: trim_nil case_prod_unfold)

section \<open>The replay of a frozen crawl\<close>

text \<open>The answers of a server, by request, and the cursors of the requests that follow them.\<close>

definition recorded :: "(nat \<Rightarrow> int) \<Rightarrow> string list \<Rightarrow> nat \<Rightarrow> string \<Rightarrow> string + int \<times> string" where
  "recorded status rs k u = (if k < length rs then Inr (status k, rs ! k) else Inl ''no answer'')"

definition next_of :: "(any_json \<Rightarrow> string) \<Rightarrow> string \<Rightarrow> string" where
  "next_of marshal raw = (case decodePage marshal raw of Inr p \<Rightarrow> li_next p | Inl _ \<Rightarrow> '''')"

fun cursors_in :: "(any_json \<Rightarrow> string) \<Rightarrow> string \<Rightarrow> string list \<Rightarrow> string list" where
  "cursors_in marshal c [] = []"
| "cursors_in marshal c (raw # rs) = c # cursors_in marshal (next_of marshal raw) rs"

lemma length_cursors [simp]: "length (cursors_in marshal c rs) = length rs"
  by (induction rs arbitrary: c) simp_all

lemma cursors_first: "rs \<noteq> [] \<Longrightarrow> cursors_in marshal c rs ! 0 = c"
  by (cases rs) simp_all

lemma cursors_next: "Suc k < length rs \<Longrightarrow> cursors_in marshal c rs ! Suc k = next_of marshal (rs ! k)"
proof (induction rs arbitrary: c k)
  case (Cons raw rs)
  then show ?case by (cases k) (simp_all add: cursors_first)
qed simp

lemma load_pages_get:
  "load_pages marshal rs c m = Inr m' \<Longrightarrow> distinct (cursors_in marshal c rs)
   \<Longrightarrow> (\<forall>i < length rs. mget m' (cursors_in marshal c rs ! i) = Some (rs ! i))
     \<and> (\<forall>x. x \<notin> set (cursors_in marshal c rs) \<longrightarrow> mget m' x = mget m x)"
proof (induction rs arbitrary: c m)
  case (Cons raw rs)
  from Cons.prems obtain p where p: "decodePage marshal raw = Inr p" "load_pages marshal rs (next_of marshal raw) (mput c raw m) = Inr m'"
    by (auto simp: next_of_def split: sum.splits)
  with Cons.IH [OF p(2)] Cons.prems(2) show ?case
    by (auto simp: nth_Cons split: nat.split)
qed simp

lemma load_pools_get:
  "load_pools marshal cr paths m0 = Inr m \<Longrightarrow> distinct paths \<Longrightarrow>
   (if path \<in> set paths then \<exists>pages. pool_pages marshal (cr_files cr (PoolName path)) = Inr pages \<and> mget m path = Some pages
    else mget m path = mget m0 path)"
proof (induction paths arbitrary: m0)
  case (Cons q paths)
  from Cons.prems obtain pages where p: "pool_pages marshal (cr_files cr (PoolName q)) = Inr pages"
      "load_pools marshal cr paths (mput q pages m0) = Inr m"
    by (auto split: sum.splits)
  from Cons.IH [OF p(2)] p(1) Cons.prems(2) show ?case by (auto split: if_splits)
qed simp

lemma collection_distinct: "distinct CollectionPaths"
  by code_simp


lemma by_number_get:
  assumes "list_all (\<lambda>f. parse_int64 (fst f) \<noteq> None) fs" "distinct (map (\<lambda>f. the (parse_int64 (fst f))) fs)"
    "f \<in> set fs" "parse_int64 (fst f) = Some n"
  shows "mget (by_number fs) n = Some (snd f)"
proof -
  have "mget (foldl (\<lambda>m f. case parse_int64 (fst f) of Some n \<Rightarrow> mput n (snd f) m | None \<Rightarrow> m) m fs) n
      = (case map_of (rev (map (\<lambda>f. (the (parse_int64 (fst f)), snd f)) fs)) n of Some v \<Rightarrow> Some v | None \<Rightarrow> mget m n)" for m
    using assms(1) by (induction fs arbitrary: m) (auto simp: map_add_def split: option.splits)
  moreover have "map_of (rev (map (\<lambda>f. (the (parse_int64 (fst f)), snd f)) fs)) n = Some (snd f)"
    using assms(2-4) by (intro map_of_is_SomeI) (force simp: rev_map [symmetric] o_def)+
  ultimately show ?thesis by (simp add: by_number_def)
qed

definition strip :: "list_page_in \<Rightarrow> list_page_in" where
  "strip p = p\<lparr>li_url := '''', li_status := 0, li_fetched := 0, li_cursorIn := ''''\<rparr>"

lemma strip_eq: "strip p = strip q \<longleftrightarrow> li_pins p = li_pins q \<and> li_raw p = li_raw q \<and> li_hash p = li_hash q \<and> li_next p = li_next q
   \<and> li_present p = li_present q \<and> li_null p = li_null q \<and> li_cursorPresent p = li_cursorPresent q \<and> li_total p = li_total q"
  by (cases p; cases q) (auto simp: strip_def)

text \<open>Two walks that differ in the time of their pages.\<close>

definition timeless :: "page_enumeration \<Rightarrow> page_enumeration" where
  "timeless r = r\<lparr>rp_fetched := None\<rparr>"

lemma timeless_eq: "timeless r = timeless s \<longleftrightarrow> rp_path r = rp_path s \<and> rp_pages r = rp_pages s \<and> rp_records r = rp_records s
   \<and> rp_unique r = rp_unique s \<and> rp_dups r = rp_dups s \<and> rp_term r = rp_term s \<and> rp_exhausted r = rp_exhausted s
   \<and> rp_complete r = rp_complete s \<and> rp_hashes r = rp_hashes s \<and> rp_sizes r = rp_sizes s \<and> rp_totals r = rp_totals s"
  by (cases r; cases s) (auto simp: timeless_def)

definition same_walk :: "enum_walk \<Rightarrow> enum_walk \<Rightarrow> bool" where
  "same_walk w v \<longleftrightarrow> wk_pins v = wk_pins w \<and> wk_seen v = wk_seen w \<and> timeless (wk_report v) = timeless (wk_report w)"

lemma same_take: "same_walk w v \<Longrightarrow> same_walk (foldl take_record w ps) (foldl take_record v ps)"
proof (induction ps arbitrary: w v)
  case (Cons p ps)
  from Cons.prems have "same_walk (take_record w p) (take_record v p)"
    by (auto simp: same_walk_def take_record_def timeless_eq Let_def)
  then show ?case using Cons.IH by simp
qed simp

lemma same_stop: "same_walk w v \<Longrightarrow> same_walk (stop_walk t d w) (stop_walk t d v)"
  by (auto simp: same_walk_def stop_walk_def timeless_eq)

lemma same_note: "same_walk w v \<Longrightarrow> strip p = strip q
   \<Longrightarrow> same_walk (w\<lparr>wk_report := note_page p (wk_report w)\<rparr>) (v\<lparr>wk_report := note_page q (wk_report v)\<rparr>)"
  by (auto simp: same_walk_def note_page_def strip_eq timeless_eq)

lemma same_missing: "same_walk w v \<Longrightarrow> same_walk (w\<lparr>wk_report := (wk_report w)\<lparr>rp_term := t\<rparr>\<rparr>) (v\<lparr>wk_report := (wk_report v)\<lparr>rp_term := t\<rparr>\<rparr>)"
  by (auto simp: same_walk_def timeless_eq)

lemma walk_simulation:
  assumes step: "\<And>k c p. stands k c \<Longrightarrow> ask k path c sz = Inr p \<Longrightarrow> \<exists>q. ask2 k path c sz = Inr q \<and> strip p = strip q \<and> stands (Suc k) (li_next p)"
    and "walk_pages ask path sz n k c w = (w', None)" "same_walk w v" "stands k c"
  shows "\<exists>v'. walk_pages ask2 path sz n k c v = (v', None) \<and> same_walk w' v'"
  using assms(2-)
proof (induction n arbitrary: k c w v)
  case 0
  then show ?case by (auto intro: same_stop)
next
  case (Suc n)
  from Suc.prems(1) obtain p where p: "ask k path c sz = Inr p" by (auto split: sum.splits)
  from step [OF Suc.prems(3) p] obtain q where q: "ask2 k path c sz = Inr q" "strip p = strip q" "stands (Suc k) (li_next p)" by blast
  let ?w = "w\<lparr>wk_report := note_page p (wk_report w)\<rparr>" and ?v = "v\<lparr>wk_report := note_page q (wk_report v)\<rparr>"
  have note_same: "same_walk ?w ?v" using same_note [OF Suc.prems(2) q(2)] .
  note took = same_take [OF this, of "li_pins p"]
  have f: "li_pins q = li_pins p" "li_next q = li_next p" "li_present q = li_present p" "li_null q = li_null p"
    using q(2) by (simp_all add: strip_eq)
  show ?case
  proof (cases "li_present p \<and> trim_space (li_next p) \<noteq> '''' \<and> \<not> li_null p \<and> li_pins p \<noteq> []")
    case True
    with Suc.prems(1) p have "walk_pages ask path sz n (Suc k) (li_next p) (foldl take_record ?w (li_pins p)) = (w', None)"
      by (simp add: Let_def)
    from Suc.IH [OF this took q(3)] True q(1) show ?thesis by (simp add: f Let_def)
  next
    case False
    with Suc.prems(1) p q(1) same_stop [OF took] same_missing [OF note_same] show ?thesis
      by (auto simp: f Let_def split: if_splits)
  qed
qed

text \<open>
  C13: Replaying a frozen crawl gives the enumeration again. When the responses of a server were written in
  order, whatever the order in which their files are listed, and no two requests had the same cursor,
  enumerating the snapshot finds the pins of the live walk and reports the same, the times apart.
\<close>

theorem snapshot_replays:
  assumes "path \<in> set CollectionPaths" and "length rs \<le> MaxPages"
    and files: "mset (cr_files cr (PoolName path)) = mset (map (\<lambda>k. (show_int (int k), rs ! k)) [0..<length rs])"
    and "load marshal cr = Inr m" and distinct: "distinct (cursors_in marshal '''' rs)"
    and live: "Enumerate (http_list marshal url (recorded status rs) now) path sz = (pins, r, None)"
  shows "\<exists>r'. Enumerate (\<lambda>_ path cursor _. snapshot_list marshal cr t path cursor) path sz = (pins, r', None) \<and> timeless r' = timeless r"
proof -
  let ?fs = "cr_files cr (PoolName path)"
  have num: "parse_int64 (show_int (int k)) = Some (int k)" if "k < length rs" for k
    using that assms(2) by (intro parse_int64_show) (simp add: int64_range_def min_int64_def max_int64_def MaxPages_def)
  have mem: "f \<in> set ?fs \<longleftrightarrow> (\<exists>k < length rs. f = (show_int (int k), rs ! k))" for f
    using arg_cong [OF files, of set_mset] by auto
  have upto: "map (\<lambda>k. the (parse_int64 (show_int (int k)))) [0..<length rs] = map int [0..<length rs]"
    by (simp add: num)
  have keys: "mset (map (\<lambda>f. the (parse_int64 (fst f))) ?fs) = mset (map int [0..<length rs])"
    using arg_cong [OF files, of "image_mset (\<lambda>f. the (parse_int64 (fst f)))"]
    by (simp add: o_def upto flip: mset_map)
  then have dist: "distinct (map (\<lambda>f. the (parse_int64 (fst f))) ?fs)"
    by (metis distinct_map distinct_upt inj_of_nat mset_eq_imp_distinct_iff subset_UNIV inj_on_subset)
  have all: "list_all (\<lambda>f. parse_int64 (fst f) \<noteq> None) ?fs"
    using num by (auto simp: list_all_iff mem)
  then have "page_numbers ?fs = map (\<lambda>f. the (parse_int64 (fst f))) ?fs"
    by (auto simp: page_numbers_def map_filter_def list_all_iff intro!: map_cong filter_True)
  with keys have sorted: "sort (page_numbers ?fs) = map int [0..<length rs]"
    by (intro properties_for_sort) (simp_all add: sorted_map)
  have "mget (by_number ?fs) (int k) = Some (rs ! k)" if "k < length rs" for k
    using by_number_get [OF all dist, of "(show_int (int k), rs ! k)" "int k"] that num mem by auto
  then have raws: "map (\<lambda>n. the (mget (by_number ?fs) n)) (sort (page_numbers ?fs)) = rs"
    unfolding sorted by (intro nth_equalityI) simp_all
  obtain pages where pages: "load_pages marshal rs '''' [] = Inr pages" "mget m path = Some pages"
    using load_pools_get [OF assms(4) [unfolded load_def] collection_distinct, of path] assms(1)
    by (auto simp: pool_pages_def raws)
  note got = load_pages_get [OF pages(1) distinct]
  define stands where "stands k c \<longleftrightarrow> (k < length rs \<longrightarrow> c = cursors_in marshal '''' rs ! k)" for k c
  have "\<exists>q. snapshot_list marshal cr t path c = Inr q \<and> strip p = strip q \<and> stands (Suc k) (li_next p)"
    if "stands k c" "http_list marshal url (recorded status rs) now k path c z = Inr p" for k c z p
  proof -
    from that(2) have k: "k < length rs" and p: "map_sum id strip (decodePage marshal (rs ! k)) = Inr (strip p)"
      "next_of marshal (rs ! k) = li_next p"
      by (auto simp: http_list_def recorded_def strip_def next_of_def split: sum.splits if_splits)
    with that(1) got have "mget (pages_at m path) c = Some (rs ! k)" by (simp add: stands_def pages_at_def pages(2))
    with p k show ?thesis
      by (auto simp: snapshot_list_def assms(4) strip_def stands_def cursors_next split: sum.splits)
  qed
  note step = this
  let ?w = "\<lparr>wk_pins = [], wk_seen = {}, wk_report = start_report path\<rparr>"
  obtain w where run: "walk_pages (http_list marshal url (recorded status rs) now) path (page_size sz) MaxPages 0 '''' ?w = (w, None)"
      "pins = wk_pins w" "r = wk_report w"
    using live by (auto simp: Enumerate_def page_size_def Let_def split: prod.splits)
  have start: "same_walk ?w ?w" "stands 0 ''''" by (simp_all add: same_walk_def stands_def cursors_first)
  have "\<exists>v. walk_pages (\<lambda>_ path cursor _. snapshot_list marshal cr t path cursor) path (page_size sz) MaxPages 0 '''' ?w = (v, None)
      \<and> same_walk w v"
    by (rule walk_simulation [where stands = stands, OF _ run(1) start]) (rule step)
  with run(2,3) show ?thesis
    by (auto simp: Enumerate_def page_size_def Let_def same_walk_def)
qed

text \<open>A crawl of one page in one pool.\<close>

definition demo_crawl :: crawl where
  "demo_crawl = \<lparr>cr_files = (\<lambda>pool. if pool = ''task'' then [(''0'', no_list)] else []), cr_mtime = (\<lambda>_. None), cr_content = (\<lambda>_. None)\<rparr>"

theorem snapshot_replays_witness:
  "\<forall>marshal url status now t. \<exists>pins r r'. Enumerate (http_list marshal url (recorded status [no_list]) now) PathTask 20 = (pins, r, None)
     \<and> Enumerate (\<lambda>_ path cursor _. snapshot_list marshal demo_crawl t path cursor) PathTask 20 = (pins, r', None) \<and> timeless r' = timeless r"
proof (intro allI)
  fix marshal url and status :: "nat \<Rightarrow> int" and now t
  obtain r where r: "Enumerate (http_list marshal url (recorded status [no_list]) now) PathTask 20 = ([], r, None)"
    by (rule no_list_walk [of "recorded status [no_list]" "status 0"]) (simp_all add: recorded_def)
  have task: "PoolName PathTask = ''task''" "path \<noteq> PathTask \<Longrightarrow> path \<in> set CollectionPaths \<Longrightarrow> PoolName path \<noteq> ''task''" for path
    by code_simp (auto simp: PoolName_def CollectionPaths_def EventPaths_def)
  have "pool_pages marshal (cr_files demo_crawl (PoolName path)) = Inr [] \<or> path = PathTask" if "path \<in> set CollectionPaths" for path
    using that task by (auto simp: demo_crawl_def pool_pages_def page_numbers_def)
  moreover have zero: "parse_int64 ''0'' = Some 0" "show_int 0 = ''0''" by code_simp+
  then have "\<exists>m. pool_pages marshal (cr_files demo_crawl (PoolName PathTask)) = Inr m"
    by (simp add: task demo_crawl_def pool_pages_def page_numbers_def by_number_def decodePage_def decode_no_list map_filter_def)
  ultimately have "\<exists>m'. load_pools marshal demo_crawl paths m = Inr m'" if "set paths \<subseteq> set CollectionPaths" for paths m
    using that by (induction paths arbitrary: m) fastforce+
  then obtain m where m: "load marshal demo_crawl = Inr m" unfolding load_def by blast
  have "mset (cr_files demo_crawl (PoolName PathTask)) = mset (map (\<lambda>k. (show_int (int k), [no_list] ! k)) [0..<length [no_list]])"
    by (simp add: task demo_crawl_def zero)
  from snapshot_replays [OF _ _ this m _ r] r
  show "\<exists>pins r r'. Enumerate (http_list marshal url (recorded status [no_list]) now) PathTask 20 = (pins, r, None)
     \<and> Enumerate (\<lambda>_ path cursor _. snapshot_list marshal demo_crawl t path cursor) PathTask 20 = (pins, r', None) \<and> timeless r' = timeless r"
    by (auto simp: CollectionPaths_def EventPaths_def MaxPages_def)
qed

end
