(* ===== verification/Project.thy ===== *)
theory Project
  imports Renderer Enumerate
begin

text \<open>
  The projections of a replay (\<open>internal/metatask/project.go\<close>): the metadata of a run, the participants of
  a task, the task index with its statistics and leaderboard, and the panorama of one task.
\<close>

section \<open>The metadata of a run\<close>

record run_scope =
  sc_admitted :: "(string, replay_event list) gomap"
  sc_mempool :: int
  sc_rejected :: int
  sc_unresolved :: nat

definition ScopeEvents :: "pools \<Rightarrow> boundary \<Rightarrow> run_scope" where
  "ScopeEvents events b =
     (let ad = admitEvents events b
      in \<lparr>sc_admitted = ad_events ad, sc_mempool = ad_mempool ad, sc_rejected = ad_rejected ad, sc_unresolved = 0\<rparr>)"

text \<open>The results of the roots, in some order of the map.\<close>

type_synonym results = "(string, replay_result) gomap"

definition SumUnresolved :: "results \<Rightarrow> nat" where
  "SumUnresolved results = sum_list (map (\<lambda>kv. length (rr_unresolved (snd kv))) results)"

definition scope_at :: "run_scope \<Rightarrow> string \<Rightarrow> replay_event list" where
  "scope_at scope path = list_at (sc_admitted scope) path"

definition TaskRoots :: "run_scope \<Rightarrow> string list" where
  "TaskRoots scope = slice_stable string_less (map (\<lambda>ev. pi_id (re_pin ev)) (scope_at scope PathTask))"

record replay_cursor =
  cu_height :: int
  cu_tx :: int
  cu_output :: int
  cu_version :: int
  cu_ts :: int

record replay_meta =
  rm_algo :: string
  rm_protocol :: string
  rm_protocolPin :: string
  rm_block :: int
  rm_blockTs :: int
  rm_cursor :: replay_cursor
  rm_eventCount :: nat
  rm_countByPath :: "(string, nat) gomap"
  rm_perPath :: "(string, string) gomap"
  rm_orderFallback :: bool
  rm_versionEnum :: string
  rm_unresolved :: nat
  rm_hAct :: int
  rm_hAct2 :: int
  rm_rulingPins :: "string list"
  rm_maxLag :: int

definition ReplayAlgoVersion :: string where "ReplayAlgoVersion = ''metatask-replay-indexer/2.1.0+v1.2.1''"

definition ProtocolVersionV121 :: string where "ProtocolVersionV121 = ''1.2.1''"

definition ProtocolPinIDV121 :: string where
  "ProtocolPinIDV121 = ''cbae49e09697182b076652ae9bded629388a0dafc9048b01c6a7c8766247fc55i0''"

definition SemanticGateRulingPins :: "string list" where
  "SemanticGateRulingPins =
     [''8420000052f41882f19cd5e052b52b511338f6d3e51443a4f22bc28ad7bb683ci0'',
      ''e66beedbe22d5801d72b3b1ac8b9a446cc2cdd0eb6b388852b27cc2ea7e8753di0'',
      ''1547beab3f4c0a81ff31f35547da67d7b1d6bd494944912fcf6565546b8f7b29i0'']"

definition later_event :: "replay_event option \<Rightarrow> replay_event \<Rightarrow> replay_event option" where
  "later_event cur ev = (case cur of None \<Rightarrow> Some ev | Some c \<Rightarrow> if replayLess (re_pin c) (re_pin ev) then Some ev else Some c)"

definition all_admitted :: "run_scope \<Rightarrow> replay_event list" where
  "all_admitted scope = concat (map (scope_at scope) EventPaths)"

definition cursor_of :: "replay_event option \<Rightarrow> replay_cursor" where
  "cursor_of cur = (case cur of
      None \<Rightarrow> \<lparr>cu_height = 0, cu_tx = 0, cu_output = 0, cu_version = 0, cu_ts = 0\<rparr>
    | Some ev \<Rightarrow> \<lparr>cu_height = pi_height (re_pin ev), cu_tx = pi_tx (re_pin ev), cu_output = -1,
                  cu_version = pi_version (re_pin ev), cu_ts = re_ts ev\<rparr>)"

definition BuildReplayMeta :: "run_scope \<Rightarrow> enumeration \<Rightarrow> boundary \<Rightarrow> replay_meta" where
  "BuildReplayMeta scope en b =
     \<lparr>rm_algo = ReplayAlgoVersion, rm_protocol = ProtocolVersionV121, rm_protocolPin = ProtocolPinIDV121,
      rm_block = bd_height b, rm_blockTs = bd_ts b,
      rm_cursor = cursor_of (foldl later_event None (all_admitted scope)),
      rm_eventCount = sum_list (map (\<lambda>p. length (scope_at scope p)) EventPaths),
      rm_countByPath = map (\<lambda>p. (p, length (scope_at scope p))) EventPaths,
      rm_perPath = map (\<lambda>p. (p, case mget (eu_paths en) p of
          Some rep \<Rightarrow> if rp_complete rep then ''complete'' else ''partial'' | None \<Rightarrow> ''partial'')) EventPaths,
      rm_orderFallback = False, rm_versionEnum = ''by_path'', rm_unresolved = sc_unresolved scope,
      rm_hAct = HAct_default, rm_hAct2 = HAct2_default, rm_rulingPins = SemanticGateRulingPins, rm_maxLag = 5\<rparr>"

section \<open>Participants\<close>

text \<open>
  The nodes of a result in display order. The replay renders every one of them; an id without a node,
  which the code would dereference as nil, is left out.
\<close>

definition ordered_nodes :: "replay_result \<Rightarrow> node_replay list" where
  "ordered_nodes res = List.map_filter (mget (rr_nodes res)) (rr_nodeOrder res)"

record participant_stat =
  pt_bot :: string
  pt_claimed :: nat
  pt_submitted :: nat
  pt_verified :: nat
  pt_reviews :: nat

definition stat_at :: "(string, participant_stat) gomap \<Rightarrow> string \<Rightarrow> participant_stat" where
  "stat_at m who = (case mget m who of Some p \<Rightarrow> p
     | None \<Rightarrow> \<lparr>pt_bot = who, pt_claimed = 0, pt_submitted = 0, pt_verified = 0, pt_reviews = 0\<rparr>)"

definition upd_stat :: "(participant_stat \<Rightarrow> participant_stat) \<Rightarrow> (string, participant_stat) gomap \<Rightarrow> string \<Rightarrow> (string, participant_stat) gomap" where
  "upd_stat f m who = mput who (f (stat_at m who)) m"

definition inc_claimed :: "participant_stat \<Rightarrow> participant_stat" where "inc_claimed p = p\<lparr>pt_claimed := pt_claimed p + 1\<rparr>"
definition inc_submitted :: "participant_stat \<Rightarrow> participant_stat" where "inc_submitted p = p\<lparr>pt_submitted := pt_submitted p + 1\<rparr>"
definition inc_verified :: "participant_stat \<Rightarrow> participant_stat" where "inc_verified p = p\<lparr>pt_verified := pt_verified p + 1\<rparr>"
definition inc_review :: "participant_stat \<Rightarrow> participant_stat" where "inc_review p = p\<lparr>pt_reviews := pt_reviews p + 1\<rparr>"

definition authors_of :: "run_scope \<Rightarrow> string \<Rightarrow> string \<Rightarrow> string list" where
  "authors_of scope path root_pin =
     map (\<lambda>ev. pi_globalMetaID (re_pin ev)) (filter (\<lambda>ev. payloadString (re_body ev) ''taskid'' = root_pin) (scope_at scope path))"

text \<open>The submitter of a finally verified node.\<close>

definition verified_submitter :: "node_replay \<Rightarrow> string option" where
  "verified_submitter n = (if nr_machineState n = ''verified'' then map_option as_submitter (nr_activeSubmission n) else None)"

definition counted_voters :: "node_replay \<Rightarrow> string list" where
  "counted_voters n = map rv_voter (filter rv_counts (nr_votes n))"

definition node_stats :: "(string, participant_stat) gomap \<Rightarrow> node_replay \<Rightarrow> (string, participant_stat) gomap" where
  "node_stats m n =
     (let m1 = (case verified_submitter n of None \<Rightarrow> m | Some s \<Rightarrow> upd_stat inc_verified m s)
      in foldl (upd_stat inc_review) m1 (counted_voters n))"

definition stat_less :: "participant_stat \<Rightarrow> participant_stat \<Rightarrow> bool" where
  "stat_less a b = string_less (pt_bot a) (pt_bot b)"

definition participantsOf :: "string \<Rightarrow> replay_result \<Rightarrow> run_scope \<Rightarrow> participant_stat list" where
  "participantsOf root_pin res scope =
     (let m1 = foldl (upd_stat inc_claimed) [] (authors_of scope PathClaim root_pin);
          m2 = foldl (upd_stat inc_submitted) m1 (authors_of scope PathSubmission root_pin)
      in slice_stable stat_less (map snd (foldl node_stats m2 (ordered_nodes res))))"

section \<open>The task index\<close>

record last_activity =
  la_ts :: int
  la_pin :: string
  la_path :: string
  la_h :: int
  la_tx :: int
  la_ver :: int

definition activityOrderLess :: "last_activity \<Rightarrow> last_activity \<Rightarrow> bool" where
  "activityOrderLess a b =
     (if la_h a \<noteq> la_h b then la_h a < la_h b
      else if la_tx a \<noteq> la_tx b then la_tx a < la_tx b
      else if la_ver a \<noteq> la_ver b then la_ver a < la_ver b
      else string_less (la_pin a) (la_pin b))"

definition no_activity :: last_activity where
  "no_activity = \<lparr>la_ts = 0, la_pin = '''', la_path = '''', la_h = 0, la_tx = 0, la_ver = 0\<rparr>"

definition better :: "last_activity \<Rightarrow> last_activity \<Rightarrow> last_activity" where
  "better best a = (if la_pin best = '''' \<or> activityOrderLess best a then a else best)"

definition event_activity :: "event_record \<Rightarrow> last_activity" where
  "event_activity e = \<lparr>la_ts = er_ts e, la_pin = er_pin e, la_path = er_path e, la_h = er_height e, la_tx = er_tx e, la_ver = er_version e\<rparr>"

definition vote_activity :: "rendered_vote \<Rightarrow> last_activity" where
  "vote_activity v = \<lparr>la_ts = rv_ts v, la_pin = rv_pin v, la_path = PathVerify, la_h = rv_height v, la_tx = rv_tx v, la_ver = 0\<rparr>"

definition activities :: "replay_result \<Rightarrow> last_activity list" where
  "activities res =
     concat (map (\<lambda>n. map event_activity (nr_events n) @ map vote_activity (nr_votes n)) (ordered_nodes res))
     @ map event_activity (rr_unresolved res)"

definition lastActivityOf :: "replay_result \<Rightarrow> last_activity" where
  "lastActivityOf res = foldl better no_activity (activities res)"

definition countTreeNodes :: "replay_result \<Rightarrow> string \<Rightarrow> nat" where
  "countTreeNodes res st = length (filter (\<lambda>n. nr_inTree n \<and> (st = '''' \<or> nr_machineState n = st)) (ordered_nodes res))"

definition taskStateOf :: "bool \<Rightarrow> string" where
  "taskStateOf verified = (if verified then ''done'' else ''active'')"

record task_row =
  tr_root :: string
  tr_title :: string
  tr_verified :: nat
  tr_total :: nat
  tr_publisher :: string
  tr_participantsCount :: nat
  tr_participants :: "string list"
  tr_state :: string
  tr_activity :: last_activity

record task_stats =
  ts_total :: nat
  ts_active :: nat
  ts_done :: nat
  ts_participants :: nat
  ts_nodesByState :: "(string, nat) gomap"

record leaderboard_row =
  lb_bot :: string
  lb_contribution :: nat
  lb_reviewScore :: nat
  lb_num :: nat
  lb_den :: nat

record task_index =
  ti_rows :: "task_row list"
  ti_stats :: task_stats
  ti_leaderboard :: "leaderboard_row list"
  ti_meta :: replay_meta

definition task_row_of :: "run_scope \<Rightarrow> string \<times> replay_result \<Rightarrow> task_row" where
  "task_row_of scope kv =
     (let parts = participantsOf (fst kv) (snd kv) scope
      in \<lparr>tr_root = fst kv, tr_title = rr_title (snd kv), tr_verified = countTreeNodes (snd kv) ''verified'',
          tr_total = countTreeNodes (snd kv) '''', tr_publisher = rr_publisher (snd kv), tr_participantsCount = length parts,
          tr_participants = map pt_bot parts, tr_state = taskStateOf (rr_rootVerified (snd kv)),
          tr_activity = lastActivityOf (snd kv)\<rparr>)"

definition task_row_less :: "task_row \<Rightarrow> task_row \<Rightarrow> bool" where
  "task_row_less a b =
     (if la_ts (tr_activity a) \<noteq> la_ts (tr_activity b) then la_ts (tr_activity b) < la_ts (tr_activity a)
      else string_less (tr_root a) (tr_root b))"

definition bump_state :: "(string, nat) gomap \<Rightarrow> string \<Rightarrow> (string, nat) gomap" where
  "bump_state m s = mput s ((case mget m s of Some n \<Rightarrow> n | None \<Rightarrow> 0) + 1) m"

section \<open>The leaderboard\<close>

definition board_at :: "(string, leaderboard_row) gomap \<Rightarrow> string \<Rightarrow> leaderboard_row" where
  "board_at m who = (case mget m who of Some r \<Rightarrow> r
     | None \<Rightarrow> \<lparr>lb_bot = who, lb_contribution = 0, lb_reviewScore = 0, lb_num = 0, lb_den = 0\<rparr>)"

text \<open>A counted vote agrees with the node when it passed a verified node or failed another one.\<close>

definition agrees :: "node_replay \<Rightarrow> rendered_vote \<Rightarrow> bool" where
  "agrees n v \<longleftrightarrow> rv_verdict v = ''pass'' \<and> nr_machineState n = ''verified'' \<or> rv_verdict v = ''fail'' \<and> nr_machineState n \<noteq> ''verified''"

definition score_vote :: "node_replay \<Rightarrow> (string, leaderboard_row) gomap \<Rightarrow> rendered_vote \<Rightarrow> (string, leaderboard_row) gomap" where
  "score_vote n m v =
     (let r = board_at m (rv_voter v)
      in mput (rv_voter v) (r\<lparr>lb_reviewScore := lb_reviewScore r + 1, lb_den := lb_den r + 1,
           lb_num := (if agrees n v then lb_num r + 1 else lb_num r)\<rparr>) m)"

definition score_node :: "(string, leaderboard_row) gomap \<Rightarrow> node_replay \<Rightarrow> (string, leaderboard_row) gomap" where
  "score_node m n =
     (let m1 = (case verified_submitter n of None \<Rightarrow> m
           | Some s \<Rightarrow> mput s ((board_at m s)\<lparr>lb_contribution := lb_contribution (board_at m s) + 1\<rparr>) m)
      in foldl (score_vote n) m1 (filter rv_counts (nr_votes n)))"

definition all_nodes :: "results \<Rightarrow> node_replay list" where
  "all_nodes results = concat (map (\<lambda>kv. ordered_nodes (snd kv)) results)"

definition leader_less :: "leaderboard_row \<Rightarrow> leaderboard_row \<Rightarrow> bool" where
  "leader_less a b =
     (if lb_contribution a \<noteq> lb_contribution b then lb_contribution b < lb_contribution a
      else if lb_reviewScore a \<noteq> lb_reviewScore b then lb_reviewScore b < lb_reviewScore a
      else string_less (lb_bot a) (lb_bot b))"

definition buildLeaderboard :: "results \<Rightarrow> leaderboard_row list" where
  "buildLeaderboard results = slice_stable leader_less (map snd (foldl score_node [] (all_nodes results)))"

definition BuildTaskIndex :: "results \<Rightarrow> run_scope \<Rightarrow> replay_meta \<Rightarrow> task_index" where
  "BuildTaskIndex results scope meta =
     \<lparr>ti_rows = slice_stable task_row_less (map (task_row_of scope) results),
      ti_stats = \<lparr>ts_total = length results,
        ts_active = length (filter (\<lambda>kv. \<not> rr_rootVerified (snd kv)) results),
        ts_done = length (filter (\<lambda>kv. rr_rootVerified (snd kv)) results),
        ts_participants = length (remdups (concat (map (\<lambda>kv. map pt_bot (participantsOf (fst kv) (snd kv) scope)) results))),
        ts_nodesByState = foldl bump_state [(''open'', 0), (''claimed'', 0), (''submitted'', 0), (''verified'', 0), (''rejected'', 0), (''expired'', 0)]
          (map nr_displayState (all_nodes results))\<rparr>,
      ti_leaderboard = buildLeaderboard results, ti_meta = meta\<rparr>"

section \<open>The panorama of a task\<close>

record spec_view =
  sv_name :: string
  sv_lang :: string
  sv_entry :: string
  sv_script :: string
  sv_input :: string
  sv_output :: string

record progress_counts =
  pc_total :: nat
  pc_verified :: nat
  pc_open :: nat
  pc_rejected :: nat
  pc_expired :: nat

record panorama =
  pn_root :: string
  pn_title :: string
  pn_brief :: string
  pn_publisher :: string
  pn_tags :: "string list"
  pn_treeID :: string
  pn_specID :: string
  pn_spec :: "spec_view option"
  pn_policy :: jobj
  pn_nodes :: "node_replay list"
  pn_progress :: progress_counts
  pn_state :: string
  pn_participants :: "participant_stat list"
  pn_meta :: replay_meta
  pn_discoveredBy :: "string list"

definition shown :: "replay_result \<Rightarrow> string \<Rightarrow> nat" where
  "shown res st = length (filter (\<lambda>n. nr_displayState n = st) (ordered_nodes res))"

definition body_of :: "run_scope \<Rightarrow> string \<Rightarrow> string \<Rightarrow> jobj option" where
  "body_of scope path pin = map_option re_body (find (\<lambda>ev. pi_id (re_pin ev) = pin) (scope_at scope path))"

definition spec_view_of :: "jobj \<Rightarrow> spec_view" where
  "spec_view_of b = \<lparr>sv_name = payloadString b ''name'', sv_lang = payloadString b ''lang'', sv_entry = payloadString b ''entry'',
     sv_script = payloadString b ''script'', sv_input = payloadString b ''input'', sv_output = payloadString b ''output''\<rparr>"

definition BuildPanorama :: "replay_result \<Rightarrow> run_scope \<Rightarrow> replay_meta \<Rightarrow> panorama" where
  "BuildPanorama res scope meta =
     (let task = body_of scope PathTask (rr_root res)
      in \<lparr>pn_root = rr_root res, pn_title = rr_title res,
          pn_brief = (case task of Some b \<Rightarrow> payloadString b ''brief'' | None \<Rightarrow> ''''), pn_publisher = rr_publisher res,
          pn_tags = (case task of Some b \<Rightarrow> payloadStrings b ''tags'' | None \<Rightarrow> []),
          pn_treeID = rr_treeID res, pn_specID = rr_specID res,
          pn_spec = map_option spec_view_of (body_of scope PathSpec (rr_specID res)), pn_policy = rr_policy res,
          pn_nodes = ordered_nodes res,
          pn_progress = \<lparr>pc_total = length (rr_nodes res), pc_verified = shown res ''verified'', pc_open = shown res ''open'',
            pc_rejected = shown res ''rejected'', pc_expired = shown res ''expired''\<rparr>,
          pn_state = taskStateOf (rr_rootVerified res), pn_participants = participantsOf (rr_root res) res scope,
          pn_meta = meta, pn_discoveredBy = [''index'']\<rparr>)"

definition BuildNodeEvents :: "replay_result \<Rightarrow> string \<Rightarrow> string + node_replay \<times> event_record list" where
  "BuildNodeEvents res nodeID = (case mget (rr_nodes res) nodeID of
      None \<Rightarrow> Inl (''node '' @ nodeID @ '' not found in task '' @ rr_root res)
    | Some n \<Rightarrow> Inr (n, nr_events n))"

end
