(* ===== verification/ProjectProps.thy ===== *)
theory ProjectProps
  imports Project
begin

text \<open>
  What the projections count. The leaderboard and the participant list are folds that keep one row per
  bot; both are brought to one form, a tally of scores by key, whose rows are counts.
\<close>

section \<open>Tallies\<close>

definition tally_step :: "('k \<Rightarrow> 'r) \<Rightarrow> ('s \<Rightarrow> 'r \<Rightarrow> 'r) \<Rightarrow> ('k, 'r) gomap \<Rightarrow> 'k \<times> 's \<Rightarrow> ('k, 'r) gomap" where
  "tally_step zero score m e =
     mput (fst e) (score (snd e) (case mget m (fst e) of Some r \<Rightarrow> r | None \<Rightarrow> zero (fst e))) m"

lemma tally_get:
  "mget (foldl (tally_step zero score) m es) k =
     (if k \<in> fst ` set es
      then Some (foldl (\<lambda>r s. score s r) (case mget m k of Some r \<Rightarrow> r | None \<Rightarrow> zero k) (map snd (filter (\<lambda>e. fst e = k) es)))
      else mget m k)"
proof (induction es arbitrary: m)
  case (Cons e es)
  have step: "mget (tally_step zero score m e) j = (if fst e = j then Some (score (snd e) (case mget m j of Some r \<Rightarrow> r | None \<Rightarrow> zero j))
      else mget m j)" for j
    by (auto simp: tally_step_def)
  have "k \<notin> fst ` set es \<Longrightarrow> filter (\<lambda>e. fst e = k) es = []" by (auto simp: filter_empty_conv)
  then show ?case by (auto simp: Cons.IH step)
qed simp

lemma tally_distinct: "distinct (mkeys m) \<Longrightarrow> distinct (mkeys (foldl (tally_step zero score) m es))"
  by (induction es arbitrary: m) (auto simp: tally_step_def)

text \<open>The rows of a tally, and their number of scores.\<close>

lemma map_values: "distinct (mkeys m) \<Longrightarrow> set (map snd m) = {r. \<exists>k. mget m k = Some r}"
  by (force simp: mkeys_def map_of_eq_Some_iff image_iff)

lemma tally_rows: "set (map snd (foldl (tally_step zero score) [] es))
   = (\<lambda>k. foldl (\<lambda>r s. score s r) (zero k) (map snd (filter (\<lambda>e. fst e = k) es))) ` fst ` set es"
proof -
  have "distinct (mkeys (foldl (tally_step zero score) [] es))" by (rule tally_distinct) (simp add: mkeys_def)
  then show ?thesis by (subst map_values) (auto simp: tally_get)
qed

text \<open>One row per key when the row keeps its key.\<close>

lemma tally_keys:
  assumes "\<And>s r. key (score s r) = key r" "\<And>k. key (zero k) = k"
  shows "distinct (map key (map snd (foldl (tally_step zero score) [] es)))"
proof -
  have keep: "key (foldl (\<lambda>r s. score s r) r ss) = key r" for r ss by (induction ss arbitrary: r) (simp_all add: assms)
  let ?m = "foldl (tally_step zero score) [] es"
  have d: "distinct (mkeys ?m)" by (rule tally_distinct) (simp add: mkeys_def)
  have "key r = k" if "(k, r) \<in> set ?m" for k r
  proof -
    from that d have "mget ?m k = Some r" by (simp add: mkeys_def)
    then show ?thesis by (auto simp: tally_get keep assms(2) split: if_splits)
  qed
  then have "map key (map snd ?m) = mkeys ?m" by (auto simp: mkeys_def)
  with d show ?thesis by simp
qed

section \<open>The leaderboard\<close>

datatype board_score = Contributed | Reviewed bool

fun board_add :: "board_score \<Rightarrow> leaderboard_row \<Rightarrow> leaderboard_row" where
  "board_add Contributed r = r\<lparr>lb_contribution := lb_contribution r + 1\<rparr>"
| "board_add (Reviewed ok) r = r\<lparr>lb_reviewScore := lb_reviewScore r + 1, lb_den := lb_den r + 1,
     lb_num := (if ok then lb_num r + 1 else lb_num r)\<rparr>"

definition board_zero :: "string \<Rightarrow> leaderboard_row" where "board_zero who = board_at [] who"

definition node_scores :: "node_replay \<Rightarrow> (string \<times> board_score) list" where
  "node_scores n = map (\<lambda>s. (s, Contributed)) (case verified_submitter n of None \<Rightarrow> [] | Some s \<Rightarrow> [s])
     @ map (\<lambda>v. (rv_voter v, Reviewed (agrees n v))) (filter rv_counts (nr_votes n))"

lemma board_step: "score_vote n m v = tally_step board_zero board_add m (rv_voter v, Reviewed (agrees n v))"
  "mput s ((board_at m s)\<lparr>lb_contribution := lb_contribution (board_at m s) + 1\<rparr>) m = tally_step board_zero board_add m (s, Contributed)"
  by (auto simp: score_vote_def tally_step_def board_zero_def board_at_def Let_def split: option.split)

lemma foldl_score_vote: "foldl (score_vote n) m vs = foldl (tally_step board_zero board_add) m (map (\<lambda>v. (rv_voter v, Reviewed (agrees n v))) vs)"
  by (induction vs arbitrary: m) (simp_all add: board_step)

lemma score_node_tally: "score_node m n = foldl (tally_step board_zero board_add) m (node_scores n)"
  by (auto simp: score_node_def node_scores_def foldl_score_vote board_step(2) [simplified] split: option.split)

lemma board_tally: "foldl score_node m ns = foldl (tally_step board_zero board_add) m (concat (map node_scores ns))"
  by (induction ns arbitrary: m) (simp_all add: score_node_tally)

lemma board_fold: "foldl (\<lambda>r s. board_add s r) r ss =
   r\<lparr>lb_contribution := lb_contribution r + length (filter (\<lambda>s. s = Contributed) ss),
     lb_reviewScore := lb_reviewScore r + length (filter (\<lambda>s. s \<noteq> Contributed) ss),
     lb_num := lb_num r + length (filter (\<lambda>s. s = Reviewed True) ss),
     lb_den := lb_den r + length (filter (\<lambda>s. s \<noteq> Contributed) ss)\<rparr>"
proof (induction ss arbitrary: r)
  case (Cons s ss)
  show ?case by (cases s) (simp_all add: Cons.IH)
qed simp

text \<open>The counts of a bot over the nodes: finally verified submissions, counted votes, votes that agree.\<close>

definition contributions :: "node_replay list \<Rightarrow> string \<Rightarrow> nat" where
  "contributions ns b = length (filter (\<lambda>n. verified_submitter n = Some b) ns)"

definition reviews_by :: "node_replay list \<Rightarrow> string \<Rightarrow> (node_replay \<times> rendered_vote) list" where
  "reviews_by ns b = concat (map (\<lambda>n. map (Pair n) (filter (\<lambda>v. rv_counts v \<and> rv_voter v = b) (nr_votes n))) ns)"

definition board_row :: "node_replay list \<Rightarrow> string \<Rightarrow> leaderboard_row" where
  "board_row ns b = \<lparr>lb_bot = b, lb_contribution = contributions ns b, lb_reviewScore = length (reviews_by ns b),
     lb_num = length (filter (\<lambda>(n, v). agrees n v) (reviews_by ns b)), lb_den = length (reviews_by ns b)\<rparr>"

definition board_bots :: "node_replay list \<Rightarrow> string set" where
  "board_bots ns = {b. contributions ns b \<noteq> 0 \<or> reviews_by ns b \<noteq> []}"

lemma node_scores_of: "map snd (filter (\<lambda>e. fst e = b) (node_scores n)) =
   (if verified_submitter n = Some b then [Contributed] else [])
   @ map (\<lambda>v. Reviewed (agrees n v)) (filter (\<lambda>v. rv_counts v \<and> rv_voter v = b) (nr_votes n))"
proof -
  have "filter (\<lambda>v. rv_voter v = b) (filter rv_counts (nr_votes n)) = filter (\<lambda>v. rv_counts v \<and> rv_voter v = b) (nr_votes n)"
    by (simp add: conj_commute)
  then show ?thesis by (simp add: node_scores_def filter_map o_def split: option.split)
qed

lemma score_counts:
  fixes b ns defines "ss \<equiv> map snd (filter (\<lambda>e. fst e = b) (concat (map node_scores ns)))"
  shows "length (filter (\<lambda>s. s = Contributed) ss) = contributions ns b"
    and "length (filter (\<lambda>s. s \<noteq> Contributed) ss) = length (reviews_by ns b)"
    and "length (filter (\<lambda>s. s = Reviewed True) ss) = length (filter (\<lambda>(n, v). agrees n v) (reviews_by ns b))"
proof -
  have ss: "ss = concat (map (\<lambda>n. map snd (filter (\<lambda>e. fst e = b) (node_scores n))) ns)"
    unfolding ss_def by (simp add: filter_concat map_concat o_def)
  show "length (filter (\<lambda>s. s = Contributed) ss) = contributions ns b"
    unfolding ss node_scores_of contributions_def by (induction ns) (simp_all add: filter_map o_def)
  show "length (filter (\<lambda>s. s \<noteq> Contributed) ss) = length (reviews_by ns b)"
    unfolding ss node_scores_of reviews_by_def by (induction ns) (simp_all add: filter_map o_def)
  show "length (filter (\<lambda>s. s = Reviewed True) ss) = length (filter (\<lambda>(n, v). agrees n v) (reviews_by ns b))"
    unfolding ss node_scores_of reviews_by_def by (induction ns) (simp_all add: filter_map o_def)
qed

interpretation leader_ord: total_order_on leader_less lb_bot
proof -
  have o: "leader_less = (\<lambda>a b. if - int (lb_contribution a) \<noteq> - int (lb_contribution b) then - int (lb_contribution a) < - int (lb_contribution b)
      else if - int (lb_reviewScore a) \<noteq> - int (lb_reviewScore b) then - int (lb_reviewScore a) < - int (lb_reviewScore b)
      else string_less (lb_bot a) (lb_bot b))"
    by (simp add: leader_less_def fun_eq_iff)
  show "total_order_on leader_less lb_bot"
    unfolding o by (intro total_order_on_lex total_order_on_inv [OF string_order])
qed

lemma board_keys: "distinct (map lb_bot (map snd (foldl score_node [] ns)))"
  unfolding board_tally
proof (rule tally_keys)
  fix s r show "lb_bot (board_add s r) = lb_bot r" by (cases s) simp_all
qed (simp add: board_zero_def board_at_def)

lemma board_set: "set (map snd (foldl score_node [] ns)) = board_row ns ` board_bots ns"
proof -
  have "b \<in> fst ` set (concat (map node_scores ns)) \<longleftrightarrow> b \<in> board_bots ns" for b
  proof -
    let ?ss = "map snd (filter (\<lambda>e. fst e = b) (concat (map node_scores ns)))"
    have "b \<in> fst ` set (concat (map node_scores ns)) \<longleftrightarrow> ?ss \<noteq> []"
      by (force simp: filter_empty_conv)
    also have "\<dots> \<longleftrightarrow> length (filter (\<lambda>s. s = Contributed) ?ss) \<noteq> 0 \<or> length (filter (\<lambda>s. s \<noteq> Contributed) ?ss) \<noteq> 0"
      by (cases ?ss) auto
    also have "\<dots> \<longleftrightarrow> b \<in> board_bots ns" unfolding score_counts board_bots_def by simp
    finally show ?thesis .
  qed
  then have "fst ` set (concat (map node_scores ns)) = board_bots ns" by blast
  then show ?thesis
    unfolding board_tally tally_rows board_fold score_counts by (simp add: board_zero_def board_at_def board_row_def)
qed

text \<open>
  C18: The leaderboard counts what it says. It has one row for every bot with a finally verified submission
  or a counted vote, with the number of those, the votes that agree with the outcome of their node out
  of all its counted votes, and the rows are in the order of contribution, reviews and bot.
\<close>

theorem leaderboard_exact:
  "set (buildLeaderboard results) = board_row (all_nodes results) ` board_bots (all_nodes results)
   \<and> distinct (map lb_bot (buildLeaderboard results))
   \<and> sorted_wrt (\<lambda>a b. \<not> leader_less b a) (buildLeaderboard results)"
  by (simp add: buildLeaderboard_def board_keys board_set [simplified] leader_ord.sorted del: map_map)

section \<open>The order of the results\<close>

lemma mset_concat_perm: "mset xs = mset ys \<Longrightarrow> mset (concat (map f xs)) = mset (concat (map f ys))"
  by (metis (no_types, lifting) map_map mset_concat mset_map sum_mset_sum_list)

lemma length_filter_perm: "mset xs = mset ys \<Longrightarrow> length (filter P xs) = length (filter P ys)"
  by (metis mset_filter size_mset)

lemma board_perm:
  assumes "mset ns = mset ns'" shows "board_row ns = board_row ns'" "board_bots ns = board_bots ns'"
proof -
  have c: "contributions ns b = contributions ns' b" for b
    unfolding contributions_def by (rule length_filter_perm [OF assms])
  have r: "mset (reviews_by ns b) = mset (reviews_by ns' b)" for b
    unfolding reviews_by_def by (rule mset_concat_perm [OF assms])
  then have "length (reviews_by ns b) = length (reviews_by ns' b)" for b by (metis size_mset)
  moreover have "length (filter (\<lambda>(n, v). agrees n v) (reviews_by ns b)) = length (filter (\<lambda>(n, v). agrees n v) (reviews_by ns' b))" for b
    by (rule length_filter_perm [OF r])
  ultimately show "board_row ns = board_row ns'" by (simp add: fun_eq_iff board_row_def c)
  from r have "reviews_by ns b = [] \<longleftrightarrow> reviews_by ns' b = []" for b by (metis mset_zero_iff)
  with c show "board_bots ns = board_bots ns'" by (simp add: board_bots_def)
qed

lemma leaderboard_perm:
  assumes "mset (all_nodes results) = mset (all_nodes results')"
  shows "buildLeaderboard results = buildLeaderboard results'"
proof -
  let ?rows = "\<lambda>ns. map snd (foldl score_node [] ns)"
  have d: "distinct (?rows ns)" "inj_on lb_bot (set (?rows ns))" for ns
    using board_keys [of ns] by (simp_all add: distinct_map del: map_map)
  have "mset (?rows (all_nodes results)) = mset (?rows (all_nodes results'))"
    using d board_set board_perm [OF assms] by (metis set_eq_iff_mset_eq_distinct)
  then show ?thesis
    unfolding buildLeaderboard_def by (rule leader_ord.slice_stable_perm) (rule d)
qed

interpretation task_row_ord: total_order_on task_row_less tr_root
proof -
  have o: "task_row_less = (\<lambda>a b. if - la_ts (tr_activity a) \<noteq> - la_ts (tr_activity b)
      then - la_ts (tr_activity a) < - la_ts (tr_activity b) else string_less (tr_root a) (tr_root b))"
    by (simp add: task_row_less_def fun_eq_iff)
  show "total_order_on task_row_less tr_root"
    unfolding o by (intro total_order_on_lex total_order_on_inv [OF string_order])
qed

lemma bump_get: "mget (foldl bump_state m ss) s =
   (if s \<in> set ss then Some ((case mget m s of Some n \<Rightarrow> n | None \<Rightarrow> 0) + length (filter (\<lambda>t. t = s) ss)) else mget m s)"
proof (induction ss arbitrary: m)
  case (Cons t ss)
  have step: "mget (bump_state m t) s = (if t = s then Some ((case mget m s of Some n \<Rightarrow> n | None \<Rightarrow> 0) + 1) else mget m s)" for m t s
    by (simp add: bump_state_def)
  have "s \<notin> set ss \<Longrightarrow> filter (\<lambda>t. t = s) ss = []" by (auto simp: filter_empty_conv)
  then show ?case by (auto simp: Cons.IH step)
qed simp

text \<open>
  C19: The task index does not depend on the order in which Go ranges over the results. Two orders of the
  same map give the same rows in the same order, the same leaderboard and the same statistics.
\<close>

theorem task_index_order:
  assumes "mset results = mset results'" "distinct (map fst results)"
  shows "ti_rows (BuildTaskIndex results scope meta) = ti_rows (BuildTaskIndex results' scope meta)
     \<and> ti_leaderboard (BuildTaskIndex results scope meta) = ti_leaderboard (BuildTaskIndex results' scope meta)
     \<and> mget (ts_nodesByState (ti_stats (BuildTaskIndex results scope meta))) = mget (ts_nodesByState (ti_stats (BuildTaskIndex results' scope meta)))
     \<and> (ti_stats (BuildTaskIndex results scope meta))\<lparr>ts_nodesByState := []\<rparr> = (ti_stats (BuildTaskIndex results' scope meta))\<lparr>ts_nodesByState := []\<rparr>"
proof (intro conjI)
  have nodes: "mset (all_nodes results) = mset (all_nodes results')"
    unfolding all_nodes_def by (rule mset_concat_perm [OF assms(1)])
  have "mset (map (task_row_of scope) results) = mset (map (task_row_of scope) results')" using assms(1) by simp
  moreover have "map tr_root (map (task_row_of scope) results) = map fst results" by (simp add: task_row_of_def Let_def)
  with assms(2) have "inj_on tr_root (set (map (task_row_of scope) results))" by (metis distinct_map)
  ultimately show "ti_rows (BuildTaskIndex results scope meta) = ti_rows (BuildTaskIndex results' scope meta)"
    unfolding BuildTaskIndex_def task_index.simps by (rule task_row_ord.slice_stable_perm)
  show "ti_leaderboard (BuildTaskIndex results scope meta) = ti_leaderboard (BuildTaskIndex results' scope meta)"
    unfolding BuildTaskIndex_def task_index.simps by (rule leaderboard_perm [OF nodes])
  have states: "mset (map nr_displayState (all_nodes results)) = mset (map nr_displayState (all_nodes results'))" using nodes by simp
  have "mget (foldl bump_state m (map nr_displayState (all_nodes results))) s = mget (foldl bump_state m (map nr_displayState (all_nodes results'))) s" for m s
    unfolding bump_get mset_eq_setD [OF states] length_filter_perm [OF states] ..
  then show "mget (ts_nodesByState (ti_stats (BuildTaskIndex results scope meta))) = mget (ts_nodesByState (ti_stats (BuildTaskIndex results' scope meta)))"
    unfolding BuildTaskIndex_def task_index.simps task_stats.simps by (intro ext)
  have "length results = length results'" using assms(1) by (metis size_mset)
  moreover have "set results = set results'" using assms(1) by (rule mset_eq_setD)
  ultimately show "(ti_stats (BuildTaskIndex results scope meta))\<lparr>ts_nodesByState := []\<rparr> = (ti_stats (BuildTaskIndex results' scope meta))\<lparr>ts_nodesByState := []\<rparr>"
    using length_filter_perm [OF assms(1)] by (simp add: BuildTaskIndex_def length_remdups_card_conv)
qed

text \<open>Two tasks without nodes.\<close>

definition demo_result_of :: "string \<Rightarrow> bool \<Rightarrow> replay_result" where
  "demo_result_of root_pin finished = \<lparr>rr_root = root_pin, rr_title = ''t'', rr_publisher = ''p'', rr_policy = [], rr_quorum = 1, rr_ttlHours = 0,
     rr_windowHours = 0, rr_treeID = '''', rr_specID = '''', rr_treeResolved = False, rr_specResolved = False, rr_rootVerified = finished,
     rr_boundary = \<lparr>bd_height = 0, bd_ts = 0\<rparr>, rr_nodes = [], rr_nodeOrder = [], rr_unresolved = [], rr_eventCount = 0,
     rr_eventCountByPath = [], rr_mempool = 0, rr_rejected = 0, rr_orderFallback = False, rr_taskComplete = finished,
     rr_eventSetHash = '''', rr_boundaryBlock = 0, rr_settlement = None, rr_ignored = [], rr_disputed = [], rr_amendHead = '''',
     rr_hAct2 = 0, rr_rosterID = '''', rr_rosterResolved = False\<rparr>"

definition demo_scope :: run_scope where
  "demo_scope = \<lparr>sc_admitted = [], sc_mempool = 0, sc_rejected = 0, sc_unresolved = 0\<rparr>"

definition demo_meta :: replay_meta where
  "demo_meta = BuildReplayMeta demo_scope \<lparr>eu_size = 1, eu_paths = [], eu_complete = True, eu_unresolved = [], eu_hash = ''''\<rparr>
     \<lparr>bd_height = 0, bd_ts = 0\<rparr>"

theorem task_index_order_witness:
  "ti_rows (BuildTaskIndex [(''a'', demo_result_of ''a'' True), (''b'', demo_result_of ''b'' False)] demo_scope demo_meta)
   = ti_rows (BuildTaskIndex [(''b'', demo_result_of ''b'' False), (''a'', demo_result_of ''a'' True)] demo_scope demo_meta)"
  using task_index_order [of "[(''a'', demo_result_of ''a'' True), (''b'', demo_result_of ''b'' False)]"
      "[(''b'', demo_result_of ''b'' False), (''a'', demo_result_of ''a'' True)]" demo_scope demo_meta] by simp

end
