(* ===== verification/Store.thy ===== *)
theory Store
  imports GoStd
begin

text \<open>
  The key-value store behind the aggregators (\<open>internal/storage/pebble.go\<close>). Pebble itself is a library
  outside the tree: one opened database is a value of some type, with the four operations the code
  uses as an argument of the model, and its documented behaviour as the named hypothesis \<open>kv_laws\<close>:
  it is a finite map ordered by the bytes of its keys. The prefix scans are the code's own.
\<close>

section \<open>The library's operations\<close>

text \<open>\<open>kv_iter d lower upper\<close>: the entries from the lower bound on and below the upper one, in key order.\<close>

record 'db kv =
  kv_get :: "'db \<Rightarrow> string \<Rightarrow> string option"
  kv_put :: "string \<Rightarrow> string \<Rightarrow> 'db \<Rightarrow> 'db"
  kv_del :: "string \<Rightarrow> 'db \<Rightarrow> 'db"
  kv_iter :: "'db \<Rightarrow> string \<Rightarrow> string option \<Rightarrow> (string \<times> string) list"

definition kv_laws :: "'db kv \<Rightarrow> bool" where
  "kv_laws K \<longleftrightarrow>
     (\<forall>k v d. kv_get K (kv_put K k v d) = (kv_get K d)(k \<mapsto> v))
   \<and> (\<forall>k d. kv_get K (kv_del K k d) = (kv_get K d)(k := None))
   \<and> (\<forall>d lower upper. sorted_wrt (\<lambda>a b. string_less (fst a) (fst b)) (kv_iter K d lower upper)
        \<and> set (kv_iter K d lower upper)
            = {(k, v). kv_get K d k = Some v \<and> \<not> string_less k lower \<and> (\<forall>u. upper = Some u \<longrightarrow> string_less k u)})"

section \<open>Prefix scans\<close>

text \<open>
  \<open>prefixUpperBound\<close>: the last byte that is not \<open>0xff\<close> incremented, what follows it cut off; \<open>None\<close> when
  there is none. The loop runs from the end, so it is on the reversed prefix.
\<close>

fun bump_key :: "string \<Rightarrow> string option" where
  "bump_key [] = None"
| "bump_key (c # r) = (if byte c = 255 then bump_key r else Some (char_of (byte c + 1) # r))"

definition prefixUpperBound :: "string \<Rightarrow> string option" where
  "prefixUpperBound p = map_option rev (bump_key (rev p))"

definition ScanPrefix :: "'db kv \<Rightarrow> 'db \<Rightarrow> string \<Rightarrow> (string \<times> string) list" where
  "ScanPrefix K d prefix = kv_iter K d prefix (prefixUpperBound prefix)"

definition ScanAfter :: "'db kv \<Rightarrow> 'db \<Rightarrow> string \<Rightarrow> (string \<times> string) list" where
  "ScanAfter K d after = kv_iter K d (if after = '''' then '''' else after @ [char_of (0 :: int)]) None"

definition ScanPrefixAfter :: "'db kv \<Rightarrow> 'db \<Rightarrow> string \<Rightarrow> string \<Rightarrow> (string \<times> string) list" where
  "ScanPrefixAfter K d prefix after = kv_iter K d (after @ [char_of (0 :: int)]) (prefixUpperBound prefix)"

definition DeleteByPrefix :: "'db kv \<Rightarrow> string \<Rightarrow> 'db \<Rightarrow> 'db" where
  "DeleteByPrefix K prefix d = foldl (\<lambda>d kv. kv_del K (fst kv) d) d (ScanPrefix K d prefix)"

text \<open>A database that has not been opened is not opened by a deletion, which then does nothing.\<close>

definition store_delete :: "'db kv \<Rightarrow> bool \<Rightarrow> string \<Rightarrow> 'db \<Rightarrow> 'db" where
  "store_delete K opened key d = (if opened then kv_del K key d else d)"

definition store_delete_prefix :: "'db kv \<Rightarrow> bool \<Rightarrow> string \<Rightarrow> 'db \<Rightarrow> 'db" where
  "store_delete_prefix K opened prefix d = (if opened then DeleteByPrefix K prefix d else d)"

definition SetBatch :: "'db kv \<Rightarrow> (string \<times> string) list \<Rightarrow> 'db \<Rightarrow> 'db" where
  "SetBatch K entries d = foldl (\<lambda>d kv. kv_put K (fst kv) (snd kv) d) d entries"

definition DeleteBatch :: "'db kv \<Rightarrow> string list \<Rightarrow> 'db \<Rightarrow> 'db" where
  "DeleteBatch K keys d = foldl (\<lambda>d k. kv_del K k d) d keys"

section \<open>Key order and prefixes\<close>

lemma char_less_byte: "c < d \<longleftrightarrow> byte c < byte d"
proof -
  have eq: "byte e = int (of_char e)" for e by (cases e) (simp add: of_char_def)
  show ?thesis by (simp add: less_char_def eq)
qed

lemma byte_inj: "byte c = byte d \<longleftrightarrow> c = d"
  by simp

lemma byte_char_int: "0 \<le> b \<Longrightarrow> b < 256 \<Longrightarrow> byte (char_of b) = (b :: int)"
  by (simp add: of_char_of)

lemma string_less_simps [simp]:
  "\<not> string_less s []" "string_less [] (c # s)" "string_less (c # s) (d # t) \<longleftrightarrow> byte c < byte d \<or> c = d \<and> string_less s t"
  by (simp_all add: string_less_def char_less_byte)

lemma bump_key_snoc: "bump_key (xs @ [c]) = (case bump_key xs of Some u \<Rightarrow> Some (u @ [c]) | None \<Rightarrow> bump_key [c])"
  by (induction xs) auto

lemma upper_Cons: "prefixUpperBound (c # p) = (case prefixUpperBound p of Some u \<Rightarrow> Some (c # u)
    | None \<Rightarrow> if byte c = 255 then None else Some [char_of (byte c + 1)])"
  by (simp add: prefixUpperBound_def bump_key_snoc split: option.split)

lemma prefix_range: "has_prefix k p \<longleftrightarrow> \<not> string_less k p \<and> (\<forall>u. prefixUpperBound p = Some u \<longrightarrow> string_less k u)"
proof (induction p arbitrary: k)
  case Nil
  show ?case by (simp add: has_prefix_def prefixUpperBound_def)
next
  case (Cons c p)
  show ?case
  proof (cases k)
    case Nil
    then show ?thesis by (simp add: has_prefix_def)
  next
    case (Cons d k')
    have hp: "has_prefix k (c # p) \<longleftrightarrow> d = c \<and> has_prefix k' p" by (simp add: Cons has_prefix_def)
    show ?thesis
    proof (cases "prefixUpperBound p")
      case (Some u)
      then show ?thesis unfolding hp using Cons.IH [of k'] by (auto simp: \<open>k = d # k'\<close> upper_Cons)
    next
      case None
      have b: "byte c < 256" "byte d < 256" "0 \<le> byte c" by simp_all
      then have n: "byte c \<noteq> 255 \<Longrightarrow> byte (char_of (byte c + 1)) = byte c + 1" by (intro byte_char_int) linarith+
      have "byte c = 255 \<Longrightarrow> \<not> byte d < 255 \<Longrightarrow> d = c"
        using b byte_inj [of d c] by linarith
      moreover have "byte d < byte c + 1 \<longleftrightarrow> byte d < byte c \<or> d = c" using byte_inj [of d c] by linarith
      ultimately show ?thesis
        using None b n
        unfolding hp using Cons.IH [of k'] by (auto simp: \<open>k = d # k'\<close> upper_Cons)
    qed
  qed
qed

section \<open>What the operations do\<close>

text \<open>The contract of the store, as its clients use it.\<close>

locale ordered_store =
  fixes K :: "'db kv"
  assumes laws: "kv_laws K"
begin

lemma get_put [simp]: "kv_get K (kv_put K k v d) = (kv_get K d)(k \<mapsto> v)"
  using laws by (simp add: kv_laws_def)

lemma get_del [simp]: "kv_get K (kv_del K k d) = (kv_get K d)(k := None)"
  using laws by (simp add: kv_laws_def)

lemma iter_sorted: "sorted_wrt (\<lambda>a b. string_less (fst a) (fst b)) (kv_iter K d lower upper)"
  using laws by (simp add: kv_laws_def)

lemma iter_entries: "(k, v) \<in> set (kv_iter K d lower upper)
    \<longleftrightarrow> kv_get K d k = Some v \<and> \<not> string_less k lower \<and> (\<forall>u. upper = Some u \<longrightarrow> string_less k u)"
  using laws by (simp add: kv_laws_def)

lemma scan_entries: "(k, v) \<in> set (ScanPrefix K d p) \<longleftrightarrow> kv_get K d k = Some v \<and> has_prefix k p"
  unfolding ScanPrefix_def iter_entries prefix_range ..

lemma scan_sorted: "sorted_wrt (\<lambda>a b. string_less (fst a) (fst b)) (ScanPrefix K d p)"
  unfolding ScanPrefix_def by (rule iter_sorted)

lemma succ_range: "\<not> string_less k (a @ [char_of (0 :: int)]) \<longleftrightarrow> string_less a k"
proof (induction a arbitrary: k)
  case Nil
  have "byte (char_of (0 :: int)) = 0" by (simp add: byte_char_int)
  then show ?case by (cases k) (auto simp: not_less)
next
  case (Cons c a)
  show ?case
  proof (cases k)
    case (Cons d k')
    show ?thesis
    proof (cases "d = c")
      case True
      with Cons Cons.IH [of k'] show ?thesis by simp
    next
      case False
      then have "byte d < byte c \<or> byte c < byte d" using byte_inj [of d c] by linarith
      with False Cons show ?thesis by auto
    qed
  qed simp
qed

lemma scan_after_entries: "(k, v) \<in> set (ScanPrefixAfter K d p a)
    \<longleftrightarrow> kv_get K d k = Some v \<and> string_less a k \<and> (\<forall>u. prefixUpperBound p = Some u \<longrightarrow> string_less k u)"
  unfolding ScanPrefixAfter_def iter_entries succ_range ..

lemma delete_scan: "kv_get K (foldl (\<lambda>d kv. kv_del K (fst kv) d) d xs) k = (if k \<in> fst ` set xs then None else kv_get K d k)"
  by (induction xs arbitrary: d) auto

lemma delete_prefix: "kv_get K (DeleteByPrefix K p d) k = (if has_prefix k p then None else kv_get K d k)"
proof -
  have "k \<in> fst ` set (ScanPrefix K d p) \<longleftrightarrow> (\<exists>v. kv_get K d k = Some v) \<and> has_prefix k p"
    using scan_entries by (force simp: image_iff)
  then show ?thesis by (cases "kv_get K d k") (auto simp: DeleteByPrefix_def delete_scan)
qed

end

section \<open>A database in memory\<close>

definition in_range :: "string \<Rightarrow> string option \<Rightarrow> string \<Rightarrow> bool" where
  "in_range lower upper k \<longleftrightarrow> \<not> string_less k lower \<and> (case upper of None \<Rightarrow> True | Some u \<Rightarrow> string_less k u)"

definition mem_kv :: "(string, string) gomap kv" where
  "mem_kv = \<lparr>kv_get = (\<lambda>d k. mget d k), kv_put = (\<lambda>k v d. mput k v d), kv_del = (\<lambda>k d. mdel k d),
     kv_iter = (\<lambda>d lower upper. slice_stable (\<lambda>a b. string_less (fst a) (fst b))
        (filter (\<lambda>kv. in_range lower upper (fst kv)) (AList.clearjunk d)))\<rparr>"

lemma mem_kv_laws: "kv_laws mem_kv"
proof -
  let ?lt = "\<lambda>a b :: string \<times> string. string_less (fst a) (fst b)"
  have w: "total_order_on ?lt fst" by (rule total_order_on_inv [OF string_order, of fst])
  have strict: "sorted_wrt ?lt xs" if "sorted_wrt (\<lambda>a b. \<not> ?lt b a) xs" "distinct (map fst xs)" for xs
    using that total_order_on.total [OF w] by (induction xs) (simp, fastforce)
  have sorted: "sorted_wrt ?lt (kv_iter mem_kv d lower upper)" for d lower upper
    unfolding mem_kv_def kv.simps
    by (rule strict [OF weak_order.sorted [OF total_order_on.axioms(1) [OF w]]])
       (simp add: distinct_map_filter distinct_clearjunk)
  have "set (AList.clearjunk d) = {(k, v). mget d k = Some v}" for d :: "(string, string) gomap"
    using map_of_eq_Some_iff [OF distinct_clearjunk, of d] by (auto simp: map_of_clearjunk)
  then have "set (kv_iter mem_kv d lower upper)
      = {(k, v). kv_get mem_kv d k = Some v \<and> \<not> string_less k lower \<and> (\<forall>u. upper = Some u \<longrightarrow> string_less k u)}" for d lower upper
    by (auto simp: mem_kv_def in_range_def split: option.splits)
  with sorted show ?thesis
    unfolding kv_laws_def by (simp add: mem_kv_def)
qed

interpretation mem_store: ordered_store mem_kv
  by unfold_locales (rule mem_kv_laws)

section \<open>Prefix scans are exact\<close>

text \<open>
  C21: A prefix scan visits exactly the entries whose key starts with the prefix, each once and in key
  order, also for prefixes that end in the byte \<open>0xff\<close>, and deleting by the prefix removes just those.
\<close>

theorem scan_prefix_exact:
  assumes "kv_laws K"
  shows "set (ScanPrefix K d p) = {(k, v). kv_get K d k = Some v \<and> has_prefix k p}
     \<and> sorted_wrt (\<lambda>a b. string_less (fst a) (fst b)) (ScanPrefix K d p)
     \<and> kv_get K (DeleteByPrefix K p d) = (\<lambda>k. if has_prefix k p then None else kv_get K d k)"
proof -
  note store = ordered_store.intro [OF assms]
  from ordered_store.scan_entries [OF store] have "set (ScanPrefix K d p) = {(k, v). kv_get K d k = Some v \<and> has_prefix k p}" by auto
  with ordered_store.scan_sorted [OF store] ordered_store.delete_prefix [OF store] show ?thesis by (simp add: fun_eq_iff)
qed

theorem scan_prefix_exact_witness:
  "set (ScanPrefix mem_kv [(''a'', ''1''), (''b'', ''2''), (''ab'', ''3'')] ''a'') = {(''a'', ''1''), (''ab'', ''3'')}"
  using scan_prefix_exact [OF mem_kv_laws, of "[(''a'', ''1''), (''b'', ''2''), (''ab'', ''3'')]" "''a''"]
  by (auto simp: mem_kv_def has_prefix_def split: if_splits)

end
