(* ===== verification/Engine.thy ===== *)
theory Engine
  imports Store Payload
begin

text \<open>
  The indexing engine (\<open>internal/indexer/engine.go\<close>) and the registry it feeds
  (\<open>internal/aggregator/aggregator.go\<close>): block scanning with persisted heights, and mempool polling with
  its two filters. The adapters of the chains and the aggregators are code behind interfaces: what they
  answer is an argument. Times and durations are nanoseconds.
\<close>

section \<open>The registry\<close>

text \<open>
  An aggregator handles a pin on its own state and may return a notification; an error and no
  notification are the same to the registry.
\<close>

record ('p, 's, 'n) aggregator =
  ag_block :: "'p \<Rightarrow> 's \<Rightarrow> 's \<times> 'n option"
  ag_mempool :: "'p \<Rightarrow> 's \<Rightarrow> 's \<times> 'n option"

type_synonym ('p, 's, 'n) registry = "(('p, 's, 'n) aggregator \<times> 's) list"

definition RouteBlockPin :: "'p \<Rightarrow> ('p, 's, 'n) registry \<Rightarrow> ('p, 's, 'n) registry \<times> 'n list" where
  "RouteBlockPin pin r =
     (map (\<lambda>as. (fst as, fst (ag_block (fst as) pin (snd as)))) r,
      List.map_filter (\<lambda>as. snd (ag_block (fst as) pin (snd as))) r)"

definition RouteMempoolPin :: "'p \<Rightarrow> ('p, 's, 'n) registry \<Rightarrow> ('p, 's, 'n) registry \<times> 'n list" where
  "RouteMempoolPin pin r =
     (map (\<lambda>as. (fst as, fst (ag_mempool (fst as) pin (snd as)))) r,
      List.map_filter (\<lambda>as. snd (ag_mempool (fst as) pin (snd as))) r)"

section \<open>State\<close>

text \<open>The heights by chain, the database of heights, and the times at which mempool keys were seen.\<close>

record ('p, 's, 'n, 'db) engine =
  en_chains :: "(string, int) gomap"
  en_registry :: "('p, 's, 'n) registry"
  en_db :: 'db
  en_ttl :: int
  en_seen :: "(string, int) gomap"
  en_txSeen :: "(string, int) gomap"

definition NewEngine :: "'db \<Rightarrow> ('p, 's, 'n) registry \<Rightarrow> ('p, 's, 'n, 'db) engine" where
  "NewEngine db r = \<lparr>en_chains = [], en_registry = r, en_db = db, en_ttl = 30 * 60 * 10 ^ 9, en_seen = [], en_txSeen = []\<rparr>"

definition ConfigureMempoolPolling :: "int \<Rightarrow> ('p, 's, 'n, 'db) engine \<Rightarrow> ('p, 's, 'n, 'db) engine" where
  "ConfigureMempoolPolling ttl e = (if 0 < ttl then e\<lparr>en_ttl := ttl\<rparr> else e)"

definition RegisterChain :: "bool \<Rightarrow> string \<Rightarrow> int \<Rightarrow> ('p, 's, 'n, 'db) engine \<Rightarrow> ('p, 's, 'n, 'db) engine" where
  "RegisterChain inits name startHeight e = (if inits then e\<lparr>en_chains := mput name startHeight (en_chains e)\<rparr> else e)"

section \<open>Heights\<close>

definition height_key :: "string \<Rightarrow> string" where "height_key name = name @ ''_lastheight''"

text \<open>The write of the store succeeds; the code only logs an error of it.\<close>

definition persistHeight :: "'db kv \<Rightarrow> string \<Rightarrow> int \<Rightarrow> ('p, 's, 'n, 'db) engine \<Rightarrow> ('p, 's, 'n, 'db) engine" where
  "persistHeight K name h e = e\<lparr>en_db := kv_put K (height_key name) (show_int h) (en_db e)\<rparr>"

text \<open>\<open>Sscanf\<close> with \<open>%d\<close> on what \<open>persistHeight\<close> writes: a sign and digits, zero when there are none.\<close>

definition scan_height :: "string \<Rightarrow> int" where
  "scan_height raw =
     (let signed = (raw \<noteq> [] \<and> (hd raw = CHR ''-'' \<or> hd raw = CHR ''+''));
          (v, n, rest) = read_digits (if signed then tl raw else raw) 0 0;
          h = (if raw \<noteq> [] \<and> hd raw = CHR ''-'' then - v else v)
      in if n = 0 \<or> \<not> int64_range h then 0 else h)"

definition restored :: "'db kv \<Rightarrow> 'db \<Rightarrow> string \<Rightarrow> int \<Rightarrow> int" where
  "restored K db name h = (case kv_get K db (height_key name) of
      None \<Rightarrow> h | Some raw \<Rightarrow> if 0 < scan_height raw then scan_height raw else h)"

definition restoreHeights :: "'db kv \<Rightarrow> ('p, 's, 'n, 'db) engine \<Rightarrow> ('p, 's, 'n, 'db) engine" where
  "restoreHeights K e = e\<lparr>en_chains := map (\<lambda>c. (fst c, restored K (en_db e) (fst c) (snd c))) (en_chains e)\<rparr>"

definition lastHeight :: "('p, 's, 'n, 'db) engine \<Rightarrow> string \<Rightarrow> int" where
  "lastHeight e name = (case mget (en_chains e) name of Some h \<Rightarrow> h | None \<Rightarrow> 0)"

section \<open>Blocks\<close>

text \<open>What the nodes answer during one scan: the best height, and the pins and transactions of a block, \<open>None\<close> for an error.\<close>

record 'p nodes =
  nd_best :: "string \<Rightarrow> int"
  nd_pins :: "string \<Rightarrow> int \<Rightarrow> ('p list \<times> string list) option"

definition route_block :: "('p, 's, 'n, 'db) engine \<Rightarrow> 'p list \<Rightarrow> ('p, 's, 'n, 'db) engine" where
  "route_block e pins = e\<lparr>en_registry := foldl (\<lambda>r p. fst (RouteBlockPin p r)) (en_registry e) pins\<rparr>"

definition scan_block :: "'db kv \<Rightarrow> 'p nodes \<Rightarrow> string \<Rightarrow> ('p, 's, 'n, 'db) engine \<Rightarrow> int \<Rightarrow> ('p, 's, 'n, 'db) engine" where
  "scan_block K nd name e h =
     (case nd_pins nd name h of
        None \<Rightarrow> e
      | Some (pins, txIDs) \<Rightarrow>
          let e1 = (if pins = [] then e else route_block e pins)
          in persistHeight K name h (e1\<lparr>en_chains := mput name h (en_chains e1)\<rparr>))"

definition scanRange :: "'db kv \<Rightarrow> 'p nodes \<Rightarrow> string \<Rightarrow> int \<Rightarrow> int \<Rightarrow> ('p, 's, 'n, 'db) engine \<Rightarrow> ('p, 's, 'n, 'db) engine" where
  "scanRange K nd name fromHeight toHeight e = foldl (scan_block K nd name) e [fromHeight..toHeight]"

definition catch_up :: "'db kv \<Rightarrow> 'p nodes \<Rightarrow> ('p, 's, 'n, 'db) engine \<Rightarrow> string \<Rightarrow> ('p, 's, 'n, 'db) engine" where
  "catch_up K nd e name =
     (if nd_best nd name \<le> 0 then e
      else let start = lastHeight e name + 1 in scanRange K nd name (if start \<le> 0 then 1 else start) (nd_best nd name) e)"

text \<open>\<open>names\<close> lists the chains in the order of the map.\<close>

definition catchUpAll :: "'db kv \<Rightarrow> 'p nodes \<Rightarrow> string list \<Rightarrow> ('p, 's, 'n, 'db) engine \<Rightarrow> ('p, 's, 'n, 'db) engine" where
  "catchUpAll K nd names e = foldl (catch_up K nd) e names"

definition scan_new :: "'db kv \<Rightarrow> 'p nodes \<Rightarrow> ('p, 's, 'n, 'db) engine \<Rightarrow> string \<Rightarrow> ('p, 's, 'n, 'db) engine" where
  "scan_new K nd e name =
     (if lastHeight e name < nd_best nd name then scanRange K nd name (lastHeight e name + 1) (nd_best nd name) e else e)"

definition scanNewBlocks :: "'db kv \<Rightarrow> 'p nodes \<Rightarrow> string list \<Rightarrow> ('p, 's, 'n, 'db) engine \<Rightarrow> ('p, 's, 'n, 'db) engine" where
  "scanNewBlocks K nd names e = foldl (scan_new K nd) e names"

section \<open>The mempool\<close>

record 'a chain_pin =
  cp_id :: string
  cp_genesisTx :: string
  cp_body :: 'a

definition mempoolTxIDFromPinID :: "string \<Rightarrow> string" where
  "mempoolTxIDFromPinID pinID =
     (let before = takeWhile (\<lambda>c. c \<noteq> CHR '':'') pinID in
      if pinID = '''' then ''''
      else if before \<noteq> pinID \<and> before \<noteq> '''' then trim_space before
      else case last_index (CHR ''i'') pinID of
             None \<Rightarrow> ''''
           | Some n \<Rightarrow>
               if n = 0 \<or> Suc n = length pinID then ''''
               else if list_all is_digit (drop (Suc n) pinID) then trim_space (take n pinID)
               else '''')"

definition tx_of_pin :: "string \<Rightarrow> string \<Rightarrow> bool" where
  "tx_of_pin pinID txID \<longleftrightarrow> txID \<noteq> '''' \<and> (pinID = txID \<or> has_prefix pinID (txID @ ''i'') \<or> has_prefix pinID (txID @ '':''))"

definition mempoolStableIDForPin :: "'a chain_pin \<Rightarrow> string list \<Rightarrow> string" where
  "mempoolStableIDForPin pin txIDs =
     (let genesisTx = trim_space (cp_genesisTx pin); pinID = trim_space (cp_id pin); txID = mempoolTxIDFromPinID pinID in
      if genesisTx \<noteq> '''' then genesisTx
      else if txID \<noteq> '''' then txID
      else case find (tx_of_pin pinID) (map trim_space txIDs) of Some t \<Rightarrow> t | None \<Rightarrow> pinID)"

definition expired :: "int \<Rightarrow> int \<Rightarrow> int \<Rightarrow> bool" where
  "expired ttl now seenAt \<longleftrightarrow> 0 < ttl \<and> ttl < now - seenAt"

definition prune :: "int \<Rightarrow> int \<Rightarrow> (string, int) gomap \<Rightarrow> (string, int) gomap" where
  "prune ttl now m = filter (\<lambda>kv. \<not> expired ttl now (snd kv)) m"

definition fresh_key :: "int \<Rightarrow> int \<Rightarrow> (string, int) gomap \<Rightarrow> string \<Rightarrow> bool" where
  "fresh_key ttl now m key = (case mget m key of None \<Rightarrow> True | Some seenAt \<Rightarrow> \<not> (ttl \<le> 0 \<or> now - seenAt \<le> ttl))"

definition chain_key :: "string \<Rightarrow> string \<Rightarrow> string" where "chain_key chain s = chain @ '':'' @ s"

text \<open>The transactions not seen: the kept ones and the keys added so far.\<close>

definition pend_tx :: "int \<Rightarrow> int \<Rightarrow> (string, int) gomap \<Rightarrow> string \<Rightarrow> string list \<times> string list \<Rightarrow> string \<Rightarrow> string list \<times> string list" where
  "pend_tx ttl now m chain st raw =
     (let txID = trim_space raw; key = chain_key chain txID in
      if txID = '''' \<or> key \<in> set (snd st) \<or> \<not> fresh_key ttl now m key then st
      else (fst st @ [txID], key # snd st))"

definition filterUnseenMempoolTxIDs :: "string \<Rightarrow> string list \<Rightarrow> int \<Rightarrow> ('p, 's, 'n, 'db) engine \<Rightarrow> ('p, 's, 'n, 'db) engine \<times> string list" where
  "filterUnseenMempoolTxIDs chain txIDs now e =
     (let m = prune (en_ttl e) now (en_txSeen e)
      in (e\<lparr>en_txSeen := m\<rparr>, fst (foldl (pend_tx (en_ttl e) now m chain) ([], []) txIDs)))"

definition markMempoolTxIDsSeen :: "string \<Rightarrow> string list \<Rightarrow> int \<Rightarrow> ('p, 's, 'n, 'db) engine \<Rightarrow> ('p, 's, 'n, 'db) engine" where
  "markMempoolTxIDsSeen chain txIDs now e =
     e\<lparr>en_txSeen := foldl (\<lambda>m raw. if trim_space raw \<noteq> '''' then mput (chain_key chain (trim_space raw)) now m else m) (en_txSeen e) txIDs\<rparr>"

text \<open>The pins not seen; \<open>None\<close> is a nil pin. A pin without an id passes without being recorded.\<close>

definition pass_pin :: "int \<Rightarrow> int \<Rightarrow> (string, int) gomap \<Rightarrow> string \<Rightarrow> string list \<Rightarrow> 'a chain_pin list \<times> string list \<Rightarrow> 'a chain_pin option
    \<Rightarrow> 'a chain_pin list \<times> string list" where
  "pass_pin ttl now m chain txIDs st pin =
     (case pin of
        None \<Rightarrow> st
      | Some p \<Rightarrow>
          let stable = mempoolStableIDForPin p txIDs; key = chain_key chain stable in
          if stable = '''' then (fst st @ [p], snd st)
          else if \<not> fresh_key ttl now m key \<or> key \<in> set (snd st) then st
          else (fst st @ [p], key # snd st))"

definition filterSeenMempoolPins :: "string \<Rightarrow> 'a chain_pin option list \<Rightarrow> string list \<Rightarrow> int \<Rightarrow> ('p, 's, 'n, 'db) engine
    \<Rightarrow> ('p, 's, 'n, 'db) engine \<times> 'a chain_pin list" where
  "filterSeenMempoolPins chain pins txIDs now e =
     (let m = prune (en_ttl e) now (en_seen e);
          (passed, keys) = foldl (pass_pin (en_ttl e) now m chain txIDs) ([], []) pins
      in (e\<lparr>en_seen := foldl (\<lambda>m k. mput k now m) m keys\<rparr>, passed))"

text \<open>
  The node of a chain lists its transactions, or their ids and, on request, the transactions; a
  transaction may be missing or nil. \<open>ms_parse\<close> is the indexer of the chain.
\<close>

datatype 'tx tx_source = Plain "string + 'tx list" | Incremental "string + string list" "string list \<Rightarrow> string + (string, 'tx option) gomap"

definition getMempoolTransactionList :: "'tx tx_source \<Rightarrow> string \<Rightarrow> int \<Rightarrow> ('p, 's, 'n, 'db) engine
    \<Rightarrow> ('p, 's, 'n, 'db) engine \<times> (string + 'tx list \<times> string list)" where
  "getMempoolTransactionList src chain now e =
     (case src of
        Plain (Inl err) \<Rightarrow> (e, Inl err)
      | Plain (Inr txs) \<Rightarrow> (e, Inr (txs, []))
      | Incremental (Inl err) fetch \<Rightarrow> (e, Inl err)
      | Incremental (Inr ids) fetch \<Rightarrow>
          let (e1, pending) = filterUnseenMempoolTxIDs chain ids now e in
          if pending = [] then (e1, Inr ([], []))
          else (case fetch pending of
                  Inl err \<Rightarrow> (e1, Inl err)
                | Inr txs \<Rightarrow>
                    let got = List.map_filter (\<lambda>t. case mget txs t of Some (Some tx) \<Rightarrow> Some (tx, t) | _ \<Rightarrow> None) pending
                    in (e1, Inr (map fst got, map snd got))))"

record ('a, 'tx) mempool =
  ms_source :: "string \<Rightarrow> 'tx tx_source"
  ms_parse :: "string \<Rightarrow> 'tx list \<Rightarrow> string + 'a chain_pin option list \<times> string list"

definition poll_chain :: "('a, 'tx) mempool \<Rightarrow> int \<Rightarrow> ('a chain_pin, 's, 'n, 'db) engine \<Rightarrow> string \<Rightarrow> ('a chain_pin, 's, 'n, 'db) engine" where
  "poll_chain ms now e chain =
     (case getMempoolTransactionList (ms_source ms chain) chain now e of
        (e1, Inl _) \<Rightarrow> e1
      | (e1, Inr (txs, fetched)) \<Rightarrow>
          if txs = [] then e1
          else (case ms_parse ms chain txs of
                  Inl _ \<Rightarrow> e1
                | Inr (pins, txIDs) \<Rightarrow>
                    let (e2, passed) = filterSeenMempoolPins chain pins txIDs now e1;
                        e3 = e2\<lparr>en_registry := foldl (\<lambda>r p. fst (RouteMempoolPin p r)) (en_registry e2) passed\<rparr>
                    in markMempoolTxIDsSeen chain fetched now e3))"

definition pollMempoolOnce :: "('a, 'tx) mempool \<Rightarrow> string list \<Rightarrow> int \<Rightarrow> ('a chain_pin, 's, 'n, 'db) engine \<Rightarrow> ('a chain_pin, 's, 'n, 'db) engine" where
  "pollMempoolOnce ms names now e = foldl (poll_chain ms now) e names"

end
