(* ===== verification/EngineProps.thy ===== *)
theory EngineProps
  imports Engine GoJson
begin

text \<open>
  What the engine guarantees: the blocks of a chain reach the aggregators in order and once when no block
  fails, the height is restored, a failed block in front of a later one is never read again, and a
  mempool key passes once within its time to live.
\<close>

section \<open>Scanning a range\<close>

definition block_pins :: "'p nodes \<Rightarrow> string \<Rightarrow> int \<Rightarrow> 'p list" where
  "block_pins nd name h = (case nd_pins nd name h of None \<Rightarrow> [] | Some (pins, _) \<Rightarrow> pins)"

definition read_ok :: "'p nodes \<Rightarrow> string \<Rightarrow> int \<Rightarrow> bool" where
  "read_ok nd name h \<longleftrightarrow> nd_pins nd name h \<noteq> None"

definition routed :: "('p, 's, 'n) registry \<Rightarrow> 'p list \<Rightarrow> ('p, 's, 'n) registry" where
  "routed r pins = foldl (\<lambda>r p. fst (RouteBlockPin p r)) r pins"

lemma routed_append [simp]: "routed r (xs @ ys) = routed (routed r xs) ys"
  by (simp add: routed_def)

lemma routed_Nil [simp]: "routed r [] = r"
  by (simp add: routed_def)

definition last_or :: "'a \<Rightarrow> 'a list \<Rightarrow> 'a" where
  "last_or a xs = (if xs = [] then a else last xs)"

lemma last_or_simps [simp]: "last_or a [] = a" "last_or a (x # xs) = last_or x xs"
  by (simp_all add: last_or_def)

lemma scan_blocks:
  "en_registry (foldl (scan_block K nd name) e hs) = routed (en_registry e) (concat (map (block_pins nd name) hs))
   \<and> lastHeight (foldl (scan_block K nd name) e hs) name = last_or (lastHeight e name) (filter (read_ok nd name) hs)"
proof (induction hs arbitrary: e)
  case (Cons h hs)
  have "en_registry (scan_block K nd name e h) = routed (en_registry e) (block_pins nd name h)"
    by (auto simp: scan_block_def block_pins_def route_block_def routed_def persistHeight_def Let_def split: option.split)
  moreover have "lastHeight (scan_block K nd name e h) name = (if read_ok nd name h then h else lastHeight e name)"
    by (auto simp: scan_block_def read_ok_def persistHeight_def lastHeight_def Let_def split: option.split)
  ultimately show ?case using Cons.IH [of "scan_block K nd name e h"] by simp
qed simp

lemma scan_new_effect:
  fixes e nd name
  defines "hs \<equiv> [lastHeight e name + 1..nd_best nd name]"
  shows "en_registry (scan_new K nd e name) = routed (en_registry e) (concat (map (block_pins nd name) hs))"
    and "lastHeight (scan_new K nd e name) name = last_or (lastHeight e name) (filter (read_ok nd name) hs)"
  using scan_blocks [of K nd name e hs] by (auto simp: scan_new_def scanRange_def hs_def)

text \<open>The scans of one chain, one after the other.\<close>

definition scans :: "'db kv \<Rightarrow> string \<Rightarrow> ('p, 's, 'n, 'db) engine \<Rightarrow> 'p nodes list \<Rightarrow> ('p, 's, 'n, 'db) engine" where
  "scans K name e nds = foldl (\<lambda>e nd. scanNewBlocks K nd [name] e) e nds"

lemma scan_one: "scanNewBlocks K nd [name] e = scan_new K nd e name"
  by (simp add: scanNewBlocks_def)

lemma last_upto: "a \<le> b \<Longrightarrow> last [a..b] = (b :: int)"
  by (subst upto_rec2) simp_all

lemma upto_split: "a \<le> b \<Longrightarrow> b \<le> c \<Longrightarrow> [a..c] = [a..b] @ [b + 1..c :: int]"
  using upto_split1 [of a "b + 1" c] by (cases "b = c") simp_all

text \<open>
  C20: Blocks reach the aggregators in order and exactly once. When the nodes give the pins of every block
  up to the best height of a scan, the pins routed by any sequence of scans are those of the blocks after
  the first height, up to the highest best height, one block after the other.
\<close>

theorem blocks_once:
  assumes "\<And>nd h. nd \<in> set nds \<Longrightarrow> h \<le> nd_best nd name \<Longrightarrow> \<exists>txs. nd_pins nd name h = Some (chain h, txs)"
  shows "let top = foldl max (lastHeight e name) (map (\<lambda>nd. nd_best nd name) nds) in
     en_registry (scans K name e nds) = routed (en_registry e) (concat (map chain [lastHeight e name + 1..top]))
     \<and> lastHeight (scans K name e nds) name = top"
  using assms
proof (induction nds arbitrary: e)
  case (Cons nd nds)
  let ?last = "lastHeight e name" and ?best = "nd_best nd name"
  let ?e = "scan_new K nd e name"
  have ok: "h \<le> ?best \<Longrightarrow> block_pins nd name h = chain h \<and> read_ok nd name h" for h
    using Cons.prems [of nd h] by (auto simp: block_pins_def read_ok_def)
  have m: "map (block_pins nd name) [?last + 1..?best] = map chain [?last + 1..?best]"
    by (intro map_cong) (simp_all add: ok)
  have reg: "en_registry ?e = routed (en_registry e) (concat (map chain [?last + 1..?best]))"
    unfolding scan_new_effect m ..
  have top: "lastHeight ?e name = max ?last ?best"
  proof -
    have "filter (read_ok nd name) [?last + 1..?best] = [?last + 1..?best]" by (intro filter_True) (simp add: ok)
    then show ?thesis by (simp add: scan_new_effect last_or_def last_upto max_def)
  qed
  have grow: "a \<le> foldl max a bs" for a :: int and bs
  proof (induction bs arbitrary: a)
    case (Cons b bs)
    from Cons [of "max a b"] show ?case by simp
  qed simp
  let ?top = "foldl max (max ?last ?best) (map (\<lambda>nd. nd_best nd name) nds)"
  have "[?last + 1..?top] = [?last + 1..?best] @ [max ?last ?best + 1..?top]"
  proof (cases "?last < ?best")
    case True
    then show ?thesis using upto_split [of "?last + 1" ?best ?top] grow [of "max ?last ?best"] by (simp add: max_def)
  qed (simp add: max_def)
  with Cons.IH [of ?e] Cons.prems show ?case
    by (simp add: scans_def scan_one reg top Let_def)
qed (simp add: scans_def)

section \<open>A block that fails\<close>

lemma last_or_ge: "sorted_wrt (<) (a # xs) \<Longrightarrow> a \<le> last_or a (xs :: int list)"
proof (induction xs arbitrary: a)
  case (Cons x xs)
  then have "x \<le> last_or x xs" by simp
  with Cons.prems show ?case by simp
qed simp

lemma last_or_member: "sorted_wrt (<) (a # xs) \<Longrightarrow> x \<in> set xs \<Longrightarrow> x \<le> last_or a (xs :: int list)"
proof (induction xs arbitrary: a)
  case (Cons y ys)
  then show ?case using last_or_ge [of y ys] by auto
qed simp

lemma upto_sorted: "sorted_wrt (<) (filter P [a..b :: int])"
  using strict_sorted_iff [of "[a..b]"] by (intro sorted_wrt_filter) simp

lemma scan_new_mono: "lastHeight e name \<le> lastHeight (scan_new K nd e name) name"
  unfolding scan_new_effect by (rule last_or_ge) (use upto_sorted in auto)

lemma scan_new_reaches:
  assumes "lastHeight e name < h" "h \<le> nd_best nd name" "read_ok nd name h"
  shows "h \<le> lastHeight (scan_new K nd e name) name"
  unfolding scan_new_effect by (rule last_or_member) (use upto_sorted assms in auto)

lemma scan_block_other: "read_ok nd name h = read_ok nd' name h \<Longrightarrow> nd_pins nd name h = nd_pins nd' name h
   \<Longrightarrow> scan_block K nd name e h = scan_block K nd' name e h"
  by (simp add: scan_block_def)

lemma scan_new_cong:
  assumes "nd_best nd name = nd_best nd' name" "\<And>k. lastHeight e name < k \<Longrightarrow> nd_pins nd name k = nd_pins nd' name k"
  shows "scan_new K nd e name = scan_new K nd' e name"
proof -
  have "foldl (scan_block K nd name) e hs = foldl (scan_block K nd' name) e hs" if "\<forall>k \<in> set hs. nd_pins nd name k = nd_pins nd' name k" for hs e
    using that by (induction hs arbitrary: e) (simp_all add: scan_block_def)
  note fold = this
  have "foldl (scan_block K nd name) e [lastHeight e name + 1..b] = foldl (scan_block K nd' name) e [lastHeight e name + 1..b]" for b
    by (rule fold) (simp add: assms(2))
  then show ?thesis by (simp add: scan_new_def scanRange_def assms(1))
qed

text \<open>Later answers of the nodes that differ at most in the blocks up to a height.\<close>

definition same_above :: "string \<Rightarrow> int \<Rightarrow> 'p nodes \<Rightarrow> 'p nodes \<Rightarrow> bool" where
  "same_above name h nd nd' \<longleftrightarrow> nd_best nd name = nd_best nd' name \<and> (\<forall>k > h. nd_pins nd name k = nd_pins nd' name k)"

text \<open>
  C15: A block whose reading fails is lost when a later block of the same scan is read. Its pins are not
  routed by the scan, and whatever the nodes answer for it, or for any block before it, in all later
  scans makes no difference to the engine.
\<close>

theorem failed_block_lost:
  assumes "lastHeight e name < h" "nd_pins nd name h = None"
    and "h < h'" "h' \<le> nd_best nd name" "nd_pins nd name h' \<noteq> None"
    and "list_all2 (same_above name h) nds nds'"
  shows "scans K name e (nd # nds) = scans K name e (nd # nds')
     \<and> en_registry (scans K name e [nd]) = routed (en_registry e)
         (concat (map (block_pins nd name) (filter (\<lambda>k. k \<noteq> h) [lastHeight e name + 1..nd_best nd name])))"
proof
  have past: "h < lastHeight (scan_new K nd e name) name"
    using scan_new_reaches [of e name h' nd K] assms by (simp add: read_ok_def)
  have "scans K name e1 nds = scans K name e1 nds'" if "h < lastHeight e1 name" for e1
    using assms(6) that
  proof (induction arbitrary: e1 rule: list_all2_induct)
    case (Cons nd nds nd' nds')
    have "scan_new K nd e1 name = scan_new K nd' e1 name"
      using Cons.hyps(1) Cons.prems by (intro scan_new_cong) (auto simp: same_above_def)
    moreover have "h < lastHeight (scan_new K nd e1 name) name" using scan_new_mono [of e1 name K nd] Cons.prems by simp
    ultimately show ?case using Cons.IH [of "scan_new K nd e1 name"] by (simp add: scans_def scan_one)
  qed simp
  from this [OF past] show "scans K name e (nd # nds) = scans K name e (nd # nds')" by (simp add: scans_def scan_one)
  have "concat (map (block_pins nd name) ks) = concat (map (block_pins nd name) (filter (\<lambda>k. k \<noteq> h) ks))" for ks
    using assms(2) by (induction ks) (auto simp: block_pins_def)
  then show "en_registry (scans K name e [nd]) = routed (en_registry e)
         (concat (map (block_pins nd name) (filter (\<lambda>k. k \<noteq> h) [lastHeight e name + 1..nd_best nd name])))"
    by (simp add: scans_def scan_one scan_new_effect)
qed

section \<open>Heights after a restart\<close>

lemma scan_height_show: "int64_range h \<Longrightarrow> scan_height (show_int h) = h"
  using parse_int64_show [of h]
  by (auto simp: scan_height_def parse_int64_def parse_signed_def Let_def split: prod.splits if_splits option.splits)

lemma restore_one: "lastHeight (restoreHeights K (RegisterChain True name start (NewEngine db r))) name = restored K db name start"
  by (simp add: lastHeight_def restoreHeights_def RegisterChain_def NewEngine_def)

context ordered_store
begin

lemma scan_blocks_db:
  "kv_get K (en_db (foldl (scan_block K nd name) e hs)) (height_key name)
     = (if filter (read_ok nd name) hs = [] then kv_get K (en_db e) (height_key name)
        else Some (show_int (last_or 0 (filter (read_ok nd name) hs))))"
proof (induction hs arbitrary: e)
  case (Cons h hs)
  have "kv_get K (en_db (scan_block K nd name e h)) (height_key name)
      = (if read_ok nd name h then Some (show_int h) else kv_get K (en_db e) (height_key name))"
    by (auto simp: scan_block_def read_ok_def persistHeight_def route_block_def Let_def split: option.split)
  with Cons.IH [of "scan_block K nd name e h"] show ?case by (auto simp: last_or_def)
qed simp

end

text \<open>
  A restart resumes where the scan stopped. After a scan that read a block, an engine on the same
  database that registers the chain at any height and restores is at the height of the old one.
\<close>

theorem heights_restored:
  assumes "kv_laws K" and "lastHeight e name < h" "h \<le> nd_best nd name" "read_ok nd name h"
    and "0 \<le> lastHeight e name" "nd_best nd name \<le> max_int64"
  shows "lastHeight (restoreHeights K (RegisterChain True name start (NewEngine (en_db (scanNewBlocks K nd [name] e)) r))) name
     = lastHeight (scanNewBlocks K nd [name] e) name"
proof -
  let ?ok = "filter (read_ok nd name) [lastHeight e name + 1..nd_best nd name]"
  have ne: "?ok \<noteq> []" using assms(2-4) by (auto simp: filter_empty_conv)
  then have "last ?ok \<in> set ?ok" by (rule last_in_set)
  then have range: "int64_range (last ?ok)" "0 < last ?ok"
    using assms(5,6) by (auto simp: int64_range_def min_int64_def)
  have "kv_get K (en_db (scan_new K nd e name)) (height_key name) = Some (show_int (last ?ok))"
    using ordered_store.scan_blocks_db [OF ordered_store.intro [OF assms(1)], of nd name e "[lastHeight e name + 1..nd_best nd name]"] ne assms(2,3)
    by (simp add: scan_new_def scanRange_def last_or_def)
  then show ?thesis
    using ne range by (simp add: scan_one restore_one restored_def scan_height_show scan_new_effect last_or_def)
qed

section \<open>Mempool pins\<close>

definition passed_keys :: "string \<Rightarrow> string list \<Rightarrow> 'a chain_pin list \<Rightarrow> string list" where
  "passed_keys chain txIDs passed =
     map (\<lambda>p. chain_key chain (mempoolStableIDForPin p txIDs)) (filter (\<lambda>p. mempoolStableIDForPin p txIDs \<noteq> '''') passed)"

lemma passed_keys_snoc: "passed_keys chain txIDs (ps @ [p]) = passed_keys chain txIDs ps
   @ (if mempoolStableIDForPin p txIDs = '''' then [] else [chain_key chain (mempoolStableIDForPin p txIDs)])"
  by (simp add: passed_keys_def)

lemma pass_some: "pass_pin ttl now m chain txIDs st (Some p) =
   (if mempoolStableIDForPin p txIDs = '''' then (fst st @ [p], snd st)
    else if fresh_key ttl now m (chain_key chain (mempoolStableIDForPin p txIDs)) \<and> chain_key chain (mempoolStableIDForPin p txIDs) \<notin> set (snd st)
    then (fst st @ [p], chain_key chain (mempoolStableIDForPin p txIDs) # snd st) else st)"
  by (auto simp: pass_pin_def Let_def)

text \<open>After the pins \<open>did\<close> of a poll: the keys that passed, each once, are those of the pins that are fresh.\<close>

definition pass_inv :: "int \<Rightarrow> int \<Rightarrow> (string, int) gomap \<Rightarrow> string \<Rightarrow> string list \<Rightarrow> 'a chain_pin list \<Rightarrow> 'a chain_pin list \<Rightarrow> string list \<Rightarrow> bool" where
  "pass_inv ttl now m chain txIDs did passed keys \<longleftrightarrow>
     set keys = set (passed_keys chain txIDs passed) \<and> distinct (passed_keys chain txIDs passed)
     \<and> set keys = {k \<in> set (passed_keys chain txIDs did). fresh_key ttl now m k}"

definition pins_in :: "'a chain_pin option list \<Rightarrow> 'a chain_pin list" where
  "pins_in pins = map the (filter (\<lambda>p. p \<noteq> None) pins)"

lemma pass_inv_step:
  assumes "pass_inv ttl now m chain txIDs did (fst st) (snd st)"
  shows "pass_inv ttl now m chain txIDs (did @ pins_in [pin]) (fst (pass_pin ttl now m chain txIDs st pin)) (snd (pass_pin ttl now m chain txIDs st pin))"
proof (cases pin)
  case None
  with assms show ?thesis by (simp add: pass_pin_def pins_in_def)
next
  case (Some p)
  let ?s = "mempoolStableIDForPin p txIDs"
  show ?thesis
    using assms unfolding Some pass_some pass_inv_def by (auto simp: pins_in_def passed_keys_snoc)
qed

lemma pass_pins:
  "foldl (pass_pin ttl now m chain txIDs) st pins = (passed, keys) \<Longrightarrow> pass_inv ttl now m chain txIDs did (fst st) (snd st)
   \<Longrightarrow> pass_inv ttl now m chain txIDs (did @ pins_in pins) passed keys"
proof (induction pins arbitrary: st did)
  case Nil
  then show ?case by (simp add: pins_in_def)
next
  case (Cons pin pins)
  have "pins_in (pin # pins) = pins_in [pin] @ pins_in pins" by (simp add: pins_in_def)
  with Cons.IH [OF _ pass_inv_step [OF Cons.prems(2)]] Cons.prems(1) show ?case by simp
qed

lemma prune_get: "distinct (mkeys m) \<Longrightarrow> mget (prune ttl now m) k
   = (case mget m k of None \<Rightarrow> None | Some t \<Rightarrow> if expired ttl now t then None else Some t)"
  by (induction m) (auto simp: prune_def mkeys_def map_of_eq_None_iff split: option.splits)

lemma put_keys: "mget (foldl (\<lambda>m k. mput k now m) m keys) k = (if k \<in> set keys then Some now else mget m k)"
  by (induction keys arbitrary: m) auto

lemma filter_seen_effect:
  assumes "filterSeenMempoolPins chain pins txIDs now e = (e', passed)" "distinct (mkeys (en_seen e))"
  shows "distinct (mkeys (en_seen e')) \<and> en_ttl e' = en_ttl e
    \<and> mget (en_seen e') k = (if k \<in> set (passed_keys chain txIDs passed) then Some now
        else case mget (en_seen e) k of None \<Rightarrow> None | Some t \<Rightarrow> if expired (en_ttl e) now t then None else Some t)
    \<and> distinct (passed_keys chain txIDs passed)
    \<and> set (passed_keys chain txIDs passed)
        = {k \<in> set (passed_keys chain txIDs (pins_in pins)). fresh_key (en_ttl e) now (prune (en_ttl e) now (en_seen e)) k}"
proof -
  let ?m = "prune (en_ttl e) now (en_seen e)"
  obtain keys where run: "foldl (pass_pin (en_ttl e) now ?m chain txIDs) ([], []) pins = (passed, keys)"
      "e' = e\<lparr>en_seen := foldl (\<lambda>m k. mput k now m) ?m keys\<rparr>"
    using assms(1) by (auto simp: filterSeenMempoolPins_def Let_def split: prod.splits)
  have none: "pass_inv (en_ttl e) now ?m chain txIDs [] (fst ([], [])) (snd ([], []))"
    by (simp add: pass_inv_def passed_keys_def)
  have keys: "set keys = set (passed_keys chain txIDs passed)" "distinct (passed_keys chain txIDs passed)"
    "set keys = {k \<in> set (passed_keys chain txIDs (pins_in pins)). fresh_key (en_ttl e) now ?m k}"
    using pass_pins [OF run(1) none] unfolding pass_inv_def append_Nil by blast+
  have "distinct (mkeys (foldl (\<lambda>m k. mput k now m) m ks))" if "distinct (mkeys m)" for m :: "(string, int) gomap" and ks
    using that by (induction ks arbitrary: m) auto
  moreover have "distinct (mkeys ?m)" using assms(2) by (simp add: prune_def mkeys_def distinct_map_filter)
  ultimately show ?thesis using keys(2,3) by (simp add: run(2) put_keys prune_get [OF assms(2)] keys(1) [symmetric])
qed

text \<open>The keys that pass in later polls.\<close>

fun filter_run :: "('p, 's, 'n, 'db) engine \<Rightarrow> (string \<times> 'a chain_pin option list \<times> string list \<times> int) list \<Rightarrow> string list list" where
  "filter_run e [] = []"
| "filter_run e ((chain, pins, txIDs, now) # polls) =
     (let (e', passed) = filterSeenMempoolPins chain pins txIDs now e in passed_keys chain txIDs passed # filter_run e' polls)"

text \<open>
  C16: A mempool key passes once. A poll passes on each key of its pins that is not remembered, once; and
  within the time to live after that, or for good when there is none, no later poll of any chain
  passes a pin with the same key, whatever the polls in between.
\<close>

theorem mempool_once:
  assumes "distinct (mkeys (en_seen e))" and "filterSeenMempoolPins chain pins txIDs t0 e = (e0, passed)"
    and "list_all (\<lambda>(_, _, _, t). t0 \<le> t \<and> (en_ttl e \<le> 0 \<or> t - t0 \<le> en_ttl e)) later"
  shows "distinct (passed_keys chain txIDs passed)
    \<and> set (passed_keys chain txIDs passed)
        = {k \<in> set (passed_keys chain txIDs (pins_in pins)). fresh_key (en_ttl e) t0 (prune (en_ttl e) t0 (en_seen e)) k}
    \<and> list_all (\<lambda>keys. set (passed_keys chain txIDs passed) \<inter> set keys = {}) (filter_run e0 later)"
proof -
  have later: "list_all (\<lambda>keys. ks \<inter> set keys = {}) (filter_run e1 later)"
    if "distinct (mkeys (en_seen e1))" "en_ttl e1 = en_ttl e" "\<forall>k \<in> ks. mget (en_seen e1) k = Some t0" for e1 ks
    using that assms(3)
  proof (induction later arbitrary: e1)
    case (Cons poll later)
    obtain c ps txs t where poll: "poll = (c, ps, txs, t)" by (cases poll)
    obtain e2 passed2 where run: "filterSeenMempoolPins c ps txs t e1 = (e2, passed2)" by fastforce
    have time: "t0 \<le> t" "en_ttl e \<le> 0 \<or> t - t0 \<le> en_ttl e" using Cons.prems(4) by (simp_all add: poll)
    then have live: "\<not> expired (en_ttl e1) t t0" by (auto simp: expired_def Cons.prems(2))
    have old: "\<not> fresh_key (en_ttl e1) t (prune (en_ttl e1) t (en_seen e1)) k" if "k \<in> ks" for k
      using time live that Cons.prems(3) by (simp add: fresh_key_def Cons.prems(2) prune_get [OF Cons.prems(1)])
    note effect = filter_seen_effect [OF run Cons.prems(1)]
    from effect have seen2: "mget (en_seen e2) k = (if k \<in> set (passed_keys c txs passed2) then Some t
        else case mget (en_seen e1) k of None \<Rightarrow> None | Some u \<Rightarrow> if expired (en_ttl e1) t u then None else Some u)" for k by blast
    have "\<forall>k \<in> ks. k \<notin> set (passed_keys c txs passed2)" using old effect by auto
    moreover from this have "\<forall>k \<in> ks. mget (en_seen e2) k = Some t0" using seen2 live Cons.prems(3) by simp
    moreover have "distinct (mkeys (en_seen e2))" "en_ttl e2 = en_ttl e" using effect Cons.prems(2) by simp_all
    ultimately show ?case using Cons.IH [of e2] Cons.prems(4) by (auto simp: poll run)
  qed simp
  note effect = filter_seen_effect [OF assms(2,1)]
  have "list_all (\<lambda>keys. set (passed_keys chain txIDs passed) \<inter> set keys = {}) (filter_run e0 later)"
    by (rule later) (use effect in simp_all)
  with effect show ?thesis by blast
qed

section \<open>Two pins of one transaction\<close>

definition demo_mem_pin :: "string \<Rightarrow> unit chain_pin" where
  "demo_mem_pin pin = \<lparr>cp_id = pin, cp_genesisTx = ''tx'', cp_body = ()\<rparr>"

text \<open>
  Of the pins of one transaction only the first is passed on from the mempool: the key of a pin is its
  transaction, not its id, so the second pin is taken for a repetition.
\<close>

theorem sibling_pin_dropped:
  "snd (filterSeenMempoolPins ''mvc'' [Some (demo_mem_pin ''txi0''), Some (demo_mem_pin ''txi1'')] [''tx''] now (NewEngine db r))
   = [demo_mem_pin ''txi0'']"
proof -
  have key: "mempoolStableIDForPin (demo_mem_pin ''txi0'') [''tx''] = ''tx''" "mempoolStableIDForPin (demo_mem_pin ''txi1'') [''tx''] = ''tx''"
    by code_simp+
  show ?thesis
    by (simp add: filterSeenMempoolPins_def NewEngine_def prune_def pass_pin_def key fresh_key_def Let_def)
qed

section \<open>A small chain\<close>

definition demo_log :: "(int, int list, unit) aggregator" where
  "demo_log = \<lparr>ag_block = (\<lambda>p s. (s @ [p], None)), ag_mempool = (\<lambda>p s. (s, None))\<rparr>"

definition demo_engine :: "(int, int list, unit, (string, string) gomap) engine" where
  "demo_engine = RegisterChain True ''btc'' 0 (NewEngine [] [(demo_log, [])])"

text \<open>Every block holds its height; the block in \<open>fails\<close> cannot be read.\<close>

definition demo_nodes :: "int list \<Rightarrow> int \<Rightarrow> int nodes" where
  "demo_nodes fails best = \<lparr>nd_best = (\<lambda>_. best), nd_pins = (\<lambda>_ h. if h \<in> set fails then None else Some ([h], []))\<rparr>"

lemma demo_height: "lastHeight demo_engine ''btc'' = 0"
  by (simp add: demo_engine_def RegisterChain_def NewEngine_def lastHeight_def)

theorem blocks_once_witness:
  "lastHeight (scans mem_kv ''btc'' demo_engine [demo_nodes [] 2, demo_nodes [] 5]) ''btc'' = 5"
proof -
  have ok: "\<exists>txs. nd_pins nd ''btc'' h = Some ([h], txs)" if "nd \<in> set [demo_nodes [] 2, demo_nodes [] 5]" for nd h
    using that by (auto simp: demo_nodes_def)
  from blocks_once [of "[demo_nodes [] 2, demo_nodes [] 5]" "''btc''" "\<lambda>h. [h]" demo_engine mem_kv, OF ok] show ?thesis
    by (simp add: demo_height Let_def demo_nodes_def)
qed

theorem failed_block_lost_witness:
  "scans mem_kv ''btc'' demo_engine [demo_nodes [2] 3, demo_nodes [] 4] = scans mem_kv ''btc'' demo_engine [demo_nodes [2] 3, demo_nodes [2] 4]"
proof -
  have "lastHeight demo_engine ''btc'' < 2" "nd_pins (demo_nodes [2] 3) ''btc'' 2 = None" "(2 :: int) < 3"
    "3 \<le> nd_best (demo_nodes [2] 3) ''btc''" "nd_pins (demo_nodes [2] 3) ''btc'' 3 \<noteq> None"
    "list_all2 (same_above ''btc'' 2) [demo_nodes [] 4] [demo_nodes [2] 4]"
    by (simp_all add: demo_nodes_def demo_height same_above_def)
  from failed_block_lost [OF this] show ?thesis by blast
qed

theorem heights_restored_witness:
  "lastHeight (restoreHeights mem_kv (RegisterChain True ''btc'' 0 (NewEngine (en_db (scanNewBlocks mem_kv (demo_nodes [] 3) [''btc''] demo_engine))
     [(demo_log, [])]))) ''btc'' = lastHeight (scanNewBlocks mem_kv (demo_nodes [] 3) [''btc''] demo_engine) ''btc''"
  by (rule heights_restored [OF mem_kv_laws, of _ _ 1]) (simp_all add: demo_height demo_nodes_def read_ok_def max_int64_def)

definition demo_pool :: "(unit chain_pin, unit, unit, unit) engine" where
  "demo_pool = NewEngine () []"

theorem mempool_once_witness:
  "list_all (\<lambda>keys. ''mvc:tx'' \<notin> set keys)
     (filter_run (fst (filterSeenMempoolPins ''mvc'' [Some (demo_mem_pin ''txi0''), Some (demo_mem_pin ''txi0'')] [] 7 demo_pool))
       [(''mvc'', [Some (demo_mem_pin ''txi0'')], [], 9)])"
proof -
  let ?pins = "[Some (demo_mem_pin ''txi0''), Some (demo_mem_pin ''txi0'')]"
  obtain e0 passed where run: "filterSeenMempoolPins ''mvc'' ?pins [] 7 demo_pool = (e0, passed)" by fastforce
  have "distinct (mkeys (en_seen demo_pool))" by (simp add: demo_pool_def NewEngine_def mkeys_def)
  note once = mempool_once [OF this run, of "[(''mvc'', [Some (demo_mem_pin ''txi0'')], [], 9)]"]
  have "list_all (\<lambda>(_, _, _, t). 7 \<le> t \<and> (en_ttl demo_pool \<le> 0 \<or> t - 7 \<le> en_ttl demo_pool)) [(''mvc'', [Some (demo_mem_pin ''txi0'')], [], 9)]"
    by (simp add: demo_pool_def NewEngine_def)
  from once [OF this] have "set (passed_keys ''mvc'' [] passed) = {k \<in> set (passed_keys ''mvc'' [] (pins_in ?pins)). fresh_key (en_ttl demo_pool) 7 (prune (en_ttl demo_pool) 7 (en_seen demo_pool)) k}"
    and later: "list_all (\<lambda>keys. set (passed_keys ''mvc'' [] passed) \<inter> set keys = {}) (filter_run e0 [(''mvc'', [Some (demo_mem_pin ''txi0'')], [], 9)])"
    by blast+
  moreover have "passed_keys ''mvc'' [] (pins_in ?pins) = [''mvc:tx'', ''mvc:tx'']" by code_simp
  ultimately have "''mvc:tx'' \<in> set (passed_keys ''mvc'' [] passed)"
    by (simp add: demo_pool_def NewEngine_def prune_def fresh_key_def)
  with later show ?thesis unfolding run fst_conv by (auto simp: list_all_iff)
qed

end
