(* ===== verification/Cache.thy ===== *)
theory Cache
  imports Store
begin

text \<open>
  The two-level cache (\<open>internal/cache/cache.go\<close>): an expiring LRU in memory before a namespace of the
  store. The LRU is a library outside the tree: its operations are an argument and its documented
  behaviour the hypothesis \<open>lru_laws\<close>. Values are bytes, the type every caller uses.
\<close>

section \<open>The library's operations\<close>

text \<open>\<open>lr_get t k l\<close> is the value at the time \<open>t\<close>, \<open>None\<close> when it was evicted or has expired; \<open>lr_touch\<close> is the new recency.\<close>

record 'l lru =
  lr_get :: "int \<Rightarrow> string \<Rightarrow> 'l \<Rightarrow> string option"
  lr_touch :: "int \<Rightarrow> string \<Rightarrow> 'l \<Rightarrow> 'l"
  lr_add :: "int \<Rightarrow> string \<Rightarrow> string \<Rightarrow> 'l \<Rightarrow> 'l"
  lr_remove :: "string \<Rightarrow> 'l \<Rightarrow> 'l"
  lr_purge :: "'l \<Rightarrow> 'l"

text \<open>A value found is the last one added for its key; a removed key is gone; a purged cache is empty.\<close>

definition lru_laws :: "'l lru \<Rightarrow> bool" where
  "lru_laws R \<longleftrightarrow>
     (\<forall>t u k j v w l. lr_get R t k (lr_add R u j v l) = Some w \<longrightarrow> (if k = j then w = v else lr_get R t k l = Some w))
   \<and> (\<forall>t u k j w l. lr_get R t k (lr_touch R u j l) = Some w \<longrightarrow> lr_get R t k l = Some w)
   \<and> (\<forall>t k j w l. lr_get R t k (lr_remove R j l) = Some w \<longrightarrow> k \<noteq> j \<and> lr_get R t k l = Some w)
   \<and> (\<forall>t k l. lr_get R t k (lr_purge R l) = None)"

section \<open>The cache\<close>

text \<open>
  Both levels and whether the namespace of the second one has been opened since the start of the
  process. A failing disk is not modelled: opening, reading and writing the store succeed.
\<close>

record ('l, 'db) cache =
  ca_l1 :: 'l
  ca_l2 :: 'db
  ca_open :: bool

text \<open>Reading the store opens the namespace.\<close>

definition cache_get :: "'l lru \<Rightarrow> 'db kv \<Rightarrow> int \<Rightarrow> string \<Rightarrow> ('l, 'db) cache \<Rightarrow> ('l, 'db) cache \<times> string option" where
  "cache_get R K t key c =
     (let c1 = c\<lparr>ca_l1 := lr_touch R t key (ca_l1 c)\<rparr> in
      case lr_get R t key (ca_l1 c) of
        Some v \<Rightarrow> (c1, Some v)
      | None \<Rightarrow>
          let c2 = c1\<lparr>ca_open := True\<rparr> in
          (case kv_get K (ca_l2 c) key of
             None \<Rightarrow> (c2, None)
           | Some raw \<Rightarrow> (c2\<lparr>ca_l1 := lr_add R t key raw (ca_l1 c2)\<rparr>, Some raw)))"

text \<open>The time to live of the call is not used.\<close>

definition cache_set :: "'l lru \<Rightarrow> 'db kv \<Rightarrow> int \<Rightarrow> string \<Rightarrow> string \<Rightarrow> int \<Rightarrow> ('l, 'db) cache \<Rightarrow> ('l, 'db) cache" where
  "cache_set R K t key v ttl c = \<lparr>ca_l1 = lr_add R t key v (ca_l1 c), ca_l2 = kv_put K key v (ca_l2 c), ca_open = True\<rparr>"

definition cache_delete :: "'l lru \<Rightarrow> 'db kv \<Rightarrow> string \<Rightarrow> ('l, 'db) cache \<Rightarrow> ('l, 'db) cache" where
  "cache_delete R K key c = c\<lparr>ca_l1 := lr_remove R key (ca_l1 c), ca_l2 := store_delete K (ca_open c) key (ca_l2 c)\<rparr>"

definition InvalidateByPrefix :: "'l lru \<Rightarrow> 'db kv \<Rightarrow> string \<Rightarrow> ('l, 'db) cache \<Rightarrow> ('l, 'db) cache" where
  "InvalidateByPrefix R K prefix c = c\<lparr>ca_l1 := lr_purge R (ca_l1 c), ca_l2 := store_delete_prefix K (ca_open c) prefix (ca_l2 c)\<rparr>"

definition warm_key :: "'l lru \<Rightarrow> 'db kv \<Rightarrow> int \<Rightarrow> ('l, 'db) cache \<Rightarrow> string \<Rightarrow> ('l, 'db) cache" where
  "warm_key R K t c key =
     (let c1 = c\<lparr>ca_open := True\<rparr> in
      case kv_get K (ca_l2 c) key of None \<Rightarrow> c1 | Some raw \<Rightarrow> c1\<lparr>ca_l1 := lr_add R t key raw (ca_l1 c)\<rparr>)"

definition Warmup :: "'l lru \<Rightarrow> 'db kv \<Rightarrow> int \<Rightarrow> string list \<Rightarrow> ('l, 'db) cache \<Rightarrow> ('l, 'db) cache" where
  "Warmup R K t keys c = foldl (warm_key R K t) c keys"

text \<open>A new process has an empty first level and no open namespace.\<close>

definition restart_cache :: "'l lru \<Rightarrow> ('l, 'db) cache \<Rightarrow> ('l, 'db) cache" where
  "restart_cache R c = c\<lparr>ca_l1 := lr_purge R (ca_l1 c), ca_open := False\<rparr>"

section \<open>The cache is a map\<close>

datatype cache_op = Get int string | Put int string string int | Remove string | Invalidate string | Warm int "string list" | Restart

fun cache_step :: "'l lru \<Rightarrow> 'db kv \<Rightarrow> ('l, 'db) cache \<Rightarrow> cache_op \<Rightarrow> ('l, 'db) cache" where
  "cache_step R K c (Get t key) = fst (cache_get R K t key c)"
| "cache_step R K c (Put t key v ttl) = cache_set R K t key v ttl c"
| "cache_step R K c (Remove key) = cache_delete R K key c"
| "cache_step R K c (Invalidate prefix) = InvalidateByPrefix R K prefix c"
| "cache_step R K c (Warm t keys) = Warmup R K t keys c"
| "cache_step R K c Restart = restart_cache R c"

text \<open>
  The same operations on a plain map without expiry or eviction, with a flag that says whether the
  map has been accessed since the start: removals before the first access are lost.
\<close>

fun map_step :: "(string \<Rightarrow> string option) \<times> bool \<Rightarrow> cache_op \<Rightarrow> (string \<Rightarrow> string option) \<times> bool" where
  "map_step (m, accessed) (Get t key) = (m, True)"
| "map_step (m, accessed) (Put t key v ttl) = (m(key \<mapsto> v), True)"
| "map_step (m, accessed) (Remove key) = (if accessed then m(key := None) else m, accessed)"
| "map_step (m, accessed) (Invalidate prefix) = (if accessed then (\<lambda>k. if has_prefix k prefix then None else m k) else m, accessed)"
| "map_step (m, accessed) (Warm t keys) = (m, accessed \<or> keys \<noteq> [])"
| "map_step (m, accessed) Restart = (m, False)"

text \<open>The first level holds only values of the second one, and none while that has not been opened.\<close>

definition l1_below :: "'l lru \<Rightarrow> 'db kv \<Rightarrow> 'l \<Rightarrow> 'db \<Rightarrow> bool" where
  "l1_below R K l d \<longleftrightarrow> (\<forall>t k v. lr_get R t k l = Some v \<longrightarrow> kv_get K d k = Some v)"

definition coherent :: "'l lru \<Rightarrow> 'db kv \<Rightarrow> ('l, 'db) cache \<Rightarrow> bool" where
  "coherent R K c \<longleftrightarrow> l1_below R K (ca_l1 c) (ca_l2 c) \<and> (\<not> ca_open c \<longrightarrow> (\<forall>t k. lr_get R t k (ca_l1 c) = None))"

definition map_view :: "'db kv \<Rightarrow> ('l, 'db) cache \<Rightarrow> (string \<Rightarrow> string option) \<times> bool" where
  "map_view K c = (kv_get K (ca_l2 c), ca_open c)"

locale cache_levels = ordered_store K for K :: "'db kv" +
  fixes R :: "'l lru"
  assumes lru: "lru_laws R"
begin

lemma l1_add: "lr_get R t k (lr_add R u j v l) = Some w \<Longrightarrow> if k = j then w = v else lr_get R t k l = Some w"
  by (rule lru [unfolded lru_laws_def, THEN conjunct1, rule_format])

lemma l1_touch: "lr_get R t k (lr_touch R u j l) = Some w \<Longrightarrow> lr_get R t k l = Some w"
  by (rule lru [unfolded lru_laws_def, THEN conjunct2, THEN conjunct1, rule_format])

lemma l1_remove: "lr_get R t k (lr_remove R j l) = Some w \<Longrightarrow> k \<noteq> j \<and> lr_get R t k l = Some w"
  by (rule lru [unfolded lru_laws_def, THEN conjunct2, THEN conjunct2, THEN conjunct1, rule_format])

lemma l1_purge [simp]: "lr_get R t k (lr_purge R l) = None"
  by (rule lru [unfolded lru_laws_def, THEN conjunct2, THEN conjunct2, THEN conjunct2, rule_format])

lemma l1_below_add: "l1_below R K l d \<Longrightarrow> kv_get K d j = Some v \<Longrightarrow> l1_below R K (lr_add R u j v l) d"
  unfolding l1_below_def by (metis l1_add)

lemma l1_below_put: "l1_below R K l d \<Longrightarrow> l1_below R K (lr_add R u j v l) (kv_put K j v d)"
  unfolding l1_below_def get_put fun_upd_def by (metis l1_add)

lemma l1_below_touch: "l1_below R K l d \<Longrightarrow> l1_below R K (lr_touch R u j l) d"
  unfolding l1_below_def by (metis l1_touch)

lemma l1_below_remove: "l1_below R K l d \<Longrightarrow> l1_below R K (lr_remove R j l) (kv_del K j d)"
  unfolding l1_below_def get_del fun_upd_def by (metis l1_remove)

lemma get_coherent:
  assumes "coherent R K c"
  shows "coherent R K (fst (cache_get R K t key c)) \<and> map_view K (fst (cache_get R K t key c)) = (kv_get K (ca_l2 c), True)
    \<and> snd (cache_get R K t key c) = kv_get K (ca_l2 c) key"
proof -
  have b: "l1_below R K (lr_touch R t key (ca_l1 c)) (ca_l2 c)" using assms l1_below_touch by (simp add: coherent_def)
  show ?thesis
  proof (cases "lr_get R t key (ca_l1 c)")
    case None
    with b l1_below_add show ?thesis by (simp add: cache_get_def Let_def coherent_def map_view_def split: option.split)
  next
    case (Some v)
    then have "kv_get K (ca_l2 c) key = Some v" "ca_open c" using assms by (auto simp: coherent_def l1_below_def)
    with Some b show ?thesis by (simp add: cache_get_def Let_def coherent_def map_view_def)
  qed
qed

lemma warm_coherent: "coherent R K c \<Longrightarrow> coherent R K (Warmup R K t keys c) \<and> map_view K (Warmup R K t keys c) = (kv_get K (ca_l2 c), ca_open c \<or> keys \<noteq> [])"
proof (induction keys arbitrary: c)
  case (Cons key keys)
  have "coherent R K (warm_key R K t c key)" "map_view K (warm_key R K t c key) = (kv_get K (ca_l2 c), True)"
    using Cons.prems by (auto simp: coherent_def warm_key_def Let_def map_view_def l1_below_add split: option.split)
  with Cons.IH [of "warm_key R K t c key"] show ?case by (simp add: Warmup_def map_view_def)
qed (simp add: Warmup_def map_view_def)

lemma step_coherent:
  assumes "coherent R K c"
  shows "coherent R K (cache_step R K c op) \<and> map_view K (cache_step R K c op) = map_step (map_view K c) op"
proof (cases op)
  case (Put t key v ttl)
  with assms l1_below_put show ?thesis by (simp add: coherent_def cache_set_def map_view_def)
next
  case (Remove key)
  have "lr_get R t k (lr_remove R key (ca_l1 c)) = None" if "lr_get R t k (ca_l1 c) = None" for t k
    using that l1_remove [of t k key "ca_l1 c"] by (cases "lr_get R t k (lr_remove R key (ca_l1 c))") auto
  moreover have "l1_below R K (lr_remove R key (ca_l1 c)) (ca_l2 c)"
    using assms l1_remove unfolding coherent_def l1_below_def by blast
  moreover have "l1_below R K (lr_remove R key (ca_l1 c)) (kv_del K key (ca_l2 c))"
    using assms by (intro l1_below_remove) (simp add: coherent_def)
  ultimately show ?thesis using assms Remove by (simp add: coherent_def cache_delete_def store_delete_def map_view_def)
next
  case (Invalidate p)
  then show ?thesis
    by (simp add: coherent_def l1_below_def InvalidateByPrefix_def store_delete_prefix_def map_view_def delete_prefix fun_eq_iff)
next
  case (Get t key)
  with get_coherent [OF assms] show ?thesis by (simp add: map_view_def)
next
  case (Warm t keys)
  with warm_coherent [OF assms] show ?thesis by (simp add: map_view_def)
next
  case Restart
  with assms show ?thesis by (simp add: coherent_def l1_below_def restart_cache_def map_view_def)
qed

lemma run_coherent:
  "coherent R K c \<Longrightarrow> coherent R K (foldl (cache_step R K) c ops)
     \<and> map_view K (foldl (cache_step R K) c ops) = foldl map_step (map_view K c) ops"
proof (induction ops arbitrary: c)
  case (Cons op ops)
  from step_coherent [OF Cons.prems] Cons.IH [of "cache_step R K c op"] show ?case by simp
qed simp

end

text \<open>
  C17: The cache is a plain map, also over restarts. Whatever the first level evicts or lets expire, a
  lookup after any operations returns the value last set for the key, unless it was deleted or its
  prefix invalidated after the first access of the process: before it removals do nothing. So a
  value never expires: the time to live given to \<open>Set\<close> and to the namespace has no effect.
\<close>

theorem cache_is_map:
  assumes "kv_laws K" "lru_laws R" "coherent R K c"
  shows "snd (cache_get R K t key (foldl (cache_step R K) c ops)) = fst (foldl map_step (kv_get K (ca_l2 c), ca_open c) ops) key"
proof -
  have levels: "cache_levels K R" by (intro cache_levels.intro ordered_store.intro cache_levels_axioms.intro assms(1,2))
  from cache_levels.run_coherent [OF levels assms(3), of ops] cache_levels.get_coherent [OF levels] show ?thesis
    by (simp add: map_view_def flip: prod.collapse) (metis fst_conv)
qed

section \<open>A first level in memory\<close>

text \<open>Entries with the time they were added, expiring after \<open>ttl\<close>, the \<open>n\<close> last ones kept.\<close>

definition mem_lru :: "nat \<Rightarrow> int \<Rightarrow> (string \<times> string \<times> int) list lru" where
  "mem_lru n ttl = \<lparr>lr_get = (\<lambda>t k l. case map_of l k of Some (v, u) \<Rightarrow> if t \<le> u + ttl then Some v else None | None \<Rightarrow> None),
     lr_touch = (\<lambda>t k l. l),
     lr_add = (\<lambda>t k v l. take n ((k, v, t) # filter (\<lambda>e. fst e \<noteq> k) l)),
     lr_remove = (\<lambda>k l. filter (\<lambda>e. fst e \<noteq> k) l), lr_purge = (\<lambda>l. [])\<rparr>"

lemma map_of_take: "map_of (take n l) k = Some v \<Longrightarrow> map_of l k = Some v"
proof (induction l arbitrary: n)
  case (Cons e l)
  then show ?case by (cases n) (auto split: if_splits)
qed simp

lemma map_of_others: "map_of (filter (\<lambda>e. fst e \<noteq> j) l) k = (if k = j then None else map_of l k)"
  by (induction l) auto

lemma mem_lru_laws: "lru_laws (mem_lru n ttl)"
  unfolding lru_laws_def mem_lru_def lru.simps
proof (intro conjI allI impI)
  fix t u :: int and k j v w :: string and l :: "(string \<times> string \<times> int) list"
  assume "(case map_of (take n ((j, v, u) # filter (\<lambda>e. fst e \<noteq> j) l)) k of None \<Rightarrow> None
      | Some (v, u) \<Rightarrow> if t \<le> u + ttl then Some v else None) = Some w"
  then obtain u' where "map_of (take n ((j, v, u) # filter (\<lambda>e. fst e \<noteq> j) l)) k = Some (w, u')" "t \<le> u' + ttl"
    by (auto split: option.splits if_splits)
  with map_of_take [OF this(1)] show "if k = j then w = v else (case map_of l k of None \<Rightarrow> None
      | Some (v, u) \<Rightarrow> if t \<le> u + ttl then Some v else None) = Some w"
    by (auto simp: map_of_others)
qed (auto simp: map_of_others split: option.splits if_splits)

interpretation mem_cache: cache_levels mem_kv "mem_lru n ttl" for n ttl
  by unfold_locales (rule mem_lru_laws)

text \<open>A value that has left the first level is still found; one deleted right after a restart comes back.\<close>

theorem cache_is_map_witness:
  "snd (cache_get (mem_lru 1 5) mem_kv 100 ''a'' (foldl (cache_step (mem_lru 1 5) mem_kv) \<lparr>ca_l1 = [], ca_l2 = [], ca_open = False\<rparr>
     [Put 0 ''a'' ''1'' 5, Put 1 ''b'' ''2'' 5, Restart, Remove ''a''])) = Some ''1''"
proof -
  have "coherent (mem_lru 1 5) mem_kv \<lparr>ca_l1 = [], ca_l2 = [], ca_open = False\<rparr>"
    by (simp add: coherent_def l1_below_def mem_lru_def)
  note cache_is_map [OF mem_kv_laws mem_lru_laws this, of 100 "''a''" "[Put 0 ''a'' ''1'' 5, Put 1 ''b'' ''2'' 5, Restart, Remove ''a'']"]
  also have "fst (foldl map_step (m, b) [Put 0 ''a'' ''1'' 5, Put 1 ''b'' ''2'' 5, Restart, Remove ''a'']) ''a'' = Some ''1''" for m b
    by simp
  finally show ?thesis .
qed

end
