(* ===== verification/Social.thy ===== *)
theory Social
  imports Store Base64 GoStruct
begin

text \<open>
  The follow relation (\<open>internal/aggregator/social\<close>): edges in the key-value store with two time-ordered
  indices and an index by pin, the handling of follow and revoke pins, the relationship of two users and
  the cursor-paged lists. The profile lookup is an interface of another aggregator and an argument.
\<close>

section \<open>Data\<close>

record target_ref =
  tf_metaId :: string
  tf_gmid :: string
  tf_address :: string
  tf_name :: string
  tf_nameId :: string
  tf_avatarId :: string
  tf_bio :: string
  tf_bioId :: string

record follow_edge =
  fo_follower :: string
  fo_target :: string
  fo_pin :: string
  fo_at :: int
  fo_active :: bool

datatype social_error = ErrInvalidParameter | ErrNotFound | ErrUnavailable | LookupFailed string | UndecodableEdge | IncompleteEdge | BadCursor

text \<open>The three lookups; \<open>Inr None\<close> is no profile.\<close>

record profiles =
  pf_global :: "string \<Rightarrow> string + target_ref option"
  pf_meta :: "string \<Rightarrow> string + target_ref option"
  pf_address :: "string \<Rightarrow> string + target_ref option"

section \<open>Keys\<close>

definition pairKey :: "string \<Rightarrow> string \<Rightarrow> string" where
  "pairKey follower target = ''edge:pair:'' @ follower @ '':'' @ target"

text \<open>The sixteen digits of the complement, so that later times come first.\<close>

definition invertedTimestampHex :: "int \<Rightarrow> string" where
  "invertedTimestampHex ts = map (\<lambda>i. hex_digit ((2 ^ 64 - 1 - ts mod 2 ^ 64) div 16 ^ i mod 16)) (rev [0..<16])"

definition followingIndexPrefix :: "string \<Rightarrow> string" where
  "followingIndexPrefix follower = ''edge:following:'' @ follower @ '':''"

definition followerIndexPrefix :: "string \<Rightarrow> string" where
  "followerIndexPrefix target = ''edge:followers:'' @ target @ '':''"

definition index_rest :: "int \<Rightarrow> string \<Rightarrow> string \<Rightarrow> string" where
  "index_rest followedAt pin peer = invertedTimestampHex followedAt @ '':'' @ pin @ '':'' @ peer"

definition followingIndexKey :: "string \<Rightarrow> int \<Rightarrow> string \<Rightarrow> string \<Rightarrow> string" where
  "followingIndexKey follower followedAt pin target = followingIndexPrefix follower @ index_rest followedAt pin target"

definition followerIndexKey :: "string \<Rightarrow> int \<Rightarrow> string \<Rightarrow> string \<Rightarrow> string" where
  "followerIndexKey target followedAt pin follower = followerIndexPrefix target @ index_rest followedAt pin follower"

definition pinToPairKey :: "string \<Rightarrow> string" where
  "pinToPairKey pin = ''edge:pin:'' @ pin"

section \<open>Edges in the store\<close>

definition edge_fields :: "follow_edge \<Rightarrow> (string \<times> string) list" where
  "edge_fields e = [(''followerGlobalMetaId'', go_json_str (fo_follower e)), (''targetGlobalMetaId'', go_json_str (fo_target e)),
     (''followPinId'', go_json_str (fo_pin e)), (''followedAt'', show_int (fo_at e)), (''active'', if fo_active e then ''true'' else ''false'')]"

definition marshal_edge :: "follow_edge \<Rightarrow> string" where
  "marshal_edge e = marshal_object (edge_fields e)"

definition str_field :: "json \<Rightarrow> (string \<Rightarrow> 'a) \<Rightarrow> 'a \<Rightarrow> 'a option" where
  "str_field v f e = (case v of JNull \<Rightarrow> Some e | JStr s \<Rightarrow> Some (f s) | _ \<Rightarrow> None)"

definition edge_field :: "follow_edge \<Rightarrow> string \<times> json \<Rightarrow> follow_edge option" where
  "edge_field e kv =
     (let name = fold_name (fst kv); v = snd kv in
      if name = ''followerglobalmetaid'' then str_field v (\<lambda>s. e\<lparr>fo_follower := s\<rparr>) e
      else if name = ''targetglobalmetaid'' then str_field v (\<lambda>s. e\<lparr>fo_target := s\<rparr>) e
      else if name = ''followpinid'' then str_field v (\<lambda>s. e\<lparr>fo_pin := s\<rparr>) e
      else if name = ''followedat'' then
        (case v of JNull \<Rightarrow> Some e | JNum s \<Rightarrow> map_option (\<lambda>n. e\<lparr>fo_at := n\<rparr>) (parse_int64 s) | _ \<Rightarrow> None)
      else if name = ''active'' then (case v of JNull \<Rightarrow> Some e | JBool b \<Rightarrow> Some (e\<lparr>fo_active := b\<rparr>) | _ \<Rightarrow> None)
      else Some e)"

definition no_edge :: follow_edge where
  "no_edge = \<lparr>fo_follower = '''', fo_target = '''', fo_pin = '''', fo_at = 0, fo_active = False\<rparr>"

definition unmarshal_edge :: "string \<Rightarrow> follow_edge option" where
  "unmarshal_edge raw = (case object_members raw of None \<Rightarrow> None | Some fs \<Rightarrow> fold_fields edge_field no_edge fs)"

definition loadActiveEdge :: "'db kv \<Rightarrow> 'db \<Rightarrow> string \<Rightarrow> string \<Rightarrow> social_error + follow_edge option" where
  "loadActiveEdge K d follower target =
     (if follower = '''' \<or> target = '''' then Inr None
      else case kv_get K d (pairKey follower target) of
             None \<Rightarrow> Inr None
           | Some raw \<Rightarrow>
               (case unmarshal_edge raw of
                  None \<Rightarrow> Inl UndecodableEdge
                | Some e \<Rightarrow> Inr (if fo_active e then Some e else None)))"

definition split_pair :: "string \<Rightarrow> (string \<times> string) option" where
  "split_pair s = (if CHR '':'' \<in> set s then Some (takeWhile (\<lambda>c. c \<noteq> CHR '':'') s, tl (dropWhile (\<lambda>c. c \<noteq> CHR '':'') s)) else None)"

definition loadActiveEdgeByPin :: "'db kv \<Rightarrow> 'db \<Rightarrow> string \<Rightarrow> social_error + follow_edge option" where
  "loadActiveEdgeByPin K d pin =
     (if pin = '''' then Inr None
      else case kv_get K d (pinToPairKey pin) of
             None \<Rightarrow> Inr None
           | Some raw \<Rightarrow> (case split_pair raw of None \<Rightarrow> Inr None | Some (follower, target) \<Rightarrow> loadActiveEdge K d follower target))"

text \<open>
  The four keys of an edge. The callers of the deletion have read the edge, so the namespace is open and
  the deletions of the store are effective.
\<close>

definition edge_keys :: "follow_edge \<Rightarrow> string list" where
  "edge_keys e = [pairKey (fo_follower e) (fo_target e), followingIndexKey (fo_follower e) (fo_at e) (fo_pin e) (fo_target e),
     followerIndexKey (fo_target e) (fo_at e) (fo_pin e) (fo_follower e), pinToPairKey (fo_pin e)]"

definition deleteActiveEdge :: "'db kv \<Rightarrow> follow_edge \<Rightarrow> 'db \<Rightarrow> 'db" where
  "deleteActiveEdge K e d = foldl (\<lambda>d k. kv_del K k d) d (edge_keys e)"

definition edge_values :: "follow_edge \<Rightarrow> string list" where
  "edge_values e = [marshal_edge e, '''', '''', fo_follower e @ '':'' @ fo_target e]"

definition saveActiveEdge :: "'db kv \<Rightarrow> follow_edge \<Rightarrow> 'db \<Rightarrow> social_error + 'db" where
  "saveActiveEdge K edge d =
     (if fo_follower edge = '''' \<or> fo_target edge = '''' \<or> fo_pin edge = '''' then Inl IncompleteEdge
      else let e = edge\<lparr>fo_active := True\<rparr> in
        case loadActiveEdge K d (fo_follower e) (fo_target e) of
          Inl err \<Rightarrow> Inl err
        | Inr previous \<Rightarrow>
            let d1 = (case previous of None \<Rightarrow> d | Some old \<Rightarrow> deleteActiveEdge K old d)
            in Inr (foldl (\<lambda>d kv. kv_put K (fst kv) (snd kv) d) d1 (zip (edge_keys e) (edge_values e))))"

section \<open>Pins\<close>

record social_pin =
  sp_id :: string
  sp_path :: string
  sp_operation :: string
  sp_originalId :: string
  sp_gmid :: string
  sp_metaId :: string
  sp_createMetaId :: string
  sp_address :: string
  sp_createAddress :: string
  sp_body :: string
  sp_summary :: string
  sp_ts :: int

definition quote_char :: "char \<Rightarrow> bool" where "quote_char c \<longleftrightarrow> c = CHR 0x22"

definition normalisedPinPath :: "(int \<Rightarrow> int) \<Rightarrow> string \<Rightarrow> string" where
  "normalisedPinPath ulower path =
     trim_right_set (\<lambda>c. c = CHR ''/'') (takeWhile (\<lambda>c. c \<noteq> CHR ''@'') (to_lower ulower (trim_space path)))"

definition decodeTargetRef :: "social_pin \<Rightarrow> string" where
  "decodeTargetRef pin =
     (let ref = trim_set quote_char (trim_space (sp_body pin))
      in if ref \<noteq> '''' then ref else trim_set quote_char (trim_space (sp_summary pin)))"

definition firstNonEmpty :: "string list \<Rightarrow> string" where
  "firstNonEmpty vs = (case find (\<lambda>v. v \<noteq> '''') (map trim_space vs) of Some v \<Rightarrow> v | None \<Rightarrow> '''')"

fun first_profile :: "(string \<Rightarrow> string + target_ref option) list \<Rightarrow> string \<Rightarrow> social_error + target_ref option" where
  "first_profile [] ref = Inr None"
| "first_profile (f # fs) ref = (case f ref of
      Inl e \<Rightarrow> Inl (LookupFailed e)
    | Inr (Some t) \<Rightarrow> Inr (Some t)
    | Inr None \<Rightarrow> first_profile fs ref)"

definition lookupTargetRef :: "profiles option \<Rightarrow> string \<Rightarrow> social_error + target_ref option" where
  "lookupTargetRef P ref = (case P of
      None \<Rightarrow> Inr None
    | Some p \<Rightarrow> if trim_space ref = '''' then Inr None else first_profile [pf_global p, pf_meta p, pf_address p] (trim_space ref))"

definition canonicalGlobalMetaIdRef :: "(int \<Rightarrow> int) \<Rightarrow> string \<Rightarrow> string option" where
  "canonicalGlobalMetaIdRef ulower ref =
     (let r = trim_space ref in if r \<noteq> '''' \<and> has_prefix (to_lower ulower r) ''idq'' then Some r else None)"

definition resolveFollowerGlobalMetaId :: "profiles option \<Rightarrow> social_pin \<Rightarrow> social_error + string" where
  "resolveFollowerGlobalMetaId P pin =
     (if trim_space (sp_gmid pin) \<noteq> '''' then Inr (trim_space (sp_gmid pin))
      else case lookupTargetRef P (firstNonEmpty [sp_metaId pin, sp_createMetaId pin, sp_address pin, sp_createAddress pin]) of
             Inl e \<Rightarrow> Inl e
           | Inr None \<Rightarrow> Inr ''''
           | Inr (Some t) \<Rightarrow> Inr (trim_space (tf_gmid t)))"

definition resolveTargetPinId :: "social_pin \<Rightarrow> string" where
  "resolveTargetPinId pin =
     (let c1 = trim_set (\<lambda>c. c = CHR ''@'' \<or> c = CHR ''/'') (trim_space (sp_originalId pin));
          c2 = trim_set (\<lambda>c. c = CHR ''/'') (trim_space (tl (dropWhile (\<lambda>c. c \<noteq> CHR ''@'') (sp_path pin))))
      in if c1 \<noteq> '''' \<and> c1 \<noteq> sp_id pin then c1
         else if CHR ''@'' \<in> set (sp_path pin) \<and> c2 \<noteq> '''' \<and> c2 \<noteq> sp_id pin then c2
         else '''')"

text \<open>The edge a follow pin asks for, \<open>None\<close> when a side is unknown.\<close>

definition edge_of_pin :: "(int \<Rightarrow> int) \<Rightarrow> profiles option \<Rightarrow> social_pin \<Rightarrow> social_error + follow_edge option" where
  "edge_of_pin ulower P pin =
     (case resolveFollowerGlobalMetaId P pin of
        Inl e \<Rightarrow> Inl e
      | Inr follower \<Rightarrow>
          if follower = '''' then Inr None
          else case lookupTargetRef P (decodeTargetRef pin) of
                 Inl e \<Rightarrow> Inl e
               | Inr target \<Rightarrow>
                   let known = (case target of Some t \<Rightarrow> trim_space (tf_gmid t) | None \<Rightarrow> '''') in
                   (case (if known \<noteq> '''' then Some known else canonicalGlobalMetaIdRef ulower (decodeTargetRef pin)) of
                      None \<Rightarrow> Inr None
                    | Some t \<Rightarrow> Inr (Some \<lparr>fo_follower = follower, fo_target = t, fo_pin = trim_space (sp_id pin),
                        fo_at = sp_ts pin, fo_active = False\<rparr>)))"

definition processCreate :: "(int \<Rightarrow> int) \<Rightarrow> profiles option \<Rightarrow> 'db kv \<Rightarrow> social_pin \<Rightarrow> 'db \<Rightarrow> social_error + 'db" where
  "processCreate ulower P K pin d =
     (case edge_of_pin ulower P pin of Inl e \<Rightarrow> Inl e | Inr None \<Rightarrow> Inr d | Inr (Some e) \<Rightarrow> saveActiveEdge K e d)"

definition processRevoke :: "'db kv \<Rightarrow> social_pin \<Rightarrow> 'db \<Rightarrow> social_error + 'db" where
  "processRevoke K pin d =
     (case loadActiveEdgeByPin K d (resolveTargetPinId pin) of
        Inl e \<Rightarrow> Inl e | Inr None \<Rightarrow> Inr d | Inr (Some e) \<Rightarrow> Inr (deleteActiveEdge K e d))"

definition processPin :: "(int \<Rightarrow> int) \<Rightarrow> profiles option \<Rightarrow> 'db kv \<Rightarrow> social_pin \<Rightarrow> 'db \<Rightarrow> social_error + 'db" where
  "processPin ulower P K pin d =
     (if normalisedPinPath ulower (sp_path pin) = ''/follow'' then
        (let operation = to_lower ulower (trim_space (sp_operation pin)) in
         if operation = ''create'' then processCreate ulower P K pin d
         else if operation = ''revoke'' then processRevoke K pin d
         else Inr d)
      else Inr d)"

section \<open>Subjects of a request\<close>

definition lookupRequestSubject :: "profiles option \<Rightarrow> string \<Rightarrow> social_error + target_ref" where
  "lookupRequestSubject P gmid =
     (if trim_space gmid = '''' then Inl ErrInvalidParameter
      else case P of
             None \<Rightarrow> Inl ErrUnavailable
           | Some p \<Rightarrow> (case pf_global p (trim_space gmid) of
                Inl _ \<Rightarrow> Inl ErrUnavailable
              | Inr None \<Rightarrow> Inl ErrNotFound
              | Inr (Some t) \<Rightarrow> if trim_space (tf_gmid t) = '''' then Inl ErrNotFound else Inr t))"

definition bare_ref :: "string \<Rightarrow> target_ref" where
  "bare_ref gmid = \<lparr>tf_metaId = '''', tf_gmid = gmid, tf_address = '''', tf_name = '''', tf_nameId = '''', tf_avatarId = '''', tf_bio = '''', tf_bioId = ''''\<rparr>"

definition lookupListProfile :: "profiles option \<Rightarrow> string \<Rightarrow> social_error + target_ref" where
  "lookupListProfile P gmid = (case lookupRequestSubject P gmid of
      Inl e \<Rightarrow> if e = ErrNotFound then Inr (bare_ref gmid) else Inl e
    | Inr t \<Rightarrow> Inr t)"

section \<open>The relationship of two users\<close>

record rel_side =
  rs_gmid :: string
  rs_followsTarget :: bool
  rs_followsSource :: bool
  rs_pin :: string
  rs_at :: int

record relationship =
  rl_source :: rel_side
  rl_target :: rel_side
  rl_mutual :: bool

definition bare_side :: "string \<Rightarrow> rel_side" where
  "bare_side g = \<lparr>rs_gmid = g, rs_followsTarget = False, rs_followsSource = False, rs_pin = '''', rs_at = 0\<rparr>"

definition source_side :: "string \<Rightarrow> follow_edge option \<Rightarrow> rel_side" where
  "source_side g e = (case e of None \<Rightarrow> bare_side g
     | Some f \<Rightarrow> (bare_side g)\<lparr>rs_followsTarget := True, rs_pin := fo_pin f, rs_at := fo_at f\<rparr>)"

definition target_side :: "string \<Rightarrow> follow_edge option \<Rightarrow> rel_side" where
  "target_side g e = (case e of None \<Rightarrow> bare_side g
     | Some f \<Rightarrow> (bare_side g)\<lparr>rs_followsSource := True, rs_pin := fo_pin f, rs_at := fo_at f\<rparr>)"

fun relate :: "string \<Rightarrow> string \<Rightarrow> social_error + follow_edge option \<Rightarrow> social_error + follow_edge option \<Rightarrow> social_error + relationship" where
  "relate s t (Inl e) _ = Inl e"
| "relate s t _ (Inl e) = Inl e"
| "relate s t (Inr a) (Inr b) = Inr \<lparr>rl_source = source_side s a, rl_target = target_side t b,
     rl_mutual = (rs_followsTarget (source_side s a) \<and> rs_followsSource (target_side t b))\<rparr>"

definition Relationship :: "profiles option \<Rightarrow> 'db kv \<Rightarrow> 'db \<Rightarrow> string \<Rightarrow> string \<Rightarrow> social_error + relationship" where
  "Relationship P K d sourceGmid targetGmid =
     (case lookupRequestSubject P sourceGmid of
        Inl e \<Rightarrow> Inl e
      | Inr s \<Rightarrow> (case lookupRequestSubject P targetGmid of
          Inl e \<Rightarrow> Inl e
        | Inr t \<Rightarrow> relate (tf_gmid s) (tf_gmid t) (loadActiveEdge K d (tf_gmid s) (tf_gmid t)) (loadActiveEdge K d (tf_gmid t) (tf_gmid s))))"

section \<open>Lists\<close>

datatype list_view = ViewCompact | ViewProfile

record list_params =
  la_gmid :: string
  la_cursor :: string
  la_size :: int
  la_view :: string

record list_item =
  lt_gmid :: string
  lt_name :: string
  lt_nameId :: string
  lt_avatarId :: string
  lt_bio :: string
  lt_bioId :: string
  lt_at :: int
  lt_pin :: string

record list_result =
  lr_list :: "list_item list"
  lr_next :: string
  lr_size :: int

definition normaliseListView :: "(int \<Rightarrow> int) \<Rightarrow> string \<Rightarrow> social_error + list_view" where
  "normaliseListView ulower view =
     (let v = to_lower ulower (trim_space view) in
      if v = '''' \<or> v = ''compact'' then Inr ViewCompact else if v = ''profile'' then Inr ViewProfile else Inl ErrInvalidParameter)"

definition buildListItem :: "list_view \<Rightarrow> target_ref \<Rightarrow> follow_edge \<Rightarrow> list_item" where
  "buildListItem view p e =
     (let item = \<lparr>lt_gmid = tf_gmid p, lt_name = tf_name p, lt_nameId = tf_nameId p, lt_avatarId = tf_avatarId p,
        lt_bio = '''', lt_bioId = '''', lt_at = 0, lt_pin = ''''\<rparr>
      in if view = ViewProfile then item\<lparr>lt_bio := tf_bio p, lt_bioId := tf_bioId p, lt_at := fo_at e, lt_pin := fo_pin e\<rparr> else item)"

definition encodeCursor :: "string \<Rightarrow> string" where
  "encodeCursor key = (if key = '''' then '''' else std_encode key)"

text \<open>The empty key is no cursor.\<close>

definition decodeCursor :: "string \<Rightarrow> social_error + string" where
  "decodeCursor cursor =
     (if trim_space cursor = '''' then Inr ''''
      else case std_decode (trim_space cursor) of
             None \<Rightarrow> Inl BadCursor
           | Some k \<Rightarrow> if k = '''' then Inl BadCursor else Inr k)"

definition parse_peer :: "string \<Rightarrow> string option" where
  "parse_peer key = (case last_index CHR '':'' key of
      None \<Rightarrow> None
    | Some i \<Rightarrow> if length key \<le> i + 1 then None else Some (drop (i + 1) key))"

record list_state =
  ls_items :: "list_item list"
  ls_next :: string
  ls_last :: string
  ls_skip :: bool
  ls_found :: bool

text \<open>One key of the scan; \<open>True\<close> ends it.\<close>

definition list_key :: "int \<Rightarrow> string \<Rightarrow> (string \<Rightarrow> social_error + follow_edge option) \<Rightarrow> (string \<Rightarrow> social_error + target_ref)
    \<Rightarrow> list_view \<Rightarrow> string \<Rightarrow> list_state \<Rightarrow> social_error + list_state \<times> bool" where
  "list_key n cursor load profile view key s =
     (if ls_skip s then Inr (if key = cursor then s\<lparr>ls_skip := False, ls_found := True\<rparr> else s, False)
      else case parse_peer key of
             None \<Rightarrow> Inr (s, False)
           | Some peer \<Rightarrow> (case load peer of
               Inl e \<Rightarrow> Inl e
             | Inr None \<Rightarrow> Inr (s, False)
             | Inr (Some e) \<Rightarrow> (case profile peer of
                 Inl err \<Rightarrow> Inl err
               | Inr p \<Rightarrow>
                   let items = ls_items s @ [buildListItem view p e];
                       s1 = s\<lparr>ls_items := items, ls_last := (if int (length items) \<le> n then key else ls_last s)\<rparr>
                   in if int (length items) = n + 1 then Inr (s1\<lparr>ls_next := encodeCursor (ls_last s1)\<rparr>, True) else Inr (s1, False))))"

fun list_keys :: "int \<Rightarrow> string \<Rightarrow> (string \<Rightarrow> social_error + follow_edge option) \<Rightarrow> (string \<Rightarrow> social_error + target_ref)
    \<Rightarrow> list_view \<Rightarrow> string list \<Rightarrow> list_state \<Rightarrow> social_error + list_state" where
  "list_keys n cursor load profile view [] s = Inr s"
| "list_keys n cursor load profile view (k # ks) s = (case list_key n cursor load profile view k s of
      Inl e \<Rightarrow> Inl e
    | Inr (s1, stop) \<Rightarrow> if stop then Inr s1 else list_keys n cursor load profile view ks s1)"

definition list_size :: "int \<Rightarrow> int" where
  "list_size n = (let m = (if n \<le> 0 then 20 else n) in if 100 < m then 100 else m)"

definition listEdges :: "(int \<Rightarrow> int) \<Rightarrow> profiles option \<Rightarrow> 'db kv \<Rightarrow> 'db \<Rightarrow> string \<Rightarrow> list_params
    \<Rightarrow> (string \<Rightarrow> social_error + follow_edge option) \<Rightarrow> social_error + list_result" where
  "listEdges ulower P K d prefix params load =
     (case normaliseListView ulower (la_view params) of
        Inl e \<Rightarrow> Inl e
      | Inr view \<Rightarrow> (case decodeCursor (la_cursor params) of
          Inl e \<Rightarrow> Inl e
        | Inr cursor \<Rightarrow>
            if cursor \<noteq> '''' \<and> \<not> has_prefix cursor prefix then Inl ErrInvalidParameter
            else let n = list_size (la_size params) in
              (case list_keys n cursor load (lookupListProfile P) view (map fst (ScanPrefix K d prefix))
                      \<lparr>ls_items = [], ls_next = '''', ls_last = '''', ls_skip = (cursor \<noteq> ''''), ls_found = (cursor = '''')\<rparr> of
                 Inl e \<Rightarrow> Inl e
               | Inr s \<Rightarrow> if \<not> ls_found s then Inl ErrInvalidParameter
                   else Inr \<lparr>lr_list = take (nat n) (ls_items s), lr_next = ls_next s, lr_size = n\<rparr>)))"

definition ListFollowing :: "(int \<Rightarrow> int) \<Rightarrow> profiles option \<Rightarrow> 'db kv \<Rightarrow> 'db \<Rightarrow> list_params \<Rightarrow> social_error + list_result" where
  "ListFollowing ulower P K d params =
     (case normaliseListView ulower (la_view params) of
        Inl e \<Rightarrow> Inl e
      | Inr view \<Rightarrow> (case lookupRequestSubject P (la_gmid params) of
          Inl e \<Rightarrow> Inl e
        | Inr t \<Rightarrow> listEdges ulower P K d (followingIndexPrefix (tf_gmid t)) params (\<lambda>peer. loadActiveEdge K d (tf_gmid t) peer)))"

definition ListFollowers :: "(int \<Rightarrow> int) \<Rightarrow> profiles option \<Rightarrow> 'db kv \<Rightarrow> 'db \<Rightarrow> list_params \<Rightarrow> social_error + list_result" where
  "ListFollowers ulower P K d params =
     (case normaliseListView ulower (la_view params) of
        Inl e \<Rightarrow> Inl e
      | Inr view \<Rightarrow> (case lookupRequestSubject P (la_gmid params) of
          Inl e \<Rightarrow> Inl e
        | Inr t \<Rightarrow> listEdges ulower P K d (followerIndexPrefix (tf_gmid t)) params (\<lambda>peer. loadActiveEdge K d peer (tf_gmid t))))"

end
