(* ===== verification/SocialProps.thy ===== *)
theory SocialProps
  imports Social
begin

text \<open>
  What the follow relation promises. The store refines a set of edges: every pin takes the store of a set
  to the store of the set after the pin. The lists return the edges of a user, newest first, and
  their cursors continue where the page before ended.
\<close>

section \<open>Edges read back\<close>

lemma reads_false: "reads_as ''false'' (JBool False)"
  by (simp add: reads_as_def skip_ws_char is_ws_def of_char_def expect_def has_prefix_def)

text \<open>The ids of users and pins: UTF-8 without colons.\<close>

definition plain_id :: "string \<Rightarrow> bool" where
  "plain_id s \<longleftrightarrow> s \<noteq> '''' \<and> CHR '':'' \<notin> set s \<and> clean s = s"

definition edge_ok :: "follow_edge \<Rightarrow> bool" where
  "edge_ok e \<longleftrightarrow> plain_id (fo_follower e) \<and> plain_id (fo_target e) \<and> plain_id (fo_pin e) \<and> int64_range (fo_at e) \<and> fo_active e"

lemma plain_simps:
  assumes "edge_ok e"
  shows "fo_follower e \<noteq> ''''" "fo_target e \<noteq> ''''" "fo_pin e \<noteq> ''''" "CHR '':'' \<notin> set (fo_follower e)"
    "CHR '':'' \<notin> set (fo_target e)" "CHR '':'' \<notin> set (fo_pin e)" "fo_active e"
  using assms by (auto simp: edge_ok_def plain_id_def)

lemma field_names [simp]:
  "clean ''followerGlobalMetaId'' = ''followerGlobalMetaId''" "clean ''targetGlobalMetaId'' = ''targetGlobalMetaId''"
  "clean ''followPinId'' = ''followPinId''" "clean ''followedAt'' = ''followedAt''" "clean ''active'' = ''active''"
  "fold_name ''followerGlobalMetaId'' = ''followerglobalmetaid''" "fold_name ''targetGlobalMetaId'' = ''targetglobalmetaid''"
  "fold_name ''followPinId'' = ''followpinid''" "fold_name ''followedAt'' = ''followedat''" "fold_name ''active'' = ''active''"
  by code_simp+

lemma edge_field_simps [simp]:
  "edge_field e (''followerGlobalMetaId'', JStr s) = Some (e\<lparr>fo_follower := s\<rparr>)"
  "edge_field e (''targetGlobalMetaId'', JStr s) = Some (e\<lparr>fo_target := s\<rparr>)"
  "edge_field e (''followPinId'', JStr s) = Some (e\<lparr>fo_pin := s\<rparr>)"
  "edge_field e (''followedAt'', JNum s) = map_option (\<lambda>n. e\<lparr>fo_at := n\<rparr>) (parse_int64 s)"
  "edge_field e (''active'', JBool b) = Some (e\<lparr>fo_active := b\<rparr>)"
  by (simp_all add: edge_field_def str_field_def Let_def del: fold_name.simps)

lemma edge_reads_back:
  assumes "edge_ok e" shows "unmarshal_edge (marshal_edge e) = Some e"
proof -
  let ?gs = "[(''followerGlobalMetaId'', JStr (fo_follower e)), (''targetGlobalMetaId'', JStr (fo_target e)),
     (''followPinId'', JStr (fo_pin e)), (''followedAt'', JNum (show_int (fo_at e))), (''active'', JBool True)]"
  have "list_all2 reads_member (edge_fields e) ?gs"
    using assms reads_str [of "fo_follower e"] reads_str [of "fo_target e"] reads_str [of "fo_pin e"] reads_int [of "fo_at e"] reads_true
    by (simp add: edge_fields_def reads_member_def edge_ok_def plain_id_def)
  then have "object_members (marshal_edge e) = Some (foldl (\<lambda>a g. mput (fst g) (snd g) a) [] ?gs)"
    unfolding marshal_edge_def by (rule object_written) (simp add: edge_fields_def)
  moreover have "parse_int64 (show_int (fo_at e)) = Some (fo_at e)"
    using assms by (intro parse_int64_show) (simp add: edge_ok_def)
  ultimately show ?thesis
    using plain_simps(7) [OF assms]
    by (simp add: unmarshal_edge_def no_edge_def)
qed

section \<open>Keys\<close>

lemma split_colon:
  assumes "CHR '':'' \<notin> set a" "CHR '':'' \<notin> set b"
  shows "a @ CHR '':'' # s = b @ CHR '':'' # t \<longleftrightarrow> a = b \<and> s = t"
  using assms by (induction a arbitrary: b) (case_tac b; auto)+

fun hex_text :: "nat \<Rightarrow> int \<Rightarrow> string" where
  "hex_text 0 n = ''''"
| "hex_text (Suc w) n = hex_digit (n div 16 ^ w mod 16) # hex_text w n"

lemma digits_text: "map (\<lambda>i. hex_digit (n div 16 ^ i mod 16)) (rev [0..<w]) = hex_text w n"
  by (induction w) simp_all

lemma inverted_hex: "invertedTimestampHex ts = hex_text 16 (2 ^ 64 - 1 - ts mod 2 ^ 64)"
  unfolding invertedTimestampHex_def by (rule digits_text)

lemma length_hex_text [simp]: "length (hex_text w n) = w"
  by (induction w) simp_all

lemma digit_less: "0 \<le> a \<Longrightarrow> a < 16 \<Longrightarrow> 0 \<le> b \<Longrightarrow> b < 16 \<Longrightarrow> byte (hex_digit a) < byte (hex_digit b) \<longleftrightarrow> a < b"
  by (auto simp: hex_digit_def byte_char_int)

lemma digit_eq: "0 \<le> a \<Longrightarrow> a < 16 \<Longrightarrow> 0 \<le> b \<Longrightarrow> b < 16 \<Longrightarrow> hex_digit a = hex_digit b \<longleftrightarrow> a = b"
  using digit_less [of a b] digit_less [of b a] by auto

lemma hex_order:
  "string_less (hex_text w n @ s) (hex_text w m @ t)
     \<longleftrightarrow> n mod 16 ^ w < m mod 16 ^ w \<or> n mod 16 ^ w = m mod 16 ^ w \<and> string_less s t"
proof (induction w)
  case (Suc w)
  have split: "k mod 16 ^ Suc w = (k div 16 ^ w mod 16) * 16 ^ w + k mod 16 ^ w" for k :: int
    by (metis mod_mult2_eq' add.commute mult.commute power_Suc2 zmod_zmult2_eq zero_le_numeral zero_le_power)
  let ?a = "n div 16 ^ w mod 16" and ?b = "m div 16 ^ w mod 16" and ?P = "16 ^ w :: int"
  have r: "0 \<le> n mod ?P" "n mod ?P < ?P" "0 \<le> m mod ?P" "m mod ?P < ?P" by simp_all
  have lex: "?a * ?P + n mod ?P < ?b * ?P + m mod ?P \<longleftrightarrow> ?a < ?b \<or> ?a = ?b \<and> n mod ?P < m mod ?P"
    "?a * ?P + n mod ?P = ?b * ?P + m mod ?P \<longleftrightarrow> ?a = ?b \<and> n mod ?P = m mod ?P"
  proof -
    have lt: "x * ?P + n mod ?P < y * ?P + m mod ?P" if "x < y" for x y
    proof -
      have "(x + 1) * ?P \<le> y * ?P" using that by (intro mult_right_mono) simp_all
      then have "x * ?P + ?P \<le> y * ?P" by (simp add: distrib_right)
      with r show ?thesis by linarith
    qed
    have gt: "y * ?P + m mod ?P < x * ?P + n mod ?P" if "y < x" for x y
    proof -
      have "(y + 1) * ?P \<le> x * ?P" using that by (intro mult_right_mono) simp_all
      then have "y * ?P + ?P \<le> x * ?P" by (simp add: distrib_right)
      with r show ?thesis by linarith
    qed
    from lt [of ?a ?b] gt [of ?b ?a] show "?a * ?P + n mod ?P < ?b * ?P + m mod ?P \<longleftrightarrow> ?a < ?b \<or> ?a = ?b \<and> n mod ?P < m mod ?P"
      "?a * ?P + n mod ?P = ?b * ?P + m mod ?P \<longleftrightarrow> ?a = ?b \<and> n mod ?P = m mod ?P"
      by (cases ?a ?b rule: linorder_cases; force)+
  qed
  show ?case
    unfolding split lex by (simp add: digit_less digit_eq Suc.IH) blast
qed simp

lemma hex_eq: "hex_text w n = hex_text w m \<longleftrightarrow> n mod 16 ^ w = m mod 16 ^ w"
proof
  assume "hex_text w n = hex_text w m"
  with hex_order [of w n "''''" m "''''"] hex_order [of w n "''''" n "''''"] hex_order [of w m "''''" n "''''"]
  show "n mod 16 ^ w = m mod 16 ^ w" by simp
next
  assume m: "n mod 16 ^ w = m mod 16 ^ w"
  have "n div 16 ^ i mod 16 = m div 16 ^ i mod 16" if "i < w" for i
  proof -
    from less_imp_Suc_add [OF that] obtain j where "w = Suc (i + j)" by blast
    then have w: "w = i + Suc j" by simp
    have "(k mod 16 ^ w) div 16 ^ i mod 16 = k div 16 ^ i mod 16" for k :: int
    proof -
      have "k mod 16 ^ w = 16 ^ i * (k div 16 ^ i mod 16 ^ Suc j) + k mod 16 ^ i"
        unfolding w power_add by (rule zmod_zmult2_eq) simp
      then have "(k mod 16 ^ w) div 16 ^ i = k div 16 ^ i mod 16 ^ Suc j"
        by simp
      then show ?thesis by (simp add: mod_mult_left_eq zmod_zmult2_eq)
    qed
    with m show ?thesis by metis
  qed
  then show "hex_text w n = hex_text w m" by (induction w) simp_all
qed

lemma inverted_less: "string_less (invertedTimestampHex a @ s) (invertedTimestampHex b @ t)
    \<longleftrightarrow> b mod 2 ^ 64 < a mod 2 ^ 64 \<or> a mod 2 ^ 64 = b mod 2 ^ 64 \<and> string_less s t"
proof -
  have "(2 ^ 64 - 1 - k mod 2 ^ 64) mod (16 :: int) ^ 16 = 2 ^ 64 - 1 - k mod 2 ^ 64" for k
    by (rule mod_pos_pos_trivial) simp_all
  then show ?thesis by (auto simp: inverted_hex hex_order)
qed

lemma inverted_eq: "int64_range a \<Longrightarrow> int64_range b \<Longrightarrow> invertedTimestampHex a = invertedTimestampHex b \<longleftrightarrow> a = b"
proof -
  assume r: "int64_range a" "int64_range b"
  have "a = b" if "a mod 2 ^ 64 = b mod 2 ^ 64"
  proof -
    have "2 ^ 64 dvd a - b" using that by (simp add: mod_eq_dvd_iff)
    then obtain k where k: "a - b = 2 ^ 64 * k" by (rule dvdE)
    have "\<not> 1 \<le> k" "\<not> k \<le> - 1"
      using k r by (auto simp: int64_range_def min_int64_def max_int64_def)
    with k show ?thesis by simp
  qed
  moreover have "invertedTimestampHex a = invertedTimestampHex b \<Longrightarrow> a mod 2 ^ 64 = b mod 2 ^ 64"
    using inverted_less [of a "''''" b "''''"] inverted_less [of b "''''" a "''''"] inverted_less [of a "''''" a "''''"] by simp
  ultimately show ?thesis by blast
qed

lemma index_rest_eq:
  assumes "edge_ok e" "edge_ok f"
  shows "index_rest (fo_at e) (fo_pin e) s = index_rest (fo_at f) (fo_pin f) t \<longleftrightarrow> fo_at e = fo_at f \<and> fo_pin e = fo_pin f \<and> s = t"
proof -
  have "length (invertedTimestampHex (fo_at e)) = length (invertedTimestampHex (fo_at f))" by (simp add: inverted_hex)
  with assms inverted_eq [of "fo_at e" "fo_at f"] split_colon [OF plain_simps(6) [OF assms(1)] plain_simps(6) [OF assms(2)]]
  show ?thesis by (simp add: index_rest_def edge_ok_def)
qed

text \<open>Two edges that share a key share the pair or the pin.\<close>

definition same_pair :: "follow_edge \<Rightarrow> follow_edge \<Rightarrow> bool" where
  "same_pair e f \<longleftrightarrow> fo_follower e = fo_follower f \<and> fo_target e = fo_target f"

lemma shared_key:
  assumes "edge_ok e" "edge_ok f" "k \<in> set (edge_keys e)" "k \<in> set (edge_keys f)"
  shows "same_pair e f \<or> fo_pin e = fo_pin f"
proof -
  note plain = plain_simps [OF assms(1)] plain_simps [OF assms(2)]
  have fw: "fo_follower e @ CHR '':'' # s = fo_follower f @ CHR '':'' # t \<longleftrightarrow> fo_follower e = fo_follower f \<and> s = t" for s t
    by (rule split_colon) (use plain in blast)+
  have tg: "fo_target e @ CHR '':'' # s = fo_target f @ CHR '':'' # t \<longleftrightarrow> fo_target e = fo_target f \<and> s = t" for s t
    by (rule split_colon) (use plain in blast)+
  from assms(3,4) index_rest_eq [OF assms(1,2)] fw tg show ?thesis
    by (auto simp: edge_keys_def pairKey_def followingIndexKey_def followingIndexPrefix_def followerIndexKey_def
        followerIndexPrefix_def pinToPairKey_def same_pair_def)
qed

section \<open>The store of a set of edges\<close>

definition edge_entries :: "follow_edge \<Rightarrow> (string \<times> string) list" where
  "edge_entries e = zip (edge_keys e) (edge_values e)"

text \<open>The set of edges at any time: at most one for a pair of users and one for a pin.\<close>

definition edges_ok :: "follow_edge set \<Rightarrow> bool" where
  "edges_ok R \<longleftrightarrow> (\<forall>e \<in> R. edge_ok e) \<and> (\<forall>e \<in> R. \<forall>f \<in> R. same_pair e f \<or> fo_pin e = fo_pin f \<longrightarrow> e = f)"

text \<open>Under the prefix of the edges, the store holds the entries of the set and nothing else.\<close>

definition represents :: "'db kv \<Rightarrow> 'db \<Rightarrow> follow_edge set \<Rightarrow> bool" where
  "represents K d R \<longleftrightarrow> (\<forall>k v. has_prefix k ''edge:'' \<longrightarrow> (kv_get K d k = Some v \<longleftrightarrow> (\<exists>e \<in> R. (k, v) \<in> set (edge_entries e))))"

lemma keys_of_entries: "map fst (edge_entries e) = edge_keys e"
  by (simp add: edge_entries_def edge_keys_def edge_values_def)

lemma entry_key: "(k, v) \<in> set (edge_entries e) \<Longrightarrow> k \<in> set (edge_keys e)"
  by (auto simp flip: keys_of_entries intro!: rev_image_eqI)

lemma key_entry: "k \<in> set (edge_keys e) \<Longrightarrow> \<exists>v. (k, v) \<in> set (edge_entries e)"
  by (auto simp flip: keys_of_entries)

lemma key_edge_prefix: "k \<in> set (edge_keys e) \<Longrightarrow> has_prefix k ''edge:''"
  by (auto simp: edge_keys_def has_prefix_def pairKey_def followingIndexKey_def followingIndexPrefix_def
      followerIndexKey_def followerIndexPrefix_def pinToPairKey_def)

lemma edges_okD: "edges_ok R \<Longrightarrow> e \<in> R \<Longrightarrow> edge_ok e"
  by (simp add: edges_ok_def)

lemma owner_unique:
  assumes "edges_ok R" "e \<in> R" "f \<in> R" "k \<in> set (edge_keys e)" "k \<in> set (edge_keys f)" shows "e = f"
  using assms shared_key [of e f k] unfolding edges_ok_def by blast

lemma distinct_entries:
  assumes "edge_ok e" shows "distinct (edge_keys e)"
  by (simp add: edge_keys_def pairKey_def followingIndexKey_def followingIndexPrefix_def
      followerIndexKey_def followerIndexPrefix_def pinToPairKey_def)

lemma entries_value: "edge_ok e \<Longrightarrow> (k, v) \<in> set (edge_entries e) \<Longrightarrow> (k, v') \<in> set (edge_entries e) \<Longrightarrow> v = v'"
  using distinct_entries [of e] eq_key_imp_eq_value [of "edge_entries e" k v v'] by (simp add: keys_of_entries)

lemma represents_get:
  assumes "represents K d R" "edges_ok R" "e \<in> R" "(k, v) \<in> set (edge_entries e)"
  shows "kv_get K d k = Some v"
  using assms key_edge_prefix [OF entry_key [OF assms(4)]] unfolding represents_def by blast

lemma represents_none:
  assumes "represents K d R" "has_prefix k ''edge:''" "\<forall>e \<in> R. k \<notin> set (edge_keys e)"
  shows "kv_get K d k = None"
  using assms entry_key unfolding represents_def by (cases "kv_get K d k") blast+

lemma pair_in_keys: "pairKey (fo_follower e) (fo_target e) \<in> set (edge_keys e)" "pinToPairKey (fo_pin e) \<in> set (edge_keys e)"
  by (simp_all add: edge_keys_def)

text \<open>A pair key is the key of the edge between the two, a pin key of the edge of the pin.\<close>

lemma pairKey_owner:
  assumes "edge_ok e" "CHR '':'' \<notin> set f" "pairKey f t \<in> set (edge_keys e)" shows "fo_follower e = f \<and> fo_target e = t"
  using assms split_colon [OF assms(2) plain_simps(4) [OF assms(1)], of t "fo_target e"]
  by (auto simp: edge_keys_def pairKey_def followingIndexKey_def followingIndexPrefix_def
      followerIndexKey_def followerIndexPrefix_def pinToPairKey_def)

lemma pinKey_owner: "pinToPairKey p \<in> set (edge_keys e) \<Longrightarrow> fo_pin e = p"
  by (auto simp: edge_keys_def pairKey_def followingIndexKey_def followingIndexPrefix_def
      followerIndexKey_def followerIndexPrefix_def pinToPairKey_def)

section \<open>The operations on it\<close>

lemma split_pair_join: "CHR '':'' \<notin> set a \<Longrightarrow> split_pair (a @ CHR '':'' # b) = Some (a, b)"
proof -
  assume a: "CHR '':'' \<notin> set a"
  then have "takeWhile (\<lambda>c. c \<noteq> CHR '':'') (a @ CHR '':'' # b) = a \<and> dropWhile (\<lambda>c. c \<noteq> CHR '':'') (a @ CHR '':'' # b) = CHR '':'' # b"
    by (induction a) auto
  then show ?thesis by (simp add: split_pair_def)
qed

lemma load_edge:
  assumes "represents K d R" "edges_ok R" "e \<in> R"
  shows "loadActiveEdge K d (fo_follower e) (fo_target e) = Inr (Some e)"
proof -
  have "edge_ok e" using assms(2,3) by (rule edges_okD)
  moreover from this have "kv_get K d (pairKey (fo_follower e) (fo_target e)) = Some (marshal_edge e)"
    by (intro represents_get [OF assms]) (simp add: edge_entries_def edge_keys_def edge_values_def)
  ultimately show ?thesis by (simp add: loadActiveEdge_def plain_simps edge_reads_back)
qed

lemma load_no_edge:
  assumes "represents K d R" "edges_ok R" "CHR '':'' \<notin> set f" "\<forall>e \<in> R. \<not> (fo_follower e = f \<and> fo_target e = t)"
  shows "loadActiveEdge K d f t = Inr None"
proof -
  have "has_prefix (pairKey f t) ''edge:''" by (simp add: pairKey_def has_prefix_def)
  moreover have "\<forall>e \<in> R. pairKey f t \<notin> set (edge_keys e)"
    using assms(2-4) pairKey_owner edges_okD by blast
  ultimately have "kv_get K d (pairKey f t) = None" by (rule represents_none [OF assms(1)])
  then show ?thesis by (simp add: loadActiveEdge_def)
qed

lemma load_pin:
  assumes "represents K d R" "edges_ok R" "e \<in> R"
  shows "loadActiveEdgeByPin K d (fo_pin e) = Inr (Some e)"
proof -
  have ok: "edge_ok e" using assms(2,3) by (rule edges_okD)
  have "kv_get K d (pinToPairKey (fo_pin e)) = Some (fo_follower e @ CHR '':'' # fo_target e)"
    by (intro represents_get [OF assms]) (simp add: edge_entries_def edge_keys_def edge_values_def)
  with ok show ?thesis
    by (simp add: loadActiveEdgeByPin_def plain_simps split_pair_join load_edge [OF assms])
qed

lemma load_no_pin:
  assumes "represents K d R" "\<forall>e \<in> R. fo_pin e \<noteq> p" shows "loadActiveEdgeByPin K d p = Inr None"
proof -
  have "has_prefix (pinToPairKey p) ''edge:''" by (simp add: pinToPairKey_def has_prefix_def)
  from represents_none [OF assms(1) this] assms(2) pinKey_owner have "kv_get K d (pinToPairKey p) = None" by blast
  then show ?thesis by (simp add: loadActiveEdgeByPin_def)
qed

text \<open>What a follow pin and a revoke pin do to the set.\<close>

definition put_follow :: "follow_edge \<Rightarrow> follow_edge set \<Rightarrow> follow_edge set" where
  "put_follow e R = insert e {f \<in> R. \<not> same_pair f e}"

definition drop_follow :: "string \<Rightarrow> follow_edge set \<Rightarrow> follow_edge set" where
  "drop_follow p R = {f \<in> R. fo_pin f \<noteq> p}"

lemma drop_follow_ok: "edges_ok R \<Longrightarrow> edges_ok (drop_follow p R)"
  by (auto simp: edges_ok_def drop_follow_def)

lemma put_follow_ok:
  assumes "edges_ok R" "edge_ok e" "\<forall>f \<in> R. fo_pin f = fo_pin e \<longrightarrow> same_pair f e"
  shows "edges_ok (put_follow e R)"
  using assms unfolding edges_ok_def put_follow_def by (auto simp: same_pair_def)

context ordered_store begin

lemma get_deleted: "kv_get K (deleteActiveEdge K e d) k = (if k \<in> set (edge_keys e) then None else kv_get K d k)"
  by (simp add: deleteActiveEdge_def edge_keys_def)

lemma get_puts: "distinct (map fst xs) \<Longrightarrow>
    kv_get K (foldl (\<lambda>d kv. kv_put K (fst kv) (snd kv) d) d xs) k = (case map_of xs k of Some v \<Rightarrow> Some v | None \<Rightarrow> kv_get K d k)"
proof (induction xs arbitrary: d)
  case (Cons x xs)
  then show ?case by (cases "map_of xs k") (auto simp: map_of_eq_None_iff image_iff intro: rev_image_eqI split: option.splits dest: map_of_SomeD)
qed simp

lemma deleted_represents:
  assumes "represents K d R" "edges_ok R" "e \<in> R"
  shows "represents K (deleteActiveEdge K e d) (R - {e})"
  unfolding represents_def get_deleted
proof (intro allI impI)
  fix k v assume p: "has_prefix k ''edge:''"
  show "((if k \<in> set (edge_keys e) then None else kv_get K d k) = Some v) = (\<exists>f\<in>R - {e}. (k, v) \<in> set (edge_entries f))"
  proof (cases "k \<in> set (edge_keys e)")
    case True
    with owner_unique [OF assms(2,3)] entry_key show ?thesis by fastforce
  next
    case False
    then have "(k, v) \<notin> set (edge_entries e)" using entry_key by blast
    with False assms(1) p show ?thesis unfolding represents_def by auto
  qed
qed

lemma written_represents:
  assumes "represents K d R" "edge_ok e" "\<forall>f \<in> R. edge_ok f \<and> \<not> same_pair f e \<and> fo_pin f \<noteq> fo_pin e"
  shows "represents K (foldl (\<lambda>d kv. kv_put K (fst kv) (snd kv) d) d (edge_entries e)) (insert e R)"
  unfolding represents_def
proof (intro allI impI)
  fix k v assume p: "has_prefix k ''edge:''"
  have d: "distinct (map fst (edge_entries e))" using distinct_entries [OF assms(2)] by (simp add: keys_of_entries)
  show "(kv_get K (foldl (\<lambda>d kv. kv_put K (fst kv) (snd kv) d) d (edge_entries e)) k = Some v)
      = (\<exists>f\<in>insert e R. (k, v) \<in> set (edge_entries f))"
  proof (cases "map_of (edge_entries e) k")
    case None
    then have "k \<notin> set (edge_keys e)" by (simp add: map_of_eq_None_iff flip: keys_of_entries)
    with None assms(1) p entry_key show ?thesis unfolding get_puts [OF d] represents_def by auto
  next
    case (Some w)
    then have "(k, w) \<in> set (edge_entries e)" by (rule map_of_SomeD)
    moreover from this have "\<not> (k, v) \<in> set (edge_entries f)" if "f \<in> R" for f
      using assms(3) that shared_key [of f e k] assms(2) entry_key by blast
    ultimately show ?thesis using Some entries_value [OF assms(2)] unfolding get_puts [OF d] by auto
  qed
qed

end

context ordered_store begin

lemma save_represents:
  assumes R: "represents K d R" "edges_ok R" and e: "edge_ok (e\<lparr>fo_active := True\<rparr>)"
    and fresh: "\<forall>f \<in> R. fo_pin f = fo_pin e \<longrightarrow> same_pair f e"
  shows "\<exists>d'. saveActiveEdge K e d = Inr d' \<and> represents K d' (put_follow (e\<lparr>fo_active := True\<rparr>) R)"
proof -
  let ?e = "e\<lparr>fo_active := True\<rparr>"
  have ids: "fo_follower e \<noteq> ''''" "fo_target e \<noteq> ''''" "fo_pin e \<noteq> ''''" "CHR '':'' \<notin> set (fo_follower e)"
    using plain_simps [OF e] by simp_all
  have puts: "represents K (foldl (\<lambda>d kv. kv_put K (fst kv) (snd kv) d) d1 (edge_entries ?e)) (put_follow ?e R)"
    if "represents K d1 {f \<in> R. \<not> same_pair f e}" for d1
  proof -
    have "put_follow ?e R = insert ?e {f \<in> R. \<not> same_pair f e}" by (simp add: put_follow_def same_pair_def)
    moreover have "\<forall>f \<in> {f \<in> R. \<not> same_pair f e}. edge_ok f \<and> \<not> same_pair f ?e \<and> fo_pin f \<noteq> fo_pin ?e"
      using R(2) fresh by (auto simp: edges_ok_def same_pair_def)
    ultimately show ?thesis using written_represents [OF that e] by simp
  qed
  have save: "saveActiveEdge K e d = (case loadActiveEdge K d (fo_follower e) (fo_target e) of Inl err \<Rightarrow> Inl err
      | Inr old \<Rightarrow> Inr (foldl (\<lambda>d kv. kv_put K (fst kv) (snd kv) d) (case old of None \<Rightarrow> d | Some f \<Rightarrow> deleteActiveEdge K f d) (edge_entries ?e)))"
    using ids by (simp add: saveActiveEdge_def Let_def edge_entries_def split: sum.split)
  show ?thesis
  proof (cases "\<exists>f \<in> R. same_pair f e")
    case True
    then obtain f where f: "f \<in> R" "same_pair f e" by blast
    then have "loadActiveEdge K d (fo_follower e) (fo_target e) = Inr (Some f)"
      using load_edge [OF R f(1)] by (simp add: same_pair_def)
    moreover have "{g \<in> R. \<not> same_pair g e} = R - {f}"
      using f R(2) by (auto simp: edges_ok_def same_pair_def)
    ultimately show ?thesis using puts deleted_represents [OF R f(1)] by (simp add: save)
  next
    case False
    then have "loadActiveEdge K d (fo_follower e) (fo_target e) = Inr None"
      by (intro load_no_edge [OF R ids(4)]) (auto simp: same_pair_def)
    moreover have "{g \<in> R. \<not> same_pair g e} = R" using False by blast
    ultimately show ?thesis using puts R(1) by (simp add: save)
  qed
qed

lemma revoke_represents:
  assumes R: "represents K d R" "edges_ok R"
  shows "\<exists>d'. processRevoke K pin d = Inr d' \<and> represents K d' (drop_follow (resolveTargetPinId pin) R)"
proof (cases "\<exists>e \<in> R. fo_pin e = resolveTargetPinId pin")
  case True
  then obtain e where e: "e \<in> R" "fo_pin e = resolveTargetPinId pin" by blast
  then have "drop_follow (resolveTargetPinId pin) R = R - {e}"
    using R(2) by (auto simp: edges_ok_def drop_follow_def)
  with load_pin [OF R e(1)] deleted_represents [OF R e(1)] e(2) show ?thesis by (simp add: processRevoke_def)
next
  case False
  then have "drop_follow (resolveTargetPinId pin) R = R" by (auto simp: drop_follow_def)
  with load_no_pin [OF R(1)] False R(1) show ?thesis by (simp add: processRevoke_def)
qed

end

section \<open>The pins refine the set\<close>

definition follow_spec :: "(int \<Rightarrow> int) \<Rightarrow> profiles option \<Rightarrow> social_pin \<Rightarrow> follow_edge set \<Rightarrow> social_error + follow_edge set" where
  "follow_spec ulower P pin R =
     (if normalisedPinPath ulower (sp_path pin) \<noteq> ''/follow'' then Inr R
      else let operation = to_lower ulower (trim_space (sp_operation pin)) in
        if operation = ''create'' then
          (case edge_of_pin ulower P pin of Inl e \<Rightarrow> Inl e | Inr None \<Rightarrow> Inr R | Inr (Some e) \<Rightarrow> Inr (put_follow (e\<lparr>fo_active := True\<rparr>) R))
        else if operation = ''revoke'' then Inr (drop_follow (resolveTargetPinId pin) R)
        else Inr R)"

text \<open>A pin whose edge, if it has one, has plain ids.\<close>

definition pin_plain :: "(int \<Rightarrow> int) \<Rightarrow> profiles option \<Rightarrow> social_pin \<Rightarrow> bool" where
  "pin_plain ulower P pin \<longleftrightarrow> (\<forall>e. edge_of_pin ulower P pin = Inr (Some e) \<longrightarrow> edge_ok (e\<lparr>fo_active := True\<rparr>))"

definition holds :: "'db kv \<Rightarrow> 'db \<Rightarrow> follow_edge set \<Rightarrow> bool" where
  "holds K d R \<longleftrightarrow> represents K d R \<and> edges_ok R"

lemma edge_of_pin_pin: "edge_of_pin ulower P pin = Inr (Some e) \<Longrightarrow> fo_pin e = trim_space (sp_id pin)"
  by (auto simp: edge_of_pin_def Let_def split: sum.splits if_splits option.splits)

lemma pin_refines:
  assumes "kv_laws K" "holds K d R" "pin_plain ulower P pin" "\<forall>f \<in> R. fo_pin f \<noteq> trim_space (sp_id pin)"
  shows "rel_sum (=) (holds K) (processPin ulower P K pin d) (follow_spec ulower P pin R)"
proof -
  note store = ordered_store.intro [OF assms(1)]
  have R: "represents K d R" "edges_ok R" using assms(2) by (simp_all add: holds_def)
  have create: "rel_sum (=) (holds K) (processCreate ulower P K pin d)
      (case edge_of_pin ulower P pin of Inl e \<Rightarrow> Inl e | Inr None \<Rightarrow> Inr R | Inr (Some e) \<Rightarrow> Inr (put_follow (e\<lparr>fo_active := True\<rparr>) R))"
  proof (cases "\<exists>e. edge_of_pin ulower P pin = Inr (Some e)")
    case True
    then obtain e where e: "edge_of_pin ulower P pin = Inr (Some e)" by blast
    with assms(3) have ok: "edge_ok (e\<lparr>fo_active := True\<rparr>)" by (simp add: pin_plain_def)
    have fresh: "\<forall>f \<in> R. fo_pin f = fo_pin e \<longrightarrow> same_pair f e" using assms(4) edge_of_pin_pin [OF e] by simp
    then have "edges_ok (put_follow (e\<lparr>fo_active := True\<rparr>) R)"
      by (intro put_follow_ok [OF R(2) ok]) (simp add: same_pair_def)
    with ordered_store.save_represents [OF store R ok fresh] e show ?thesis by (auto simp: processCreate_def holds_def)
  next
    case False
    then show ?thesis using assms(2) by (auto simp: processCreate_def split: sum.split option.split)
  qed
  have "rel_sum (=) (holds K) (processRevoke K pin d) (Inr (drop_follow (resolveTargetPinId pin) R))"
    using ordered_store.revoke_represents [OF store R, of pin] drop_follow_ok [OF R(2)] by (auto simp: holds_def)
  with create assms(2) show ?thesis by (simp add: processPin_def follow_spec_def Let_def)
qed

text \<open>A pin that fails leaves the state; the engine goes on with the next.\<close>

definition feed :: "('p \<Rightarrow> 's \<Rightarrow> 'e + 's) \<Rightarrow> 'p list \<Rightarrow> 's \<Rightarrow> 's" where
  "feed step pins s = foldl (\<lambda>s pin. case step pin s of Inl _ \<Rightarrow> s | Inr s' \<Rightarrow> s') s pins"

lemma spec_pins:
  "follow_spec ulower P pin R = Inr R' \<Longrightarrow> f \<in> R' \<Longrightarrow> f \<in> R \<or> fo_pin f = trim_space (sp_id pin)"
  by (auto simp: follow_spec_def Let_def put_follow_def drop_follow_def dest: edge_of_pin_pin split: if_splits sum.splits option.splits)

lemma feed_refines:
  assumes "kv_laws K" "\<forall>pin \<in> set pins. pin_plain ulower P pin" "distinct (map (\<lambda>pin. trim_space (sp_id pin)) pins)"
  shows "holds K d R \<Longrightarrow> \<forall>f \<in> R. \<forall>pin \<in> set pins. fo_pin f \<noteq> trim_space (sp_id pin) \<Longrightarrow>
    holds K (feed (processPin ulower P K) pins d) (feed (follow_spec ulower P) pins R)"
  using assms(2,3)
proof (induction pins arbitrary: d R)
  case Nil
  then show ?case by (simp add: feed_def)
next
  case (Cons pin pins)
  have "rel_sum (=) (holds K) (processPin ulower P K pin d) (follow_spec ulower P pin R)"
    using Cons.prems by (intro pin_refines [OF assms(1)]) simp_all
  then consider e where "processPin ulower P K pin d = Inl e" "follow_spec ulower P pin R = Inl e"
    | d' R' where "processPin ulower P K pin d = Inr d'" "follow_spec ulower P pin R = Inr R'" "holds K d' R'"
    by (cases rule: rel_sum.cases) auto
  then show ?case
  proof cases
    case 1
    with Cons show ?thesis by (simp add: feed_def)
  next
    case 2
    have "\<forall>f \<in> R'. \<forall>p \<in> set pins. fo_pin f \<noteq> trim_space (sp_id p)"
      using spec_pins [OF 2(2)] Cons.prems(2,4) by (fastforce simp: image_iff)
    with Cons 2 show ?thesis by (simp add: feed_def)
  qed
qed

section \<open>The loop of the lists\<close>

lemma skip_keys:
  "ls_skip s \<Longrightarrow> cursor \<notin> set ks \<Longrightarrow> list_keys n cursor load profile view (ks @ cursor # rest) s
     = list_keys n cursor load profile view rest (s\<lparr>ls_skip := False, ls_found := True\<rparr>)"
  by (induction ks) (auto simp: list_key_def)

lemma collect_keys:
  assumes "\<forall>e \<in> set es. parse_peer (key e) = Some (peer e) \<and> load (peer e) = Inr (Some e) \<and> profile (peer e) = Inr (prof e)"
    "\<not> ls_skip s" "length (ls_items s) \<le> m"
  shows "\<exists>s'. list_keys (int m) cursor load profile view (map key es) s = Inr s' \<and> ls_found s' = ls_found s
      \<and> take m (ls_items s') = take m (ls_items s @ map (\<lambda>e. buildListItem view (prof e) e) es)
      \<and> ls_next s' = (if m < length (ls_items s) + length es
          then encodeCursor (if length (ls_items s) = m then ls_last s else key (es ! (m - length (ls_items s) - 1))) else ls_next s)"
  using assms
proof (induction es arbitrary: s)
  case (Cons e es)
  let ?items = "ls_items s @ [buildListItem view (prof e) e]"
  have one: "list_key (int m) cursor load profile view (key e) s
      = (if length (ls_items s) = m then Inr (s\<lparr>ls_items := ?items, ls_next := encodeCursor (ls_last s)\<rparr>, True)
         else Inr (s\<lparr>ls_items := ?items, ls_last := key e\<rparr>, False))"
    using Cons.prems by (auto simp: list_key_def Let_def)
  show ?case
  proof (cases "length (ls_items s) = m")
    case True
    with one show ?thesis by simp
  next
    case False
    let ?s = "s\<lparr>ls_items := ?items, ls_last := key e\<rparr>"
    have "\<exists>s'. list_keys (int m) cursor load profile view (map key es) ?s = Inr s' \<and> ls_found s' = ls_found ?s
        \<and> take m (ls_items s') = take m (ls_items ?s @ map (\<lambda>e. buildListItem view (prof e) e) es)
        \<and> ls_next s' = (if m < length (ls_items ?s) + length es
            then encodeCursor (if length (ls_items ?s) = m then ls_last ?s else key (es ! (m - length (ls_items ?s) - 1))) else ls_next ?s)"
      using Cons.prems False by (intro Cons.IH) auto
    moreover have "m - length (ls_items s) - 1 = Suc (m - Suc (length (ls_items s)) - 1)"
      if "Suc (length (ls_items s)) \<noteq> m"
      using that False Cons.prems(3) by linarith
    ultimately show ?thesis
      using False one by (auto simp: nth_Cons')
  qed
qed simp

text \<open>Cursors read back.\<close>

lemma std_visible: "list_all (\<lambda>c. ascii c \<and> \<not> is_space (byte c)) (CHR ''='' # std_alphabet)"
  by code_simp

lemma social_cursor: "k \<noteq> '''' \<Longrightarrow> decodeCursor (encodeCursor k) = Inr k"
proof -
  assume k: "k \<noteq> ''''"
  have "trim_space (std_encode k) = std_encode k"
    using std_visible std64.encode_letters [of k]
    by (intro trim_visible) (auto simp: list_all_iff std_encode_def padding_def split: if_splits)
  moreover have "std_decode '''' = Some ''''" by code_simp
  then have "std_encode k \<noteq> ''''" using std_decode_encode [of k] k by (metis option.inject)
  ultimately show ?thesis using k by (simp add: decodeCursor_def encodeCursor_def std_decode_encode)
qed

lemma parse_peer_last: "CHR '':'' \<notin> set p \<Longrightarrow> p \<noteq> '''' \<Longrightarrow> parse_peer (s @ CHR '':'' # p) = Some p"
  using last_index_append [of "CHR '':''" p s] by (simp add: parse_peer_def)

section \<open>The indices\<close>

lemma has_prefix_iff: "has_prefix k p \<longleftrightarrow> (\<exists>s. k = p @ s)"
  unfolding has_prefix_def by (metis append_eq_conv_conj append_take_drop_id)

lemma sorted_distinct: "sorted_wrt R xs \<Longrightarrow> (\<And>x. \<not> R x x) \<Longrightarrow> distinct xs"
  by (induction xs) auto

text \<open>
  What the lists use of an index: a key for every edge, whose prefix is the owner's, from which the peer
  reads back, and whose order puts the later edge first.
\<close>

locale edge_index =
  fixes iprefix :: "string \<Rightarrow> string" and ikey :: "follow_edge \<Rightarrow> string" and owner peer :: "follow_edge \<Rightarrow> string"
  assumes prefix_edge: "has_prefix k (iprefix g) \<Longrightarrow> has_prefix k ''edge:''"
    and index_key: "edge_ok e \<Longrightarrow> ikey e \<in> set (edge_keys e)"
    and index_only: "edge_ok e \<Longrightarrow> CHR '':'' \<notin> set g \<Longrightarrow> k \<in> set (edge_keys e) \<Longrightarrow>
      has_prefix k (iprefix g) \<longleftrightarrow> k = ikey e \<and> owner e = g"
    and index_peer: "edge_ok e \<Longrightarrow> parse_peer (ikey e) = Some (peer e)"
    and index_order: "edge_ok e \<Longrightarrow> edge_ok f \<Longrightarrow> owner e = owner f \<Longrightarrow> 0 \<le> fo_at e \<Longrightarrow> 0 \<le> fo_at f \<Longrightarrow>
      string_less (ikey e) (ikey f) \<Longrightarrow> fo_at f \<le> fo_at e"
begin

lemma listed:
  assumes "kv_laws K" "represents K d R" "edges_ok R" "CHR '':'' \<notin> set g"
  obtains L where "distinct L" "set L = {e \<in> R. owner e = g}" "map fst (ScanPrefix K d (iprefix g)) = map ikey L"
    "sorted_wrt (\<lambda>e f. string_less (ikey e) (ikey f)) L"
proof -
  note store = ordered_store.intro [OF assms(1)]
  let ?S = "ScanPrefix K d (iprefix g)"
  have "\<exists>e. e \<in> R \<and> owner e = g \<and> fst x = ikey e" if "x \<in> set ?S" for x
  proof -
    obtain k v where x: "x = (k, v)" by fastforce
    with that have k: "kv_get K d k = Some v" "has_prefix k (iprefix g)"
      using ordered_store.scan_entries [OF store] by blast+
    then obtain e where e: "e \<in> R" "(k, v) \<in> set (edge_entries e)"
      using assms(2) prefix_edge [OF k(2)] unfolding represents_def by blast
    with index_only [OF edges_okD [OF assms(3) e(1)] assms(4) entry_key [OF e(2)]] k(2) show ?thesis by (auto simp: x)
  qed
  then obtain h where h: "\<And>x. x \<in> set ?S \<Longrightarrow> h x \<in> R \<and> owner (h x) = g \<and> fst x = ikey (h x)" by metis
  let ?L = "map h ?S"
  have keys: "map fst ?S = map ikey ?L" using h by simp
  have "sorted_wrt string_less (map fst ?S)"
    using ordered_store.scan_sorted [OF store, of d "iprefix g"] by (simp add: sorted_wrt_map)
  then have sorted: "sorted_wrt (\<lambda>e f. string_less (ikey e) (ikey f)) ?L"
    unfolding keys by (simp add: sorted_wrt_map)
  then have "distinct ?L" by (rule sorted_distinct) (rule str_ord.irrefl)
  moreover have "set ?L = {e \<in> R. owner e = g}"
  proof (intro set_eqI iffI)
    fix e assume e: "e \<in> {e \<in> R. owner e = g}"
    then have ok: "edge_ok e" using assms(3) edges_okD by blast
    obtain v where v: "(ikey e, v) \<in> set (edge_entries e)" using key_entry [OF index_key [OF ok]] by blast
    then have "kv_get K d (ikey e) = Some v" using e by (intro represents_get [OF assms(2,3)]) simp_all
    moreover have "has_prefix (ikey e) (iprefix g)" using index_only [OF ok assms(4) index_key [OF ok]] e by simp
    ultimately have "(ikey e, v) \<in> set ?S" using ordered_store.scan_entries [OF store] by blast
    then have "h (ikey e, v) \<in> R" "ikey (h (ikey e, v)) = ikey e" "h (ikey e, v) \<in> set ?L" using h [of "(ikey e, v)"] by auto
    moreover from this have "h (ikey e, v) = e"
      using owner_unique [OF assms(3), of "h (ikey e, v)" e "ikey e"] e index_key edges_okD [OF assms(3)] by (metis (full_types) mem_Collect_eq)
    ultimately show "e \<in> set ?L" by simp
  qed (use h in auto)
  ultimately show ?thesis using keys sorted by (intro that)
qed

end

lemmas key_defs = edge_keys_def pairKey_def followingIndexKey_def followingIndexPrefix_def followerIndexKey_def
  followerIndexPrefix_def pinToPairKey_def

lemma index_rest_order:
  assumes "edge_ok e" "edge_ok f" "0 \<le> fo_at e" "0 \<le> fo_at f" "string_less (index_rest (fo_at e) (fo_pin e) s) (index_rest (fo_at f) (fo_pin f) t)"
  shows "fo_at f \<le> fo_at e"
proof -
  have "fo_at e mod 2 ^ 64 = fo_at e" "fo_at f mod 2 ^ 64 = fo_at f"
    using assms(1-4) by (simp_all add: edge_ok_def int64_range_def max_int64_def)
  with assms(5) show ?thesis unfolding index_rest_def inverted_less by auto
qed

lemma string_less_append: "string_less (p @ s) (p @ t) \<longleftrightarrow> string_less s t"
  by (induction p) simp_all

interpretation following: edge_index followingIndexPrefix "\<lambda>e. followingIndexKey (fo_follower e) (fo_at e) (fo_pin e) (fo_target e)" fo_follower fo_target
proof (unfold_locales)
  fix e f :: follow_edge and g k :: string
  show "has_prefix k (followingIndexPrefix g) \<Longrightarrow> has_prefix k ''edge:''"
    by (auto simp: has_prefix_iff followingIndexPrefix_def)
  assume e: "edge_ok e"
  show "followingIndexKey (fo_follower e) (fo_at e) (fo_pin e) (fo_target e) \<in> set (edge_keys e)"
    by (simp add: edge_keys_def)
  show "parse_peer (followingIndexKey (fo_follower e) (fo_at e) (fo_pin e) (fo_target e)) = Some (fo_target e)"
    using parse_peer_last [OF plain_simps(5,2) [OF e], of "followingIndexPrefix (fo_follower e) @ invertedTimestampHex (fo_at e) @ CHR '':'' # fo_pin e"]
    by (simp add: followingIndexKey_def index_rest_def)
  show "CHR '':'' \<notin> set g \<Longrightarrow> k \<in> set (edge_keys e) \<Longrightarrow> has_prefix k (followingIndexPrefix g)
      \<longleftrightarrow> k = followingIndexKey (fo_follower e) (fo_at e) (fo_pin e) (fo_target e) \<and> fo_follower e = g"
    using split_colon [OF plain_simps(4) [OF e], of g] by (auto simp: has_prefix_iff key_defs)
  assume f: "edge_ok f" and o: "fo_follower e = fo_follower f" "0 \<le> fo_at e" "0 \<le> fo_at f"
  assume "string_less (followingIndexKey (fo_follower e) (fo_at e) (fo_pin e) (fo_target e)) (followingIndexKey (fo_follower f) (fo_at f) (fo_pin f) (fo_target f))"
  then show "fo_at f \<le> fo_at e"
    by (intro index_rest_order [OF e f o(2,3)]) (simp add: followingIndexKey_def o(1) string_less_append)
qed

interpretation followers: edge_index followerIndexPrefix "\<lambda>e. followerIndexKey (fo_target e) (fo_at e) (fo_pin e) (fo_follower e)" fo_target fo_follower
proof (unfold_locales)
  fix e f :: follow_edge and g k :: string
  show "has_prefix k (followerIndexPrefix g) \<Longrightarrow> has_prefix k ''edge:''"
    by (auto simp: has_prefix_iff followerIndexPrefix_def)
  assume e: "edge_ok e"
  show "followerIndexKey (fo_target e) (fo_at e) (fo_pin e) (fo_follower e) \<in> set (edge_keys e)"
    by (simp add: edge_keys_def)
  show "parse_peer (followerIndexKey (fo_target e) (fo_at e) (fo_pin e) (fo_follower e)) = Some (fo_follower e)"
    using parse_peer_last [OF plain_simps(4,1) [OF e], of "followerIndexPrefix (fo_target e) @ invertedTimestampHex (fo_at e) @ CHR '':'' # fo_pin e"]
    by (simp add: followerIndexKey_def index_rest_def)
  show "CHR '':'' \<notin> set g \<Longrightarrow> k \<in> set (edge_keys e) \<Longrightarrow> has_prefix k (followerIndexPrefix g)
      \<longleftrightarrow> k = followerIndexKey (fo_target e) (fo_at e) (fo_pin e) (fo_follower e) \<and> fo_target e = g"
    using split_colon [OF plain_simps(5) [OF e], of g] by (auto simp: has_prefix_iff key_defs)
  assume f: "edge_ok f" and o: "fo_target e = fo_target f" "0 \<le> fo_at e" "0 \<le> fo_at f"
  assume "string_less (followerIndexKey (fo_target e) (fo_at e) (fo_pin e) (fo_follower e)) (followerIndexKey (fo_target f) (fo_at f) (fo_pin f) (fo_follower f))"
  then show "fo_at f \<le> fo_at e"
    by (intro index_rest_order [OF e f o(2,3)]) (simp add: followerIndexKey_def o(1) string_less_append)
qed

section \<open>Pages\<close>

lemma list_size_pos: "0 < list_size n" "int (nat (list_size n)) = list_size n" "0 < nat (list_size n)"
  by (auto simp: list_size_def Let_def)

context edge_index begin

text \<open>The cursor behind the first \<open>i\<close> edges of a list, and the page that starts there.\<close>

definition cursor_at :: "follow_edge list \<Rightarrow> nat \<Rightarrow> string" where
  "cursor_at L i = (if i = 0 then '''' else encodeCursor (ikey (L ! (i - 1))))"

definition page_at :: "list_view \<Rightarrow> (follow_edge \<Rightarrow> target_ref) \<Rightarrow> follow_edge list \<Rightarrow> int \<Rightarrow> nat \<Rightarrow> list_result" where
  "page_at view prof L sz i = \<lparr>lr_list = map (\<lambda>e. buildListItem view (prof e) e) (take (nat (list_size sz)) (drop i L)),
     lr_next = (if i + nat (list_size sz) < length L then cursor_at L (i + nat (list_size sz)) else ''''), lr_size = list_size sz\<rparr>"

lemma page:
  assumes scan: "map fst (ScanPrefix K d (iprefix g)) = map ikey L" and dist: "distinct (map ikey L)"
    and view: "normaliseListView ulower (la_view params) = Inr view" and g: "CHR '':'' \<notin> set g"
    and edges: "\<forall>e \<in> set L. edge_ok e \<and> owner e = g \<and> load (peer e) = Inr (Some e) \<and> lookupListProfile P (peer e) = Inr (prof e)"
    and i: "i \<le> length L"
  shows "listEdges ulower P K d (iprefix g) (params\<lparr>la_cursor := cursor_at L i\<rparr>) load = Inr (page_at view prof L (la_size params) i)"
proof -
  let ?n = "nat (list_size (la_size params))" and ?c = "if i = 0 then '''' else ikey (L ! (i - 1))"
  let ?s = "\<lparr>ls_items = [], ls_next = '''', ls_last = '''', ls_skip = False, ls_found = True\<rparr>"
  have key: "ikey e \<noteq> ''''" if "e \<in> set L" for e
    using index_peer [of e] edges that by (auto simp: parse_peer_def)
  have nil: "decodeCursor '''' = Inr ''''" by code_simp
  have c: "decodeCursor (cursor_at L i) = Inr ?c" "?c = '''' \<longleftrightarrow> i = 0"
    using i key [of "L ! (i - 1)"] nil by (simp_all add: cursor_at_def social_cursor)
  have pre: "?c = '''' \<or> has_prefix ?c (iprefix g)"
  proof (cases "i = 0")
    case False
    with i have "L ! (i - 1) \<in> set L" by simp
    with edges index_only [OF _ g, of "L ! (i - 1)" "ikey (L ! (i - 1))"] index_key False show ?thesis by simp
  qed simp
  have keys: "list_keys m ?c load (lookupListProfile P) view (map ikey L) (?s\<lparr>ls_skip := (?c \<noteq> ''''), ls_found := (?c = '''')\<rparr>)
      = list_keys m ?c load (lookupListProfile P) view (map ikey (drop i L)) ?s" for m
  proof (cases "i = 0")
    case False
    then obtain j where j: "i = Suc j" by (cases i) auto
    with i have split: "map ikey L = map ikey (take j L) @ ikey (L ! j) # map ikey (drop i L)"
      by (metis Suc_le_lessD id_take_nth_drop list.simps(9) map_append)
    moreover have "ikey (L ! j) \<notin> set (map ikey (take j L))" using dist unfolding split by simp
    ultimately show ?thesis using j c(2) skip_keys [of "?s\<lparr>ls_skip := True, ls_found := False\<rparr>" "ikey (L ! j)" "map ikey (take j L)"] by simp
  qed simp
  have "\<forall>e \<in> set (drop i L). parse_peer (ikey e) = Some (peer e) \<and> load (peer e) = Inr (Some e) \<and> lookupListProfile P (peer e) = Inr (prof e)"
    using edges index_peer in_set_dropD by fastforce
  from collect_keys [where key = ikey and s = ?s and m = ?n and cursor = ?c and view = view, OF this]
  obtain s' where "list_keys (int ?n) ?c load (lookupListProfile P) view (map ikey (drop i L)) ?s = Inr s' \<and> ls_found s' = ls_found ?s
    \<and> take ?n (ls_items s') = take ?n (ls_items ?s @ map (\<lambda>e. buildListItem view (prof e) e) (drop i L))
    \<and> ls_next s' = (if ?n < length (ls_items ?s) + length (drop i L)
        then encodeCursor (if length (ls_items ?s) = ?n then ls_last ?s else ikey (drop i L ! (?n - length (ls_items ?s) - 1))) else ls_next ?s)"
    by auto
  then have s': "list_keys (int ?n) ?c load (lookupListProfile P) view (map ikey (drop i L)) ?s = Inr s'"
    "ls_found s'" "take ?n (ls_items s') = take ?n (map (\<lambda>e. buildListItem view (prof e) e) (drop i L))"
    "ls_next s' = (if ?n < length (drop i L) then encodeCursor (if 0 = ?n then '''' else ikey (drop i L ! (?n - 1))) else '''')"
    by simp_all
  have next1: "ls_next s' = (if i + ?n < length L then cursor_at L (i + ?n) else '''')"
    using s'(4) list_size_pos(3) [of "la_size params"] i by (auto simp: cursor_at_def)
  show ?thesis
    using view c(1) pre keys s' next1 list_size_pos(2) [of "la_size params"]
    by (simp add: listEdges_def Let_def scan page_at_def take_map del: list_keys.simps)
qed

end

section \<open>What the users see\<close>

text \<open>
  C14: The social store refines a set of edges. Starting without edges, after any pins, each handled once,
  the store holds the edges of the abstract set and no other entry: a follow pin puts its edge in the
  place of an edge between the same users, a revoke pin takes the edge of the pin it names out,
  whoever sends it. The set has one edge for a pair of users and for a pin at most, and the edge
  read for two users is the one of the set. The ids have no colons and are UTF-8.
\<close>

theorem follows_refined:
  assumes "kv_laws K" "\<forall>k. has_prefix k ''edge:'' \<longrightarrow> kv_get K d k = None"
    and "\<forall>pin \<in> set pins. pin_plain ulower P pin" "distinct (map (\<lambda>pin. trim_space (sp_id pin)) pins)"
    and "R = feed (follow_spec ulower P) pins {}" "d' = feed (processPin ulower P K) pins d"
  shows "edges_ok R \<and> represents K d' R
    \<and> (\<forall>f t e. CHR '':'' \<notin> set f \<longrightarrow> (loadActiveEdge K d' f t = Inr (Some e) \<longleftrightarrow> e \<in> R \<and> fo_follower e = f \<and> fo_target e = t))"
proof -
  have "holds K d {}" using assms(2) by (simp add: holds_def represents_def edges_ok_def)
  from feed_refines [OF assms(1,3,4) this] have h: "represents K d' R" "edges_ok R"
    by (simp_all add: holds_def assms(5,6))
  have "loadActiveEdge K d' f t = Inr (Some e) \<longleftrightarrow> e \<in> R \<and> fo_follower e = f \<and> fo_target e = t" if "CHR '':'' \<notin> set f" for f t e
  proof (cases "\<exists>e \<in> R. fo_follower e = f \<and> fo_target e = t")
    case True
    then obtain e' where e': "e' \<in> R" "fo_follower e' = f" "fo_target e' = t" by blast
    have "e = e'" if "e \<in> R" "fo_follower e = f" "fo_target e = t"
      using that e' h(2) by (simp add: edges_ok_def same_pair_def)
    with load_edge [OF h e'(1)] e' show ?thesis by auto
  next
    case False
    with load_no_edge [OF h that] show ?thesis by auto
  qed
  with h show ?thesis by blast
qed

text \<open>
  Anyone can take a follow back: the edge of the pin a revoke pin names goes, whatever the sender and
  the signature of the revoke pin.
\<close>

theorem revoke_by_anyone:
  assumes "kv_laws K" "represents K d R" "edges_ok R" "e \<in> R" "resolveTargetPinId pin = fo_pin e"
    and "normalisedPinPath ulower (sp_path pin) = ''/follow''" "to_lower ulower (trim_space (sp_operation pin)) = ''revoke''"
  shows "\<exists>d'. processPin ulower P K pin d = Inr d' \<and> represents K d' (R - {e})"
proof -
  have "drop_follow (resolveTargetPinId pin) R = R - {e}"
    using assms(3-5) by (auto simp: edges_ok_def drop_follow_def)
  with ordered_store.revoke_represents [OF ordered_store.intro [OF assms(1)] assms(2,3), of pin] assms(6,7) show ?thesis
    by (simp add: processPin_def Let_def)
qed

text \<open>
  The list of the users someone follows. There is one order of the edges, the newest first, such that the
  page without a cursor starts at its beginning, and the page at the cursor of a page starts where that
  page ended; a page without a next cursor is the last.
\<close>

theorem following_pages:
  assumes "kv_laws K" "represents K d R" "edges_ok R" "\<forall>e \<in> R. 0 \<le> fo_at e"
    and "lookupRequestSubject P (la_gmid params) = Inr t" "CHR '':'' \<notin> set (tf_gmid t)"
    and "normaliseListView ulower (la_view params) = Inr view"
    and "\<forall>e \<in> R. fo_follower e = tf_gmid t \<longrightarrow> lookupListProfile P (fo_target e) = Inr (prof e)"
  shows "\<exists>L. distinct L \<and> set L = {e \<in> R. fo_follower e = tf_gmid t} \<and> sorted_wrt (\<lambda>e f. fo_at f \<le> fo_at e) L
    \<and> (\<forall>i \<le> length L. ListFollowing ulower P K d (params\<lparr>la_cursor := following.cursor_at L i\<rparr>)
          = Inr (following.page_at view prof L (la_size params) i))"
proof -
  obtain L where L: "distinct L" "set L = {e \<in> R. fo_follower e = tf_gmid t}"
    "map fst (ScanPrefix K d (followingIndexPrefix (tf_gmid t))) = map (\<lambda>e. followingIndexKey (fo_follower e) (fo_at e) (fo_pin e) (fo_target e)) L"
    "sorted_wrt (\<lambda>e f. string_less (followingIndexKey (fo_follower e) (fo_at e) (fo_pin e) (fo_target e))
       (followingIndexKey (fo_follower f) (fo_at f) (fo_pin f) (fo_target f))) L"
    by (rule following.listed [OF assms(1-3,6)])
  have mem: "edge_ok e \<and> e \<in> R \<and> fo_follower e = tf_gmid t" if "e \<in> set L" for e
    using that L(2) edges_okD [OF assms(3)] by auto
  have "sorted_wrt (\<lambda>e f. fo_at f \<le> fo_at e) L"
    using L(4) mem following.index_order assms(4) by (intro sorted_wrt_mono_rel [OF _ L(4)]) simp
  moreover have "distinct (map (\<lambda>e. followingIndexKey (fo_follower e) (fo_at e) (fo_pin e) (fo_target e)) L)"
    using L(4) by (intro sorted_distinct [of string_less]) (simp_all add: sorted_wrt_map str_ord.irrefl)
  moreover have "\<forall>e \<in> set L. edge_ok e \<and> fo_follower e = tf_gmid t \<and> loadActiveEdge K d (tf_gmid t) (fo_target e) = Inr (Some e)
      \<and> lookupListProfile P (fo_target e) = Inr (prof e)"
    using mem load_edge [OF assms(2,3)] assms(8) by metis
  ultimately have "\<forall>i \<le> length L. ListFollowing ulower P K d (params\<lparr>la_cursor := following.cursor_at L i\<rparr>)
      = Inr (following.page_at view prof L (la_size params) i)"
    using following.page [OF L(3) _ assms(7,6)] assms(5,7) by (simp add: ListFollowing_def)
  with L(1,2) \<open>sorted_wrt (\<lambda>e f. fo_at f \<le> fo_at e) L\<close> show ?thesis by blast
qed

text \<open>One follow pin.\<close>

definition demo_follow :: social_pin where
  "demo_follow = \<lparr>sp_id = ''p1i0'', sp_path = ''/follow'', sp_operation = ''create'', sp_originalId = '''', sp_gmid = ''idqa'',
     sp_metaId = '''', sp_createMetaId = '''', sp_address = '''', sp_createAddress = '''', sp_body = ''idqb'', sp_summary = '''', sp_ts = 7\<rparr>"

definition demo_edge :: follow_edge where
  "demo_edge = \<lparr>fo_follower = ''idqa'', fo_target = ''idqb'', fo_pin = ''p1i0'', fo_at = 7, fo_active = True\<rparr>"

theorem follows_refined_witness:
  "loadActiveEdge mem_kv (feed (processPin (\<lambda>r. r) None mem_kv) [demo_follow] []) ''idqa'' ''idqb'' = Inr (Some demo_edge)"
proof -
  have edge: "edge_of_pin (\<lambda>r. r) None demo_follow = Inr (Some (demo_edge\<lparr>fo_active := False\<rparr>))" by code_simp
  have "clean ''idqa'' = ''idqa''" "clean ''idqb'' = ''idqb''" "clean ''p1i0'' = ''p1i0''" by code_simp+
  then have "pin_plain (\<lambda>r. r) None demo_follow"
    by (simp add: pin_plain_def edge edge_ok_def plain_id_def demo_edge_def int64_range_def min_int64_def max_int64_def)
  moreover have "normalisedPinPath (\<lambda>r. r) (sp_path demo_follow) = ''/follow''" "to_lower (\<lambda>r. r) (trim_space (sp_operation demo_follow)) = ''create''"
    by code_simp+
  then have "feed (follow_spec (\<lambda>r. r) None) [demo_follow] {} = {demo_edge}"
    by (simp add: feed_def follow_spec_def edge put_follow_def demo_edge_def)
  ultimately show ?thesis
    using follows_refined [OF mem_kv_laws, of "[]" "[demo_follow]" "\<lambda>r. r" None, OF _ _ _ refl refl]
    by (auto simp: mem_kv_def demo_edge_def)
qed

end
