(* ===== verification/Spec2Isabelle.thy ===== *)
theory Spec2Isabelle
  imports IdChain RenderProps JsonRoundtrip PediaPull PediaFeedProps EnumerateProps ProjectProps EngineProps Cache SocialProps
begin

text \<open>
  Verification library of metaso-p2p, an indexer for the MetaID protocol. The program reads pins
  (signed records) from several block chains and derives views from them. The library models the parts
  that decide facts on which every node must agree, and the path of a pin to them: the
  chain-independent addresses of identities (\<open>pkg/idaddress\<close>), the task engine of
  \<open>internal/metatask\<close>, which replays claims, submissions, votes, amends and challenges and pays out
  shares, the encyclopedia engine of \<open>internal/agentpedia\<close> with its sync and its feeds, the indexer that
  reads blocks and mempools (\<open>internal/indexer\<close>), the store and the cache below the aggregators
  (\<open>internal/storage\<close>, \<open>internal/cache\<close>), and one of these, the follow relation
  (\<open>internal/aggregator/social\<close>).

  Parts and theories.

  \<^item> \<open>Prelude\<close>: Go maps as association lists (locale \<open>finite_map\<close>), \<open>sort.SliceStable\<close> (locales
    \<open>weak_order\<close> and \<open>total_order_on\<close>, with the uniqueness of the sorted permutation), event folds
    (locale \<open>event_fold\<close>). Each locale is interpreted on the model: \<open>gm\<close> on the maps, \<open>str_ord\<close>,
    \<open>pin_ord\<close>, \<open>replay_ord\<close>, \<open>record_ord\<close>, \<open>shortlex_ord\<close>, \<open>vote_pin_ord\<close> and others on the comparators.
  \<^item> \<open>GoStd\<close>, \<open>Sha256\<close>, \<open>Base64\<close>, \<open>GoJson\<close>, \<open>GoStruct\<close>: the part of Go the code uses: int64 arithmetic with
    wrap-around, truncated division, UTF-8, \<open>strings\<close>, \<open>float64\<close> as the rationals that parsing rounds
    to, SHA-256, both base64 encodings (locale \<open>base64_codec\<close>), \<open>encoding/json\<close> (locale \<open>json_writer\<close>).
  \<^item> \<open>IdAddress\<close>, \<open>IdCodec\<close>, \<open>IdConvert\<close>, \<open>IdChain\<close>: \<open>idaddress.go\<close> and \<open>converter.go\<close>. The polymod
    checksum, encoding and decoding of ID addresses, base58check and bech32, the conversions from
    and to the chains. Shown: round trips, detection of every substitution of one character and of
    every transposition, the regrouping of bits against its arithmetic meaning.
  \<^item> \<open>Json\<close>, \<open>JsonProps\<close>: canonical JSON and the hashes of \<open>v121.go\<close>; independence of the order of keys.
  \<^item> \<open>EventOrder\<close>, \<open>Walk\<close>, \<open>WalkInv\<close>, \<open>WalkProps\<close>: the total order of events, the vote gates, the walk
    over the timeline with its state \<open>walk_state\<close>, expiry. Handlers are state transformers; the
    invariants are proved for seven elementary moves and lifted over runs.
  \<^item> \<open>AmendFold\<close>, \<open>AmendProps\<close>: the task tree and the fold of amends, with freezing, the version
    chain, termination, and a run that does not end.
  \<^item> \<open>Settlement\<close>, \<open>SettleProps\<close>, \<open>FinalProps\<close>: final verification over the tree against the least
    predicate of its rules, challenges, participants, event-set hash, weights, shares, the manifest.
  \<^item> \<open>Replay121\<close>, \<open>ReplayProps\<close>: \<open>ReplayV121\<close> as a whole, and what its result guarantees.
  \<^item> \<open>JsonDecode\<close>, \<open>Payload\<close>, \<open>JsonRoundtrip\<close>: the decoder of \<open>encoding/json\<close>, the pins of \<open>types.go\<close>, the
    acceptance rules of \<open>payload.go\<close>; canonical text reads back.
  \<^item> \<open>PoolSettle\<close>, \<open>Aggregate\<close>, \<open>PoolProps\<close>: the pool read path of \<open>settle.go\<close> and \<open>aggregate.go\<close>, its
    guard view and its reports.
  \<^item> \<open>Renderer\<close>, \<open>RenderProps\<close>: \<open>replay.go\<close>: admission, boundary, rendering of the engine's result.
  \<^item> \<open>Enumerate\<close>, \<open>EnumerateProps\<close>: \<open>enumerate.go\<close>: the walk of a pool over the pages of a lister, list
    responses, payload loading, the frozen crawl. Listers and the library's \<open>json.Marshal\<close> of values that
    are no strings are arguments. Shown: the completeness report is exact, a crawl replays its walk.
  \<^item> \<open>Project\<close>, \<open>ProjectProps\<close>: \<open>project.go\<close>: task index, task detail, participants, leaderboard.
  \<^item> \<open>PediaState\<close>, \<open>Pedia\<close>, \<open>PediaInv\<close>, \<open>PediaProps\<close>: \<open>agentpedia/replay.go\<close>. Entries are records in a
    store, the maps of the code hold their indices; a step is a relation where the code ranges over a
    map whose order matters, and the order is an argument of the executable versions; a panic is
    \<open>None\<close>. Shown: no panic, rulings only by a quorum of arbiters, the freeze, limits, decisions.
  \<^item> \<open>PediaSync\<close>, \<open>PediaSyncProps\<close>, \<open>PediaPull\<close>: the stream, the rebuild and the sweep of \<open>l2.go\<close>. The
    service is an argument with one answer per request (locales \<open>commuting_fold\<close>, \<open>editor_blind\<close>).
    Shown: the stream grows only by new confirmed pins, what known pins hide, order of arrival.
  \<^item> \<open>PediaFeed\<close>, \<open>PediaFeedProps\<close>: the pins feed and the entry list of \<open>l2.go\<close> with their cursors.
  \<^item> \<open>Store\<close>: the prefix scans and batches of \<open>pebble.go\<close> over one database, whose four operations are an
    argument with the documented laws \<open>kv_laws\<close> (locale \<open>ordered_store\<close>, interpreted on a database in memory).
  \<^item> \<open>Engine\<close>, \<open>EngineProps\<close>: block scans, persisted heights and mempool filters of \<open>engine.go\<close>, routing
    to the aggregators. Shown: blocks are routed once, a failed block is lost, a mempool key passes once.
  \<^item> \<open>Cache\<close>: \<open>cache.go\<close>, a map in front of the store (locale \<open>cache_levels\<close>, laws \<open>lru_laws\<close> of the LRU).
  \<^item> \<open>Social\<close>, \<open>SocialProps\<close>: follow edges with their indices, follow and revoke pins, relationship and
    paged lists. Shown: the store refines a set of edges, pages follow one another newest first
    (locale \<open>edge_index\<close> with an interpretation for each of the two indices).

  Correspondence. A Go struct is a record with prefixed fields, a Go map an association list with
  distinct keys, a pointer that may be nil an option, a shared object an index into the one list
  that stores the objects, a string its list of bytes, an int64 an int with \<open>wrap64\<close> written out
  where the code can leave the range. Errors are values: \<open>Inl\<close> of an error type or \<open>None\<close>. Where the code
  ranges over a map, it either sorts or counts, so that the order is immaterial, or the order is an
  argument or a choice of a relation; the exception is the work list of \<open>remove_node\<close>, which takes
  the children of a node in the order of the model's list (see \<open>children_in\<close>).

  Bounds. \<open>finalVerified\<close> recurses with a fuel; \<open>final_fuel\<close> exceeds the number of nodes, and the theorem
  \<open>final_nodes_correct\<close> shows that it is enough on every tree. \<open>parse_value\<close> recurses with a fuel of twice
  the length of the input; every call consumes fuel at most twice per byte, and canonical text and
  written structs are shown to be read within it. The work list of \<open>remove_node\<close> has no bound in the
  code: it is a partial function, whose \<open>None\<close> is a run that never returns. The limits of 400 pages of a
  walk and of 50 pages of a sweep are the code's. All other loops are structural or have a proved measure.

  Not modelled. Chain adapters and the libraries below them, the other aggregators, HTTP, sockets,
  federation, configuration and the commands; goroutines, tickers and locks: every operation is
  atomic. Opening and closing databases and a failing store: reads and writes succeed, but
  deletions do nothing on an unopened namespace of the cache. Within the modelled files: the texts of
  diagnostics, the \<open>float64\<close> branch of canonical JSON (decoded bodies hold number literals), the formatted
  time stamp of the report, \<open>l2.go\<close>'s details of one entry or editor, the
  HTTP wrappers. Of two members with the same name in a response the last one counts. SHA-256 is
  defined in full but used through its name in the theorems; none rests on its being free of collisions.
\<close>

end
